(* ===== verification/Go_Prelude.thy ===== *)
theory Go_Prelude
  imports Main "HOL-Library.Word" "HOL-Library.Sublist"
begin

text \<open>
  What the components share: the machine types, the outcome of a Go function, slice
  indexing, and the bit-level view of byte slices. A byte slice is a list of \<open>8 word\<close>;
  \<open>bits\<close> reads it as the string of its bits, most significant bit first, and \<open>pack\<close>
  is the inverse view: the least byte slice that holds a given bit string, its last byte
  filled with zeros.
\<close>

unbundle bit_operations_syntax

section \<open>Types and outcomes\<close>

type_synonym u8 = "8 word"
type_synonym u16 = "16 word"
type_synonym u32 = "32 word"
type_synonym u64 = "64 word"

text \<open>
  A Go function ends with a value and a nil error, with an error, or with a run-time panic
  (here always an index out of range).
\<close>

datatype ('e, 'a) res = Ok 'a | Err 'e | Panic

fun rbind :: "('e, 'a) res \<Rightarrow> ('a \<Rightarrow> ('e, 'b) res) \<Rightarrow> ('e, 'b) res" where
  "rbind (Ok x) f = f x"
| "rbind (Err e) f = Err e"
| "rbind Panic f = Panic"

lemma rbind_eq_Ok: "rbind r f = Ok y \<longleftrightarrow> (\<exists>x. r = Ok x \<and> f x = Ok y)"
  by (cases r) auto

lemma rbind_assoc: "rbind (rbind r f) g = rbind r (\<lambda>x. rbind (f x) g)"
  by (cases r) auto

text \<open>
  A Go function with a loop that need not end: \<open>None\<close> when it does not return.
  \<open>run_bind\<close> is sequencing; it passes a panic, an error and non-termination on.
\<close>

type_synonym ('e, 'a) run = "('e, 'a) res option"

definition run_bind :: "('e, 'a) run \<Rightarrow> ('a \<Rightarrow> ('e, 'b) run) \<Rightarrow> ('e, 'b) run" where
  "run_bind m f = Option.bind m (\<lambda>r. case r of Ok x \<Rightarrow> f x | Err e \<Rightarrow> Some (Err e) | Panic \<Rightarrow> Some Panic)"

lemma run_bind_simps [simp]:
  "run_bind (Some (Ok x)) f = f x"
  "run_bind (Some (Err e)) f = Some (Err e)"
  "run_bind (Some Panic) f = Some Panic"
  "run_bind None f = None"
  by (simp_all add: run_bind_def)

lemma run_bind_eq_Ok:
  "run_bind m f = Some (Ok y) \<longleftrightarrow> (\<exists>x. m = Some (Ok x) \<and> f x = Some (Ok y))"
proof (cases m)
  case (Some r)
  then show ?thesis by (cases r) simp_all
qed simp

lemma run_bind_return [simp]: "run_bind m (\<lambda>x. Some (Ok x)) = m"
proof (cases m)
  case (Some r)
  then show ?thesis by (cases r) simp_all
qed simp

lemma run_bind_assoc: "run_bind (run_bind m f) g = run_bind m (\<lambda>x. run_bind (f x) g)"
proof (cases m)
  case (Some r)
  then show ?thesis by (cases r) simp_all
qed simp

lemma run_bind_mono [partial_function_mono]:
  assumes "mono_option B" "\<And>y. mono_option (\<lambda>f. C y f)"
  shows "mono_option (\<lambda>f. run_bind (B f) (\<lambda>y. C y f))"
proof -
  have "mono_option (\<lambda>f. case r of Ok x \<Rightarrow> C x f | Err e \<Rightarrow> Some (Err e) | Panic \<Rightarrow> Some Panic)" for r
    using assms(2) by (cases r) (auto intro: option.const_mono)
  with assms(1) show ?thesis unfolding run_bind_def by (rule bind_mono)
qed

text \<open>Reading a slice: an index below 0 or at or above the length panics.\<close>

definition index_at :: "'a list \<Rightarrow> int \<Rightarrow> ('e, 'a) res" where
  "index_at xs i = (if 0 \<le> i \<and> i < int (length xs) then Ok (xs ! nat i) else Panic)"

lemma index_at_Ok [simp]: "i < length xs \<Longrightarrow> index_at xs (int i) = Ok (xs ! i)"
  by (simp add: index_at_def)

definition set_at :: "'a list \<Rightarrow> int \<Rightarrow> 'a \<Rightarrow> ('e, 'a list) res" where
  "set_at xs i x = (if 0 \<le> i \<and> i < int (length xs) then Ok (xs[nat i := x]) else Panic)"

lemma set_at_Ok [simp]: "i < length xs \<Longrightarrow> set_at xs (int i) x = Ok (xs[i := x])"
  by (simp add: set_at_def)

section \<open>Words as bit strings\<close>

text \<open>The \<open>n\<close> lowest bits of a word, most significant first.\<close>

definition word_bits :: "nat \<Rightarrow> 'a::len word \<Rightarrow> bool list" where
  "word_bits n w = map (\<lambda>i. bit w (n - 1 - i)) [0..<n]"

lemma length_word_bits [simp]: "length (word_bits n w) = n"
  by (simp add: word_bits_def)

lemma nth_word_bits [simp]: "i < n \<Longrightarrow> word_bits n w ! i = bit w (n - 1 - i)"
  by (simp add: word_bits_def)

lemma word_bits_0 [simp]: "word_bits 0 w = []"
  by (simp add: word_bits_def)

lemma word_bits_Suc: "word_bits (Suc n) w = bit w n # word_bits n w"
  by (rule nth_equalityI) (auto simp: nth_Cons split: nat.splits)

lemma word_bits_8_inject: "word_bits 8 v = word_bits 8 w \<Longrightarrow> v = w" for v w :: u8
proof (rule bit_word_eqI)
  fix n assume eq: "word_bits 8 v = word_bits 8 w" and n: "n < LENGTH(8)"
  then have "word_bits 8 v ! (7 - n) = word_bits 8 w ! (7 - n)" by simp
  with n show "bit v n = bit w n" by simp
qed

definition bits :: "u8 list \<Rightarrow> bool list" where
  "bits bs = concat (map (word_bits 8) bs)"

lemma bits_Nil [simp]: "bits [] = []"
  by (simp add: bits_def)

lemma bits_Cons [simp]: "bits (b # bs) = word_bits 8 b @ bits bs"
  by (simp add: bits_def)

lemma bits_append [simp]: "bits (xs @ ys) = bits xs @ bits ys"
  by (simp add: bits_def)

lemma length_bits [simp]: "length (bits bs) = 8 * length bs"
  by (induction bs) auto

lemma nth_bits: "i < 8 * length bs \<Longrightarrow> bits bs ! i = bit (bs ! (i div 8)) (7 - i mod 8)"
proof (induction bs arbitrary: i)
  case (Cons b bs)
  show ?case
  proof (cases "i < 8")
    case False
    with Cons.IH [of "i - 8"] Cons.prems
    have "bits bs ! (i - 8) = bit (bs ! ((i - 8) div 8)) (7 - (i - 8) mod 8)" by simp
    moreover from False have "i div 8 = Suc ((i - 8) div 8)" "(i - 8) mod 8 = i mod 8"
      by (simp_all add: le_div_geq mod_if)
    ultimately show ?thesis using False by (simp add: nth_append)
  qed (simp add: nth_append)
qed simp

lemma bits_inject: "bits xs = bits ys \<Longrightarrow> xs = ys"
proof (induction xs arbitrary: ys)
  case Nil
  then show ?case by (cases ys) (auto dest: arg_cong [where f = length])
next
  case (Cons x xs)
  from Cons.prems obtain y ys' where ys: "ys = y # ys'"
    by (cases ys) (auto dest: arg_cong [where f = length])
  with Cons.prems have "word_bits 8 x = word_bits 8 y" "bits xs = bits ys'" by simp_all
  with ys Cons.IH show ?case by (simp add: word_bits_8_inject)
qed

section \<open>Packing a bit string into bytes\<close>

text \<open>\<open>pad8\<close> fills a bit string with zeros up to the next byte boundary.\<close>

definition pad8 :: "bool list \<Rightarrow> bool list" where
  "pad8 bs = bs @ replicate ((8 - length bs mod 8) mod 8) False"

definition byte_of :: "bool list \<Rightarrow> u8" where
  "byte_of bs = horner_sum of_bool 2 (map (\<lambda>n. 7 - n < length bs \<and> bs ! (7 - n)) [0..<8])"

definition pack :: "bool list \<Rightarrow> u8 list" where
  "pack bs = map (\<lambda>i. byte_of (drop (8 * i) bs)) [0..<(length bs + 7) div 8]"

lemma bit_byte_of: "n < 8 \<Longrightarrow> bit (byte_of bs) n \<longleftrightarrow> 7 - n < length bs \<and> bs ! (7 - n)"
  by (simp add: byte_of_def bit_horner_sum_bit_word_iff del: upt_conv_Cons_Cons upt_rec_numeral)

lemma ceil_div8: "(n + 7) div 8 = n div 8 + (if n mod 8 = 0 then 0 else 1)" for n :: nat
proof -
  define q r where "q = n div 8" and "r = n mod 8"
  then have n: "n = r + q * 8" and r: "r < 8" by simp_all
  have "(n + 7) div 8 = (r + 7 + q * 8) div 8" by (simp only: n ac_simps)
  also have "\<dots> = q + (r + 7) div 8" by (rule div_mult_self1) simp
  also have "(r + 7) div 8 = (if r = 0 then 0 else 1)"
    using r by (auto intro!: div_nat_eqI)
  finally show ?thesis by (simp add: q_def r_def)
qed

lemma length_pad8: "length (pad8 bs) = 8 * ((length bs + 7) div 8)"
proof -
  define q r where "q = length bs div 8" and "r = length bs mod 8"
  then have len: "length bs = 8 * q + r" and "r < 8" by simp_all
  then have "length bs + (8 - r) mod 8 = 8 * (q + (if r = 0 then 0 else 1))"
    by (cases "r = 0") simp_all
  then have "length bs + (8 - length bs mod 8) mod 8 = 8 * ((length bs + 7) div 8)"
    by (simp only: ceil_div8 q_def r_def)
  then show ?thesis by (simp add: pad8_def)
qed

lemma length_pack [simp]: "length (pack bs) = (length bs + 7) div 8"
  by (simp add: pack_def)

lemma pack_Nil [simp]: "pack [] = []"
  by (simp add: pack_def)

lemma bit_pack:
  assumes "i < (length bs + 7) div 8" "j < 8"
  shows "bit (pack bs ! i) (7 - j) \<longleftrightarrow> 8 * i + j < length bs \<and> bs ! (8 * i + j)"
  using assms by (auto simp: pack_def bit_byte_of)

lemma bits_pack: "bits (pack bs) = pad8 bs"
proof (rule nth_equalityI)
  show len: "length (bits (pack bs)) = length (pad8 bs)" by (simp add: length_pad8)
  fix i assume i: "i < length (bits (pack bs))"
  then have "bits (pack bs) ! i \<longleftrightarrow> 8 * (i div 8) + i mod 8 < length bs \<and> bs ! (8 * (i div 8) + i mod 8)"
    by (simp add: nth_bits bit_pack less_mult_imp_div_less mult.commute)
  moreover from i len have "i < length (pad8 bs)" by simp
  ultimately show "bits (pack bs) ! i = pad8 bs ! i"
    by (auto simp: pad8_def nth_append)
qed

lemma pack_bits [simp]: "pack (bits bs) = bs"
  by (rule bits_inject) (simp add: bits_pack pad8_def)

lemma pack_eqI: "bits xs = pad8 bs \<Longrightarrow> xs = pack bs"
  by (rule bits_inject) (simp add: bits_pack)

lemma pad8_aligned: "length bs mod 8 = 0 \<Longrightarrow> pad8 bs = bs"
  by (simp add: pad8_def)

lemma length_pad8_mod [simp]: "length (pad8 bs) mod 8 = 0"
  by (simp add: length_pad8)

lemma pack_append_aligned: "length xs mod 8 = 0 \<Longrightarrow> pack (xs @ ys) = pack xs @ pack ys"
  by (rule pack_eqI [symmetric])
    (simp add: bits_pack pad8_def mod_add_left_eq [symmetric])

lemma pack_pad8 [simp]: "pack (pad8 bs) = pack bs"
  by (rule pack_eqI [symmetric]) (simp add: bits_pack pad8_aligned)

lemma pack_append_pad8: "pack xs @ pack ys = pack (pad8 xs @ ys)"
  by (simp add: pack_append_aligned)

section \<open>Lists\<close>

lemma drop_append_length [simp]: "drop (length xs) (xs @ ys) = ys"
  by simp

lemma takeWhile_replicate_append:
  "\<not> P y \<Longrightarrow> P x \<Longrightarrow> takeWhile P (replicate n x @ y # ys) = replicate n x"
  by (induction n) auto

end
