(* ===== verification/Bit_Readers.thy ===== *)
theory Bit_Readers
  imports Go_Prelude
begin

text \<open>
  The bit readers of JBIG2 (\<open>pdf/internal/jbig2/reader\<close>): \<open>Reader\<close> over a byte slice and
  \<open>SubstreamReader\<close> over a window of a reader. Both have the same methods for bits, written twice in the code, over
  their own \<open>readBufferByte\<close>; here they are written once, with that method as an argument, over a record
  with the source of the bytes, the cache and the number of its unread bits. An operation returns a value or an error,
  and the reader that it leaves.
\<close>

section \<open>Reading bits\<close>

datatype reader_error = EOF | InvalidWhence | NegativePosition

type_synonym 's byte_reader = "'s \<Rightarrow> (reader_error + u8) \<times> 's"

record 's bit_reader =
  source :: 's
  cache :: u8
  unread_bits :: nat
  mark :: int
  markBits :: nat

text \<open>The mask \<open>1<<n - 1\<close> of a byte.\<close>

definition low_bits :: "nat \<Rightarrow> u8 \<Rightarrow> u8" where
  "low_bits n c = c AND (push_bit n 1 - 1)"

fun whole_bytes :: "'s byte_reader \<Rightarrow> nat \<Rightarrow> u64 \<Rightarrow> 's \<Rightarrow> (reader_error + u64 \<times> nat) \<times> 's" where
  "whole_bytes readBufferByte n u s =
    (if n \<ge> 8 then
       (case readBufferByte s of
          (Inl err, s) \<Rightarrow> (Inl err, s)
        | (Inr b, s) \<Rightarrow> whole_bytes readBufferByte (n - 8) (push_bit 8 u + ucast b) s)
     else (Inr (u, n), s))"

declare whole_bytes.simps [simp del]

definition ReadBits :: "'s byte_reader \<Rightarrow> nat \<Rightarrow> 's bit_reader \<Rightarrow> (reader_error + u64) \<times> 's bit_reader" where
  "ReadBits readBufferByte n r =
    (if n < unread_bits r then
       let shift = unread_bits r - n
       in (Inr (ucast (drop_bit shift (cache r))), r\<lparr>cache := low_bits shift (cache r), unread_bits := shift\<rparr>)
     else if n > unread_bits r then
       let (u, n) = (if unread_bits r > 0 then (ucast (cache r), n - unread_bits r) else (0, n))
       in case whole_bytes readBufferByte n u (source r) of
            (Inl err, s) \<Rightarrow> (Inl err, r\<lparr>source := s\<rparr>)
          | (Inr (u, n), s) \<Rightarrow>
              if n > 0 then
                (case readBufferByte s of
                   (Inl err, s) \<Rightarrow> (Inl err, r\<lparr>source := s, cache := 0\<rparr>)
                 | (Inr c, s) \<Rightarrow>
                    let shift = 8 - n
                    in (Inr (push_bit n u + ucast (drop_bit shift c)),
                        r\<lparr>source := s, cache := low_bits shift c, unread_bits := shift\<rparr>))
              else (Inr u, r\<lparr>source := s, unread_bits := 0\<rparr>)
     else (Inr (ucast (cache r)), r\<lparr>unread_bits := 0\<rparr>))"

definition readUnalignedByte :: "'s byte_reader \<Rightarrow> 's bit_reader \<Rightarrow> (reader_error + u8) \<times> 's bit_reader" where
  "readUnalignedByte readBufferByte r =
    (let n = unread_bits r; b = push_bit (8 - n) (cache r)
     in case readBufferByte (source r) of
          (Inl err, s) \<Rightarrow> (Inl err, r\<lparr>source := s, cache := 0\<rparr>)
        | (Inr c, s) \<Rightarrow> (Inr (b OR drop_bit n c), r\<lparr>source := s, cache := low_bits n c\<rparr>))"

definition ReadByte :: "'s byte_reader \<Rightarrow> 's bit_reader \<Rightarrow> (reader_error + u8) \<times> 's bit_reader" where
  "ReadByte readBufferByte r =
    (if unread_bits r = 0 then
       (case readBufferByte (source r) of (b, s) \<Rightarrow> (b, r\<lparr>source := s\<rparr>))
     else readUnalignedByte readBufferByte r)"

definition readBool :: "'s byte_reader \<Rightarrow> 's bit_reader \<Rightarrow> (reader_error + bool) \<times> 's bit_reader" where
  "readBool readBufferByte r =
    (if unread_bits r = 0 then
       (case readBufferByte (source r) of
          (Inl err, s) \<Rightarrow> (Inl err, r\<lparr>source := s, cache := 0\<rparr>)
        | (Inr c, s) \<Rightarrow> (Inr (c AND 0x80 \<noteq> 0), r\<lparr>source := s, cache := c AND 0x7f, unread_bits := 7\<rparr>))
     else
       let n = unread_bits r - 1
       in (Inr (cache r AND push_bit n 1 \<noteq> 0), r\<lparr>cache := low_bits n (cache r), unread_bits := n\<rparr>))"

definition ReadBit :: "'s byte_reader \<Rightarrow> 's bit_reader \<Rightarrow> (reader_error + int) \<times> 's bit_reader" where
  "ReadBit readBufferByte r =
    (case readBool readBufferByte r of (b, r) \<Rightarrow> (map_sum id of_bool b, r))"

definition Align :: "'s bit_reader \<Rightarrow> nat \<times> 's bit_reader" where
  "Align r = (unread_bits r, r\<lparr>unread_bits := 0\<rparr>)"

definition ConsumeRemainingBits :: "'s byte_reader \<Rightarrow> 's bit_reader \<Rightarrow> 's bit_reader" where
  "ConsumeRemainingBits readBufferByte r =
    (if unread_bits r \<noteq> 0 then snd (ReadBits readBufferByte (unread_bits r) r) else r)"

section \<open>Values of bit strings\<close>

definition bits_value :: "bool list \<Rightarrow> 'a::len word" where
  "bits_value bs = horner_sum of_bool 2 (rev bs)"

lemma bits_value_Nil [simp]: "bits_value [] = 0"
  by (simp add: bits_value_def)

lemma bits_value_append: "bits_value (xs @ ys) = push_bit (length ys) (bits_value xs) + bits_value ys"
  by (simp add: bits_value_def horner_sum_append push_bit_eq_mult mult.commute add.commute)

lemma rev_word_bits: "rev (word_bits n w) = map (bit w) [0..<n]"
  by (rule nth_equalityI) (simp_all add: rev_nth)

lemma bits_value_word_bits: "bits_value (word_bits n w) = (take_bit n (ucast w) :: 'a::len word)" for w :: "'b::len word"
proof -
  have "bits_value (word_bits n w) = (horner_sum of_bool 2 (map (bit w) [0..<n]) :: 'a word)"
    by (simp add: bits_value_def rev_word_bits)
  also have "\<dots> = take_bit n (ucast w)"
    by (rule bit_word_eqI) (auto simp: bit_horner_sum_bit_word_iff bit_simps)
  finally show ?thesis .
qed

lemma bits_value_byte: "bits_value (word_bits 8 b) = (ucast b :: 'a::len word)" for b :: u8
proof -
  have "take_bit 8 (ucast b :: 'a word) = ucast b" by (rule bit_word_eqI) (auto simp: bit_simps dest: bit_imp_le_length)
  then show ?thesis by (simp add: bits_value_word_bits)
qed

lemma ucast_take_bit: "(ucast (take_bit n w) :: 'a::len word) = take_bit n (ucast w)" for w :: "'b::len word"
  by (rule bit_word_eqI) (auto simp: bit_simps)

lemmas ucast_take_bit_byte = ucast_take_bit [where 'b = 8 and 'a = 64]

lemma word_bits_append: "word_bits (m + n) w = word_bits m (drop_bit n w) @ word_bits n w" for w :: "'a::len word"
  by (rule nth_equalityI) (auto simp: nth_append bit_simps intro!: arg_cong [of _ _ "bit w"])

lemma word_bits_low_bits [simp]: "n \<le> m \<Longrightarrow> word_bits n (low_bits m c) = word_bits n c"
proof -
  assume nm: "n \<le> m"
  have "push_bit m 1 - 1 = (mask m :: u8)" by (simp add: mask_eq_exp_minus_1)
  with nm show ?thesis by (intro nth_equalityI) (auto simp: low_bits_def bit_simps dest: bit_imp_le_length)
qed

lemma word_bits_take_bit [simp]: "n \<le> m \<Longrightarrow> word_bits n (take_bit m c) = word_bits n c"
  by (rule nth_equalityI) (auto simp: bit_simps dest: bit_imp_le_length)

lemma low_bits_mask: "low_bits n c = take_bit n c"
  by (simp add: low_bits_def take_bit_eq_mask mask_eq_exp_minus_1)

lemma drop_bits: "drop (8 * k) (bits bs) = bits (drop k bs)"
  by (induction bs arbitrary: k) (auto split: nat.split simp: drop_Cons)

lemma bits_split:
  assumes "m \<le> 8 * length bs"
  shows "take m (bits bs) = take (m - m mod 8) (bits bs) @ take (m mod 8) (bits (drop (m div 8) bs))"
    and "drop m (bits bs) = drop (m mod 8) (bits (drop (m div 8) bs))"
proof -
  have m: "m = (m - m mod 8) + m mod 8" "m - m mod 8 = 8 * (m div 8)"
    by (simp_all add: minus_mod_eq_mult_div)
  show "take m (bits bs) = take (m - m mod 8) (bits bs) @ take (m mod 8) (bits (drop (m div 8) bs))"
    by (subst m(1)) (simp only: take_add m(2) drop_bits)
  show "drop m (bits bs) = drop (m mod 8) (bits (drop (m div 8) bs))"
    by (subst m(1)) (simp only: m(2) drop_drop [symmetric] add.commute [of "8 * (m div 8)"] drop_bits)
qed

section \<open>The contract of a source of bytes\<close>

text \<open>A reader stands for the list of the bits that are left in it.\<close>

definition cached :: "'s bit_reader \<Rightarrow> bool list" where
  "cached r = word_bits (unread_bits r) (cache r)"

text \<open>Only the unread bits of the cache are set, unless there are none.\<close>

definition cache_ok :: "'s bit_reader \<Rightarrow> bool" where
  "cache_ok r \<longleftrightarrow> unread_bits r < 8 \<and> (unread_bits r = 0 \<or> take_bit (unread_bits r) (cache r) = cache r)"

locale byte_source =
  fixes readBufferByte :: "'s byte_reader"
    and left :: "'s \<Rightarrow> u8 list"
    and inv :: "'s \<Rightarrow> bool"
  assumes next_byte: "inv s \<Longrightarrow> left s = b # bs \<Longrightarrow> \<exists>s'. readBufferByte s = (Inr b, s') \<and> left s' = bs \<and> inv s'"
    and at_end: "inv s \<Longrightarrow> left s = [] \<Longrightarrow> \<exists>s'. readBufferByte s = (Inl EOF, s') \<and> left s' = [] \<and> inv s'"
begin

definition unread :: "'s bit_reader \<Rightarrow> bool list" where
  "unread r = cached r @ bits (left (source r))"

definition ok :: "'s bit_reader \<Rightarrow> bool" where
  "ok r \<longleftrightarrow> cache_ok r \<and> inv (source r)"

lemma whole_bytes_spec:
  assumes "inv s" "n div 8 \<le> length (left s)"
  shows "\<exists>s'. whole_bytes readBufferByte n u s =
      (Inr (push_bit (n - n mod 8) u + bits_value (take (n - n mod 8) (bits (left s))), n mod 8), s') \<and>
    left s' = drop (n div 8) (left s) \<and> inv s'"
  using assms
proof (induction n arbitrary: u s rule: less_induct)
  case (less n)
  show ?case
  proof (cases "n < 8")
    case True
    with less.prems show ?thesis by (subst whole_bytes.simps) simp
  next
    case False
    then have "n div 8 > 0" by simp
    with less.prems(2) obtain b bs where left: "left s = b # bs" by (cases "left s") auto
    from next_byte [OF less.prems(1) left] obtain s1 where
      s1: "readBufferByte s = (Inr b, s1)" "left s1 = bs" "inv s1" by blast
    define k where "k = n - 8"
    define j where "j = k - k mod 8"
    have n: "n = k + 8" using False by (simp add: k_def)
    have "k div 8 \<le> length bs" using less.prems(2) div_add_self2 [of 8 k] unfolding left n by simp
    with less.IH [of k s1 "push_bit 8 u + ucast b"] s1 n obtain s' where
      s': "whole_bytes readBufferByte k (push_bit 8 u + ucast b) s1 =
          (Inr (push_bit j (push_bit 8 u + ucast b) + bits_value (take j (bits bs)), k mod 8), s')"
        "left s' = drop (k div 8) bs" "inv s'" unfolding j_def by auto
    have m: "n - n mod 8 = 8 + j"
      using mod_less_eq_dividend [of k 8] unfolding n j_def by simp
    have j: "j \<le> length (bits bs)"
      using \<open>k div 8 \<le> length bs\<close> unfolding j_def minus_mod_eq_mult_div by simp
    have result: "push_bit (n - n mod 8) u + bits_value (take (n - n mod 8) (bits (left s))) =
        push_bit j (push_bit 8 u + ucast b) + bits_value (take j (bits bs))"
      unfolding m left bits_Cons using j
      by (simp add: bits_value_append bits_value_byte push_bit_add push_bit_push_bit min_absorb2 add.assoc add.commute [of 8])
    have "n mod 8 = k mod 8" "n div 8 = Suc (k div 8)" by (simp_all add: n)
    with s' show ?thesis using False
      unfolding result unfolding left by (subst whole_bytes.simps) (simp add: s1(1) k_def [symmetric])
  qed
qed

lemma whole_bytes_at_end:
  assumes "inv s" "n \<ge> 8 * Suc (length (left s))"
  shows "\<exists>s'. whole_bytes readBufferByte n u s = (Inl EOF, s') \<and> left s' = [] \<and> inv s'"
  using assms
proof (induction "left s" arbitrary: n u s)
  case Nil
  then show ?case using at_end [of s] by (subst whole_bytes.simps) fastforce
next
  case (Cons b bs)
  then obtain s1 where s1: "readBufferByte s = (Inr b, s1)" "left s1 = bs" "inv s1" using next_byte [of s b bs] by metis
  from Cons(2,4) have n: "n - 8 \<ge> 8 * Suc (length (left s1))" "8 \<le> n" unfolding s1(2) Cons(2) [symmetric] by simp_all
  from Cons(1) [OF s1(2) [symmetric] s1(3) n(1), of "push_bit 8 u + ucast b"] show ?case
    by (subst whole_bytes.simps) (simp add: n s1)
qed

lemma unread_source [simp]: "unread_bits r = 0 \<Longrightarrow> unread r = bits (left (source r))"
  by (simp add: unread_def cached_def)

lemma ReadBits_spec:
  assumes ok: "ok r" and n: "0 < n" "n \<le> length (unread r)"
  shows "\<exists>r'. ReadBits readBufferByte n r = (Inr (bits_value (take n (unread r))), r') \<and>
    unread r' = drop n (unread r) \<and> ok r'"
proof -
  let ?k = "unread_bits r" and ?c = "cache r"
  have len: "length (cached r) = ?k" by (simp add: cached_def)
  have k: "?k < 8" and c: "?k = 0 \<or> take_bit ?k ?c = ?c" using ok by (auto simp: ok_def cache_ok_def)
  have whole: "?k \<noteq> 0 \<Longrightarrow> bits_value (cached r) = (ucast ?c :: u64)"
    using c by (simp add: cached_def bits_value_word_bits flip: ucast_take_bit_byte)
  consider "n < ?k" | "n = ?k" | "n > ?k" by linarith
  then show ?thesis
  proof cases
    case 1
    have split: "word_bits ?k ?c = word_bits n (drop_bit (?k - n) ?c) @ word_bits (?k - n) ?c"
      using word_bits_append [of n "?k - n" ?c] 1 by simp
    have "take_bit n (drop_bit (?k - n) ?c) = drop_bit (?k - n) ?c"
      using c 1 take_bit_drop_bit [of n "?k - n" ?c] by simp
    then have "bits_value (word_bits n (drop_bit (?k - n) ?c)) = (ucast (drop_bit (?k - n) ?c) :: u64)"
      by (simp add: bits_value_word_bits flip: ucast_take_bit_byte)
    with 1 ok k show ?thesis
      by (simp add: ReadBits_def unread_def ok_def cache_ok_def cached_def low_bits_mask split Let_def)
  next
    case 2
    then show ?thesis using ok whole n(1)
      by (simp add: ReadBits_def unread_def ok_def cache_ok_def cached_def len)
  next
    case 3
    define m where "m = n - ?k"
    define L where "L = left (source r)"
    define u where "u = (if ?k > 0 then ucast ?c else 0 :: u64)"
    have u: "u = bits_value (cached r)" using whole by (auto simp: u_def cached_def)
    have m: "m \<le> 8 * length L" and n_m: "n = ?k + m" using n(2) 3 by (simp_all add: m_def L_def unread_def len)
    have inv: "inv (source r)" using ok by (simp add: ok_def)
    have "m div 8 \<le> length L" using div_le_mono [OF m, of 8] by simp
    from whole_bytes_spec [OF inv, of m u] this obtain s where
      s: "whole_bytes readBufferByte m u (source r) =
          (Inr (push_bit (m - m mod 8) u + bits_value (take (m - m mod 8) (bits L)), m mod 8), s)"
        "left s = drop (m div 8) L" "inv s" by (auto simp: L_def)
    have parts: "take n (unread r) = cached r @ take (m - m mod 8) (bits L) @ take (m mod 8) (bits (left s))"
      "drop n (unread r) = drop (m mod 8) (bits (left s))"
      using bits_split [OF m] by (simp_all add: unread_def len n_m s(2) flip: L_def)
    have value1: "push_bit (m - m mod 8) u + bits_value (take (m - m mod 8) (bits L)) =
        bits_value (cached r @ take (m - m mod 8) (bits L))"
      using m by (simp add: u bits_value_append min_absorb2)
    have start: "ReadBits readBufferByte n r = (case whole_bytes readBufferByte m u (source r) of
            (Inl err, s) \<Rightarrow> (Inl err, r\<lparr>source := s\<rparr>)
          | (Inr (u, n), s) \<Rightarrow>
              if n > 0 then
                (case readBufferByte s of
                   (Inl err, s) \<Rightarrow> (Inl err, r\<lparr>source := s, cache := 0\<rparr>)
                 | (Inr c, s) \<Rightarrow>
                    let shift = 8 - n
                    in (Inr (push_bit n u + ucast (drop_bit shift c)),
                        r\<lparr>source := s, cache := low_bits shift c, unread_bits := shift\<rparr>))
              else (Inr u, r\<lparr>source := s, unread_bits := 0\<rparr>))"
      using 3 by (simp add: ReadBits_def m_def u_def)
    show ?thesis
    proof (cases "m mod 8 = 0")
      case True
      with s(3) show ?thesis
        unfolding start s(1) parts value1 by (simp add: ok_def cache_ok_def)
    next
      case False
      then have "m div 8 < length L" using m div_mult_mod_eq [of m 8] by linarith
      then have "left s \<noteq> []" by (simp add: s(2))
      then obtain c cs where left: "left s = c # cs" by (cases "left s") auto
      from next_byte [OF s(3) left] obtain s' where
        s': "readBufferByte s = (Inr c, s')" "left s' = cs" "inv s'" by blast
      let ?j = "m mod 8"
      have j: "?j < 8" by simp
      have c_bits: "word_bits 8 c = word_bits ?j (drop_bit (8 - ?j) c) @ word_bits (8 - ?j) c"
        using word_bits_append [of ?j "8 - ?j" c] j by (simp del: mod_less_divisor)
      have last: "take ?j (bits (left s)) = word_bits ?j (drop_bit (8 - ?j) c)"
        "drop ?j (bits (left s)) = word_bits (8 - ?j) c @ bits cs"
        unfolding left bits_Cons c_bits by simp_all
      have "take_bit ?j (drop_bit (8 - ?j) c) = drop_bit (8 - ?j) c"
        by (rule bit_word_eqI) (use j in \<open>auto simp: bit_simps dest: bit_imp_le_length\<close>)
      then have "bits_value (word_bits ?j (drop_bit (8 - ?j) c)) = (ucast (drop_bit (8 - ?j) c) :: u64)"
        by (simp add: bits_value_word_bits flip: ucast_take_bit_byte)
      then have value2: "push_bit ?j (bits_value (cached r @ take (m - ?j) (bits L))) + ucast (drop_bit (8 - ?j) c) =
          (bits_value (cached r @ take (m - ?j) (bits L) @ word_bits ?j (drop_bit (8 - ?j) c)) :: u64)"
        using bits_value_append [where 'a = 64, of "cached r @ take (m - ?j) (bits L)" "word_bits ?j (drop_bit (8 - ?j) c)"] by simp
      have after: "ReadBits readBufferByte n r =
          (Inr (bits_value (cached r @ take (m - ?j) (bits L) @ word_bits ?j (drop_bit (8 - ?j) c))),
           r\<lparr>source := s', cache := low_bits (8 - ?j) c, unread_bits := 8 - ?j\<rparr>)"
        using False unfolding start s(1) value1 by (simp add: s' value2 Let_def)
      show ?thesis
        unfolding after parts last using False j s'
        by (simp add: ok_def cache_ok_def cached_def unread_def low_bits_mask)
    qed
  qed
qed

lemma ReadBits_at_end:
  assumes ok: "ok r" and n: "length (unread r) < n"
  shows "fst (ReadBits readBufferByte n r) = Inl EOF"
proof -
  let ?k = "unread_bits r" and ?L = "left (source r)"
  define m where "m = n - ?k"
  have m: "8 * length ?L < m" "?k < n" using n by (simp_all add: m_def unread_def cached_def)
  have inv: "inv (source r)" using ok by (simp add: ok_def)
  define u where "u = (if ?k > 0 then ucast (cache r) else 0 :: u64)"
  have start: "fst (ReadBits readBufferByte n r) = (case whole_bytes readBufferByte m u (source r) of
          (Inl err, s) \<Rightarrow> Inl err
        | (Inr (u, n), s) \<Rightarrow>
            if n > 0 then
              (case readBufferByte s of (Inl err, s) \<Rightarrow> Inl err | (Inr c, s) \<Rightarrow> Inr (push_bit n u + ucast (drop_bit (8 - n) c)))
            else Inr u)"
    using m(2) by (simp add: ReadBits_def m_def u_def Let_def split: prod.splits sum.splits)
  show ?thesis
  proof (cases "8 * Suc (length ?L) \<le> m")
    case True
    from whole_bytes_at_end [OF inv this, of u] show ?thesis unfolding start by auto
  next
    case False
    with m(1) have parts: "m mod 8 > 0" "m div 8 = length ?L" by presburger+
    from whole_bytes_spec [OF inv, of m u] parts obtain u' s where
      s: "whole_bytes readBufferByte m u (source r) = (Inr (u', m mod 8), s)" "left s = []" "inv s" by auto
    from at_end [OF s(3,2)] parts(1) show ?thesis unfolding start s(1) by auto
  qed
qed

lemma readUnalignedByte_spec:
  assumes ok: "ok r" and n: "8 \<le> length (unread r)"
  shows "\<exists>r'. readUnalignedByte readBufferByte r = (Inr (bits_value (take 8 (unread r))), r') \<and>
    unread r' = drop 8 (unread r) \<and> ok r'"
proof -
  let ?k = "unread_bits r" and ?c = "cache r"
  have k: "?k < 8" and inv: "inv (source r)" using ok by (auto simp: ok_def cache_ok_def)
  with n obtain b bs where left: "left (source r) = b # bs"
    by (cases "left (source r)") (auto simp: unread_def cached_def)
  from next_byte [OF inv left] obtain s' where
    s': "readBufferByte (source r) = (Inr b, s')" "left s' = bs" "inv s'" by blast
  have split: "word_bits 8 b = word_bits (8 - ?k) (drop_bit ?k b) @ word_bits ?k b"
    using word_bits_append [of "8 - ?k" ?k b] k by simp
  have parts: "take 8 (unread r) = word_bits ?k ?c @ word_bits (8 - ?k) (drop_bit ?k b)"
    "drop 8 (unread r) = word_bits ?k b @ bits bs"
    using k by (simp_all add: unread_def cached_def left split)
  have "bits_value (word_bits ?k ?c @ word_bits (8 - ?k) (drop_bit ?k b)) = push_bit (8 - ?k) ?c OR drop_bit ?k b"
    by (rule bit_word_eqI)
       (use k in \<open>auto simp: bits_value_def bit_horner_sum_bit_word_iff rev_nth nth_append bit_simps add.commute dest: bit_imp_le_length\<close>)
  with s' k show ?thesis unfolding parts
    by (simp add: readUnalignedByte_def ok_def cache_ok_def cached_def unread_def low_bits_mask Let_def)
qed

lemma ReadByte_spec:
  assumes ok: "ok r" and n: "8 \<le> length (unread r)"
  shows "\<exists>r'. ReadByte readBufferByte r = (Inr (bits_value (take 8 (unread r))), r') \<and>
    unread r' = drop 8 (unread r) \<and> ok r'"
proof (cases "unread_bits r = 0")
  case False
  then show ?thesis using readUnalignedByte_spec [OF assms] by (simp add: ReadByte_def)
next
  case True
  have inv: "inv (source r)" using ok by (auto simp: ok_def)
  from n True obtain b bs where left: "left (source r) = b # bs" by (cases "left (source r)") auto
  from next_byte [OF inv left] True show ?thesis
    by (auto simp: ReadByte_def left bits_value_byte ok_def cache_ok_def)
qed

lemma ReadByte_at_end: "ok r \<Longrightarrow> length (unread r) < 8 \<Longrightarrow> fst (ReadByte readBufferByte r) = Inl EOF"
proof -
  assume ok: "ok r" and n: "length (unread r) < 8"
  then have "inv (source r)" "left (source r) = []" by (cases "left (source r)"; auto simp: ok_def unread_def)+
  from at_end [OF this] show ?thesis by (auto simp: ReadByte_def readUnalignedByte_def)
qed

lemma readBool_spec:
  assumes ok: "ok r" and n: "unread r = b # bs"
  shows "\<exists>r'. readBool readBufferByte r = (Inr b, r') \<and> unread r' = bs \<and> ok r'"
proof (cases "unread_bits r")
  case (Suc k)
  with n have "b = bit (cache r) k" "bs = word_bits k (cache r) @ bits (left (source r))"
    by (simp_all add: unread_def cached_def word_bits_Suc)
  with Suc ok show ?thesis
    by (auto simp: readBool_def unread_def cached_def ok_def cache_ok_def low_bits_mask and_exp_eq_0_iff_not_bit
      push_bit_eq_mult)
next
  case 0
  with n obtain c cs where left: "left (source r) = c # cs" by (cases "left (source r)") auto
  have inv: "inv (source r)" using ok by (auto simp: ok_def)
  with 0 n word_bits_Suc [of 7 c] have b: "b = bit c 7" "bs = word_bits 7 c @ bits cs" by (simp_all add: left)
  have c: "c AND 0x7f = take_bit 7 c" "(c AND 0x80 \<noteq> 0) = bit c 7"
    using and_exp_eq_0_iff_not_bit [of c 7] by (simp_all add: take_bit_eq_mask mask_eq_exp_minus_1)
  from next_byte [OF inv left] 0 b c show ?thesis
    by (auto simp: readBool_def unread_def cached_def ok_def cache_ok_def)
qed

lemma readBool_at_end: "ok r \<Longrightarrow> unread r = [] \<Longrightarrow> fst (readBool readBufferByte r) = Inl EOF"
proof -
  assume ok: "ok r" and n: "unread r = []"
  then have "inv (source r)" "left (source r) = []" "unread_bits r = 0"
    by (auto simp: ok_def unread_def cached_def word_bits_def bits_def dest: arg_cong [of _ _ length])
  with at_end [of "source r"] show ?thesis by (auto simp: readBool_def)
qed

end

end
