(* ===== verification/Bit_Streams.thy ===== *)
theory Bit_Streams
  imports Bit_Readers
begin

text \<open>
  The two stream readers of JBIG2: \<open>Reader\<close> (\<open>reader.go\<close>) over a byte slice and \<open>SubstreamReader\<close>
  (\<open>substream.go\<close>) over a window of another reader, with a buffer. What a window needs of the reader that it wraps
  is the record \<open>stream_ops\<close> (the methods of the interface \<open>StreamReader\<close> that it calls) with the laws of the
  locale \<open>stream_reader\<close>; windows satisfy them too, so windows can be nested. Positions are integers, and the
  conversions between \<open>int64\<close> and \<open>uint64\<close> are written out.
\<close>

definition to_int64 :: "int \<Rightarrow> int" where
  "to_int64 i = sint (word_of_int i :: u64)"

definition to_uint64 :: "int \<Rightarrow> int" where
  "to_uint64 i = uint (word_of_int i :: u64)"

lemma to_int64_id [simp]: "0 \<le> i \<Longrightarrow> i < 2 ^ 63 \<Longrightarrow> to_int64 i = i"
  by (simp add: to_int64_def sint_sbintrunc' signed_take_bit_int_eq_self)

lemma to_uint64_id [simp]: "0 \<le> i \<Longrightarrow> i < 2 ^ 64 \<Longrightarrow> to_uint64 i = i"
  by (simp add: to_uint64_def uint_word_of_int_eq take_bit_int_eq_self)

lemma push_bit_of_byte_8 [simp]: "push_bit 8 (c :: u8) = 0"
  by (rule bit_word_eqI) (simp add: bit_simps)

section \<open>Reader\<close>

record slice =
  inp :: "u8 list"
  pos :: int

type_synonym reader = "slice bit_reader"

definition New :: "u8 list \<Rightarrow> reader" where
  "New data = \<lparr>source = \<lparr>inp = data, pos = 0\<rparr>, cache = 0, unread_bits = 0, mark = 0, markBits = 0\<rparr>"

definition slice_byte :: "slice byte_reader" where
  "slice_byte s =
    (if pos s \<ge> int (length (inp s)) then (Inl EOF, s)
     else (Inr (inp s ! nat (pos s)), s\<lparr>pos := pos s + 1\<rparr>))"

text \<open>
  \<open>Read(p)\<close> is given the length of \<open>p\<close>; it returns the bytes that it stores at the front of \<open>p\<close> and the error.
\<close>

type_synonym read_result = "u8 list \<times> reader_error option"

definition slice_read :: "nat \<Rightarrow> slice \<Rightarrow> read_result \<times> slice" where
  "slice_read n s =
    (if pos s \<ge> int (length (inp s)) then (([], Some EOF), s)
     else let data = take n (drop (nat (pos s)) (inp s))
          in ((data, None), s\<lparr>pos := pos s + int (length data)\<rparr>))"

fun read_unaligned :: "'s byte_reader \<Rightarrow> nat \<Rightarrow> 's bit_reader \<Rightarrow> read_result \<times> 's bit_reader" where
  "read_unaligned readBufferByte 0 r = (([], None), r)"
| "read_unaligned readBufferByte (Suc n) r =
    (case readUnalignedByte readBufferByte r of
       (Inl err, r) \<Rightarrow> (([], Some err), r)
     | (Inr b, r) \<Rightarrow> (case read_unaligned readBufferByte n r of ((bs, err), r) \<Rightarrow> ((b # bs, err), r)))"

definition Reader_Read :: "nat \<Rightarrow> reader \<Rightarrow> read_result \<times> reader" where
  "Reader_Read n r =
    (if unread_bits r = 0 then (case slice_read n (source r) of (res, s) \<Rightarrow> (res, r\<lparr>source := s\<rparr>))
     else read_unaligned slice_byte n r)"

definition big_endian :: "u8 list \<Rightarrow> u32" where
  "big_endian bs = foldl (\<lambda>u b. push_bit 8 u + ucast b) 0 bs"

definition ReadUnsignedInt :: "reader \<Rightarrow> (reader_error + u32) \<times> reader" where
  "ReadUnsignedInt r =
    (case Reader_Read 4 r of
       ((data, Some err), r) \<Rightarrow> (Inl err, r)
     | ((data, None), r) \<Rightarrow> (Inr (big_endian (data @ replicate (4 - length data) 0)), r))"

definition Reader_Mark :: "reader \<Rightarrow> reader" where
  "Reader_Mark r = r\<lparr>mark := pos (source r), markBits := unread_bits r\<rparr>"

definition Reader_Reset :: "reader \<Rightarrow> reader" where
  "Reader_Reset r = r\<lparr>source := (source r)\<lparr>pos := mark r\<rparr>, unread_bits := markBits r\<rparr>"

definition Reader_StreamPosition :: "reader \<Rightarrow> int" where
  "Reader_StreamPosition r = pos (source r)"

definition Reader_Length :: "reader \<Rightarrow> nat" where
  "Reader_Length r = length (inp (source r))"

definition Reader_Seek :: "int \<Rightarrow> int \<Rightarrow> reader \<Rightarrow> (reader_error + int) \<times> reader" where
  "Reader_Seek offset whence r =
    (if whence \<notin> {0, 1, 2} then (Inl InvalidWhence, r)
     else
       let abs = (if whence = 0 then offset
                  else if whence = 1 then to_int64 (pos (source r) + offset)
                  else to_int64 (int (length (inp (source r))) + offset))
       in if abs < 0 then (Inl NegativePosition, r)
          else (Inr abs, r\<lparr>source := (source r)\<lparr>pos := abs\<rparr>, unread_bits := 0\<rparr>))"

section \<open>SubstreamReader\<close>

text \<open>The methods of the wrapped reader that a window calls.\<close>

record 'w stream_ops =
  StreamPosition :: "'w \<Rightarrow> int"
  Seek :: "int \<Rightarrow> int \<Rightarrow> 'w \<Rightarrow> (reader_error + int) \<times> 'w"
  Read :: "nat \<Rightarrow> 'w \<Rightarrow> read_result \<times> 'w"

record 'w window =
  streamPos :: nat
  wrapped :: 'w
  offset :: nat
  window_length :: nat
  buffer :: "u8 list"
  bufferBase :: nat
  bufferTop :: nat

type_synonym 'w substream = "'w window bit_reader"

definition NewSubstreamReader :: "'w \<Rightarrow> nat \<Rightarrow> nat \<Rightarrow> 'w substream" where
  "NewSubstreamReader w off len =
    \<lparr>source = \<lparr>streamPos = 0, wrapped = w, offset = off, window_length = len, buffer = replicate len 0,
       bufferBase = 0, bufferTop = 0\<rparr>,
     cache = 0, unread_bits = 0, mark = 0, markBits = 0\<rparr>"

definition fillBuffer :: "'w stream_ops \<Rightarrow> 'w window \<Rightarrow> reader_error option \<times> 'w window" where
  "fillBuffer ops s =
    (let target = to_uint64 (int (streamPos s + offset s))
     in case (if to_uint64 (StreamPosition ops (wrapped s)) \<noteq> target then Seek ops (to_int64 target) 0 (wrapped s)
              else (Inr 0, wrapped s)) of
          (Inl err, w) \<Rightarrow> (Some err, s\<lparr>wrapped := w\<rparr>)
        | (Inr _, w) \<Rightarrow>
            let toRead = min (length (buffer s)) (window_length s - streamPos s)
            in case Read ops toRead w of
                 ((data, Some err), w) \<Rightarrow> (Some err, s\<lparr>wrapped := w, bufferBase := streamPos s\<rparr>)
               | ((data, None), w) \<Rightarrow>
                   (None, s\<lparr>wrapped := w,
                     buffer := data @ replicate (toRead - length data) 0 @ drop toRead (buffer s),
                     bufferBase := streamPos s,
                     bufferTop := streamPos s + length data\<rparr>))"

definition window_byte :: "'w stream_ops \<Rightarrow> 'w window byte_reader" where
  "window_byte ops s =
    (if streamPos s \<ge> window_length s then (Inl EOF, s)
     else
       case (if streamPos s \<ge> bufferTop s \<or> streamPos s < bufferBase s then fillBuffer ops s else (None, s)) of
         (Some err, s) \<Rightarrow> (Inl err, s)
       | (None, s) \<Rightarrow> (Inr (buffer s ! (streamPos s - bufferBase s)), s\<lparr>streamPos := streamPos s + 1\<rparr>))"

definition Substream_Read :: "'w stream_ops \<Rightarrow> nat \<Rightarrow> 'w substream \<Rightarrow> read_result \<times> 'w substream" where
  "Substream_Read ops n r =
    (if streamPos (source r) \<ge> window_length (source r) then (([], Some EOF), r)
     else
       (case read_unaligned (window_byte ops) n r of
          ((data, err), r) \<Rightarrow> ((data, if err = Some EOF then None else err), r)))"

definition Substream_Mark :: "'w substream \<Rightarrow> 'w substream" where
  "Substream_Mark r = r\<lparr>mark := int (streamPos (source r)), markBits := unread_bits r\<rparr>"

definition Substream_Reset :: "'w substream \<Rightarrow> 'w substream" where
  "Substream_Reset r = r\<lparr>source := (source r)\<lparr>streamPos := nat (mark r)\<rparr>, unread_bits := markBits r\<rparr>"

definition Substream_StreamPosition :: "'w substream \<Rightarrow> int" where
  "Substream_StreamPosition r = to_int64 (int (streamPos (source r)))"

definition Substream_Length :: "'w substream \<Rightarrow> nat" where
  "Substream_Length r = window_length (source r)"

definition Substream_Offset :: "'w substream \<Rightarrow> nat" where
  "Substream_Offset r = offset (source r)"

text \<open>The test \<open>s.streamPos < 0\<close> of the code is about an unsigned value, so no position is refused.\<close>

definition Substream_Seek :: "int \<Rightarrow> int \<Rightarrow> 'w substream \<Rightarrow> (reader_error + int) \<times> 'w substream" where
  "Substream_Seek off whence r =
    (if whence \<notin> {0, 1, 2} then (Inl InvalidWhence, r)
     else
       let s = source r;
           p = nat (to_uint64 (if whence = 0 then off
                               else if whence = 1 then int (streamPos s) + off
                               else int (window_length s) + off))
       in (Inr (to_int64 (int p)), r\<lparr>source := s\<lparr>streamPos := p\<rparr>, unread_bits := 0\<rparr>))"

definition reader_ops :: "reader stream_ops" where
  "reader_ops = \<lparr>StreamPosition = Reader_StreamPosition, Seek = Reader_Seek, Read = Reader_Read\<rparr>"

definition substream_ops :: "'w stream_ops \<Rightarrow> 'w substream stream_ops" where
  "substream_ops ops =
    \<lparr>StreamPosition = Substream_StreamPosition, Seek = Substream_Seek, Read = Substream_Read ops\<rparr>"

context byte_source
begin

lemma readUnalignedByte_aligned:
  assumes "ok r" "unread_bits r = 0" "left (source r) = b # bs"
  shows "\<exists>r'. readUnalignedByte readBufferByte r = (Inr b, r') \<and> left (source r') = bs \<and> unread_bits r' = 0 \<and> ok r'"
proof -
  have "inv (source r)" using assms by (simp add: ok_def)
  from next_byte [OF this assms(3)] assms(2) show ?thesis
    by (auto simp: readUnalignedByte_def ok_def cache_ok_def Let_def push_bit_of_byte_8)
qed

lemma read_unaligned_aligned:
  assumes "ok r" "unread_bits r = 0"
  shows "\<exists>r'. read_unaligned readBufferByte n r =
      ((take n (left (source r)), if length (left (source r)) < n then Some EOF else None), r') \<and>
    left (source r') = drop n (left (source r)) \<and> unread_bits r' = 0 \<and> ok r'"
  using assms
proof (induction n arbitrary: r)
  case (Suc n)
  show ?case
  proof (cases "left (source r)")
    case Nil
    then have "inv (source r)" using Suc.prems by (simp add: ok_def)
    from at_end [OF this Nil] Nil Suc.prems show ?thesis
      by (auto simp: readUnalignedByte_def ok_def cache_ok_def)
  next
    case (Cons b bs)
    from readUnalignedByte_aligned [OF Suc.prems Cons] obtain r1 where
      r1: "readUnalignedByte readBufferByte r = (Inr b, r1)" "left (source r1) = bs" "unread_bits r1 = 0" "ok r1" by blast
    from Suc.IH [OF r1(4,3)] show ?thesis by (auto simp: r1(1,2) Cons)
  qed
qed simp

end

section \<open>The reader over a slice\<close>

definition slice_left :: "slice \<Rightarrow> u8 list" where
  "slice_left s = drop (nat (pos s)) (inp s)"

interpretation slice_source: byte_source slice_byte slice_left "\<lambda>s. 0 \<le> pos s"
proof unfold_locales
  fix s :: slice and b bs
  assume "0 \<le> pos s" and left: "slice_left s = b # bs"
  moreover from left have "nat (pos s) < length (inp s)" by (metis drop_all linorder_not_le list.distinct(1) slice_left_def)
  moreover from this left have "inp s ! nat (pos s) = b" "drop (Suc (nat (pos s))) (inp s) = bs"
    by (simp_all add: slice_left_def Cons_nth_drop_Suc [symmetric])
  ultimately show "\<exists>s'. slice_byte s = (Inr b, s') \<and> slice_left s' = bs \<and> 0 \<le> pos s'"
    by (auto simp: slice_byte_def slice_left_def nat_add_distrib)
next
  fix s :: slice
  assume "0 \<le> pos s" "slice_left s = []"
  then show "\<exists>s'. slice_byte s = (Inl EOF, s') \<and> slice_left s' = [] \<and> 0 \<le> pos s'"
    by (auto simp: slice_byte_def slice_left_def)
qed

section \<open>What a window needs of a reader\<close>

locale stream_reader =
  fixes ops :: "'w stream_ops"
    and content :: "'w \<Rightarrow> u8 list"
    and inv :: "'w \<Rightarrow> bool"
  assumes position: "inv w \<Longrightarrow> 0 \<le> StreamPosition ops w \<and> StreamPosition ops w < 2 ^ 63"
    and seek: "inv w \<Longrightarrow> 0 \<le> p \<Longrightarrow> p < 2 ^ 63 \<Longrightarrow>
      \<exists>w'. Seek ops p 0 w = (Inr p, w') \<and> StreamPosition ops w' = p \<and> content w' = content w \<and> inv w'"
    and read_at_end: "inv w \<Longrightarrow> int (length (content w)) \<le> StreamPosition ops w \<Longrightarrow>
      \<exists>w'. Read ops n w = (([], Some EOF), w') \<and> content w' = content w \<and> inv w'"
    and read: "inv w \<Longrightarrow> StreamPosition ops w = int k \<Longrightarrow> k < length (content w) \<Longrightarrow>
      \<exists>w'. Read ops n w = ((take n (drop k (content w)), None), w') \<and> content w' = content w \<and> inv w'"
begin

text \<open>The bytes of a window, and the state in which its buffer agrees with them.\<close>

definition window_content :: "'w window \<Rightarrow> u8 list" where
  "window_content s = take (window_length s) (drop (offset s) (content (wrapped s)))"

definition window_left :: "'w window \<Rightarrow> u8 list" where
  "window_left s = drop (streamPos s) (window_content s)"

definition window_inv :: "'w window \<Rightarrow> bool" where
  "window_inv s \<longleftrightarrow> inv (wrapped s) \<and> length (buffer s) = window_length s \<and>
    int (offset s) + int (window_length s) < 2 ^ 63 \<and> bufferTop s \<le> length (window_content s) \<and>
    (\<forall>p. bufferBase s \<le> p \<and> p < bufferTop s \<longrightarrow> buffer s ! (p - bufferBase s) = window_content s ! p)"

lemma window_content_streamPos [simp]: "window_content (s\<lparr>streamPos := p\<rparr>) = window_content s"
  by (simp add: window_content_def)

lemma window_inv_streamPos [simp]: "window_inv (s\<lparr>streamPos := p\<rparr>) = window_inv s"
  by (simp add: window_inv_def)

lemma fillBuffer_spec:
  assumes inv: "window_inv s" and pos: "streamPos s < length (window_content s)"
  shows "\<exists>s'. fillBuffer ops s = (None, s') \<and> window_inv s' \<and> streamPos s' = streamPos s \<and>
    bufferBase s' = streamPos s \<and> streamPos s < bufferTop s' \<and> window_content s' = window_content s \<and>
    window_length s' = window_length s \<and> offset s' = offset s"
proof -
  let ?p = "streamPos s" and ?l = "window_length s" and ?C = "content (wrapped s)"
  have len: "?p < ?l" "offset s + ?p < length ?C" using pos by (auto simp: window_content_def)
  define t where "t = int (?p + offset s)"
  have t: "0 \<le> t" "t < 2 ^ 63" "to_uint64 t = t" "to_int64 t = t"
    using inv len by (simp_all add: t_def window_inv_def)
  have inv_w: "inv (wrapped s)" using inv by (simp add: window_inv_def)
  obtain v w where w: "(if to_uint64 (StreamPosition ops (wrapped s)) \<noteq> t then Seek ops t 0 (wrapped s)
              else (Inr 0, wrapped s)) = (Inr v, w)" "StreamPosition ops w = t" "content w = ?C" "inv w"
    using position [OF inv_w] seek [OF inv_w t(1,2)] inv_w by (cases "StreamPosition ops (wrapped s) = t") auto
  have toRead: "min (length (buffer s)) (?l - ?p) = ?l - ?p" using inv by (simp add: window_inv_def)
  from read [OF w(4), of "?p + offset s" "?l - ?p"] w(2,3) len obtain w' where
    w': "Read ops (?l - ?p) w = ((take (?l - ?p) (drop (?p + offset s) ?C), None), w')" "content w' = ?C" "inv w'"
    by (auto simp: t_def add.commute)
  have data: "take (?l - ?p) (drop (?p + offset s) ?C) = window_left s"
    by (simp add: window_left_def window_content_def drop_take)
  let ?s = "s\<lparr>wrapped := w', buffer := window_left s @ replicate (?l - ?p - length (window_left s)) 0 @
      drop (?l - ?p) (buffer s), bufferBase := ?p, bufferTop := ?p + length (window_left s)\<rparr>"
  have "fillBuffer ops s = (None, ?s)"
    unfolding fillBuffer_def Let_def t_def [symmetric] t(3,4) w(1) toRead
    using w'(1) unfolding data by simp
  moreover have content: "window_content ?s = window_content s" by (simp add: window_content_def w'(2))
  moreover have "window_inv ?s"
    using inv w'(3) len unfolding window_inv_def content
    by (auto simp: nth_append window_left_def window_content_def)
  moreover have "?p < ?p + length (window_left s)" using pos by (simp add: window_left_def)
  ultimately show ?thesis by (intro exI [of _ ?s]) simp
qed

lemma fillBuffer_at_end:
  assumes inv: "window_inv s" and pos: "length (window_content s) \<le> streamPos s" "streamPos s < window_length s"
  shows "\<exists>s'. fillBuffer ops s = (Some EOF, s') \<and> window_inv s' \<and> streamPos s' = streamPos s \<and>
    window_content s' = window_content s \<and> window_length s' = window_length s"
proof -
  let ?p = "streamPos s" and ?l = "window_length s" and ?C = "content (wrapped s)"
  have len: "length ?C \<le> ?p + offset s" using pos by (auto simp: window_content_def)
  define t where "t = int (?p + offset s)"
  have t: "0 \<le> t" "t < 2 ^ 63" "to_uint64 t = t" "to_int64 t = t"
    using inv pos by (simp_all add: t_def window_inv_def)
  have inv_w: "inv (wrapped s)" using inv by (simp add: window_inv_def)
  obtain v w where w: "(if to_uint64 (StreamPosition ops (wrapped s)) \<noteq> t then Seek ops t 0 (wrapped s)
              else (Inr 0, wrapped s)) = (Inr v, w)" "StreamPosition ops w = t" "content w = ?C" "inv w"
    using position [OF inv_w] seek [OF inv_w t(1,2)] inv_w by (cases "StreamPosition ops (wrapped s) = t") auto
  have "int (length (content w)) \<le> StreamPosition ops w" using len w(2,3) by (simp add: t_def)
  from read_at_end [OF w(4) this] w(3) obtain w' where
    w': "Read ops (min (length (buffer s)) (?l - ?p)) w = (([], Some EOF), w')" "content w' = ?C" "inv w'"
    by metis
  let ?s = "s\<lparr>wrapped := w', bufferBase := ?p\<rparr>"
  have "fillBuffer ops s = (Some EOF, ?s)"
    unfolding fillBuffer_def Let_def t_def [symmetric] t(3,4) w(1) using w'(1) by simp
  moreover have content: "window_content ?s = window_content s" by (simp add: window_content_def w'(2))
  moreover have "window_inv ?s"
    using inv w'(3) pos unfolding window_inv_def content by (auto simp: not_less)
  ultimately show ?thesis by (intro exI [of _ ?s]) simp
qed

text \<open>The state of a window that never changes while it is read: its bytes and its length.\<close>

definition window_ok :: "u8 list \<Rightarrow> nat \<Rightarrow> 'w window \<Rightarrow> bool" where
  "window_ok C l s \<longleftrightarrow> window_inv s \<and> window_content s = C \<and> window_length s = l \<and> streamPos s < 2 ^ 63"

lemma window_source: "byte_source (window_byte ops) window_left (window_ok C l)"
proof unfold_locales
  fix s b bs
  assume ok: "window_ok C l s" and left: "window_left s = b # bs"
  have pos: "streamPos s < length (window_content s)" by (rule ccontr) (use left in \<open>simp add: window_left_def\<close>)
  have result: "window_content s ! streamPos s = b" "drop (Suc (streamPos s)) (window_content s) = bs"
    using left pos by (simp_all add: window_left_def Cons_nth_drop_Suc [symmetric])
  show "\<exists>s'. window_byte ops s = (Inr b, s') \<and> window_left s' = bs \<and> window_ok C l s'"
  proof (cases "bufferBase s \<le> streamPos s \<and> streamPos s < bufferTop s")
    case True
    then show ?thesis using ok pos result
      by (auto simp: window_byte_def window_ok_def window_left_def window_inv_def window_content_def)
  next
    case False
    have inv: "window_inv s" using ok by (simp add: window_ok_def)
    from fillBuffer_spec [OF inv pos] obtain s' where
      s': "fillBuffer ops s = (None, s')" "window_inv s'" "streamPos s' = streamPos s"
        "bufferBase s' = streamPos s" "streamPos s < bufferTop s'" "window_content s' = window_content s"
        "window_length s' = window_length s" by blast
    have "buffer s' ! 0 = b" using s'(2) s'(4-6) result(1) by (auto simp: window_inv_def)
    moreover have "Suc (streamPos s) < 2 ^ 63" "streamPos s < window_length s"
      using pos inv by (auto simp: window_content_def window_inv_def)
    ultimately show ?thesis using s' False ok result(2)
      by (auto simp: window_byte_def window_ok_def window_left_def not_le not_less)
  qed
next
  fix s
  assume ok: "window_ok C l s" and left: "window_left s = []"
  show "\<exists>s'. window_byte ops s = (Inl EOF, s') \<and> window_left s' = [] \<and> window_ok C l s'"
  proof (cases "streamPos s < window_length s")
    case True
    have "length (window_content s) \<le> streamPos s" using left by (simp add: window_left_def)
    moreover from this ok have "\<not> streamPos s < bufferTop s \<or> streamPos s < bufferBase s"
      by (auto simp: window_ok_def window_inv_def not_less [symmetric])
    ultimately show ?thesis using fillBuffer_at_end [of s] ok True left
      by (auto simp: window_byte_def window_ok_def window_left_def)
  qed (use ok left in \<open>auto simp: window_byte_def\<close>)
qed

definition substream_inv :: "'w substream \<Rightarrow> bool" where
  "substream_inv r \<longleftrightarrow> unread_bits r = 0 \<and>
    window_ok (window_content (source r)) (length (window_content (source r))) (source r)"

lemma substream_reader: "stream_reader (substream_ops ops) (\<lambda>r. window_content (source r)) substream_inv"
proof unfold_locales
  fix r :: "'w substream"
  assume r: "substream_inv r"
  then have pos: "Substream_StreamPosition r = int (streamPos (source r))"
    by (simp add: Substream_StreamPosition_def substream_inv_def window_ok_def)
  then show "0 \<le> StreamPosition (substream_ops ops) r \<and> StreamPosition (substream_ops ops) r < 2 ^ 63"
    using r by (simp add: substream_ops_def substream_inv_def window_ok_def)
  show "\<exists>w'. Seek (substream_ops ops) p 0 r = (Inr p, w') \<and> StreamPosition (substream_ops ops) w' = p \<and>
      window_content (source w') = window_content (source r) \<and> substream_inv w'" if "0 \<le> p" "p < 2 ^ 63" for p
    using r that
    by (simp add: substream_ops_def Substream_Seek_def Substream_StreamPosition_def substream_inv_def window_ok_def
        nat_less_iff)
  show "\<exists>w'. Read (substream_ops ops) n r = (([], Some EOF), w') \<and>
      window_content (source w') = window_content (source r) \<and> substream_inv w'"
    if "int (length (window_content (source r))) \<le> StreamPosition (substream_ops ops) r" for n
    using r that pos by (simp add: substream_ops_def Substream_Read_def substream_inv_def window_ok_def)
  show "\<exists>w'. Read (substream_ops ops) n r = ((take n (drop k (window_content (source r))), None), w') \<and>
      window_content (source w') = window_content (source r) \<and> substream_inv w'"
    if "StreamPosition (substream_ops ops) r = int k" "k < length (window_content (source r))" for n k
  proof -
    let ?C = "window_content (source r)"
    have k: "streamPos (source r) = k" using that(1) pos by (simp add: substream_ops_def)
    have "byte_source.ok (window_ok ?C (length ?C)) r" "unread_bits r = 0"
      using r by (simp_all add: byte_source.ok_def [OF window_source] substream_inv_def cache_ok_def)
    from byte_source.read_unaligned_aligned [OF window_source this, of n] k obtain r' where
      r': "read_unaligned (window_byte ops) n r =
          ((take n (drop k ?C), if length (drop k ?C) < n then Some EOF else None), r')"
        "unread_bits r' = 0" "byte_source.ok (window_ok ?C (length ?C)) r'"
      by (auto simp: window_left_def)
    from r'(3) have "window_ok ?C (length ?C) (source r')" by (simp add: byte_source.ok_def [OF window_source])
    with r' r that(2) k show ?thesis
      by (auto simp: substream_ops_def Substream_Read_def substream_inv_def window_ok_def)
  qed
qed

end

section \<open>Windows of a reader, and windows of windows\<close>

definition reader_inv :: "reader \<Rightarrow> bool" where
  "reader_inv r \<longleftrightarrow> unread_bits r = 0 \<and> 0 \<le> pos (source r) \<and> pos (source r) < 2 ^ 63 \<and>
    int (length (inp (source r))) < 2 ^ 63"

interpretation reader: stream_reader reader_ops "\<lambda>r. inp (source r)" reader_inv
proof unfold_locales
  fix r :: reader and p :: int and n k :: nat
  assume r: "reader_inv r"
  then show "0 \<le> StreamPosition reader_ops r \<and> StreamPosition reader_ops r < 2 ^ 63"
    by (simp add: reader_ops_def Reader_StreamPosition_def reader_inv_def)
  show "\<exists>w'. Seek reader_ops p 0 r = (Inr p, w') \<and> StreamPosition reader_ops w' = p \<and>
      inp (source w') = inp (source r) \<and> reader_inv w'" if "0 \<le> p" "p < 2 ^ 63"
    using r that by (simp add: reader_ops_def Reader_Seek_def Reader_StreamPosition_def reader_inv_def)
  show "\<exists>w'. Read reader_ops n r = (([], Some EOF), w') \<and> inp (source w') = inp (source r) \<and> reader_inv w'"
    if "int (length (inp (source r))) \<le> StreamPosition reader_ops r"
    using r that
    by (simp add: reader_ops_def Reader_Read_def slice_read_def Reader_StreamPosition_def reader_inv_def)
  show "\<exists>w'. Read reader_ops n r = ((take n (drop k (inp (source r))), None), w') \<and>
      inp (source w') = inp (source r) \<and> reader_inv w'"
    if "StreamPosition reader_ops r = int k" "k < length (inp (source r))"
    using r that
    by (auto simp: reader_ops_def Reader_Read_def slice_read_def Reader_StreamPosition_def reader_inv_def)
qed

interpretation windows: byte_source "window_byte reader_ops" reader.window_left "reader.window_ok C l" for C l
  by (rule reader.window_source)

interpretation nested: stream_reader "substream_ops reader_ops" "\<lambda>r. reader.window_content (source r)" reader.substream_inv
  by (rule reader.substream_reader)

section \<open>Reading a list of fields\<close>

text \<open>
  What a caller does: one call of \<open>ReadBits\<close> for each width, up to the first error. The specification cuts the bit
  string.
\<close>

fun read_fields :: "'s byte_reader \<Rightarrow> nat list \<Rightarrow> 's bit_reader \<Rightarrow> u64 list \<times> reader_error option" where
  "read_fields readBufferByte [] r = ([], None)"
| "read_fields readBufferByte (n # ns) r =
    (case ReadBits readBufferByte n r of
       (Inl err, r) \<Rightarrow> ([], Some err)
     | (Inr v, r) \<Rightarrow> (case read_fields readBufferByte ns r of (vs, err) \<Rightarrow> (v # vs, err)))"

fun cut_fields :: "nat list \<Rightarrow> bool list \<Rightarrow> u64 list \<times> reader_error option" where
  "cut_fields [] bs = ([], None)"
| "cut_fields (n # ns) bs =
    (if length bs < n then ([], Some EOF)
     else case cut_fields ns (drop n bs) of (vs, err) \<Rightarrow> (bits_value (take n bs) # vs, err))"

context byte_source
begin

lemma read_fields_spec: "ok r \<Longrightarrow> 0 \<notin> set ns \<Longrightarrow> read_fields readBufferByte ns r = cut_fields ns (unread r)"
proof (induction ns arbitrary: r)
  case (Cons n ns)
  show ?case
  proof (cases "length (unread r) < n")
    case True
    then show ?thesis using ReadBits_at_end [OF Cons.prems(1) True] by (auto split: prod.splits)
  next
    case False
    from ReadBits_spec [OF Cons.prems(1), of n] False Cons.prems(2) obtain r' where
      "ReadBits readBufferByte n r = (Inr (bits_value (take n (unread r))), r')" "unread r' = drop n (unread r)" "ok r'"
      by auto
    with Cons.IH [of r'] False Cons.prems(2) show ?thesis by simp
  qed
qed simp

end

end
