(* ===== verification/Arith_Decoder.thy ===== *)
theory Arith_Decoder
  imports Bit_Streams
begin

text \<open>
  The arithmetic decoder of JBIG2 (\<open>decoder/arithmetic\<close>): its contexts (\<open>stats.go\<close>), the decoding of bits,
  integers and symbol ids (\<open>arithmetic.go\<close>). The registers keep the widths that they have in the code; the methods
  of the reader that it calls are the record \<open>byte_ops\<close>. An operation returns its result and the states that it
  leaves; a result is also a panic, for an index out of range, and the loop of \<open>renormalize\<close> need not end.
\<close>

section \<open>The reader\<close>

record 'w byte_ops = "'w stream_ops" +
  read_byte :: "'w \<Rightarrow> (reader_error + u8) \<times> 'w"

definition reader_byte_ops :: "reader byte_ops" where
  "reader_byte_ops = \<lparr>StreamPosition = Reader_StreamPosition, Seek = Reader_Seek, Read = Reader_Read,
    read_byte = ReadByte slice_byte\<rparr>"

definition substream_byte_ops :: "'w stream_ops \<Rightarrow> 'w substream byte_ops" where
  "substream_byte_ops ops = \<lparr>StreamPosition = Substream_StreamPosition, Seek = Substream_Seek, Read = Substream_Read ops,
    read_byte = ReadByte (window_byte ops)\<rparr>"

section \<open>Contexts (stats.go)\<close>

record stats =
  index :: int
  contextSize :: nat
  codingContextTable :: "u8 list"
  mps :: "u8 list"

definition NewStats :: "nat \<Rightarrow> int \<Rightarrow> stats" where
  "NewStats n i = \<lparr>index = i, contextSize = n, codingContextTable = replicate n 0, mps = replicate n 0\<rparr>"

definition stats_Reset :: "stats \<Rightarrow> (reader_error, stats) res" where
  "stats_Reset s =
    (if length (mps s) < length (codingContextTable s) then Panic
     else Ok (s\<lparr>codingContextTable := replicate (length (codingContextTable s)) 0,
       mps := replicate (length (codingContextTable s)) 0 @ drop (length (codingContextTable s)) (mps s)\<rparr>))"

definition SetEntry :: "int \<Rightarrow> stats \<Rightarrow> (reader_error, stats) res" where
  "SetEntry value s =
    rbind (set_at (codingContextTable s) (index s) (word_of_int (value AND 0x7f))) (\<lambda>t. Ok (s\<lparr>codingContextTable := t\<rparr>))"

definition SetIndex :: "int \<Rightarrow> stats \<Rightarrow> stats" where
  "SetIndex i s = s\<lparr>index := i\<rparr>"

definition toggleMps :: "stats \<Rightarrow> (reader_error, stats) res" where
  "toggleMps s = rbind (index_at (mps s) (index s)) (\<lambda>v. rbind (set_at (mps s) (index s) (v XOR 1)) (\<lambda>m. Ok (s\<lparr>mps := m\<rparr>)))"

definition getMps :: "stats \<Rightarrow> (reader_error, u8) res" where
  "getMps s = index_at (mps s) (index s)"

definition cx :: "stats \<Rightarrow> (reader_error, u8) res" where
  "cx s = index_at (codingContextTable s) (index s)"

definition Overwrite :: "stats \<Rightarrow> stats \<Rightarrow> (reader_error, stats) res" where
  "Overwrite new s =
    (let n = length (codingContextTable s)
     in if length (codingContextTable new) < n \<or> length (mps new) < n \<or> length (mps s) < n then Panic
        else Ok (s\<lparr>codingContextTable := take n (codingContextTable new), mps := take n (mps new) @ drop n (mps s)\<rparr>))"

text \<open>The copy has the table of the contexts, but index 0 and an empty slice \<open>mps\<close>.\<close>

definition stats_Copy :: "stats \<Rightarrow> (reader_error, stats) res" where
  "stats_Copy s =
    (if length (codingContextTable s) > contextSize s then Panic
     else Ok \<lparr>index = 0, contextSize = contextSize s,
       codingContextTable = codingContextTable s @ replicate (contextSize s - length (codingContextTable s)) 0, mps = []\<rparr>)"

section \<open>The decoder (arithmetic.go)\<close>

definition qe :: "(u32 \<times> nat \<times> nat \<times> nat) list" where
  "qe =
  [(0x5601, 1, 1, 1), (0x3401, 2, 6, 0), (0x1801, 3, 9, 0), (0x0AC1, 4, 12, 0), (0x0521, 5, 29, 0), (0x0221, 38,
   33, 0), (0x5601, 7, 6, 1), (0x5401, 8, 14, 0), (0x4801, 9, 14, 0), (0x3801, 10, 14, 0), (0x3001, 11, 17, 0),
   (0x2401, 12, 18, 0), (0x1C01, 13, 20, 0), (0x1601, 29, 21, 0), (0x5601, 15, 14, 1), (0x5401, 16, 14, 0),
   (0x5101, 17, 15, 0), (0x4801, 18, 16, 0), (0x3801, 19, 17, 0), (0x3401, 20, 18, 0), (0x3001, 21, 19, 0),
   (0x2801, 22, 19, 0), (0x2401, 23, 20, 0), (0x2201, 24, 21, 0), (0x1C01, 25, 22, 0), (0x1801, 26, 23, 0),
   (0x1601, 27, 24, 0), (0x1401, 28, 25, 0), (0x1201, 29, 26, 0), (0x1101, 30, 27, 0), (0x0AC1, 31, 28, 0),
   (0x09C1, 32, 29, 0), (0x08A1, 33, 30, 0), (0x0521, 34, 31, 0), (0x0441, 35, 32, 0), (0x02A1, 36, 33, 0),
   (0x0221, 37, 34, 0), (0x0141, 38, 35, 0), (0x0111, 39, 36, 0), (0x0085, 40, 37, 0), (0x0049, 41, 38, 0),
   (0x0025, 42, 39, 0), (0x0015, 43, 40, 0), (0x0009, 44, 41, 0), (0x0005, 45, 42, 0), (0x0001, 45, 43, 0),
   (0x5601, 46, 46, 0)]"

record 'w decoder =
  reader :: 'w
  reg_b :: int
  reg_c :: u64
  reg_a :: u32
  previous :: int
  reg_ct :: int
  start :: int

text \<open>A step on the state of the decoder, and one on the states of contexts and decoder.\<close>

type_synonym 'w reading = "'w decoder \<Rightarrow> (reader_error, unit) res \<times> 'w decoder"
type_synonym ('w, 'a) decoding = "stats \<times> 'w decoder \<Rightarrow> ((reader_error, 'a) res \<times> stats \<times> 'w decoder) option"

definition next_byte :: "'w byte_ops \<Rightarrow> 'w decoder \<Rightarrow> (u8 \<Rightarrow> 'w reading) \<Rightarrow> (reader_error, unit) res \<times> 'w decoder" where
  "next_byte ops d f =
    (case read_byte ops (reader d) of (Inl err, w) \<Rightarrow> (Err err, d\<lparr>reader := w\<rparr>) | (Inr b, w) \<Rightarrow> f b (d\<lparr>reader := w\<rparr>))"

definition seek_back :: "'w byte_ops \<Rightarrow> int \<Rightarrow> 'w decoder \<Rightarrow> 'w reading \<Rightarrow> (reader_error, unit) res \<times> 'w decoder" where
  "seek_back ops n d f =
    (case Seek ops (- n) 1 (reader d) of (Inl err, w) \<Rightarrow> (Err err, d\<lparr>reader := w\<rparr>) | (Inr _, w) \<Rightarrow> f (d\<lparr>reader := w\<rparr>))"

definition mask_c :: "'w reading" where
  "mask_c d = (Ok (), d\<lparr>reg_c := reg_c d AND 0xFFFFFFFFFF\<rparr>)"

definition readByte :: "'w byte_ops \<Rightarrow> 'w reading" where
  "readByte ops d =
    (let read = (\<lambda>d. next_byte ops d (\<lambda>b d.
       let d = d\<lparr>reg_b := uint b\<rparr>
       in if reg_b d = 0xFF then
            next_byte ops d (\<lambda>b1 d.
              if b1 > 0x8F then
                seek_back ops 2 (d\<lparr>reg_c := reg_c d + 0xFF00, reg_ct := 8\<rparr>) mask_c
              else mask_c (d\<lparr>reg_c := reg_c d + push_bit 9 (ucast b1), reg_ct := 7\<rparr>))
          else
            next_byte ops d (\<lambda>b d. mask_c (d\<lparr>reg_b := uint b, reg_c := reg_c d + push_bit 8 (ucast b), reg_ct := 8\<rparr>))))
     in if StreamPosition ops (reader d) > start d then seek_back ops 1 d read else read d)"

definition init :: "'w byte_ops \<Rightarrow> 'w reading" where
  "init ops d =
    (let d = d\<lparr>start := StreamPosition ops (reader d)\<rparr>
     in next_byte ops d (\<lambda>b d.
          case readByte ops (d\<lparr>reg_b := uint b, reg_c := push_bit 16 (ucast b)\<rparr>) of
            (Ok _, d) \<Rightarrow> (Ok (), d\<lparr>reg_c := push_bit 7 (reg_c d), reg_ct := reg_ct d - 7, reg_a := 0x8000\<rparr>)
          | (e, d) \<Rightarrow> (e, d)))"

definition NewDecoder :: "'w byte_ops \<Rightarrow> 'w \<Rightarrow> (reader_error, unit) res \<times> 'w decoder" where
  "NewDecoder ops w = init ops \<lparr>reader = w, reg_b = 0, reg_c = 0, reg_a = 0, previous = 0, reg_ct = 0, start = 0\<rparr>"

definition shift_step :: "'w decoder \<Rightarrow> 'w decoder" where
  "shift_step d = d\<lparr>reg_a := push_bit 1 (reg_a d), reg_c := push_bit 1 (reg_c d), reg_ct := reg_ct d - 1\<rparr>"

partial_function (option) renormalize :: "'w byte_ops \<Rightarrow> 'w decoder \<Rightarrow> ((reader_error, unit) res \<times> 'w decoder) option" where
  "renormalize ops d =
    (case (if reg_ct d = 0 then readByte ops d else (Ok (), d)) of
       (Ok _, d) \<Rightarrow>
         let d = shift_step d
         in if reg_a d AND 0x8000 \<noteq> 0 then Some (Ok (), d\<lparr>reg_c := reg_c d AND 0xffffffff\<rparr>)
            else renormalize ops d
     | (e, d) \<Rightarrow> Some (e, d))"

text \<open>The new entry, after a change of the more probable symbol if the state asks for it.\<close>

definition exchange :: "nat \<Rightarrow> bool \<Rightarrow> stats \<Rightarrow> (reader_error, stats) res" where
  "exchange icx lps s =
    rbind (index_at qe (int icx)) (\<lambda>(v, nmps, nlps, switch).
      if lps then rbind (if switch = 1 then toggleMps s else Ok s) (SetEntry (int nlps))
      else SetEntry (int nmps) s)"

definition mpsExchange :: "nat \<Rightarrow> stats \<times> 'w decoder \<Rightarrow> (reader_error, int \<times> stats) res" where
  "mpsExchange icx sd =
    (case sd of (s, d) \<Rightarrow>
      rbind (index_at (mps s) (index s)) (\<lambda>m.
      rbind (index_at qe (int icx)) (\<lambda>(v, _).
      if reg_a d < v then rbind (exchange icx True s) (\<lambda>s. Ok (uint (1 - m), s))
      else rbind (exchange icx False s) (\<lambda>s. Ok (uint m, s)))))"

definition lpsExchange :: "nat \<Rightarrow> u32 \<Rightarrow> stats \<times> 'w decoder \<Rightarrow> (reader_error, int \<times> stats) res" where
  "lpsExchange icx qeValue sd =
    (case sd of (s, d) \<Rightarrow>
      rbind (getMps s) (\<lambda>m.
      if reg_a d < qeValue then rbind (exchange icx False s) (\<lambda>s. Ok (uint m, s))
      else rbind (exchange icx True s) (\<lambda>s. Ok (uint (1 - m), s))))"

definition after_renormalize :: "'w byte_ops \<Rightarrow> int \<Rightarrow> stats \<Rightarrow> 'w decoder \<Rightarrow>
    ((reader_error, int) res \<times> stats \<times> 'w decoder) option" where
  "after_renormalize ops decoded s d =
    Option.bind (renormalize ops d) (\<lambda>(res, d). Some (rbind res (\<lambda>_. Ok decoded), s, d))"

definition DecodeBit :: "'w byte_ops \<Rightarrow> ('w, int) decoding" where
  "DecodeBit ops sd =
    (case sd of (s, d) \<Rightarrow>
      (case rbind (cx s) (\<lambda>icx. rbind (index_at qe (uint icx)) (\<lambda>(v, _). Ok (unat icx, v))) of
         Ok (icx, qeValue) \<Rightarrow>
           let d = d\<lparr>reg_a := reg_a d - qeValue\<rparr>
           in if drop_bit 16 (reg_c d) < ucast qeValue then
                (case lpsExchange icx qeValue (s, d) of
                   Ok (decoded, s) \<Rightarrow> after_renormalize ops decoded s (d\<lparr>reg_a := qeValue\<rparr>)
                 | _ \<Rightarrow> Some (Panic, s, d))
              else
                let d = d\<lparr>reg_c := reg_c d - push_bit 16 (ucast qeValue)\<rparr>
                in if reg_a d AND 0x8000 = 0 then
                     (case mpsExchange icx (s, d) of
                        Ok (decoded, s) \<Rightarrow> after_renormalize ops decoded s d
                      | _ \<Rightarrow> Some (Panic, s, d))
                   else
                     (case getMps s of Ok m \<Rightarrow> Some (Ok (uint m), s, d) | _ \<Rightarrow> Some (Panic, s, d))
       | _ \<Rightarrow> Some (Panic, s, d)))"

text \<open>Sequencing of steps that pass the states on.\<close>

definition then_decode :: "('w, 'a) decoding \<Rightarrow> ('a \<Rightarrow> ('w, 'b) decoding) \<Rightarrow> ('w, 'b) decoding" where
  "then_decode m f sd =
    Option.bind (m sd) (\<lambda>(res, sd). case res of Ok x \<Rightarrow> f x sd | Err e \<Rightarrow> Some (Err e, sd) | Panic \<Rightarrow> Some (Panic, sd))"

definition next_previous :: "int \<Rightarrow> int \<Rightarrow> int" where
  "next_previous p decoded =
    (if p < 256 then (push_bit 1 p OR decoded) AND 0x1ff
     else (((push_bit 1 p OR decoded) AND 511) OR 256) AND 0x1ff)"

definition decodeIntBit :: "'w byte_ops \<Rightarrow> ('w, int) decoding" where
  "decodeIntBit ops sd =
    (case sd of (s, d) \<Rightarrow>
      then_decode (DecodeBit ops) (\<lambda>decoded (s, d). Some (Ok decoded, s, d\<lparr>previous := next_previous (previous d) decoded\<rparr>))
        (SetIndex (previous d) s, d))"

text \<open>The prefix that says how many bits to read and what to add.\<close>

fun int_prefix :: "'w byte_ops \<Rightarrow> (nat \<times> int) list \<Rightarrow> nat \<times> int \<Rightarrow> ('w, nat \<times> int) decoding" where
  "int_prefix ops [] longest sd = Some (Ok longest, sd)"
| "int_prefix ops (p # ps) longest sd =
    then_decode (decodeIntBit ops) (\<lambda>decoded. if decoded = 1 then int_prefix ops ps longest else (\<lambda>sd. Some (Ok p, sd))) sd"

fun int_bits :: "'w byte_ops \<Rightarrow> nat \<Rightarrow> int \<Rightarrow> ('w, int) decoding" where
  "int_bits ops 0 value sd = Some (Ok value, sd)"
| "int_bits ops (Suc n) value sd =
    then_decode (decodeIntBit ops) (\<lambda>decoded. int_bits ops n (push_bit 1 value OR decoded)) sd"

definition MaxInt :: int where
  "MaxInt = 2 ^ 63 - 1"

definition DecodeInt :: "'w byte_ops \<Rightarrow> ('w, int) decoding" where
  "DecodeInt ops sd =
    (case sd of (s, d) \<Rightarrow>
      then_decode (decodeIntBit ops) (\<lambda>sign.
      then_decode (int_prefix ops [(2, 0), (4, 4), (6, 20), (8, 84), (12, 340)] (32, 4436)) (\<lambda>(bitsToRead, off).
      then_decode (int_bits ops bitsToRead 0) (\<lambda>value sd.
        let value = value + off
        in Some (Ok (if sign = 0 then value else if sign = 1 \<and> value > 0 then - value else MaxInt), sd))))
      (s, d\<lparr>previous := 1\<rparr>))"

text \<open>Without contexts, \<open>DecodeInt\<close> takes new ones, which it then drops.\<close>

definition DecodeInt_nil :: "'w byte_ops \<Rightarrow> 'w decoder \<Rightarrow> ((reader_error, int) res \<times> stats \<times> 'w decoder) option" where
  "DecodeInt_nil ops d = DecodeInt ops (NewStats 512 1, d)"

fun id_bits :: "'w byte_ops \<Rightarrow> nat \<Rightarrow> ('w, unit) decoding" where
  "id_bits ops 0 sd = Some (Ok (), sd)"
| "id_bits ops (Suc n) (s, d) =
    then_decode (DecodeBit ops) (\<lambda>decoded (s, d). id_bits ops n (s, d\<lparr>previous := push_bit 1 (previous d) OR decoded\<rparr>))
      (SetIndex (previous d) s, d)"

definition DecodeIAID :: "'w byte_ops \<Rightarrow> nat \<Rightarrow> ('w, int) decoding" where
  "DecodeIAID ops codeLen sd =
    (case sd of (s, d) \<Rightarrow>
      then_decode (id_bits ops codeLen) (\<lambda>_ (s, d). Some (Ok (previous d - push_bit codeLen 1), s, d)) (s, d\<lparr>previous := 1\<rparr>))"

end
