(* ===== verification/Arith_Properties.thy ===== *)
theory Arith_Properties
  imports Arith_Decoder
begin

text \<open>
  The arithmetic decoder keeps its registers and contexts in their ranges: decoding returns, never panics on contexts
  of the right size, and the numbers that it decodes are bounded. A copy of a context is not usable.
\<close>

section \<open>Ranges\<close>

definition stats_ok :: "stats \<Rightarrow> bool" where
  "stats_ok s \<longleftrightarrow> length (mps s) = length (codingContextTable s) \<and>
    (\<forall>v \<in> set (codingContextTable s). v < 47) \<and> (\<forall>v \<in> set (mps s). v = 0 \<or> v = 1)"

definition decoder_ok :: "'w decoder \<Rightarrow> bool" where
  "decoder_ok d \<longleftrightarrow> 0x8000 \<le> reg_a d \<and> reg_a d < 0x10000 \<and> 0 \<le> reg_ct d \<and> reg_ct d \<le> 8"

lemma qe_ok: "list_all (\<lambda>(v, nmps, nlps, switch). 0 < v \<and> v \<le> 0x5601 \<and> nmps < 47 \<and> nlps < 47) qe"
  by (simp add: qe_def)

lemma length_qe [simp]: "length qe = 47"
  by (simp add: qe_def)

lemma qe_nth:
  "i < 47 \<Longrightarrow> \<exists>v nmps nlps switch. qe ! i = (v, nmps, nlps, switch) \<and> 0 < v \<and> v \<le> 0x5601 \<and> nmps < 47 \<and> nlps < 47"
  using qe_ok by (cases "qe ! i") (auto simp: list_all_length)

lemma index_at_int: "0 \<le> i \<Longrightarrow> nat i < length xs \<Longrightarrow> index_at xs i = Ok (xs ! nat i)"
  by (simp add: index_at_def nat_less_iff)

lemma set_at_int: "0 \<le> i \<Longrightarrow> nat i < length xs \<Longrightarrow> set_at xs i x = Ok (xs[nat i := x])"
  by (simp add: set_at_def nat_less_iff)

lemma SetEntry_ok:
  assumes "stats_ok s" "0 \<le> index s" "nat (index s) < length (mps s)" "v < 47"
  shows "\<exists>s'. SetEntry (int v) s = Ok s' \<and> stats_ok s' \<and> index s' = index s \<and> length (mps s') = length (mps s)"
proof -
  have "int v AND 127 = int v" using assms(4) take_bit_int_eq_self [of "int v" 7] by (simp add: take_bit_eq_mask mask_eq_exp_minus_1)
  moreover have "(word_of_nat v :: u8) < 47" using assms(4) by (simp add: word_less_nat_alt unat_of_nat)
  ultimately show ?thesis
    using assms by (auto simp: SetEntry_def set_at_int stats_ok_def dest!: set_update_subset_insert [THEN subsetD])
qed

lemma toggleMps_ok:
  assumes "stats_ok s" "0 \<le> index s" "nat (index s) < length (mps s)"
  shows "\<exists>s'. toggleMps s = Ok s' \<and> stats_ok s' \<and> index s' = index s \<and> length (mps s') = length (mps s)"
proof -
  have "mps s ! nat (index s) \<in> set (mps s)" using assms(3) by simp
  then have "mps s ! nat (index s) XOR 1 = 0 \<or> mps s ! nat (index s) XOR 1 = 1" using assms(1) by (auto simp: stats_ok_def)
  then show ?thesis
    using assms by (auto simp: toggleMps_def set_at_int index_at_int stats_ok_def dest!: set_update_subset_insert [THEN subsetD])
qed

lemma exchange_ok:
  assumes "stats_ok s" "0 \<le> index s" "nat (index s) < length (mps s)" "icx < 47"
  shows "\<exists>s'. exchange icx lps s = Ok s' \<and> stats_ok s' \<and> index s' = index s \<and> length (mps s') = length (mps s)"
proof -
  obtain v nmps nlps switch where q: "qe ! icx = (v, nmps, nlps, switch)" "nmps < 47" "nlps < 47"
    using qe_nth [OF assms(4)] by blast
  obtain s1 where s1: "toggleMps s = Ok s1" "stats_ok s1" "index s1 = index s" "length (mps s1) = length (mps s)"
    using toggleMps_ok [OF assms(1-3)] by blast
  show ?thesis
    using SetEntry_ok [OF assms(1-3) q(2)] SetEntry_ok [OF assms(1-3) q(3)] SetEntry_ok [OF s1(2) _ _ q(3)] s1 assms
    by (simp add: exchange_def q(1))
qed

section \<open>The registers\<close>

lemma readByte_ok:
  "readByte ops d = (res, d') \<Longrightarrow> res \<noteq> Panic \<and> reg_a d' = reg_a d \<and> previous d' = previous d \<and>
    (res = Ok () \<longrightarrow> reg_ct d' = 7 \<or> reg_ct d' = 8)"
  by (auto simp: readByte_def next_byte_def seek_back_def mask_c_def Let_def split: if_splits prod.splits sum.splits)

lemma top_bit: "a < 0x10000 \<Longrightarrow> (a AND 0x8000 = 0) = (a < 0x8000)" for a :: u32
proof -
  assume "a < 0x10000"
  then have a: "unat a < 2 ^ 16" by (simp add: word_less_nat_alt)
  have "(a AND 0x8000 = 0) = (\<not> bit a 15)" using and_exp_eq_0_iff_not_bit [of a 15] by simp
  also have "bit a 15 = bit (unat a) 15" by (simp add: bit_unsigned_iff)
  also have "\<dots> = odd (unat a div 2 ^ 15)" by (rule bit_iff_odd)
  also have "(\<not> odd (unat a div 2 ^ 15)) = (unat a < 2 ^ 15)"
  proof (cases "unat a < 2 ^ 15")
    case False
    with a have "unat a div 2 ^ 15 = 1" by (intro div_nat_eqI) simp_all
    with False show ?thesis by simp
  qed simp
  finally show ?thesis by (simp add: word_less_nat_alt)
qed

lemma renormalize_ok:
  assumes "reg_a d \<noteq> 0" "reg_a d < 0x8000" "0 \<le> reg_ct d" "reg_ct d \<le> 8"
  shows "\<exists>res d'. renormalize ops d = Some (res, d') \<and> res \<noteq> Panic \<and> previous d' = previous d \<and>
    (res = Ok () \<longrightarrow> decoder_ok d')"
  using assms
proof (induction "0x8000 - unat (reg_a d)" arbitrary: d rule: less_induct)
  case less
  obtain res d1 where d1: "(if reg_ct d = 0 then readByte ops d else (Ok (), d)) = (res, d1)" by fastforce
  then have 1: "res \<noteq> Panic" "reg_a d1 = reg_a d" "previous d1 = previous d" "res = Ok () \<longrightarrow> 0 < reg_ct d1 \<and> reg_ct d1 \<le> 8"
    using readByte_ok [of ops d res d1] less.prems(3,4) by (auto split: if_splits)
  show ?case
  proof (cases "res = Ok ()")
    case False
    with d1 1 show ?thesis by (cases res) (auto simp: renormalize.simps)
  next
    case True
    let ?d = "shift_step d1"
    have a: "unat (reg_a ?d) = 2 * unat (reg_a d)"
      using less.prems(2) 1(2) by (simp add: shift_step_def push_bit_eq_mult word_less_nat_alt unat_word_ariths(2))
    have small: "reg_a ?d < 0x10000" using less.prems(2) a by (simp add: word_less_nat_alt)
    have pos: "0 < unat (reg_a d)" using less.prems(1) by (simp add: unat_gt_0)
    have ct: "0 \<le> reg_ct ?d" "reg_ct ?d \<le> 8" "previous ?d = previous d" using 1 True by (auto simp: shift_step_def)
    have step: "renormalize ops d =
        (if reg_a ?d AND 0x8000 \<noteq> 0 then Some (Ok (), ?d\<lparr>reg_c := reg_c ?d AND 0xffffffff\<rparr>) else renormalize ops ?d)"
      by (subst renormalize.simps, subst d1) (simp add: True Let_def)
    show ?thesis
    proof (cases "reg_a ?d < 0x8000")
      case False
      then have "reg_a ?d AND 0x8000 \<noteq> 0" using top_bit [OF small] by simp
      with ct False small show ?thesis unfolding step by (simp add: decoder_ok_def)
    next
      case small: True
      then have "reg_a ?d AND 0x8000 = 0" using top_bit [OF \<open>reg_a ?d < 0x10000\<close>] by simp
      moreover have "reg_a ?d \<noteq> 0" using pos a by auto
      moreover have "0x8000 - unat (reg_a ?d) < 0x8000 - unat (reg_a d)"
        using small pos a by (simp add: word_less_nat_alt)
      ultimately show ?thesis using less.hyps [of ?d] small ct unfolding step by simp
    qed
  qed
qed

lemma after_renormalize_ok:
  assumes "reg_a d \<noteq> 0" "reg_a d < 0x8000" "0 \<le> reg_ct d" "reg_ct d \<le> 8"
  shows "\<exists>res d'. after_renormalize ops v s d = Some (res, s, d') \<and> res \<noteq> Panic \<and> previous d' = previous d \<and>
    (\<forall>x. res = Ok x \<longrightarrow> x = v \<and> decoder_ok d')"
proof -
  obtain res d' where "renormalize ops d = Some (res, d')" "res \<noteq> Panic" "previous d' = previous d" "res = Ok () \<longrightarrow> decoder_ok d'"
    using renormalize_ok [OF assms] by blast
  then show ?thesis by (cases res) (auto simp: after_renormalize_def)
qed

section \<open>Bits\<close>

text \<open>What a step needs, and what it guarantees of its result: it returns and does not panic.\<close>

definition safe :: "(stats \<times> 'w decoder \<Rightarrow> bool) \<Rightarrow> ('w, 'a) decoding \<Rightarrow> ('a \<Rightarrow> stats \<times> 'w decoder \<Rightarrow> bool) \<Rightarrow> bool" where
  "safe P m Q \<longleftrightarrow> (\<forall>sd. P sd \<longrightarrow> (\<exists>res sd'. m sd = Some (res, sd') \<and> res \<noteq> Panic \<and> (\<forall>x. res = Ok x \<longrightarrow> Q x sd')))"

definition state_ok :: "nat \<Rightarrow> stats \<times> 'w decoder \<Rightarrow> bool" where
  "state_ok n sd \<longleftrightarrow> stats_ok (fst sd) \<and> length (mps (fst sd)) = n \<and> decoder_ok (snd sd)"

lemma safe_bind: "safe P m Q \<Longrightarrow> (\<And>x. safe (Q x) (f x) R) \<Longrightarrow> safe P (then_decode m f) R"
  unfolding safe_def then_decode_def
  by (intro allI impI) (force split: res.splits)

lemma safe_pre: "safe P m Q \<Longrightarrow> (\<And>sd. P' sd \<Longrightarrow> P sd) \<Longrightarrow> safe P' m Q"
  by (auto simp: safe_def)

lemma byte_less_47: "v < (47 :: u8) \<Longrightarrow> unat v < 47"
  by (simp add: word_less_nat_alt)

lemma bit_sub: "m = (0 :: u8) \<or> m = 1 \<Longrightarrow> uint m \<in> {0, 1} \<and> uint (1 - m) \<in> {0, 1}"
  by auto

lemma DecodeBit_safe:
  "safe (\<lambda>sd. state_ok n sd \<and> 0 \<le> index (fst sd) \<and> nat (index (fst sd)) < n \<and> previous (snd sd) = p)
    (DecodeBit ops) (\<lambda>b sd. state_ok n sd \<and> b \<in> {0, 1} \<and> previous (snd sd) = p)"
  unfolding safe_def
proof (intro allI impI, elim conjE)
  fix sd :: "stats \<times> 'a decoder"
  obtain s d where sd: "sd = (s, d)" by fastforce
  assume "state_ok n sd" "0 \<le> index (fst sd)" "nat (index (fst sd)) < n" "previous (snd sd) = p"
  then have s: "stats_ok s" "length (mps s) = n" "0 \<le> index s" "nat (index s) < n" and d: "decoder_ok d" "previous d = p"
    by (simp_all add: state_ok_def sd)
  define c where "c = codingContextTable s ! nat (index s)"
  have "c \<in> set (codingContextTable s)" using s by (simp add: c_def stats_ok_def)
  then have c: "unat c < 47" "c < 47" using s(1) by (auto simp: stats_ok_def byte_less_47)
  obtain v nmps nlps switch where q: "qe ! unat c = (v, nmps, nlps, switch)" "0 < v" "v \<le> 0x5601"
    using qe_nth [OF c(1)] by blast
  define m where "m = mps s ! nat (index s)"
  have m: "uint m \<in> {0, 1}" "uint (1 - m) \<in> {0, 1}"
    using s(1,2,4) nth_mem [of "nat (index s)" "mps s"] bit_sub [of m] by (auto simp: stats_ok_def m_def)
  have len: "nat (index s) < length (mps s)" "nat (index s) < length (codingContextTable s)"
    using s by (simp_all add: stats_ok_def)
  have reads: "cx s = Ok c" "getMps s = Ok m" "index_at (mps s) (index s) = (Ok m :: (reader_error, u8) res)"
    using index_at_int [OF s(3) len(1)] index_at_int [OF s(3) len(2)] by (simp_all add: cx_def getMps_def c_def m_def)
  have qes: "index_at qe (int (unat c)) = (Ok (v, nmps, nlps, switch) :: (reader_error, _) res)"
    using index_at_int [of "int (unat c)" qe] c(1) q(1) by simp
  then have qes': "index_at qe (uint c) = (Ok (v, nmps, nlps, switch) :: (reader_error, _) res)" by simp
  have ex: "\<exists>s'. exchange (unat c) lps s = Ok s' \<and> stats_ok s' \<and> length (mps s') = n" for lps
    using exchange_ok [OF s(1,3) _ c(1), of lps] s(2,4) by auto
  show "\<exists>res sd'. DecodeBit ops sd = Some (res, sd') \<and> res \<noteq> Panic \<and>
      (\<forall>x. res = Ok x \<longrightarrow> state_ok n sd' \<and> x \<in> {0, 1} \<and> previous (snd sd') = p)"
  proof -
    let ?a = "reg_a d - v"
    have start: "rbind (cx s) (\<lambda>icx. rbind (index_at qe (uint icx)) (\<lambda>(v, _). Ok (unat icx, v))) =
        (Ok (unat c, v) :: (reader_error, _) res)"
      by (simp add: reads(1) qes')
    have v: "v < 0x8000" using q(3) by (simp add: word_le_nat_alt word_less_nat_alt)
    have a: "unat ?a = unat (reg_a d) - unat v"
      using d(1) q(3) by (intro unat_sub) (simp add: decoder_ok_def word_le_nat_alt)
    have bounds: "0x8000 \<le> unat (reg_a d)" "unat (reg_a d) < 0x10000" "unat v \<le> 0x5601" "0 < unat v"
      using d(1) q(2,3) by (simp_all add: decoder_ok_def word_le_nat_alt word_less_nat_alt unat_gt_0)
    then have small: "?a < 0x10000" "?a \<noteq> 0" using a by (auto simp: word_less_nat_alt)
    have ct: "0 \<le> reg_ct d" "reg_ct d \<le> 8" using d(1) by (simp_all add: decoder_ok_def)
    have renorm: "\<exists>res d'. after_renormalize ops b s' d1 = Some (res, s', d') \<and> res \<noteq> Panic \<and> previous d' = p \<and>
        (\<forall>x. res = Ok x \<longrightarrow> x = b \<and> decoder_ok d')"
      if "reg_a d1 \<noteq> 0" "reg_a d1 < 0x8000" "reg_ct d1 = reg_ct d" "previous d1 = previous d" for b s' d1
      using after_renormalize_ok [of d1 ops b s'] that ct d(2) by simp
    obtain s1 s2 where ex: "exchange (unat c) False s = Ok s1" "stats_ok s1" "length (mps s1) = n"
      "exchange (unat c) True s = Ok s2" "stats_ok s2" "length (mps s2) = n" using ex by metis
    show ?thesis
    proof (cases "drop_bit 16 (reg_c d) < ucast v")
      case True
      let ?d = "d\<lparr>reg_a := v\<rparr>"
      obtain b s' where l: "lpsExchange (unat c) v (s, d\<lparr>reg_a := ?a\<rparr>) = Ok (b, s')" "b \<in> {0, 1}" "stats_ok s'" "length (mps s') = n"
        using ex m reads by (cases "?a < v") (auto simp: lpsExchange_def)
      have "DecodeBit ops sd = after_renormalize ops b s' ?d"
        using True l(1) unfolding sd DecodeBit_def by (simp add: start Let_def)
      with renorm [of ?d b s'] q(2) v l show ?thesis by (auto simp: state_ok_def)
    next
      case False
      let ?d = "d\<lparr>reg_a := ?a, reg_c := reg_c d - push_bit 16 (ucast v)\<rparr>"
      show ?thesis
      proof (cases "?a AND 0x8000 = 0")
        case True
        obtain b s' where l: "mpsExchange (unat c) (s, ?d) = Ok (b, s')" "b \<in> {0, 1}" "stats_ok s'" "length (mps s') = n"
          using ex m reads qes by (cases "?a < v") (auto simp: mpsExchange_def)
        have "DecodeBit ops sd = after_renormalize ops b s' ?d"
          using False True l(1) unfolding sd DecodeBit_def by (simp add: start Let_def)
        moreover have "?a < 0x8000" using True top_bit [OF small(1)] by simp
        ultimately show ?thesis using renorm [of ?d b s'] small l by (auto simp: state_ok_def)
      next
        case top: False
        have "DecodeBit ops sd = Some (Ok (uint m), s, ?d)"
          using False top reads(2) unfolding sd DecodeBit_def by (simp add: start Let_def)
        moreover have "decoder_ok ?d" using top top_bit [OF small(1)] small ct by (simp add: decoder_ok_def)
        ultimately show ?thesis using m(1) s d(2) by (auto simp: state_ok_def)
      qed
    qed
  qed
qed

section \<open>Integers and ids\<close>

lemma or_bit: "b \<in> {0, 1} \<Longrightarrow> push_bit 1 v OR b = v * 2 + b" for v b :: int
proof -
  assume "b \<in> {0, 1}"
  moreover have "push_bit 1 v OR b = push_bit 1 v + b"
    by (rule disjunctive_add_eq_or [symmetric]) (use calculation in \<open>auto simp: push_bit_eq_mult and_one_eq\<close>)
  ultimately show ?thesis by (simp add: push_bit_eq_mult)
qed

lemma next_previous_range: "0 \<le> next_previous p b \<and> next_previous p b < 512"
proof -
  have "0 \<le> x AND 511 \<and> x AND 511 < 512" for x :: int
    using take_bit_nonnegative [of 9 x] take_bit_int_less_exp [of 9 x] by (simp add: take_bit_eq_mask mask_eq_exp_minus_1)
  then show ?thesis by (simp add: next_previous_def)
qed

definition int_ok :: "nat \<Rightarrow> stats \<times> 'w decoder \<Rightarrow> bool" where
  "int_ok n sd \<longleftrightarrow> state_ok n sd \<and> 512 \<le> n \<and> 0 \<le> previous (snd sd) \<and> previous (snd sd) < 512"

lemma state_ok_simps [simp]:
  "state_ok n (SetIndex i s, d) = state_ok n (s, d)" "state_ok n (s, d\<lparr>previous := p\<rparr>) = state_ok n (s, d)"
  by (simp_all add: state_ok_def stats_ok_def decoder_ok_def SetIndex_def)

lemma decodeIntBit_safe: "safe (int_ok n) (decodeIntBit ops) (\<lambda>b sd. int_ok n sd \<and> b \<in> {0, 1})"
proof -
  have "\<exists>res sd'. decodeIntBit ops (s, d) = Some (res, sd') \<and> res \<noteq> Panic \<and> (\<forall>x. res = Ok x \<longrightarrow> int_ok n sd' \<and> x \<in> {0, 1})"
    if ok: "int_ok n (s, d)" for s d
  proof -
    let ?sd = "(SetIndex (previous d) s, d)"
    from ok have "state_ok n ?sd \<and> 0 \<le> index (fst ?sd) \<and> nat (index (fst ?sd)) < n \<and> previous (snd ?sd) = previous d"
      by (simp add: int_ok_def) (simp add: SetIndex_def nat_less_iff)
    then obtain res s' d' where "DecodeBit ops ?sd = Some (res, s', d')" "res \<noteq> Panic"
      "\<forall>x. res = Ok x \<longrightarrow> state_ok n (s', d') \<and> x \<in> {0, 1} \<and> previous d' = previous d"
      using DecodeBit_safe [of n "previous d" ops] unfolding safe_def by (metis snd_conv surj_pair)
    then show ?thesis using ok next_previous_range
      by (cases res) (auto simp: decodeIntBit_def then_decode_def int_ok_def)
  qed
  then show ?thesis by (auto simp: safe_def)
qed

lemma int_prefix_safe:
  "safe (int_ok n) (int_prefix ops ps lst) (\<lambda>x sd. int_ok n sd \<and> x \<in> insert lst (set ps))"
proof (induction ps)
  case Nil
  show ?case by (simp add: safe_def)
next
  case (Cons p ps)
  have "safe (\<lambda>sd. int_ok n sd \<and> b \<in> {0, 1}) (if b = 1 then int_prefix ops ps lst else (\<lambda>sd. Some (Ok p, sd)))
      (\<lambda>x sd. int_ok n sd \<and> x \<in> insert lst (set (p # ps)))" for b
    using Cons.IH by (fastforce simp: safe_def)
  from safe_bind [OF decodeIntBit_safe this] show ?case by (simp add: safe_def)
qed

lemma int_bits_safe:
  "safe (\<lambda>sd. int_ok n sd \<and> 0 \<le> v \<and> v < 2 ^ j) (int_bits ops k v) (\<lambda>x sd. int_ok n sd \<and> 0 \<le> x \<and> x < 2 ^ (j + k))"
proof (induction k arbitrary: v j)
  case 0
  show ?case by (simp add: safe_def)
next
  case (Suc k)
  have rest: "safe (\<lambda>sd. int_ok n sd \<and> b \<in> {0, 1} \<and> 0 \<le> v \<and> v < 2 ^ j) (int_bits ops k (push_bit 1 v OR b))
      (\<lambda>x sd. int_ok n sd \<and> 0 \<le> x \<and> x < 2 ^ (j + Suc k))" for b
    using Suc.IH [of "push_bit 1 v OR b" "Suc j"] or_bit [of b v] by (auto simp: safe_def)
  have first: "safe (\<lambda>sd. int_ok n sd \<and> 0 \<le> v \<and> v < 2 ^ j) (decodeIntBit ops)
      (\<lambda>b sd. int_ok n sd \<and> b \<in> {0, 1} \<and> 0 \<le> v \<and> v < 2 ^ j)"
    using decodeIntBit_safe [of n ops] by (force simp: safe_def)
  from safe_bind [OF first rest] show ?case by (simp add: safe_def)
qed

definition int_bound :: int where
  "int_bound = 2 ^ 32 + 4436"

lemma DecodeInt_safe:
  "safe (\<lambda>sd. state_ok n sd \<and> 512 \<le> n) (DecodeInt ops) (\<lambda>v sd. state_ok n sd \<and> (v = MaxInt \<or> \<bar>v\<bar> < int_bound))"
proof -
  let ?ps = "[(2, 0), (4, 4), (6, 20), (8, 84), (12, 340)] :: (nat \<times> int) list"
  let ?result = "\<lambda>sign off value sd. let value = value + off
        in Some (Ok (if sign = 0 then value else if sign = 1 \<and> value > 0 then - value else MaxInt), sd)"
  have bits: "safe (\<lambda>sd. int_ok n sd \<and> x \<in> insert (32, 4436) (set ?ps))
      (case x of (k, off) \<Rightarrow> then_decode (int_bits ops k 0) (?result sign off))
      (\<lambda>v sd. state_ok n sd \<and> (v = MaxInt \<or> \<bar>v\<bar> < int_bound))" for x :: "nat \<times> int" and sign :: int
  proof (cases x)
    case (Pair k off)
    show ?thesis
    proof (cases "x \<in> insert (32, 4436) (set ?ps)")
      case True
      then have k: "(2 :: int) ^ k \<le> 2 ^ 32" "0 \<le> off" "off \<le> 4436" unfolding Pair by auto
      have "safe (int_ok n) (int_bits ops k 0) (\<lambda>v sd. int_ok n sd \<and> 0 \<le> v \<and> v < 2 ^ k)"
        using int_bits_safe [of n 0 0 ops k] by (simp add: safe_def)
      moreover have "safe (\<lambda>sd. int_ok n sd \<and> 0 \<le> v \<and> v < 2 ^ k) (?result sign off v)
          (\<lambda>v sd. state_ok n sd \<and> (v = MaxInt \<or> \<bar>v\<bar> < int_bound))" for v
        using k by (auto simp: safe_def Let_def int_ok_def int_bound_def)
      ultimately have "safe (int_ok n) (then_decode (int_bits ops k 0) (?result sign off))
          (\<lambda>v sd. state_ok n sd \<and> (v = MaxInt \<or> \<bar>v\<bar> < int_bound))" by (rule safe_bind)
      then show ?thesis by (simp add: safe_def Pair)
    qed (auto simp: safe_def)
  qed
  have prefix: "safe (\<lambda>sd. int_ok n sd \<and> sign \<in> {0, 1})
      (then_decode (int_prefix ops ?ps (32, 4436)) (\<lambda>x. case x of (k, off) \<Rightarrow> then_decode (int_bits ops k 0) (?result sign off)))
      (\<lambda>v sd. state_ok n sd \<and> (v = MaxInt \<or> \<bar>v\<bar> < int_bound))" for sign :: int
    by (rule safe_pre [OF safe_bind [OF int_prefix_safe bits]]) simp
  have "safe (int_ok n) (then_decode (decodeIntBit ops) (\<lambda>sign.
      then_decode (int_prefix ops ?ps (32, 4436)) (\<lambda>x. case x of (k, off) \<Rightarrow> then_decode (int_bits ops k 0) (?result sign off))))
      (\<lambda>v sd. state_ok n sd \<and> (v = MaxInt \<or> \<bar>v\<bar> < int_bound))"
    by (rule safe_bind [OF decodeIntBit_safe prefix])
  then have main: "\<exists>res sd'. DecodeInt ops (s, d) = Some (res, sd') \<and> res \<noteq> Panic \<and>
      (\<forall>v. res = Ok v \<longrightarrow> state_ok n sd' \<and> (v = MaxInt \<or> \<bar>v\<bar> < int_bound))"
    if "int_ok n (s, d\<lparr>previous := 1\<rparr>)" for s d
    using that unfolding safe_def DecodeInt_def prod.case by blast
  show ?thesis
    unfolding safe_def split_paired_All by (intro allI impI main) (simp add: int_ok_def)
qed

lemma id_bits_safe:
  "safe (\<lambda>sd. state_ok n sd \<and> 2 ^ (j + k) \<le> n \<and> 2 ^ j \<le> previous (snd sd) \<and> previous (snd sd) < 2 ^ Suc j)
    (id_bits ops k) (\<lambda>_ sd. state_ok n sd \<and> 2 ^ (j + k) \<le> previous (snd sd) \<and> previous (snd sd) < 2 ^ Suc (j + k))"
proof (induction k arbitrary: j)
  case 0
  show ?case by (simp add: safe_def)
next
  case (Suc k)
  have "\<exists>res sd'. id_bits ops (Suc k) (s, d) = Some (res, sd') \<and> res \<noteq> Panic \<and> (res = Ok () \<longrightarrow>
      state_ok n sd' \<and> 2 ^ (j + Suc k) \<le> previous (snd sd') \<and> previous (snd sd') < 2 ^ Suc (j + Suc k))"
    if ok: "state_ok n (s, d)" "2 ^ (j + Suc k) \<le> n" "2 ^ j \<le> previous d" "previous d < 2 ^ Suc j" for s d
  proof -
    let ?sd = "(SetIndex (previous d) s, d)"
    have pos: "0 \<le> previous d" using ok(3) by (meson order_trans zero_le_numeral zero_le_power)
    have "(2 :: int) ^ Suc j \<le> 2 ^ (j + Suc k)" by (rule power_increasing) simp_all
    with ok(4) have "previous d < 2 ^ (j + Suc k)" by (rule less_le_trans)
    also have "(2 :: int) ^ (j + Suc k) \<le> int n" using ok(2) by (metis of_nat_le_iff of_nat_numeral of_nat_power)
    finally have "nat (previous d) < n" using pos by (simp add: nat_less_iff)
    moreover note pos
    ultimately have "state_ok n ?sd \<and> 0 \<le> index (fst ?sd) \<and> nat (index (fst ?sd)) < n \<and> previous (snd ?sd) = previous d"
      using ok(1) by simp (simp add: SetIndex_def)
    then obtain res s' d' where bit: "DecodeBit ops ?sd = Some (res, s', d')" "res \<noteq> Panic"
      "\<forall>x. res = Ok x \<longrightarrow> state_ok n (s', d') \<and> x \<in> {0, 1} \<and> previous d' = previous d"
      using DecodeBit_safe [of n "previous d" ops] unfolding safe_def by (metis snd_conv surj_pair)
    show ?thesis
    proof (cases res)
      case (Ok b)
      let ?d = "d'\<lparr>previous := push_bit 1 (previous d') OR b\<rparr>"
      from bit(3) Ok have b: "state_ok n (s', d')" "b \<in> {0, 1}" "previous d' = previous d" by auto
      then have "push_bit 1 (previous d') OR b = previous d * 2 + b" using or_bit by simp
      with b ok have "state_ok n (s', ?d) \<and> 2 ^ (Suc j + k) \<le> n \<and> 2 ^ Suc j \<le> previous (snd (s', ?d)) \<and> previous (snd (s', ?d)) < 2 ^ Suc (Suc j)"
        by auto
      with Suc.IH [of "Suc j"] obtain res' sd' where "id_bits ops k (s', ?d) = Some (res', sd')" "res' \<noteq> Panic"
        "res' = Ok () \<longrightarrow> state_ok n sd' \<and> 2 ^ (Suc j + k) \<le> previous (snd sd') \<and> previous (snd sd') < 2 ^ Suc (Suc j + k)"
        unfolding safe_def by blast
      with bit(1) Ok show ?thesis by (simp add: then_decode_def)
    qed (use bit in \<open>simp_all add: then_decode_def\<close>)
  qed
  then show ?case by (auto simp: safe_def)
qed

section \<open>Properties\<close>

text \<open>C36: Decoding of a bit returns and does not panic, and keeps the registers and the contexts in their ranges.\<close>

theorem arith_bit_safe:
  assumes "state_ok n (s, d)" "0 \<le> index s" "nat (index s) < n"
  shows "\<exists>res s' d'. DecodeBit ops (s, d) = Some (res, s', d') \<and> res \<noteq> Panic \<and>
    (\<forall>b. res = Ok b \<longrightarrow> (b = 0 \<or> b = 1) \<and> state_ok n (s', d'))"
proof -
  have "state_ok n (s, d) \<and> 0 \<le> index (fst (s, d)) \<and> nat (index (fst (s, d))) < n \<and> previous (snd (s, d)) = previous d"
    using assms by simp
  with DecodeBit_safe [of n "previous d" ops] obtain res sd' where
    "DecodeBit ops (s, d) = Some (res, sd')" "res \<noteq> Panic" "\<forall>x. res = Ok x \<longrightarrow> state_ok n sd' \<and> x \<in> {0, 1}"
    unfolding safe_def by blast
  then show ?thesis by (cases sd') auto
qed

text \<open>C37: DecodeInt on at least 512 contexts returns and does not panic; its result is the out-of-band value, or a number
  whose absolute value is below 2^32 + 4436. DecodeIAID on enough contexts returns an id of the given number
  of bits.\<close>

theorem arith_numbers_safe:
  assumes "state_ok n (s, d)"
  shows "(512 \<le> n \<longrightarrow> (\<exists>res s' d'. DecodeInt ops (s, d) = Some (res, s', d') \<and> res \<noteq> Panic \<and>
      (\<forall>v. res = Ok v \<longrightarrow> v = MaxInt \<or> \<bar>v\<bar> < 2 ^ 32 + 4436))) \<and>
    (2 ^ codeLen \<le> n \<longrightarrow> (\<exists>res s' d'. DecodeIAID ops codeLen (s, d) = Some (res, s', d') \<and> res \<noteq> Panic \<and>
      (\<forall>v. res = Ok v \<longrightarrow> 0 \<le> v \<and> v < 2 ^ codeLen)))"
proof (intro conjI impI)
  assume "512 \<le> n"
  with DecodeInt_safe [of n ops] assms show "\<exists>res s' d'. DecodeInt ops (s, d) = Some (res, s', d') \<and> res \<noteq> Panic \<and>
      (\<forall>v. res = Ok v \<longrightarrow> v = MaxInt \<or> \<bar>v\<bar> < 2 ^ 32 + 4436)"
    unfolding safe_def split_paired_All split_paired_Ex int_bound_def by blast
next
  assume n: "2 ^ codeLen \<le> n"
  let ?sd = "(s, d\<lparr>previous := 1\<rparr>)"
  have "state_ok n ?sd \<and> 2 ^ (0 + codeLen) \<le> n \<and> 2 ^ 0 \<le> previous (snd ?sd) \<and> previous (snd ?sd) < 2 ^ Suc 0"
    using assms n by simp
  with id_bits_safe [of n 0 codeLen ops] obtain res sd' where
    "id_bits ops codeLen ?sd = Some (res, sd')" "res \<noteq> Panic"
    "\<forall>x. res = Ok x \<longrightarrow> 2 ^ (0 + codeLen) \<le> previous (snd sd') \<and> previous (snd sd') < 2 ^ Suc (0 + codeLen)"
    unfolding safe_def by blast
  then show "\<exists>res s' d'. DecodeIAID ops codeLen (s, d) = Some (res, s', d') \<and> res \<noteq> Panic \<and>
      (\<forall>v. res = Ok v \<longrightarrow> 0 \<le> v \<and> v < 2 ^ codeLen)"
    by (cases res; cases sd') (auto simp: DecodeIAID_def then_decode_def push_bit_eq_mult)
qed

lemma new_state_ok:
  assumes "NewDecoder ops w = (Ok (), d)"
  shows "state_ok n (NewStats n i, d)"
proof -
  obtain b d1 d2 where d2: "readByte ops d1 = (Ok (), d2)" and d: "reg_a d = 0x8000" "reg_ct d = reg_ct d2 - 7"
    using assms unfolding NewDecoder_def init_def next_byte_def Let_def
    by (auto split: prod.splits sum.splits res.splits)
  from readByte_ok [OF d2] d have "decoder_ok d" by (auto simp: decoder_ok_def)
  then show ?thesis by (simp add: state_ok_def stats_ok_def NewStats_def)
qed

lemma test_decoder: "\<exists>d. NewDecoder reader_byte_ops (New [0x84, 0xC7, 0x3B]) = (Ok (), d)"
proof -
  have "fst (NewDecoder reader_byte_ops (New [0x84, 0xC7, 0x3B])) = Ok ()" by code_simp
  then show ?thesis by (metis prod.collapse)
qed

theorem arith_bit_safe_witness:
  "\<exists>d res s' d'. NewDecoder reader_byte_ops (New [0x84, 0xC7, 0x3B]) = (Ok (), d) \<and>
    DecodeBit reader_byte_ops (NewStats 512 0, d) = Some (res, s', d') \<and> res \<noteq> Panic"
proof -
  obtain d where d: "NewDecoder reader_byte_ops (New [0x84, 0xC7, 0x3B]) = (Ok (), d)" using test_decoder by blast
  from arith_bit_safe [OF new_state_ok [OF d, of 512 0], of reader_byte_ops] d show ?thesis by (auto simp: NewStats_def)
qed

theorem arith_numbers_safe_witness:
  "\<exists>d. NewDecoder reader_byte_ops (New [0x84, 0xC7, 0x3B]) = (Ok (), d) \<and>
    (\<exists>res sd'. DecodeInt reader_byte_ops (NewStats 512 0, d) = Some (res, sd') \<and> res \<noteq> Panic) \<and>
    (\<exists>res sd'. DecodeIAID reader_byte_ops 8 (NewStats 512 0, d) = Some (res, sd') \<and> res \<noteq> Panic)"
proof -
  obtain d where d: "NewDecoder reader_byte_ops (New [0x84, 0xC7, 0x3B]) = (Ok (), d)" using test_decoder by blast
  from arith_numbers_safe [OF new_state_ok [OF d, of 512 0], of reader_byte_ops 8] d show ?thesis by auto
qed

text \<open>A copy of contexts has no symbols: decoding with it panics.\<close>

lemma arith_copy_panics:
  assumes "stats_ok s" "contextSize s = length (codingContextTable s)" "codingContextTable s \<noteq> []"
  shows "\<exists>s' sd. stats_Copy s = Ok s' \<and> DecodeBit ops (s', d) = Some (Panic, sd)"
proof -
  obtain c cs where t: "codingContextTable s = c # cs" using assms(3) by (cases "codingContextTable s") auto
  then have c: "unat c < 47" using assms(1) by (auto simp: stats_ok_def byte_less_47)
  obtain v nmps nlps switch where q: "qe ! unat c = (v, nmps, nlps, switch)" using qe_nth [OF c] by blast
  let ?s = "\<lparr>index = 0, contextSize = contextSize s, codingContextTable = c # cs, mps = []\<rparr>"
  have "stats_Copy s = Ok ?s" using assms(2) by (simp add: stats_Copy_def t)
  moreover have "index_at qe (int (unat c)) = (Ok (v, nmps, nlps, switch) :: (reader_error, _) res)"
    using index_at_int [of "int (unat c)" qe] c q by simp
  then have "index_at qe (uint c) = (Ok (v, nmps, nlps, switch) :: (reader_error, _) res)" by simp
  then have "\<exists>sd. DecodeBit ops (?s, d) = Some (Panic, sd)"
    by (simp add: DecodeBit_def cx_def index_at_def lpsExchange_def mpsExchange_def getMps_def Let_def)
  ultimately show ?thesis by blast
qed

end
