(* ===== verification/Bit_Properties.thy ===== *)
theory Bit_Properties
  imports Bit_Streams
begin

text \<open>
  Properties of the bit readers: a reader delivers consecutive fields of the bit string of its bytes, a buffered window
  of a reader delivers what a reader over a copy of the window's bytes delivers, and \<open>Reset\<close> undoes any
  operations after a \<open>Mark\<close> at a byte boundary; with the inputs on which the code does not do what it says.
\<close>

section \<open>Fields\<close>

text \<open>C28: Consecutive calls of ReadBits on a new Reader return the consecutive fields of the input's bits, and
  io.EOF at the first field that is longer than what is left.\<close>

theorem reader_cuts_bits: "0 \<notin> set ns \<Longrightarrow> read_fields slice_byte ns (New data) = cut_fields ns (bits data)"
  using slice_source.read_fields_spec [of "New data" ns]
  by (simp add: slice_source.ok_def slice_source.unread_def cache_ok_def cached_def New_def slice_left_def)

theorem reader_cuts_bits_witness:
  "read_fields slice_byte [4, 12, 9] (New [0xAB, 0xCD, 0xEF]) = ([0xA, 0xBCD], Some EOF)"
proof -
  have "bits [0xAB, 0xCD, 0xEF :: u8] = map (\<lambda>d. d = (1 :: nat)) [1,0,1,0, 1,0,1,1, 1,1,0,0, 1,1,0,1, 1,1,1,0, 1,1,1,1]"
    by (simp add: word_bits_def upt_rec)
  then show ?thesis using reader_cuts_bits [of "[4, 12, 9]" "[0xAB, 0xCD, 0xEF]"] by (simp add: bits_value_def)
qed

lemma new_window:
  assumes "reader_inv w" "int off + int len < 2 ^ 63"
  shows "windows.ok (reader.window_content (source (NewSubstreamReader w off len))) len (NewSubstreamReader w off len)"
    and "windows.unread (NewSubstreamReader w off len) = bits (take len (drop off (inp (source w))))"
  using assms
  by (simp_all add: windows.ok_def windows.unread_def cache_ok_def cached_def NewSubstreamReader_def
      reader.window_ok_def reader.window_inv_def reader.window_left_def reader.window_content_def)

text \<open>C29: A SubstreamReader over a window of a Reader delivers the fields and errors of a Reader over a copy of the
  bytes of the window, wherever the wrapped Reader stands.\<close>

theorem substream_is_reader:
  assumes "0 \<notin> set ns" "reader_inv w" "int off + int len < 2 ^ 63"
  shows "read_fields (window_byte reader_ops) ns (NewSubstreamReader w off len) =
    read_fields slice_byte ns (New (take len (drop off (inp (source w)))))"
  unfolding windows.read_fields_spec [OF new_window(1) [OF assms(2,3)] assms(1)] new_window(2) [OF assms(2,3)]
  using slice_source.read_fields_spec [of "New _" ns] assms(1)
  by (simp add: slice_source.ok_def slice_source.unread_def cache_ok_def cached_def New_def slice_left_def)

theorem substream_is_reader_witness:
  "read_fields (window_byte reader_ops) [4, 8, 4] (NewSubstreamReader (New [1, 0x23, 0x45, 6]) 1 2) =
    read_fields slice_byte [4, 8, 4] (New [0x23, 0x45])"
  using substream_is_reader [of "[4, 8, 4]" "New [1, 0x23, 0x45, 6]" 1 2] by (simp add: reader_inv_def New_def)

section \<open>Mark and Reset\<close>

inductive reader_step :: "reader \<Rightarrow> reader \<Rightarrow> bool" where
  step_bits: "reader_step r (snd (ReadBits slice_byte n r))"
| step_byte: "reader_step r (snd (ReadByte slice_byte r))"
| step_bit: "reader_step r (snd (ReadBit slice_byte r))"
| step_read: "reader_step r (snd (Reader_Read n r))"
| step_uint: "reader_step r (snd (ReadUnsignedInt r))"
| step_align: "reader_step r (snd (Align r))"
| step_consume: "reader_step r (ConsumeRemainingBits slice_byte r)"
| step_seek: "reader_step r (snd (Reader_Seek off whence r))"
| step_reset: "reader_step r (Reader_Reset r)"

definition marked :: "reader \<Rightarrow> u8 list \<times> int \<times> nat" where
  "marked r = (inp (source r), mark r, markBits r)"

lemma slice_byte_inp: "slice_byte s = (b, s') \<Longrightarrow> inp s' = inp s"
  by (auto simp: slice_byte_def split: if_splits)

lemma slice_read_inp: "slice_read n s = (b, s') \<Longrightarrow> inp s' = inp s"
  by (auto simp: slice_read_def Let_def split: if_splits)

lemma whole_bytes_inp: "whole_bytes slice_byte n u s = (x, s') \<Longrightarrow> inp s' = inp s"
proof (induction n arbitrary: u s rule: less_induct)
  case (less n)
  show ?case
  proof (cases "n < 8")
    case True
    with less.prems show ?thesis by (simp add: whole_bytes.simps)
  next
    case False
    obtain b s1 where b: "slice_byte s = (b, s1)" by fastforce
    have "inp s' = inp s1" if "b = Inr c" for c
      using less.IH [of "n - 8" "push_bit 8 u + ucast c" s1] less.prems False that b
      by (simp add: whole_bytes.simps [of _ n])
    then show ?thesis using less.prems False b slice_byte_inp [OF b]
      by (cases b) (auto simp: whole_bytes.simps [of _ n])
  qed
qed

lemma readUnalignedByte_marked: "marked (snd (readUnalignedByte slice_byte r)) = marked r"
  by (auto simp: readUnalignedByte_def marked_def Let_def split: prod.splits sum.splits dest!: slice_byte_inp)

lemma ReadBits_marked: "marked (snd (ReadBits slice_byte n r)) = marked r"
  by (auto simp: ReadBits_def marked_def Let_def split: prod.splits sum.splits dest!: slice_byte_inp whole_bytes_inp)

lemma read_unaligned_marked: "marked (snd (read_unaligned slice_byte n r)) = marked r"
proof (induction n arbitrary: r)
  case (Suc n)
  obtain b r1 where b: "readUnalignedByte slice_byte r = (b, r1)" by fastforce
  with readUnalignedByte_marked [of r] have "marked r1 = marked r" by simp
  with b Suc.IH [of r1] show ?case by (auto split: sum.splits prod.splits)
qed simp

lemma Reader_Read_marked: "marked (snd (Reader_Read n r)) = marked r"
proof (cases "unread_bits r = 0")
  case True
  then show ?thesis by (auto simp: Reader_Read_def marked_def split: prod.splits dest: slice_read_inp)
qed (simp add: Reader_Read_def read_unaligned_marked)

lemma ReadByte_marked: "marked (snd (ReadByte slice_byte r)) = marked r"
proof (cases "unread_bits r = 0")
  case True
  then show ?thesis by (auto simp: ReadByte_def marked_def split: prod.splits dest: slice_byte_inp)
qed (simp add: ReadByte_def readUnalignedByte_marked)

lemma ReadBit_marked: "marked (snd (ReadBit slice_byte r)) = marked r"
  by (cases "slice_byte (source r)"; cases "fst (slice_byte (source r))")
     (auto simp: ReadBit_def readBool_def marked_def Let_def dest: slice_byte_inp)

lemma ReadUnsignedInt_marked: "marked (snd (ReadUnsignedInt r)) = marked r"
  using Reader_Read_marked [of 4 r] by (auto simp: ReadUnsignedInt_def split: prod.splits option.splits)

lemma reader_step_marked: "reader_step r r' \<Longrightarrow> marked r' = marked r"
  by (induction rule: reader_step.induct)
     (auto simp: ReadBits_marked ReadByte_marked ReadBit_marked Reader_Read_marked ReadUnsignedInt_marked
        ConsumeRemainingBits_def, auto simp: Align_def Reader_Seek_def Reader_Reset_def marked_def Let_def)

text \<open>C30: A Mark at a byte boundary, then any operations of the reader but another Mark, then Reset: the reader delivers
  what it would have delivered at the Mark.\<close>

theorem Reset_restores:
  assumes "slice_source.ok r" "unread_bits r = 0" "reader_step\<^sup>*\<^sup>* (Reader_Mark r) r'"
  shows "slice_source.ok (Reader_Reset r') \<and> slice_source.unread (Reader_Reset r') = slice_source.unread r"
proof -
  from assms(3) have "marked r' = marked (Reader_Mark r)"
    by (induction rule: rtranclp_induct) (auto dest: reader_step_marked)
  with assms(1,2) show ?thesis
    by (auto simp: marked_def Reader_Mark_def Reader_Reset_def slice_source.ok_def cache_ok_def slice_left_def)
qed

theorem Reset_restores_witness:
  "slice_source.unread (Reader_Reset (snd (ReadBits slice_byte 12 (Reader_Mark (New [1, 2, 3]))))) = bits [1, 2, 3]"
  using Reset_restores [of "New [1, 2, 3]" "snd (ReadBits slice_byte 12 (Reader_Mark (New [1, 2, 3])))"]
    r_into_rtranclp [of reader_step, OF step_bits [of "Reader_Mark (New [1, 2, 3])" 12]]
  by (simp add: New_def slice_source.ok_def cache_ok_def slice_left_def)

text \<open>Inside a byte, Reset brings back the number of unread bits but not the bits.\<close>

lemma Reset_loses_bits:
  "let r = snd (ReadBits slice_byte 4 (New [0x0F, 0xAB]));
       r' = snd (ReadBits slice_byte 4 (snd (ReadBits slice_byte 4 (Reader_Mark r))))
   in fst (ReadBits slice_byte 4 r) = Inr 0xF \<and> fst (ReadBits slice_byte 4 (Reader_Reset r')) = Inr 0xB"
  by (simp add: New_def ReadBits_def slice_byte_def Reader_Mark_def Reader_Reset_def low_bits_def whole_bytes.simps)

section \<open>Errors\<close>

text \<open>ReadBits and ReadByte of a Reader return io.EOF exactly when fewer bits are left than they need.\<close>

theorem reader_errors:
  assumes "slice_source.ok r"
  shows "(0 < n \<longrightarrow> (fst (ReadBits slice_byte n r) = Inl EOF \<longleftrightarrow> length (slice_source.unread r) < n)) \<and>
    (fst (ReadByte slice_byte r) = Inl EOF \<longleftrightarrow> length (slice_source.unread r) < 8) \<and>
    (fst (ReadBit slice_byte r) = Inl EOF \<longleftrightarrow> slice_source.unread r = [])"
proof (intro conjI impI)
  show "0 < n \<Longrightarrow> fst (ReadBits slice_byte n r) = Inl EOF \<longleftrightarrow> length (slice_source.unread r) < n"
    using slice_source.ReadBits_spec [OF assms, of n] slice_source.ReadBits_at_end [OF assms, of n]
    by (cases "length (slice_source.unread r) < n") auto
  show "fst (ReadByte slice_byte r) = Inl EOF \<longleftrightarrow> length (slice_source.unread r) < 8"
    using slice_source.ReadByte_spec [OF assms] slice_source.ReadByte_at_end [OF assms]
    by (cases "length (slice_source.unread r) < 8") auto
  show "fst (ReadBit slice_byte r) = Inl EOF \<longleftrightarrow> slice_source.unread r = []"
    using slice_source.readBool_spec [OF assms] slice_source.readBool_at_end [OF assms]
    by (cases "slice_source.unread r") (fastforce simp: ReadBit_def split: prod.splits)+
qed

theorem reader_errors_witness:
  "fst (ReadBits slice_byte 17 (New [1, 2])) = Inl EOF \<and> fst (ReadByte slice_byte (New [])) = Inl EOF"
  using reader_errors [of "New [1, 2]" 17] reader_errors [of "New []" 1]
  by (simp add: New_def slice_source.ok_def cache_ok_def slice_left_def)

text \<open>ReadUnsignedInt near the end returns the bytes that are left, padded with zeros, without an error.\<close>

lemma ReadUnsignedInt_pads: "fst (ReadUnsignedInt (New [b])) = Inr (big_endian [b, 0, 0, 0])"
  by (simp add: ReadUnsignedInt_def Reader_Read_def slice_read_def New_def Let_def eval_nat_numeral split: prod.splits)

text \<open>ReadBits(0) at a byte boundary returns the old cache.\<close>

lemma ReadBits_zero_stale: "fst (ReadBits slice_byte 0 (snd (ReadBits slice_byte 4 (snd (ReadBits slice_byte 4 (New [0xAB])))))) = Inr 0xB"
  by (simp add: New_def ReadBits_def slice_byte_def low_bits_def whole_bytes.simps)

text \<open>Seek of a SubstreamReader takes a negative position as a large one, and moves there.\<close>

lemma Substream_Seek_negative: "fst (Substream_Seek (-1) 0 (NewSubstreamReader w off len)) = Inr (-1)"
  by (simp add: Substream_Seek_def to_int64_def to_uint64_def)

end
