(* ===== verification/Ccitt_Codes.thy ===== *)
theory Ccitt_Codes
  imports Go_Prelude
begin

text \<open>
  The code tables of \<open>pdf/internal/ccittfax/codes.go\<close>: a code is a bit sequence held in the
  upper bits of a \<open>uint16\<close>, with its length. The Go maps from run lengths to codes become
  association lists in the order of the assignments; reading a Go map at a missing key gives
  the zero value of the element type (\<open>code_at\<close>).
\<close>

section \<open>Codes\<close>

record code =
  Code :: u16
  BitsWritten :: nat

abbreviation mk_code :: "u16 \<Rightarrow> nat \<Rightarrow> code" where
  "mk_code c n \<equiv> \<lparr>Code = c, BitsWritten = n\<rparr>"

definition eol :: code where "eol = mk_code (push_bit 4 1) 12"
definition eol1 :: code where "eol1 = mk_code (push_bit 3 3) 13"
definition eol0 :: code where "eol0 = mk_code (push_bit 3 2) 13"
definition p_code :: code where "p_code = mk_code (push_bit 12 1) 4"
definition h_code :: code where "h_code = mk_code (push_bit 13 1) 3"
definition v0 :: code where "v0 = mk_code (push_bit 15 1) 1"
definition v1r :: code where "v1r = mk_code (push_bit 13 3) 3"
definition v2r :: code where "v2r = mk_code (push_bit 10 3) 6"
definition v3r :: code where "v3r = mk_code (push_bit 9 3) 7"
definition v1l :: code where "v1l = mk_code (push_bit 13 2) 3"
definition v2l :: code where "v2l = mk_code (push_bit 10 2) 6"
definition v3l :: code where "v3l = mk_code (push_bit 9 2) 7"

lemmas mode_code_defs = p_code_def h_code_def v0_def v1r_def v2r_def v3r_def v1l_def v2l_def v3l_def
lemmas eol_defs = eol_def eol1_def eol0_def

section \<open>The tables\<close>

definition bTerms_0_21 :: "(int \<times> code) list" where
  "bTerms_0_21 = [
    (0, mk_code (push_bit 8 13 OR push_bit 6 3) 10),
    (1, mk_code (push_bit (5 + 8) 2) 3),
    (2, mk_code (push_bit (6 + 8) 3) 2),
    (3, mk_code (push_bit (6 + 8) 2) 2),
    (4, mk_code (push_bit (5 + 8) 3) 3),
    (5, mk_code (push_bit (4 + 8) 3) 4),
    (6, mk_code (push_bit (4 + 8) 2) 4),
    (7, mk_code (push_bit (3 + 8) 3) 5),
    (8, mk_code (push_bit (2 + 8) 5) 6),
    (9, mk_code (push_bit (2 + 8) 4) 6),
    (10, mk_code (push_bit (1 + 8) 4) 7),
    (11, mk_code (push_bit (1 + 8) 5) 7),
    (12, mk_code (push_bit (1 + 8) 7) 7),
    (13, mk_code (push_bit 8 4) 8),
    (14, mk_code (push_bit 8 7) 8),
    (15, mk_code (push_bit 8 12) 9),
    (16, mk_code (push_bit 8 5 OR push_bit 6 3) 10),
    (17, mk_code (push_bit 8 6) 10),
    (18, mk_code (push_bit 8 2) 10),
    (19, mk_code (push_bit 8 12 OR push_bit 5 7) 11),
    (20, mk_code (push_bit 8 13) 11),
    (21, mk_code (push_bit 8 13 OR push_bit 5 4) 11)]"

definition bTerms_22_43 :: "(int \<times> code) list" where
  "bTerms_22_43 = [
    (22, mk_code (push_bit 8 6 OR push_bit 5 7) 11),
    (23, mk_code (push_bit 8 5) 11),
    (24, mk_code (push_bit 8 2 OR push_bit 5 7) 11),
    (25, mk_code (push_bit 8 3) 11),
    (26, mk_code (push_bit 8 12 OR push_bit 4 10) 12),
    (27, mk_code (push_bit 8 12 OR push_bit 4 11) 12),
    (28, mk_code (push_bit 8 12 OR push_bit 4 12) 12),
    (29, mk_code (push_bit 8 12 OR push_bit 4 13) 12),
    (30, mk_code (push_bit 8 6 OR push_bit 4 8) 12),
    (31, mk_code (push_bit 8 6 OR push_bit 4 9) 12),
    (32, mk_code (push_bit 8 6 OR push_bit 4 10) 12),
    (33, mk_code (push_bit 8 6 OR push_bit 4 11) 12),
    (34, mk_code (push_bit 8 13 OR push_bit 4 2) 12),
    (35, mk_code (push_bit 8 13 OR push_bit 4 3) 12),
    (36, mk_code (push_bit 8 13 OR push_bit 4 4) 12),
    (37, mk_code (push_bit 8 13 OR push_bit 4 5) 12),
    (38, mk_code (push_bit 8 13 OR push_bit 4 6) 12),
    (39, mk_code (push_bit 8 13 OR push_bit 4 7) 12),
    (40, mk_code (push_bit 8 6 OR push_bit 4 12) 12),
    (41, mk_code (push_bit 8 6 OR push_bit 4 13) 12),
    (42, mk_code (push_bit 8 13 OR push_bit 4 10) 12),
    (43, mk_code (push_bit 8 13 OR push_bit 4 11) 12)]"

definition bTerms_44_63 :: "(int \<times> code) list" where
  "bTerms_44_63 = [
    (44, mk_code (push_bit 8 5 OR push_bit 4 4) 12),
    (45, mk_code (push_bit 8 5 OR push_bit 4 5) 12),
    (46, mk_code (push_bit 8 5 OR push_bit 4 6) 12),
    (47, mk_code (push_bit 8 5 OR push_bit 4 7) 12),
    (48, mk_code (push_bit 8 6 OR push_bit 4 4) 12),
    (49, mk_code (push_bit 8 6 OR push_bit 4 5) 12),
    (50, mk_code (push_bit 8 5 OR push_bit 4 2) 12),
    (51, mk_code (push_bit 8 5 OR push_bit 4 3) 12),
    (52, mk_code (push_bit 8 2 OR push_bit 4 4) 12),
    (53, mk_code (push_bit 8 3 OR push_bit 4 7) 12),
    (54, mk_code (push_bit 8 3 OR push_bit 4 8) 12),
    (55, mk_code (push_bit 8 2 OR push_bit 4 7) 12),
    (56, mk_code (push_bit 8 2 OR push_bit 4 8) 12),
    (57, mk_code (push_bit 8 5 OR push_bit 4 8) 12),
    (58, mk_code (push_bit 8 5 OR push_bit 4 9) 12),
    (59, mk_code (push_bit 8 2 OR push_bit 4 11) 12),
    (60, mk_code (push_bit 8 2 OR push_bit 4 12) 12),
    (61, mk_code (push_bit 8 5 OR push_bit 4 10) 12),
    (62, mk_code (push_bit 8 6 OR push_bit 4 6) 12),
    (63, mk_code (push_bit 8 6 OR push_bit 4 7) 12)]"

definition bTerms :: "(int \<times> code) list" where
  "bTerms = bTerms_0_21 @ bTerms_22_43 @ bTerms_44_63"

definition wTerms_0_21 :: "(int \<times> code) list" where
  "wTerms_0_21 = [
    (0, mk_code (push_bit 8 53) 8),
    (1, mk_code (push_bit (2 + 8) 7) 6),
    (2, mk_code (push_bit (4 + 8) 7) 4),
    (3, mk_code (push_bit (4 + 8) 8) 4),
    (4, mk_code (push_bit (4 + 8) 11) 4),
    (5, mk_code (push_bit (4 + 8) 12) 4),
    (6, mk_code (push_bit (4 + 8) 14) 4),
    (7, mk_code (push_bit (4 + 8) 15) 4),
    (8, mk_code (push_bit (3 + 8) 19) 5),
    (9, mk_code (push_bit (3 + 8) 20) 5),
    (10, mk_code (push_bit (3 + 8) 7) 5),
    (11, mk_code (push_bit (3 + 8) 8) 5),
    (12, mk_code (push_bit (2 + 8) 8) 6),
    (13, mk_code (push_bit (2 + 8) 3) 6),
    (14, mk_code (push_bit (2 + 8) 52) 6),
    (15, mk_code (push_bit (2 + 8) 53) 6),
    (16, mk_code (push_bit (2 + 8) 42) 6),
    (17, mk_code (push_bit (2 + 8) 43) 6),
    (18, mk_code (push_bit (1 + 8) 39) 7),
    (19, mk_code (push_bit (1 + 8) 12) 7),
    (20, mk_code (push_bit (1 + 8) 8) 7),
    (21, mk_code (push_bit (1 + 8) 23) 7)]"

definition wTerms_22_43 :: "(int \<times> code) list" where
  "wTerms_22_43 = [
    (22, mk_code (push_bit (1 + 8) 3) 7),
    (23, mk_code (push_bit (1 + 8) 4) 7),
    (24, mk_code (push_bit (1 + 8) 40) 7),
    (25, mk_code (push_bit (1 + 8) 43) 7),
    (26, mk_code (push_bit (1 + 8) 19) 7),
    (27, mk_code (push_bit (1 + 8) 36) 7),
    (28, mk_code (push_bit (1 + 8) 24) 7),
    (29, mk_code (push_bit 8 2) 8),
    (30, mk_code (push_bit 8 3) 8),
    (31, mk_code (push_bit 8 26) 8),
    (32, mk_code (push_bit 8 27) 8),
    (33, mk_code (push_bit 8 18) 8),
    (34, mk_code (push_bit 8 19) 8),
    (35, mk_code (push_bit 8 20) 8),
    (36, mk_code (push_bit 8 21) 8),
    (37, mk_code (push_bit 8 22) 8),
    (38, mk_code (push_bit 8 23) 8),
    (39, mk_code (push_bit 8 40) 8),
    (40, mk_code (push_bit 8 41) 8),
    (41, mk_code (push_bit 8 42) 8),
    (42, mk_code (push_bit 8 43) 8),
    (43, mk_code (push_bit 8 44) 8)]"

definition wTerms_44_63 :: "(int \<times> code) list" where
  "wTerms_44_63 = [
    (44, mk_code (push_bit 8 45) 8),
    (45, mk_code (push_bit 8 4) 8),
    (46, mk_code (push_bit 8 5) 8),
    (47, mk_code (push_bit 8 10) 8),
    (48, mk_code (push_bit 8 11) 8),
    (49, mk_code (push_bit 8 82) 8),
    (50, mk_code (push_bit 8 83) 8),
    (51, mk_code (push_bit 8 84) 8),
    (52, mk_code (push_bit 8 85) 8),
    (53, mk_code (push_bit 8 36) 8),
    (54, mk_code (push_bit 8 37) 8),
    (55, mk_code (push_bit 8 88) 8),
    (56, mk_code (push_bit 8 89) 8),
    (57, mk_code (push_bit 8 90) 8),
    (58, mk_code (push_bit 8 91) 8),
    (59, mk_code (push_bit 8 74) 8),
    (60, mk_code (push_bit 8 75) 8),
    (61, mk_code (push_bit 8 50) 8),
    (62, mk_code (push_bit 8 51) 8),
    (63, mk_code (push_bit 8 52) 8)]"

definition wTerms :: "(int \<times> code) list" where
  "wTerms = wTerms_0_21 @ wTerms_22_43 @ wTerms_44_63"

definition bMakeups :: "(int \<times> code) list" where
  "bMakeups = [
    (64, mk_code (push_bit 8 3 OR push_bit 6 3) 10),
    (128, mk_code (push_bit 8 12 OR push_bit 4 8) 12),
    (192, mk_code (push_bit 8 12 OR push_bit 4 9) 12),
    (256, mk_code (push_bit 8 5 OR push_bit 4 11) 12),
    (320, mk_code (push_bit 8 3 OR push_bit 4 3) 12),
    (384, mk_code (push_bit 8 3 OR push_bit 4 4) 12),
    (448, mk_code (push_bit 8 3 OR push_bit 4 5) 12),
    (512, mk_code (push_bit 8 3 OR push_bit 3 12) 13),
    (576, mk_code (push_bit 8 3 OR push_bit 3 13) 13),
    (640, mk_code (push_bit 8 2 OR push_bit 3 10) 13),
    (704, mk_code (push_bit 8 2 OR push_bit 3 11) 13),
    (768, mk_code (push_bit 8 2 OR push_bit 3 12) 13),
    (832, mk_code (push_bit 8 2 OR push_bit 3 13) 13),
    (896, mk_code (push_bit 8 3 OR push_bit 3 18) 13),
    (960, mk_code (push_bit 8 3 OR push_bit 3 19) 13),
    (1024, mk_code (push_bit 8 3 OR push_bit 3 20) 13),
    (1088, mk_code (push_bit 8 3 OR push_bit 3 21) 13),
    (1152, mk_code (push_bit 8 3 OR push_bit 3 22) 13),
    (1216, mk_code (push_bit 3 119) 13),
    (1280, mk_code (push_bit 8 2 OR push_bit 3 18) 13),
    (1344, mk_code (push_bit 8 2 OR push_bit 3 19) 13),
    (1408, mk_code (push_bit 8 2 OR push_bit 3 20) 13),
    (1472, mk_code (push_bit 8 2 OR push_bit 3 21) 13),
    (1536, mk_code (push_bit 8 2 OR push_bit 3 26) 13),
    (1600, mk_code (push_bit 8 2 OR push_bit 3 27) 13),
    (1664, mk_code (push_bit 8 3 OR push_bit 3 4) 13),
    (1728, mk_code (push_bit 8 3 OR push_bit 3 5) 13)]"

definition wMakeups :: "(int \<times> code) list" where
  "wMakeups = [
    (64, mk_code (push_bit (3 + 8) 27) 5),
    (128, mk_code (push_bit (3 + 8) 18) 5),
    (192, mk_code (push_bit (2 + 8) 23) 6),
    (256, mk_code (push_bit (1 + 8) 55) 7),
    (320, mk_code (push_bit 8 54) 8),
    (384, mk_code (push_bit 8 55) 8),
    (448, mk_code (push_bit 8 100) 8),
    (512, mk_code (push_bit 8 101) 8),
    (576, mk_code (push_bit 8 104) 8),
    (640, mk_code (push_bit 8 103) 8),
    (704, mk_code (push_bit 8 102) 9),
    (768, mk_code (push_bit 8 102 OR push_bit 7 1) 9),
    (832, mk_code (push_bit 8 105) 9),
    (896, mk_code (push_bit 8 105 OR push_bit 7 1) 9),
    (960, mk_code (push_bit 8 106) 9),
    (1024, mk_code (push_bit 8 106 OR push_bit 7 1) 9),
    (1088, mk_code (push_bit 8 107) 9),
    (1152, mk_code (push_bit 8 107 OR push_bit 7 1) 9),
    (1216, mk_code (push_bit 8 108) 9),
    (1280, mk_code (push_bit 8 108 OR push_bit 7 1) 9),
    (1344, mk_code (push_bit 8 109) 9),
    (1408, mk_code (push_bit 8 109 OR push_bit 7 1) 9),
    (1472, mk_code (push_bit 8 76) 9),
    (1536, mk_code (push_bit 8 76 OR push_bit 7 1) 9),
    (1600, mk_code (push_bit 8 77) 9),
    (1664, mk_code (push_bit (2 + 8) 24) 6),
    (1728, mk_code (push_bit 8 77 OR push_bit 7 1) 9)]"

definition commonMakeups :: "(int \<times> code) list" where
  "commonMakeups = [
    (1792, mk_code (push_bit 8 1) 11),
    (1856, mk_code (push_bit 8 1 OR push_bit 5 4) 11),
    (1920, mk_code (push_bit 8 1 OR push_bit 5 5) 11),
    (1984, mk_code (push_bit 8 1 OR push_bit 4 2) 12),
    (2048, mk_code (push_bit 8 1 OR push_bit 4 3) 12),
    (2112, mk_code (push_bit 8 1 OR push_bit 4 4) 12),
    (2176, mk_code (push_bit 8 1 OR push_bit 4 5) 12),
    (2240, mk_code (push_bit 8 1 OR push_bit 4 6) 12),
    (2304, mk_code (push_bit 8 1 OR push_bit 4 7) 12),
    (2368, mk_code (push_bit 8 1 OR push_bit 4 12) 12),
    (2432, mk_code (push_bit 8 1 OR push_bit 4 13) 12),
    (2496, mk_code (push_bit 8 1 OR push_bit 4 14) 12),
    (2560, mk_code (push_bit 8 1 OR push_bit 4 15) 12)]"

lemmas table_defs =
  bTerms_def bTerms_0_21_def bTerms_22_43_def bTerms_44_63_def
  wTerms_def wTerms_0_21_def wTerms_22_43_def wTerms_44_63_def
  bMakeups_def wMakeups_def commonMakeups_def

definition masks :: "(nat \<times> u8) list" where
  "masks = [(0, 0xFF), (1, 0xFE), (2, 0xFC), (3, 0xF8), (4, 0xF0), (5, 0xE0), (6, 0xC0),
    (7, 0x80), (8, 0x00)]"

definition code_at :: "(int \<times> code) list \<Rightarrow> int \<Rightarrow> code" where
  "code_at t k = (case map_of t k of Some c \<Rightarrow> c | None \<Rightarrow> mk_code 0 0)"

definition mask_at :: "nat \<Rightarrow> u8" where
  "mask_at k = (case map_of masks k of Some m \<Rightarrow> m | None \<Rightarrow> 0)"

section \<open>The bit sequence of a code\<close>

text \<open>The first \<open>BitsWritten\<close> bits of the \<open>uint16\<close>, from the most significant one.\<close>

definition code_bits :: "code \<Rightarrow> bool list" where
  "code_bits c = map (\<lambda>i. bit (Code c) (15 - i)) [0..<BitsWritten c]"

lemma length_code_bits [simp]: "length (code_bits c) = BitsWritten c"
  by (simp add: code_bits_def)

lemma nth_code_bits [simp]: "i < BitsWritten c \<Longrightarrow> code_bits c ! i = bit (Code c) (15 - i)"
  by (simp add: code_bits_def)

text \<open>
  A code is well formed when its length fits the \<open>uint16\<close>. The mask \<open>masks[k]\<close> keeps the
  bits of a byte from position \<open>k\<close> on.
\<close>

definition code_ok :: "code \<Rightarrow> bool" where
  "code_ok c \<longleftrightarrow> 0 < BitsWritten c \<and> BitsWritten c \<le> 16"

lemma mask_at_eq: "k \<le> 8 \<Longrightarrow> mask_at k = push_bit k (mask 8)"
proof -
  assume "k \<le> 8"
  then consider "k = 0" | "k = 1" | "k = 2" | "k = 3" | "k = 4" | "k = 5" | "k = 6" | "k = 7" | "k = 8"
    by linarith
  then show ?thesis
    by cases (simp_all add: mask_at_def masks_def mask_eq_exp_minus_1)
qed

lemma bit_mask_at: "k \<le> 8 \<Longrightarrow> bit (mask_at k) n \<longleftrightarrow> k \<le> n \<and> n < 8"
  by (auto simp: mask_at_eq bit_simps)

section \<open>The code books\<close>

text \<open>
  What the two one-dimensional decoding trees and the two-dimensional one are filled with
  (\<open>init\<close> of \<open>decode.go\<close>): pairs of a run length and its code.
\<close>

definition white_entries :: "(int \<times> code) list" where
  "white_entries = wTerms @ wMakeups @ commonMakeups"

definition black_entries :: "(int \<times> code) list" where
  "black_entries = bTerms @ bMakeups @ commonMakeups"

definition two_dim_entries :: "(int \<times> code) list" where
  "two_dim_entries = map (Pair 0) [p_code, h_code, v0, v1r, v2r, v3r, v1l, v2l, v3l]"

text \<open>
  No code of a book is a prefix of another one: checked by evaluation, code by code. This is
  the law of the decoding trees (\<open>Ccitt_Tree\<close>).
\<close>

fun prefix_free :: "bool list list \<Rightarrow> bool" where
  "prefix_free [] = True"
| "prefix_free (x # xs) = (list_all (\<lambda>y. \<not> prefix x y \<and> \<not> prefix y x) xs \<and> prefix_free xs)"

lemma prefix_free_distinct: "prefix_free xs \<Longrightarrow> distinct xs"
  by (induction xs) (auto simp: list_all_iff)

lemma prefix_freeD:
  "prefix_free xs \<Longrightarrow> x \<in> set xs \<Longrightarrow> y \<in> set xs \<Longrightarrow> prefix x y \<Longrightarrow> x = y"
  by (induction xs) (auto simp: list_all_iff)

lemma white_prefix_free: "prefix_free (map (code_bits \<circ> snd) white_entries)"
  by code_simp

lemma black_prefix_free: "prefix_free (map (code_bits \<circ> snd) black_entries)"
  by code_simp

lemma two_dim_prefix_free: "prefix_free (map (code_bits \<circ> snd) two_dim_entries)"
  by code_simp

lemma white_codes_ok: "list_all (code_ok \<circ> snd) white_entries"
  by code_simp

lemma black_codes_ok: "list_all (code_ok \<circ> snd) black_entries"
  by code_simp

lemma two_dim_codes_ok: "list_all (code_ok \<circ> snd) two_dim_entries"
  by code_simp

text \<open>Neither an end-of-line code nor a return-to-control code starts with a code of a book.\<close>

lemma eol_not_white: "list_all (\<lambda>x. \<not> prefix (code_bits (snd x)) (replicate 11 False)) white_entries"
  by code_simp

end
