(* ===== verification/Ccitt_Encoder.thy ===== *)
theory Ccitt_Encoder
  imports Ccitt_Codes
begin

text \<open>
  The encoder of \<open>pdf/internal/ccittfax/encoder.go\<close>. The package variables \<open>white\<close> and
  \<open>black\<close>, which \<open>Encode\<close> and \<open>Decode\<close> assign before anything else, are the record
  \<open>colours\<close> that the functions reading them take as an argument. Loops over the pixels of a
  row are \<open>partial_function\<close>s: \<open>None\<close> means that the Go loop does not end.
\<close>

section \<open>State\<close>

record Encoder =
  K :: int
  EndOfLine :: bool
  EncodedByteAlign :: bool
  Columns :: int
  Rows :: int
  EndOfBlock :: bool
  BlackIs1 :: bool
  DamagedRowsBeforeError :: int

record colours =
  white :: u8
  black :: u8

definition set_colours :: "Encoder \<Rightarrow> colours" where
  "set_colours e =
    (if BlackIs1 e then \<lparr>white = 0, black = 1\<rparr> else \<lparr>white = 1, black = 0\<rparr>)"

datatype ccitt_error =
    EOFBCorrupt
  | RTCCorrupt
  | WrongCodeInHorizontalMode
  | NoEOLFound
  | InvalidEOL
  | Invalid2DCode

type_synonym 'a cres = "(ccitt_error, 'a) res"
type_synonym 'a crun = "(ccitt_error, 'a) run"

section \<open>Writing codes\<close>

text \<open>
  One round of the loop of \<open>addCode\<close>: the bits of the code that fit the byte at \<open>pos\<close>.
\<close>

definition addCode_step ::
    "code \<Rightarrow> u8 list \<Rightarrow> nat \<Rightarrow> nat \<Rightarrow> (u8 list \<times> nat \<times> nat) cres" where
  "addCode_step c encoded pos i =
    (let bytePos = pos div 8; bitPos = pos mod 8;
         encoded = (if length encoded \<le> bytePos then encoded @ [0] else encoded);
         toWrite = min (8 - bitPos) (BitsWritten c - i) in
     rbind (index_at encoded (int bytePos)) (\<lambda>old.
     rbind (set_at encoded (int bytePos)
       (if i < 8 then
          old OR (ucast (drop_bit (8 + bitPos - i) (Code c)) AND mask_at (8 - toWrite - bitPos))
        else
          old OR drop_bit bitPos (ucast (push_bit (i - 8) (Code c)) AND mask_at (8 - toWrite))))
       (\<lambda>encoded. Ok (encoded, pos + toWrite, i + toWrite))))"

lemma addCode_step_advances:
  "i < BitsWritten c \<Longrightarrow> addCode_step c encoded pos i = Ok (encoded', pos', i') \<Longrightarrow> i < i'"
  by (auto simp: addCode_step_def Let_def rbind_eq_Ok)

function addCode_loop :: "code \<Rightarrow> u8 list \<Rightarrow> nat \<Rightarrow> nat \<Rightarrow> (u8 list \<times> nat) cres" where
  "addCode_loop c encoded pos i =
    (if i < BitsWritten c then
       (case addCode_step c encoded pos i of
          Ok (encoded, pos, i) \<Rightarrow> addCode_loop c encoded pos i
        | Err e \<Rightarrow> Err e
        | Panic \<Rightarrow> Panic)
     else Ok (encoded, pos))"
  by pat_completeness auto
termination
  by (relation "measure (\<lambda>(c, encoded, pos, i). BitsWritten c - i)")
    (auto dest: addCode_step_advances diff_less_mono2)

declare addCode_loop.simps [simp del]

definition addCode :: "u8 list \<Rightarrow> nat \<Rightarrow> code \<Rightarrow> (u8 list \<times> nat) cres" where
  "addCode encoded pos c = addCode_loop c encoded pos 0"

definition appendEncodedRow :: "Encoder \<Rightarrow> u8 list \<Rightarrow> u8 list \<Rightarrow> nat \<Rightarrow> u8 list cres" where
  "appendEncodedRow e encoded newRow bitPos =
    (if length encoded > 0 \<and> bitPos \<noteq> 0 \<and> \<not> EncodedByteAlign e then
       rbind (index_at encoded (int (length encoded) - 1)) (\<lambda>old.
       rbind (index_at newRow 0) (\<lambda>new.
       rbind (set_at encoded (int (length encoded) - 1) (old OR new)) (\<lambda>encoded.
       Ok (encoded @ drop 1 newRow))))
     else Ok (encoded @ newRow))"

fun addCodes :: "nat \<Rightarrow> code \<Rightarrow> u8 list \<Rightarrow> nat \<Rightarrow> (u8 list \<times> nat) cres" where
  "addCodes 0 c encoded bitPos = Ok (encoded, bitPos)"
| "addCodes (Suc n) c encoded bitPos =
    rbind (addCode encoded bitPos c) (\<lambda>(encoded, bitPos). addCodes n c encoded bitPos)"

definition encodeRTC :: "nat \<Rightarrow> (u8 list \<times> nat) cres" where
  "encodeRTC bitPos =
    rbind (addCodes 6 eol [] bitPos) (\<lambda>(encoded, bitPos). Ok (encoded, bitPos mod 8))"

definition encodeRTC2D :: "nat \<Rightarrow> (u8 list \<times> nat) cres" where
  "encodeRTC2D bitPos =
    rbind (addCodes 6 eol1 [] bitPos) (\<lambda>(encoded, bitPos). Ok (encoded, bitPos mod 8))"

definition encodeEOFB :: "nat \<Rightarrow> (u8 list \<times> nat) cres" where
  "encodeEOFB bitPos =
    rbind (addCodes 2 eol [] bitPos) (\<lambda>(encoded, bitPos). Ok (encoded, bitPos mod 8))"

section \<open>Run lengths\<close>

definition getRunCode :: "int \<Rightarrow> bool \<Rightarrow> code \<times> int \<times> bool" where
  "getRunCode runLen isWhite =
    (if runLen < 64 then
       (if isWhite then (code_at wTerms runLen, 0, True) else (code_at bTerms runLen, 0, True))
     else
       let multiplier = runLen div 64 in
       if multiplier > 40 then (code_at commonMakeups 2560, runLen - 2560, False)
       else if multiplier > 27 then
         (code_at commonMakeups (multiplier * 64), runLen - multiplier * 64, False)
       else if isWhite then (code_at wMakeups (multiplier * 64), runLen - multiplier * 64, False)
       else (code_at bMakeups (multiplier * 64), runLen - multiplier * 64, False))"

lemma getRunCode_shrinks:
  "getRunCode runLen isWhite = (c, runLen', False) \<Longrightarrow> 64 \<le> runLen \<and> 0 \<le> runLen' \<and> runLen' < runLen"
proof -
  assume eq: "getRunCode runLen isWhite = (c, runLen', False)"
  then have ge: "64 \<le> runLen" by (auto simp: getRunCode_def split: if_splits)
  have "runLen div 64 * 64 \<le> runLen" "1 \<le> runLen div 64" using ge by simp_all
  with eq ge show ?thesis by (auto simp: getRunCode_def Let_def split: if_splits)
qed

function encodeRunLen :: "u8 list \<Rightarrow> nat \<Rightarrow> int \<Rightarrow> bool \<Rightarrow> (u8 list \<times> nat) cres" where
  "encodeRunLen encoded bitPos runLen isWhite =
    (case getRunCode runLen isWhite of (c, runLen', isTerminal) \<Rightarrow>
       (case addCode encoded bitPos c of
          Ok (encoded, bitPos) \<Rightarrow>
            if isTerminal then Ok (encoded, bitPos)
            else encodeRunLen encoded bitPos runLen' isWhite
        | Err e \<Rightarrow> Err e
        | Panic \<Rightarrow> Panic))"
  by pat_completeness auto
termination
  by (relation "measure (\<lambda>(encoded, bitPos, runLen, isWhite). nat runLen)")
    (auto dest!: getRunCode_shrinks [OF sym])

declare encodeRunLen.simps [simp del]

text \<open>\<open>calcRun\<close> with its counter, from \<open>pos\<close> on.\<close>

function calcRun :: "colours \<Rightarrow> u8 list \<Rightarrow> bool \<Rightarrow> nat \<Rightarrow> nat \<times> nat" where
  "calcRun cl row isWhite pos =
    (if pos < length row \<and> row ! pos = (if isWhite then white cl else black cl) then
       (case calcRun cl row isWhite (pos + 1) of (count, pos) \<Rightarrow> (count + 1, pos))
     else (0, pos))"
  by pat_completeness auto
termination
  by (relation "measure (\<lambda>(cl, row, isWhite, pos). length row - pos)") auto

declare calcRun.simps [simp del]

partial_function (option) encodeRow1D_loop ::
    "colours \<Rightarrow> u8 list \<Rightarrow> bool \<Rightarrow> u8 list \<Rightarrow> nat \<Rightarrow> nat \<Rightarrow> (u8 list \<times> nat) crun" where
  "encodeRow1D_loop cl row isWhite encoded bitPos bytePos =
    (if bytePos < length row then
       (case calcRun cl row isWhite bytePos of (runLen, bytePos) \<Rightarrow>
          (case encodeRunLen encoded bitPos (int runLen) isWhite of
             Ok (encoded, bitPos) \<Rightarrow> encodeRow1D_loop cl row (\<not> isWhite) encoded bitPos bytePos
           | Err e \<Rightarrow> Some (Err e)
           | Panic \<Rightarrow> Some Panic))
     else Some (Ok (encoded, bitPos)))"

definition encodeRow1D :: "colours \<Rightarrow> u8 list \<Rightarrow> nat \<Rightarrow> code \<Rightarrow> (u8 list \<times> nat) crun" where
  "encodeRow1D cl row bitPos pre =
    run_bind (Some (addCode [] bitPos pre)) (\<lambda>(encoded, bitPos).
    run_bind (encodeRow1D_loop cl row True encoded bitPos 0) (\<lambda>(encoded, bitPos).
    Some (Ok (encoded, bitPos mod 8))))"

section \<open>Changing elements\<close>

function seek_loop :: "u8 list \<Rightarrow> u8 \<Rightarrow> int \<Rightarrow> int cres" where
  "seek_loop row color i =
    (if i < int (length row) then
       (case index_at row i of
          Ok x \<Rightarrow> if x \<noteq> color then Ok i else seek_loop row color (i + 1)
        | Err e \<Rightarrow> Err e
        | Panic \<Rightarrow> Panic)
     else Ok i)"
  by pat_completeness auto
termination
  by (relation "measure (\<lambda>(row, color, i). nat (int (length row) - i))") auto

declare seek_loop.simps [simp del]

definition seekChangingElem :: "colours \<Rightarrow> u8 list \<Rightarrow> int \<Rightarrow> int cres" where
  "seekChangingElem cl row currElem =
    (if currElem \<ge> int (length row) then Ok currElem
     else rbind (if currElem > -1 then index_at row currElem else Ok (white cl)) (\<lambda>color.
       seek_loop row color (currElem + 1)))"

text \<open>
  The conditions of \<open>seekB1\<close> and \<open>seekB12D\<close> are evaluated from left to right; a slice is read
  only where the source reads it.
\<close>

definition seekB1 :: "colours \<Rightarrow> u8 list \<Rightarrow> u8 list \<Rightarrow> int \<Rightarrow> int cres" where
  "seekB1 cl codingLine refLine a0 =
    rbind (seekChangingElem cl refLine a0) (\<lambda>changingElem.
      if changingElem < int (length refLine) then
        rbind (index_at refLine changingElem) (\<lambda>ref.
        rbind (if a0 = -1 \<and> ref = white cl then Ok True
               else if a0 \<ge> 0 \<and> a0 < int (length codingLine) then
                 rbind (index_at codingLine a0) (\<lambda>x. Ok (x = ref))
               else if a0 \<ge> int (length codingLine) then
                 rbind (index_at codingLine (a0 - 1)) (\<lambda>x. Ok (x \<noteq> ref))
               else Ok False) (\<lambda>again.
          if again then seekChangingElem cl refLine changingElem else Ok changingElem))
      else Ok changingElem)"

definition seekB12D :: "colours \<Rightarrow> u8 list \<Rightarrow> u8 list \<Rightarrow> int \<Rightarrow> bool \<Rightarrow> int cres" where
  "seekB12D cl codingLine refLine a0 a0isWhite =
    rbind (seekChangingElem cl refLine a0) (\<lambda>changingElem.
      if changingElem < int (length refLine) then
        rbind (index_at refLine changingElem) (\<lambda>ref.
        rbind (if a0 = -1 \<and> ref = white cl then Ok True
               else if a0 \<ge> 0 \<and> a0 < int (length codingLine) then
                 rbind (index_at codingLine a0) (\<lambda>x. Ok (x = ref))
               else Ok (a0 \<ge> int (length codingLine) \<and>
                 (a0isWhite \<and> ref = white cl \<or> \<not> a0isWhite \<and> ref = black cl))) (\<lambda>again.
          if again then seekChangingElem cl refLine changingElem else Ok changingElem))
      else Ok changingElem)"

section \<open>Two-dimensional rows\<close>

definition encodePassMode :: "u8 list \<Rightarrow> nat \<Rightarrow> (u8 list \<times> nat) cres" where
  "encodePassMode encodedRow bitPos = addCode encodedRow bitPos p_code"

definition encodeHorizontalMode ::
    "colours \<Rightarrow> u8 list \<Rightarrow> u8 list \<Rightarrow> nat \<Rightarrow> int \<Rightarrow> int \<Rightarrow> (u8 list \<times> nat \<times> int) cres" where
  "encodeHorizontalMode cl row encodedRow bitPos a0 a1 =
    rbind (seekChangingElem cl row a1) (\<lambda>a2.
    rbind (if a0 \<ge> 0 then rbind (index_at row a0) (\<lambda>x. Ok (x = white cl \<or> a0 = -1))
           else Ok (a0 = -1)) (\<lambda>isWhite.
    rbind (addCode encodedRow bitPos h_code) (\<lambda>(encodedRow, bitPos).
    let a0a1RunLen = (if a0 > -1 then a1 - a0 else a1 - a0 - 1) in
    rbind (encodeRunLen encodedRow bitPos a0a1RunLen isWhite) (\<lambda>(encodedRow, bitPos).
    let a1a2RunLen = a2 - a1 in
    rbind (encodeRunLen encodedRow bitPos a1a2RunLen (\<not> isWhite)) (\<lambda>(encodedRow, bitPos).
    Ok (encodedRow, bitPos, a2))))))"

definition getVCode :: "int \<Rightarrow> int \<Rightarrow> code" where
  "getVCode a1 b1 =
    (if b1 - a1 = -1 then v1r
     else if b1 - a1 = -2 then v2r
     else if b1 - a1 = -3 then v3r
     else if b1 - a1 = 0 then v0
     else if b1 - a1 = 1 then v1l
     else if b1 - a1 = 2 then v2l
     else if b1 - a1 = 3 then v3l
     else mk_code 0 0)"

definition encodeVerticalMode :: "u8 list \<Rightarrow> nat \<Rightarrow> int \<Rightarrow> int \<Rightarrow> (u8 list \<times> nat) cres" where
  "encodeVerticalMode encodedRow bitPos a1 b1 = addCode encodedRow bitPos (getVCode a1 b1)"

text \<open>
  The body of the loop over a row that \<open>encodeG4\<close> and \<open>encodeG32D\<close> share, and the loop.
\<close>

definition encodeRow2D_step ::
    "colours \<Rightarrow> u8 list \<Rightarrow> u8 list \<Rightarrow> u8 list \<Rightarrow> nat \<Rightarrow> int \<Rightarrow> (u8 list \<times> nat \<times> int) cres" where
  "encodeRow2D_step cl row ref encodedRow bitPos a0 =
    rbind (seekChangingElem cl row a0) (\<lambda>a1.
    rbind (seekB1 cl row ref a0) (\<lambda>b1.
    rbind (seekChangingElem cl ref b1) (\<lambda>b2.
      if b2 < a1 then
        rbind (encodePassMode encodedRow bitPos) (\<lambda>(encodedRow, bitPos). Ok (encodedRow, bitPos, b2))
      else if \<bar>b1 - a1\<bar> > 3 then encodeHorizontalMode cl row encodedRow bitPos a0 a1
      else
        rbind (encodeVerticalMode encodedRow bitPos a1 b1) (\<lambda>(encodedRow, bitPos).
          Ok (encodedRow, bitPos, a1)))))"

partial_function (option) encodeRow2D ::
    "colours \<Rightarrow> u8 list \<Rightarrow> u8 list \<Rightarrow> u8 list \<Rightarrow> nat \<Rightarrow> int \<Rightarrow> (u8 list \<times> nat) crun" where
  "encodeRow2D cl row ref encodedRow bitPos a0 =
    (if a0 < int (length row) then
       (case encodeRow2D_step cl row ref encodedRow bitPos a0 of
          Ok (encodedRow, bitPos, a0) \<Rightarrow> encodeRow2D cl row ref encodedRow bitPos a0
        | Err e \<Rightarrow> Some (Err e)
        | Panic \<Rightarrow> Some Panic)
     else Some (Ok (encodedRow, bitPos)))"

section \<open>The three schemes\<close>

fun encodeG31D_rows ::
    "Encoder \<Rightarrow> colours \<Rightarrow> u8 list list \<Rightarrow> int \<Rightarrow> u8 list \<Rightarrow> nat \<Rightarrow> (u8 list \<times> nat) crun" where
  "encodeG31D_rows e cl [] i encoded prevBitPos = Some (Ok (encoded, prevBitPos))"
| "encodeG31D_rows e cl (row # pixels) i encoded prevBitPos =
    (if Rows e > 0 \<and> \<not> EndOfBlock e \<and> i = Rows e then Some (Ok (encoded, prevBitPos))
     else
       run_bind (encodeRow1D cl row prevBitPos eol) (\<lambda>(encodedRow, bitPos).
       run_bind (Some (appendEncodedRow e encoded encodedRow prevBitPos)) (\<lambda>encoded.
       encodeG31D_rows e cl pixels (i + 1) encoded (if EncodedByteAlign e then 0 else bitPos))))"

definition encodeG31D :: "Encoder \<Rightarrow> colours \<Rightarrow> u8 list list \<Rightarrow> u8 list crun" where
  "encodeG31D e cl pixels =
    run_bind (encodeG31D_rows e cl pixels 0 [] 0) (\<lambda>(encoded, prevBitPos).
      if EndOfBlock e then
        run_bind (Some (encodeRTC prevBitPos)) (\<lambda>(encodedRTC, _).
        Some (appendEncodedRow e encoded encodedRTC prevBitPos))
      else Some (Ok encoded))"

text \<open>
  \<open>encodeG32D\<close>: the inner loop over the two-dimensional rows \<open>j\<close> of a group of \<open>K\<close>, and
  the loop over the groups. A group whose inner loop breaks leaves the outer loop running.
\<close>

partial_function (option) encodeG32D_inner ::
    "Encoder \<Rightarrow> colours \<Rightarrow> u8 list list \<Rightarrow> int \<Rightarrow> int \<Rightarrow> u8 list \<Rightarrow> nat \<Rightarrow> (u8 list \<times> nat) crun" where
  "encodeG32D_inner e cl pixels i j encoded prevBitPos =
    (if j < i + K e \<and> j < int (length pixels) then
       if Rows e > 0 \<and> \<not> EndOfBlock e \<and> j = Rows e then Some (Ok (encoded, prevBitPos))
       else
         run_bind (Some (addCode [] prevBitPos eol0)) (\<lambda>(encodedRow, bitPos).
         run_bind (Some (index_at pixels j)) (\<lambda>row.
         run_bind (Some (index_at pixels (j - 1))) (\<lambda>ref.
         run_bind (encodeRow2D cl row ref encodedRow bitPos (-1)) (\<lambda>(encodedRow, bitPos).
         run_bind (Some (appendEncodedRow e encoded encodedRow prevBitPos)) (\<lambda>encoded.
         encodeG32D_inner e cl pixels i (j + 1) encoded
           ((if EncodedByteAlign e then 0 else bitPos) mod 8))))))
     else Some (Ok (encoded, prevBitPos)))"

partial_function (option) encodeG32D_outer ::
    "Encoder \<Rightarrow> colours \<Rightarrow> u8 list list \<Rightarrow> int \<Rightarrow> u8 list \<Rightarrow> nat \<Rightarrow> (u8 list \<times> nat) crun" where
  "encodeG32D_outer e cl pixels i encoded prevBitPos =
    (if i < int (length pixels) then
       if Rows e > 0 \<and> \<not> EndOfBlock e \<and> i = Rows e then Some (Ok (encoded, prevBitPos))
       else
         run_bind (Some (index_at pixels i)) (\<lambda>row.
         run_bind (encodeRow1D cl row prevBitPos eol1) (\<lambda>(encodedRow, bitPos).
         run_bind (Some (appendEncodedRow e encoded encodedRow prevBitPos)) (\<lambda>encoded.
         run_bind (encodeG32D_inner e cl pixels i (i + 1) encoded
             (if EncodedByteAlign e then 0 else bitPos)) (\<lambda>(encoded, prevBitPos).
         encodeG32D_outer e cl pixels (i + K e) encoded prevBitPos))))
     else Some (Ok (encoded, prevBitPos)))"

definition encodeG32D :: "Encoder \<Rightarrow> colours \<Rightarrow> u8 list list \<Rightarrow> u8 list crun" where
  "encodeG32D e cl pixels =
    run_bind (encodeG32D_outer e cl pixels 0 [] 0) (\<lambda>(encoded, prevBitPos).
      if EndOfBlock e then
        run_bind (Some (encodeRTC2D prevBitPos)) (\<lambda>(encodedRTC, _).
        Some (appendEncodedRow e encoded encodedRTC prevBitPos))
      else Some (Ok encoded))"

definition appendWhiteReferenceLine :: "colours \<Rightarrow> u8 list list \<Rightarrow> u8 list list cres" where
  "appendWhiteReferenceLine cl pixels =
    rbind (index_at pixels 0) (\<lambda>row. Ok (replicate (length row) (white cl) # pixels))"

text \<open>The loop of \<open>encodeG4\<close> over the rows \<open>i\<close>, with the row above each.\<close>

fun encodeG4_rows ::
    "Encoder \<Rightarrow> colours \<Rightarrow> u8 list \<Rightarrow> u8 list list \<Rightarrow> int \<Rightarrow> u8 list \<Rightarrow> nat \<Rightarrow> (u8 list \<times> nat) crun" where
  "encodeG4_rows e cl ref [] i encoded prevBitPos = Some (Ok (encoded, prevBitPos))"
| "encodeG4_rows e cl ref (row # pixels) i encoded prevBitPos =
    (if Rows e > 0 \<and> \<not> EndOfBlock e \<and> i = Rows e + 1 then Some (Ok (encoded, prevBitPos))
     else
       run_bind (encodeRow2D cl row ref [] prevBitPos (-1)) (\<lambda>(encodedRow, bitPos).
       run_bind (Some (appendEncodedRow e encoded encodedRow prevBitPos)) (\<lambda>encoded.
       encodeG4_rows e cl row pixels (i + 1) encoded
         ((if EncodedByteAlign e then 0 else bitPos) mod 8))))"

definition encodeG4 :: "Encoder \<Rightarrow> colours \<Rightarrow> u8 list list \<Rightarrow> u8 list crun" where
  "encodeG4 e cl pixelsToEncode =
    run_bind (Some (appendWhiteReferenceLine cl pixelsToEncode)) (\<lambda>pixels.
    run_bind (encodeG4_rows e cl (hd pixels) (tl pixels) 1 [] 0) (\<lambda>(encoded, prevBitPos).
      if EndOfBlock e then
        run_bind (Some (encodeEOFB prevBitPos)) (\<lambda>(encodedEOFB, _).
        Some (appendEncodedRow e encoded encodedEOFB prevBitPos))
      else Some (Ok encoded)))"

definition Encode :: "Encoder \<Rightarrow> u8 list list \<Rightarrow> u8 list crun" where
  "Encode e pixels =
    (let cl = set_colours e in
     if K e = 0 then encodeG31D e cl pixels
     else if K e > 0 then encodeG32D e cl pixels
     else encodeG4 e cl pixels)"

text \<open>The loops are executable: their equations are code equations.\<close>

lemmas [code] =
  encodeRow1D_loop.simps
  encodeRow2D.simps
  encodeG32D_inner.simps
  encodeG32D_outer.simps

end
