(* ===== verification/Ccitt_Tree.thy ===== *)
theory Ccitt_Tree
  imports Ccitt_Codes "HOL-Library.Multiset"
begin

text \<open>
  The decoding trees of \<open>pdf/internal/ccittfax/decoding_tree.go\<close> and the trees that the
  \<open>init\<close> function of \<open>decode.go\<close> builds. A nil pointer is \<open>Nil\<close>. The abstract view of a
  tree is the map \<open>tree_at\<close> from bit sequences to the run length and code stored at the end
  of that path; \<open>findRunLen\<close> finds the longest prefix of its input that carries a value
  (\<open>deepest\<close>). The locale \<open>prefix_code\<close> is the contract between a code book and the
  decoder: a prefix-free book is decoded without look-ahead, whatever bits follow a code and
  in whatever order the book was inserted.
\<close>

section \<open>The tree and its operations\<close>

datatype decodingTreeNode =
    Nil
  | Node (Val: u8) (RunLen: "int option") (NodeCode: "code option")
      (Left: decodingTreeNode) (Right: decodingTreeNode)

definition bitFromUint16 :: "u16 \<Rightarrow> nat \<Rightarrow> u8" where
  "bitFromUint16 num bitPos =
    (let num = (if bitPos < 8 then drop_bit 8 num else num);
         bitPos = bitPos mod 8;
         m = push_bit (7 - bitPos) 1
     in drop_bit (7 - bitPos) (ucast num AND m))"

text \<open>
  \<open>addNode\<close> recurses until the bit position equals the length of the code; past it, it would
  recurse without end, which is \<open>None\<close>. A nil root cannot be dereferenced, \<open>None\<close> as well:
  every call passes a node.
\<close>

partial_function (option) addNode ::
    "decodingTreeNode \<Rightarrow> code \<Rightarrow> nat \<Rightarrow> int \<Rightarrow> decodingTreeNode option" where
  "addNode root c bitPos runLen =
    (case root of
       Nil \<Rightarrow> None
     | Node v r k l rt \<Rightarrow>
         let val = bitFromUint16 (Code c) bitPos; bitPos = bitPos + 1 in
         if val = 1 then
           let right = (if rt = Nil then Node val None None Nil Nil else rt) in
           if bitPos = BitsWritten c then
             Some (Node v r k l (Node (Val right) (Some runLen) (Some c) (Left right) (Right right)))
           else Option.bind (addNode right c bitPos runLen) (\<lambda>right. Some (Node v r k l right))
         else
           let left = (if l = Nil then Node val None None Nil Nil else l) in
           if bitPos = BitsWritten c then
             Some (Node v r k (Node (Val left) (Some runLen) (Some c) (Left left) (Right left)) rt)
           else Option.bind (addNode left c bitPos runLen) (\<lambda>left. Some (Node v r k left rt)))"

lemmas [code] = addNode.simps

fun findRunLen :: "decodingTreeNode \<Rightarrow> u16 \<Rightarrow> nat \<Rightarrow> int option \<times> code option" where
  "findRunLen Nil codeNum bitPos = (None, None)"
| "findRunLen (Node v r k l rt) codeNum bitPos =
    (if bitPos = 16 then (r, k)
     else
       let val = bitFromUint16 codeNum bitPos; bitPos = bitPos + 1;
           (runLenPtr, codePtr) =
             (if val = 1 then findRunLen rt codeNum bitPos else findRunLen l codeNum bitPos)
       in if runLenPtr = None then (r, k) else (runLenPtr, codePtr))"

section \<open>The trees of the decoder\<close>

definition new_root :: decodingTreeNode where
  "new_root = Node 255 None None Nil Nil"

fun addNodes :: "decodingTreeNode \<Rightarrow> (int \<times> code) list \<Rightarrow> decodingTreeNode option" where
  "addNodes root [] = Some root"
| "addNodes root ((runLen, c) # es) =
    Option.bind (addNode root c 0 runLen) (\<lambda>root. addNodes root es)"

definition whiteTree :: decodingTreeNode where
  "whiteTree = (case addNodes new_root white_entries of Some t \<Rightarrow> t | None \<Rightarrow> new_root)"

definition blackTree :: decodingTreeNode where
  "blackTree = (case addNodes new_root black_entries of Some t \<Rightarrow> t | None \<Rightarrow> new_root)"

definition twoDimTree :: decodingTreeNode where
  "twoDimTree = (case addNodes new_root two_dim_entries of Some t \<Rightarrow> t | None \<Rightarrow> new_root)"

section \<open>The abstract view: a map from bit sequences\<close>

fun node_value :: "int option \<Rightarrow> code option \<Rightarrow> (int \<times> code) option" where
  "node_value (Some r) (Some k) = Some (r, k)"
| "node_value _ _ = None"

fun tree_at :: "decodingTreeNode \<Rightarrow> bool list \<Rightarrow> (int \<times> code) option" where
  "tree_at Nil xs = None"
| "tree_at (Node v r k l rt) [] = node_value r k"
| "tree_at (Node v r k l rt) (x # xs) = tree_at (if x then rt else l) xs"

fun deepest :: "decodingTreeNode \<Rightarrow> bool list \<Rightarrow> (int \<times> code) option" where
  "deepest Nil xs = None"
| "deepest (Node v r k l rt) [] = node_value r k"
| "deepest (Node v r k l rt) (x # xs) =
    (case deepest (if x then rt else l) xs of Some y \<Rightarrow> Some y | None \<Rightarrow> node_value r k)"

text \<open>The run length and the code of a node are set together.\<close>

fun tree_ok :: "decodingTreeNode \<Rightarrow> bool" where
  "tree_ok Nil = True"
| "tree_ok (Node v r k l rt) = ((r = None \<longleftrightarrow> k = None) \<and> tree_ok l \<and> tree_ok rt)"

lemma bitFromUint16_eq: "bitPos < 16 \<Longrightarrow> bitFromUint16 num bitPos = of_bool (bit num (15 - bitPos))"
proof (rule bit_word_eqI)
  fix n assume b: "bitPos < 16" and n: "n < LENGTH(8)"
  show "bit (bitFromUint16 num bitPos) n \<longleftrightarrow> bit (of_bool (bit num (15 - bitPos)) :: u8) n"
  proof (cases "bitPos < 8")
    case True
    then show ?thesis using n by (cases n) (auto simp: bitFromUint16_def Let_def bit_simps)
  next
    case False
    then have "bitPos mod 8 = bitPos - 8" using b by (simp add: mod_if)
    then show ?thesis using n False b by (cases n) (auto simp: bitFromUint16_def Let_def bit_simps)
  qed
qed

lemma findRunLen_eq:
  assumes "tree_ok t" "pos \<le> 16"
  shows "findRunLen t w pos =
    (map_option fst (deepest t (word_bits (16 - pos) w)),
     map_option snd (deepest t (word_bits (16 - pos) w)))"
  using assms
proof (induction t arbitrary: pos)
  case (Node v r k l rt)
  have val: "map_option fst (node_value r k) = r" "map_option snd (node_value r k) = k"
    using Node.prems(1) by (cases r; cases k; simp)+
  show ?case
  proof (cases "pos < 16")
    case True
    then obtain m where m: "16 - pos = Suc m" "16 - Suc pos = m" "15 - pos = m"
      using that [of "15 - pos"] by simp
    from True Node have IH: "findRunLen (if b then rt else l) w (Suc pos) =
      (map_option fst (deepest (if b then rt else l) (word_bits m w)),
       map_option snd (deepest (if b then rt else l) (word_bits m w)))" for b
      by (simp add: m(2) [symmetric])
    show ?thesis
      using True IH [of "bit w m"] val
      by (auto simp: m bitFromUint16_eq word_bits_Suc Let_def split: option.splits)
  next
    case False
    with Node.prems have "pos = 16" by simp
    with val show ?thesis by simp
  qed
qed simp

section \<open>Insertion\<close>

definition fresh :: "decodingTreeNode \<Rightarrow> u8 \<Rightarrow> decodingTreeNode" where
  "fresh t val = (if t = Nil then Node val None None Nil Nil else t)"

definition set_node :: "decodingTreeNode \<Rightarrow> int \<Rightarrow> code \<Rightarrow> decodingTreeNode" where
  "set_node t runLen c = Node (Val t) (Some runLen) (Some c) (Left t) (Right t)"

lemma fresh_simps [simp]:
  "fresh t val \<noteq> Nil" "tree_at (fresh t val) xs = tree_at t xs" "tree_ok (fresh t val) = tree_ok t"
  by (cases xs; simp add: fresh_def)+

lemma set_node_simps [simp]:
  "t \<noteq> Nil \<Longrightarrow> tree_at (set_node t r c) xs = (if xs = [] then Some (r, c) else tree_at t xs)"
  "t \<noteq> Nil \<Longrightarrow> tree_ok t \<Longrightarrow> tree_ok (set_node t r c)"
  "set_node t r c \<noteq> Nil"
  by (cases t; cases xs; simp add: set_node_def)+

lemma addNode_unfold:
  assumes "pos < 16"
  shows "addNode (Node v r k l rt) c pos runLen =
    (let b = bit (Code c) (15 - pos);
         t = fresh (if b then rt else l) (of_bool b);
         upd = (\<lambda>t. if b then Node v r k l t else Node v r k t rt)
     in if Suc pos = BitsWritten c then Some (upd (set_node t runLen c))
        else Option.bind (addNode t c (Suc pos) runLen) (\<lambda>t. Some (upd t)))"
  using assms
  by (subst addNode.simps)
    (simp add: bitFromUint16_eq Let_def fresh_def set_node_def cong: if_cong)

lemma drop_code_bits:
  "pos < BitsWritten c \<Longrightarrow> drop pos (code_bits c) = bit (Code c) (15 - pos) # drop (Suc pos) (code_bits c)"
  by (simp add: Cons_nth_drop_Suc [symmetric])

text \<open>Insertion returns, and the new tree is the old map with one more entry.\<close>

lemma addNode_spec:
  assumes "BitsWritten c \<le> 16" "pos < BitsWritten c" "root \<noteq> Nil" "tree_ok root"
  shows "\<exists>t. addNode root c pos runLen = Some t \<and> t \<noteq> Nil \<and> tree_ok t \<and>
    (\<forall>xs. tree_at t xs = (if xs = drop pos (code_bits c) then Some (runLen, c) else tree_at root xs))"
  using assms
proof (induction "BitsWritten c - pos" arbitrary: pos root)
  case (Suc n)
  from Suc.prems obtain v r k l rt where root: "root = Node v r k l rt" by (cases root) auto
  define b where "b = bit (Code c) (15 - pos)"
  define t where "t = fresh (if b then rt else l) (of_bool b)"
  define upd where "upd = (\<lambda>t. if b then Node v r k l t else Node v r k t rt)"
  have t: "t \<noteq> Nil" "tree_ok t" using Suc.prems(4) by (simp_all add: t_def root)
  have upd: "tree_at (upd u) xs = (case xs of [] \<Rightarrow> tree_at root xs
      | x # ys \<Rightarrow> if x = b then tree_at u ys else tree_at root xs)"
    "upd u \<noteq> Nil" "tree_ok u \<Longrightarrow> tree_ok (upd u)" for u xs
    using Suc.prems(4) by (auto simp: upd_def root split: list.splits)
  have t_at: "tree_at t ys = tree_at root (b # ys)" for ys by (simp add: t_def root)
  have add: "addNode root c pos runLen =
    (if Suc pos = BitsWritten c then Some (upd (set_node t runLen c))
     else Option.bind (addNode t c (Suc pos) runLen) (\<lambda>t. Some (upd t)))"
    using Suc.prems by (simp add: root addNode_unfold Let_def b_def t_def upd_def)
  have dr: "drop pos (code_bits c) = b # drop (Suc pos) (code_bits c)"
    using Suc.prems by (simp add: drop_code_bits b_def)
  show ?case
  proof (cases "Suc pos = BitsWritten c")
    case True
    then have "drop (Suc pos) (code_bits c) = []" by simp
    with True t show ?thesis
      by (auto simp: add upd dr t_at split: list.splits)
  next
    case False
    with Suc.prems Suc.hyps(2) have "n = BitsWritten c - Suc pos" "Suc pos < BitsWritten c" by auto
    from Suc.hyps(1) [OF this(1) Suc.prems(1) this(2) t] obtain u where u:
      "addNode t c (Suc pos) runLen = Some u" "u \<noteq> Nil" "tree_ok u"
      "\<And>xs. tree_at u xs = (if xs = drop (Suc pos) (code_bits c) then Some (runLen, c) else tree_at t xs)"
      by blast
    then show ?thesis
      using False by (auto simp: add upd dr t_at split: list.splits)
  qed
qed simp

text \<open>
  A whole book: the later of two entries with the same code wins, so with distinct codes the
  map does not depend on the order of the insertions.
\<close>

lemma addNodes_spec:
  assumes "list_all (code_ok \<circ> snd) es" "root \<noteq> Nil" "tree_ok root"
  shows "\<exists>t. addNodes root es = Some t \<and> t \<noteq> Nil \<and> tree_ok t \<and>
    (\<forall>xs. tree_at t xs =
      (case map_of (rev (map (\<lambda>e. (code_bits (snd e), e)) es)) xs of
         Some y \<Rightarrow> Some y | None \<Rightarrow> tree_at root xs))"
  using assms
proof (induction es arbitrary: root)
  case (Cons e es)
  obtain r c where e: "e = (r, c)" by (cases e)
  with Cons.prems have "BitsWritten c \<le> 16" "0 < BitsWritten c" by (simp_all add: code_ok_def)
  from addNode_spec [OF this Cons.prems(2,3), of r] obtain t where t:
    "addNode root c 0 r = Some t" "t \<noteq> Nil" "tree_ok t"
    "\<And>xs. tree_at t xs = (if xs = code_bits c then Some (r, c) else tree_at root xs)"
    by auto
  from Cons.IH [OF _ t(2,3)] Cons.prems(1) obtain u where u:
    "addNodes t es = Some u" "u \<noteq> Nil" "tree_ok u"
    "\<And>xs. tree_at u xs =
      (case map_of (rev (map (\<lambda>e. (code_bits (snd e), e)) es)) xs of
         Some y \<Rightarrow> Some y | None \<Rightarrow> tree_at t xs)"
    by auto
  then show ?case
    by (auto simp: e t map_add_def split: option.splits)
qed simp

section \<open>Search\<close>

lemma deepest_None: "(\<And>ys. tree_at t ys = None) \<Longrightarrow> deepest t xs = None"
proof (induction t xs rule: deepest.induct)
  case (2 v r k l rt)
  from "2.prems" [of "[]"] show ?case by simp
next
  case (3 v r k l rt x xs)
  have "deepest (if x then rt else l) xs = None"
  proof (rule "3.IH")
    show "tree_at (if x then rt else l) ys = None" for ys using "3.prems" [of "x # ys"] by simp
  qed
  with "3.prems" [of "[]"] show ?case by simp
qed simp

lemma deepest_hit:
  assumes "tree_at t xs = Some e" "\<And>ys. ys \<noteq> [] \<Longrightarrow> tree_at t (xs @ ys) = None"
  shows "deepest t (xs @ zs) = Some e"
  using assms
proof (induction xs arbitrary: t)
  case Nil
  then obtain v r k l rt where t: "t = Node v r k l rt" by (cases t) auto
  have "deepest (if x then rt else l) ys = None" for x ys
  proof (rule deepest_None)
    show "tree_at (if x then rt else l) us = None" for us using Nil.prems(2) [of "x # us"] t by simp
  qed
  with Nil t show ?case by (cases zs) auto
next
  case (Cons x xs)
  then obtain v r k l rt where t: "t = Node v r k l rt" by (cases t) auto
  have "deepest (if x then rt else l) (xs @ zs) = Some e"
    using Cons.prems by (intro Cons.IH) (auto simp: t)
  with t show ?case by simp
qed

lemma deepest_SomeD: "deepest t xs = Some e \<Longrightarrow> \<exists>ys. prefix ys xs \<and> tree_at t ys = Some e"
proof (induction t xs rule: deepest.induct)
  case (2 v r k l rt)
  then show ?case by (intro exI [of _ "[]"]) simp
next
  case (3 v r k l rt x xs)
  show ?case
  proof (cases "deepest (if x then rt else l) xs")
    case None
    with "3.prems" show ?thesis by (intro exI [of _ "[]"]) simp
  next
    case (Some y)
    with "3.IH" "3.prems" obtain ys where "prefix ys xs" "tree_at (if x then rt else l) ys = Some e"
      by auto
    then show ?thesis by (intro exI [of _ "x # ys"]) simp
  qed
qed simp

section \<open>The contract of a prefix-free code book\<close>

text \<open>The entry of a book whose code comes next on a bit string.\<close>

definition next_entry :: "(int \<times> code) list \<Rightarrow> bool list \<Rightarrow> (int \<times> code) option" where
  "next_entry entries bs = find (\<lambda>e. prefix (code_bits (snd e)) bs) entries"

lemma next_entry_SomeD: "next_entry es bs = Some e \<Longrightarrow> e \<in> set es \<and> prefix (code_bits (snd e)) bs"
  unfolding next_entry_def find_Some_iff by (metis nth_mem)

lemma prefix_nth: "prefix xs ys \<longleftrightarrow> length xs \<le> length ys \<and> (\<forall>i < length xs. xs ! i = ys ! i)"
  by (auto simp: prefix_def nth_append intro!: exI [of _ "drop (length xs) ys"] nth_equalityI)

lemma prefix_take: "length xs \<le> n \<Longrightarrow> prefix xs (take n ys) \<longleftrightarrow> prefix xs ys"
  by (auto simp: prefix_nth)

locale prefix_code =
  fixes entries :: "(int \<times> code) list"
  assumes codes_ok: "list_all (code_ok \<circ> snd) entries"
    and codes_prefix_free: "prefix_free (map (code_bits \<circ> snd) entries)"
begin

lemma entry_unique:
  assumes "e \<in> set entries" "e' \<in> set entries" "prefix (code_bits (snd e)) (code_bits (snd e'))"
  shows "e = e'"
proof -
  have "code_bits (snd e) = code_bits (snd e')"
    using assms by (intro prefix_freeD [OF codes_prefix_free]) auto
  moreover have "inj_on (code_bits \<circ> snd) (set entries)"
    using prefix_free_distinct [OF codes_prefix_free] by (simp add: distinct_map)
  ultimately show ?thesis using assms by (auto simp: inj_on_def)
qed

lemma tree_at_book:
  assumes "mset es = mset entries"
  shows "\<exists>t. addNodes new_root es = Some t \<and> tree_ok t \<and>
    (\<forall>xs e. tree_at t xs = Some e \<longleftrightarrow> e \<in> set entries \<and> code_bits (snd e) = xs)"
proof -
  from assms have set: "set es = set entries" by (metis set_mset_mset)
  have ok: "list_all (code_ok \<circ> snd) es" using codes_ok set by (simp add: list_all_iff)
  have root: "new_root \<noteq> Nil" "tree_ok new_root" "tree_at new_root xs = None" for xs
    by (cases xs; simp add: new_root_def)+
  define ps where "ps = map (\<lambda>e. (code_bits (snd e), e)) es"
  from addNodes_spec [OF ok root(1,2)] obtain t where t:
    "addNodes new_root es = Some t" "tree_ok t"
    "\<And>xs. tree_at t xs = (case map_of (rev ps) xs of Some y \<Rightarrow> Some y | None \<Rightarrow> tree_at new_root xs)"
    by (auto simp: ps_def)
  have "distinct (map (code_bits \<circ> snd) es)"
    using prefix_free_distinct [OF codes_prefix_free] assms
    by (metis mset_eq_imp_distinct_iff mset_map)
  then have "distinct (map fst (rev ps))"
    by (simp add: ps_def rev_map [symmetric] comp_def)
  then have "map_of (rev ps) xs = Some e \<longleftrightarrow> (xs, e) \<in> set (rev ps)" for xs e
    by (rule map_of_eq_Some_iff)
  then have "map_of (rev ps) xs = Some e \<longleftrightarrow> e \<in> set entries \<and> code_bits (snd e) = xs" for xs e
    by (auto simp: ps_def set)
  moreover have "tree_at t xs = map_of (rev ps) xs" for xs
    by (simp add: t(3) root(3) split: option.splits)
  ultimately have "tree_at t xs = Some e \<longleftrightarrow> e \<in> set entries \<and> code_bits (snd e) = xs" for xs e
    by simp
  with t show ?thesis by blast
qed

text \<open>Searching the tree of the book, built in any order: exactly the entry whose code comes next.\<close>

lemma deepest_book:
  assumes "\<And>xs e. tree_at t xs = Some e \<longleftrightarrow> e \<in> set entries \<and> code_bits (snd e) = xs"
  shows "deepest t bs = Some e \<longleftrightarrow> e \<in> set entries \<and> prefix (code_bits (snd e)) bs"
proof
  assume "deepest t bs = Some e"
  then obtain ys where "prefix ys bs" "tree_at t ys = Some e" by (blast dest: deepest_SomeD)
  with assms [of ys e] show "e \<in> set entries \<and> prefix (code_bits (snd e)) bs" by simp
next
  assume e: "e \<in> set entries \<and> prefix (code_bits (snd e)) bs"
  then obtain zs where bs: "bs = code_bits (snd e) @ zs" by (auto elim: prefixE)
  have "tree_at t (code_bits (snd e) @ ys) = None" if "ys \<noteq> []" for ys
  proof (rule ccontr)
    assume "tree_at t (code_bits (snd e) @ ys) \<noteq> None"
    then obtain e' where "e' \<in> set entries" "code_bits (snd e') = code_bits (snd e) @ ys"
      using assms by auto
    with e entry_unique [of e e'] that show False by (simp add: prefix_def)
  qed
  with e assms show "deepest t bs = Some e" unfolding bs by (intro deepest_hit) auto
qed

lemma search_book:
  assumes "mset es = mset entries"
  shows "\<exists>t. addNodes new_root es = Some t \<and> (\<forall>w pos. pos \<le> 16 \<longrightarrow>
    (\<exists>d. findRunLen t w pos = (map_option fst d, map_option snd d) \<and>
      (\<forall>e. d = Some e \<longleftrightarrow> e \<in> set entries \<and> prefix (code_bits (snd e)) (word_bits (16 - pos) w))))"
proof -
  from tree_at_book [OF assms] obtain t where t: "addNodes new_root es = Some t" "tree_ok t"
    "\<And>xs e. tree_at t xs = Some e \<longleftrightarrow> e \<in> set entries \<and> code_bits (snd e) = xs"
    by auto
  from t(1) findRunLen_eq [OF t(2)] deepest_book [OF t(3)] show ?thesis by blast
qed

lemma next_entry_iff:
  "next_entry entries bs = Some e \<longleftrightarrow> e \<in> set entries \<and> prefix (code_bits (snd e)) bs"
proof
  assume e: "e \<in> set entries \<and> prefix (code_bits (snd e)) bs"
  then have "next_entry entries bs \<noteq> None" unfolding next_entry_def find_None_iff by blast
  then obtain e' where e': "next_entry entries bs = Some e'" by blast
  then have m: "e' \<in> set entries" "prefix (code_bits (snd e')) bs"
    by (simp_all add: next_entry_SomeD)
  with e have "prefix (code_bits (snd e)) (code_bits (snd e')) \<or>
      prefix (code_bits (snd e')) (code_bits (snd e))"
    by (meson prefix_same_cases)
  with e m(1) have "e = e'" using entry_unique by blast
  with e' show "next_entry entries bs = Some e" by simp
qed (rule next_entry_SomeD)

lemma search_tree:
  assumes "addNodes new_root entries = Some t" "n \<le> 16"
  shows "findRunLen t w (16 - n) =
    (map_option fst (next_entry entries (word_bits n w)), map_option snd (next_entry entries (word_bits n w)))"
proof -
  from tree_at_book [OF refl] assms(1) have t: "tree_ok t"
    "\<And>xs e. tree_at t xs = Some e \<longleftrightarrow> e \<in> set entries \<and> code_bits (snd e) = xs"
    by auto
  have "deepest t (word_bits n w) = next_entry entries (word_bits n w)"
    using deepest_book [OF t(2), of "word_bits n w"] next_entry_iff [of "word_bits n w"]
    by (cases "deepest t (word_bits n w)"; cases "next_entry entries (word_bits n w)") auto
  with findRunLen_eq [OF t(1), of "16 - n" w] assms(2) show ?thesis by simp
qed

lemma next_entry_take: "next_entry entries (take 16 bs) = next_entry entries bs"
proof -
  have "prefix (code_bits (snd e)) (take 16 bs) \<longleftrightarrow> prefix (code_bits (snd e)) bs" if "e \<in> set entries" for e
  proof -
    have "length (code_bits (snd e)) \<le> 16" using codes_ok that by (auto simp: list_all_iff code_ok_def)
    then show ?thesis by (rule prefix_take)
  qed
  then show ?thesis unfolding next_entry_def by (intro find_cong refl)
qed

lemma search_any_order:
  assumes "mset es = mset entries" "addNodes new_root entries = Some u"
  shows "\<exists>t. addNodes new_root es = Some t \<and>
    (\<forall>w pos. pos \<le> 16 \<longrightarrow> findRunLen t w pos = findRunLen u w pos)"
proof -
  from tree_at_book [OF assms(1)] obtain t where t: "addNodes new_root es = Some t" "tree_ok t"
    "\<And>xs e. tree_at t xs = Some e \<longleftrightarrow> e \<in> set entries \<and> code_bits (snd e) = xs"
    by auto
  from tree_at_book [OF refl] assms(2) have u: "tree_ok u"
    "\<And>xs e. tree_at u xs = Some e \<longleftrightarrow> e \<in> set entries \<and> code_bits (snd e) = xs"
    by auto
  have "deepest t bs = deepest u bs" for bs
    using deepest_book [OF t(3), of bs] deepest_book [OF u(2), of bs]
    by (cases "deepest t bs"; cases "deepest u bs") auto
  with t u show ?thesis by (intro exI [of _ t]) (simp add: findRunLen_eq)
qed

end

interpretation white_book: prefix_code white_entries
  by unfold_locales (rule white_codes_ok white_prefix_free)+

interpretation black_book: prefix_code black_entries
  by unfold_locales (rule black_codes_ok black_prefix_free)+

interpretation two_dim_book: prefix_code two_dim_entries
  by unfold_locales (rule two_dim_codes_ok two_dim_prefix_free)+

lemma addNodes_whiteTree: "addNodes new_root white_entries = Some whiteTree"
  using white_book.tree_at_book [OF refl] by (auto simp: whiteTree_def)

lemma addNodes_blackTree: "addNodes new_root black_entries = Some blackTree"
  using black_book.tree_at_book [OF refl] by (auto simp: blackTree_def)

lemma addNodes_twoDimTree: "addNodes new_root two_dim_entries = Some twoDimTree"
  using two_dim_book.tree_at_book [OF refl] by (auto simp: twoDimTree_def)

end
