(* ===== verification/Ccitt_Decoder.thy ===== *)
theory Ccitt_Decoder
  imports Ccitt_Encoder Ccitt_Tree
begin

text \<open>
  The decoder of \<open>pdf/internal/ccittfax/decode.go\<close>: fetching the next at most 16 bits,
  looking them up in the decoding trees, and the three decoding schemes. The loops are
  \<open>partial_function\<close>s; the error values are those of the source, and a slice read out of
  range is \<open>Panic\<close>.
\<close>

section \<open>Fetching codes\<close>

definition fetchNextCode :: "u8 list \<Rightarrow> nat \<Rightarrow> u16 \<times> nat \<times> nat" where
  "fetchNextCode data bitPos =
    (let startingBitPos = bitPos; bytePos = bitPos div 8; bitPos = bitPos mod 8 in
     if length data \<le> bytePos then (0, 16, startingBitPos)
     else
       let m = drop_bit bitPos (0xFF :: u8);
           c = push_bit 8 (ucast (push_bit bitPos (data ! bytePos AND m)) :: u16);
           bitsWritten = 8 - bitPos; bytePos = bytePos + 1 in
       if length data \<le> bytePos then
         (drop_bit (16 - bitsWritten) c, 16 - bitsWritten, startingBitPos + bitsWritten)
       else
         let c = c OR push_bit (8 - bitsWritten) (ucast (data ! bytePos));
             bitsWritten = bitsWritten + 8; bytePos = bytePos + 1 in
         if length data \<le> bytePos then
           (drop_bit (16 - bitsWritten) c, 16 - bitsWritten, startingBitPos + bitsWritten)
         else if bitsWritten = 16 then (c, 0, startingBitPos + bitsWritten)
         else
           let leftToWrite = 16 - bitsWritten;
               c = c OR ucast (drop_bit (8 - leftToWrite) (data ! bytePos))
           in (c, 0, startingBitPos + 16))"

text \<open>
  The run length and the code of a node are set together (\<open>tree_ok\<close>), so the second pointer
  is not nil when the first is not.
\<close>

definition decodeRunLenFromUint16 :: "u16 \<Rightarrow> nat \<Rightarrow> bool \<Rightarrow> int \<times> code" where
  "decodeRunLenFromUint16 encoded bitPos isWhite =
    (case (if isWhite then findRunLen whiteTree encoded bitPos
           else findRunLen blackTree encoded bitPos) of
       (None, _) \<Rightarrow> (-1, mk_code 0 0)
     | (Some runLen, codePtr) \<Rightarrow> (runLen, the codePtr))"

definition get2DCodeFromUint16 :: "u16 \<Rightarrow> nat \<Rightarrow> code \<times> bool" where
  "get2DCodeFromUint16 encoded bitPos =
    (case findRunLen twoDimTree encoded bitPos of
       (_, None) \<Rightarrow> (mk_code 0 0, False)
     | (_, Some c) \<Rightarrow> (c, True))"

definition fetchNextRunLen :: "u8 list \<Rightarrow> nat \<Rightarrow> bool \<Rightarrow> int \<times> nat" where
  "fetchNextRunLen data bitPos isWhite =
    (case fetchNextCode data bitPos of (codeNum, codeBitPos, _) \<Rightarrow>
     case decodeRunLenFromUint16 codeNum codeBitPos isWhite of (runLen, c) \<Rightarrow>
       if runLen = -1 then (-1, bitPos) else (runLen, bitPos + BitsWritten c))"

definition fetchNext2DCode :: "u8 list \<Rightarrow> nat \<Rightarrow> code \<times> nat \<times> bool" where
  "fetchNext2DCode data bitPos =
    (case fetchNextCode data bitPos of (codeNum, codeBitPos, _) \<Rightarrow>
     case get2DCodeFromUint16 codeNum codeBitPos of (c, ok) \<Rightarrow>
       if \<not> ok then (mk_code 0 0, bitPos, False) else (c, bitPos + BitsWritten c, True))"

definition tryFetchEOL :: "u8 list \<Rightarrow> nat \<Rightarrow> bool \<times> nat" where
  "tryFetchEOL encoded bitPos =
    (let startingBitPos = bitPos in
     case fetchNextCode encoded bitPos of (c, codeBitPos, bitPos) \<Rightarrow>
       if codeBitPos > 4 then (False, startingBitPos)
       else
         let c = push_bit 4 (drop_bit (4 - codeBitPos) c) in
         if c \<noteq> Code eol then (False, startingBitPos) else (True, bitPos - 4 + codeBitPos))"

definition tryFetchExtendedEOL :: "u8 list \<Rightarrow> nat \<Rightarrow> code \<Rightarrow> bool \<times> nat" where
  "tryFetchExtendedEOL encoded bitPos eolCode =
    (let startingBitPos = bitPos in
     case fetchNextCode encoded bitPos of (c, codeBitPos, bitPos) \<Rightarrow>
       if codeBitPos > 3 then (False, startingBitPos)
       else
         let c = push_bit 3 (drop_bit (3 - codeBitPos) c) in
         if c \<noteq> Code eolCode then (False, startingBitPos) else (True, bitPos - 3 + codeBitPos))"

definition tryFetchEOL0 :: "u8 list \<Rightarrow> nat \<Rightarrow> bool \<times> nat" where
  "tryFetchEOL0 encoded bitPos = tryFetchExtendedEOL encoded bitPos eol0"

definition tryFetchEOL1 :: "u8 list \<Rightarrow> nat \<Rightarrow> bool \<times> nat" where
  "tryFetchEOL1 encoded bitPos = tryFetchExtendedEOL encoded bitPos eol1"

definition tryFetchEOFB :: "u8 list \<Rightarrow> nat \<Rightarrow> (bool \<times> nat) cres" where
  "tryFetchEOFB encoded bitPos =
    (let startingBitPos = bitPos in
     case tryFetchEOL encoded bitPos of (gotEOL, bitPos) \<Rightarrow>
       if gotEOL then
         (case tryFetchEOL encoded bitPos of (gotEOL, bitPos) \<Rightarrow>
            if gotEOL then Ok (True, bitPos) else Err EOFBCorrupt)
       else Ok (False, startingBitPos))"

text \<open>The loop of \<open>tryFetchRTC2D\<close> from its \<open>i\<close>-th round on.\<close>

function tryFetchRTC2D_loop :: "u8 list \<Rightarrow> nat \<Rightarrow> nat \<Rightarrow> nat \<Rightarrow> (bool \<times> nat) cres" where
  "tryFetchRTC2D_loop encoded startingBitPos i bitPos =
    (if i < 6 then
       (case tryFetchEOL1 encoded bitPos of (gotEOL, bitPos) \<Rightarrow>
          if \<not> gotEOL then
            if i > 1 then Err RTCCorrupt else Ok (False, startingBitPos)
          else tryFetchRTC2D_loop encoded startingBitPos (i + 1) bitPos)
     else Ok (True, bitPos))"
  by pat_completeness auto
termination
  by (relation "measure (\<lambda>(encoded, startingBitPos, i, bitPos). 6 - i)") auto

declare tryFetchRTC2D_loop.simps [simp del]

definition tryFetchRTC2D :: "u8 list \<Rightarrow> nat \<Rightarrow> (bool \<times> nat) cres" where
  "tryFetchRTC2D encoded bitPos = tryFetchRTC2D_loop encoded bitPos 0 bitPos"

section \<open>Rows\<close>

definition drawPixels :: "colours \<Rightarrow> u8 list \<Rightarrow> bool \<Rightarrow> int \<Rightarrow> u8 list" where
  "drawPixels cl row isWhite len =
    (if len < 0 then row
     else row @ replicate (nat len) (if isWhite then white cl else black cl))"

partial_function (option) decodeRow1D_loop ::
    "Encoder \<Rightarrow> colours \<Rightarrow> u8 list \<Rightarrow> u8 list \<Rightarrow> bool \<Rightarrow> int \<Rightarrow> nat \<Rightarrow> (u8 list \<times> nat) option" where
  "decodeRow1D_loop e cl encoded pixelsRow isWhite runLen bitPos =
    (if runLen \<noteq> -1 then
       let pixelsRow = drawPixels cl pixelsRow isWhite runLen in
       if runLen < 64 \<and> int (length pixelsRow) \<ge> Columns e then Some (pixelsRow, bitPos)
       else
         let isWhite = (if runLen < 64 then \<not> isWhite else isWhite) in
         (case fetchNextRunLen encoded bitPos isWhite of (runLen, bitPos) \<Rightarrow>
            decodeRow1D_loop e cl encoded pixelsRow isWhite runLen bitPos)
     else Some (pixelsRow, bitPos))"

definition decodeRow1D :: "Encoder \<Rightarrow> colours \<Rightarrow> u8 list \<Rightarrow> nat \<Rightarrow> (u8 list \<times> nat) option" where
  "decodeRow1D e cl encoded bitPos =
    (case fetchNextRunLen encoded bitPos True of (runLen, bitPos) \<Rightarrow>
       decodeRow1D_loop e cl encoded [] True runLen bitPos)"

partial_function (option) decodeNextRunLen ::
    "colours \<Rightarrow> u8 list \<Rightarrow> u8 list \<Rightarrow> nat \<Rightarrow> bool \<Rightarrow> (u8 list \<times> nat) crun" where
  "decodeNextRunLen cl encoded pixelsRow bitPos isWhite =
    (case fetchNextRunLen encoded bitPos isWhite of (runLen, bitPos) \<Rightarrow>
       if runLen \<noteq> -1 then
         let pixelsRow = drawPixels cl pixelsRow isWhite runLen in
         if runLen < 64 then Some (Ok (pixelsRow, bitPos))
         else decodeNextRunLen cl encoded pixelsRow bitPos isWhite
       else Some (Err WrongCodeInHorizontalMode))"

definition decodeHorizontalMode ::
    "colours \<Rightarrow> u8 list \<Rightarrow> u8 list \<Rightarrow> nat \<Rightarrow> bool \<Rightarrow> (u8 list \<times> nat \<times> int) crun" where
  "decodeHorizontalMode cl encoded pixelsRow bitPos isWhite =
    run_bind (decodeNextRunLen cl encoded pixelsRow bitPos isWhite) (\<lambda>(pixelsRow, bitPos).
    run_bind (decodeNextRunLen cl encoded pixelsRow bitPos (\<not> isWhite)) (\<lambda>(pixelsRow, bitPos).
    Some (Ok (pixelsRow, bitPos, int (length pixelsRow)))))"

definition decodeVerticalMode ::
    "colours \<Rightarrow> u8 list list \<Rightarrow> u8 list \<Rightarrow> bool \<Rightarrow> int \<Rightarrow> int \<Rightarrow> (u8 list \<times> int) cres" where
  "decodeVerticalMode cl pixels pixelsRow isWhite a0 shift =
    rbind (index_at pixels (int (length pixels) - 1)) (\<lambda>ref.
    rbind (seekB12D cl pixelsRow ref a0 isWhite) (\<lambda>b1.
    let a1 = b1 + shift in
    if a0 = -1 then Ok (drawPixels cl pixelsRow isWhite (a1 - a0 - 1), a1)
    else Ok (drawPixels cl pixelsRow isWhite (a1 - a0), a1)))"

definition decodePassMode ::
    "colours \<Rightarrow> u8 list list \<Rightarrow> u8 list \<Rightarrow> bool \<Rightarrow> int \<Rightarrow> (u8 list \<times> int) cres" where
  "decodePassMode cl pixels pixelsRow isWhite a0 =
    rbind (index_at pixels (int (length pixels) - 1)) (\<lambda>ref.
    rbind (seekB12D cl pixelsRow ref a0 isWhite) (\<lambda>b1.
    rbind (seekChangingElem cl ref b1) (\<lambda>b2.
    if a0 = -1 then Ok (drawPixels cl pixelsRow isWhite (b2 - a0 - 1), b2)
    else Ok (drawPixels cl pixelsRow isWhite (b2 - a0), b2))))"

text \<open>
  The switch over the two-dimensional code that \<open>decodeG32D\<close> and \<open>decodeG4\<close> share; the state
  is the row so far, the bit position, the colour and \<open>a0\<close>.
\<close>

definition vertical_shift :: "code \<Rightarrow> int option" where
  "vertical_shift c =
    map_of [(v0, 0), (v1r, 1), (v2r, 2), (v3r, 3), (v1l, -1), (v2l, -2), (v3l, -3)] c"

definition decode2D_step ::
    "colours \<Rightarrow> u8 list \<Rightarrow> u8 list list \<Rightarrow> code \<Rightarrow> u8 list \<Rightarrow> nat \<Rightarrow> bool \<Rightarrow> int \<Rightarrow>
     (u8 list \<times> nat \<times> bool \<times> int) crun" where
  "decode2D_step cl encoded pixels twoDimCode pixelsRow bitPos isWhite a0 =
    (if twoDimCode = p_code then
       run_bind (Some (decodePassMode cl pixels pixelsRow isWhite a0)) (\<lambda>(pixelsRow, a0).
       Some (Ok (pixelsRow, bitPos, isWhite, a0)))
     else if twoDimCode = h_code then
       run_bind (decodeHorizontalMode cl encoded pixelsRow bitPos isWhite) (\<lambda>(pixelsRow, bitPos, a0).
       Some (Ok (pixelsRow, bitPos, isWhite, a0)))
     else
       (case vertical_shift twoDimCode of
          Some shift \<Rightarrow>
            run_bind (Some (decodeVerticalMode cl pixels pixelsRow isWhite a0 shift))
              (\<lambda>(pixelsRow, a0). Some (Ok (pixelsRow, bitPos, \<not> isWhite, a0)))
        | None \<Rightarrow> Some (Ok (pixelsRow, bitPos, isWhite, a0))))"

definition align_byte :: "Encoder \<Rightarrow> nat \<Rightarrow> nat" where
  "align_byte e bitPos =
    (if EncodedByteAlign e \<and> bitPos mod 8 \<noteq> 0 then bitPos + (8 - bitPos mod 8) else bitPos)"

definition rows_done :: "Encoder \<Rightarrow> int \<Rightarrow> bool" where
  "rows_done e n \<longleftrightarrow> Rows e > 0 \<and> \<not> EndOfBlock e \<and> n \<ge> Rows e"

section \<open>Group 3, one-dimensional\<close>

function fetchRTC_rest :: "u8 list \<Rightarrow> nat \<Rightarrow> nat \<Rightarrow> (bool \<times> nat) cres" where
  "fetchRTC_rest encoded i bitPos =
    (if i < 5 then
       (case tryFetchEOL encoded bitPos of (gotEOL, bitPos) \<Rightarrow>
          if \<not> gotEOL then if i = 0 then Ok (False, bitPos) else Err InvalidEOL
          else fetchRTC_rest encoded (i + 1) bitPos)
     else Ok (True, bitPos))"
  by pat_completeness auto
termination
  by (relation "measure (\<lambda>(encoded, i, bitPos). 5 - i)") auto

declare fetchRTC_rest.simps [simp del]

partial_function (option) decodeG31D_loop ::
    "Encoder \<Rightarrow> colours \<Rightarrow> u8 list \<Rightarrow> u8 list list \<Rightarrow> nat \<Rightarrow> u8 list list crun" where
  "decodeG31D_loop e cl encoded pixels bitPos =
    (if bitPos div 8 < length encoded then
       (case tryFetchEOL encoded bitPos of (gotEOL, bitPos) \<Rightarrow>
        if \<not> gotEOL \<and> EndOfLine e then Some (Err NoEOLFound)
        else
          run_bind (Some (if gotEOL then fetchRTC_rest encoded 0 bitPos else Ok (False, bitPos)))
            (\<lambda>(gotRTC, bitPos).
          if gotRTC then Some (Ok pixels)
          else
            (case decodeRow1D e cl encoded bitPos of
               None \<Rightarrow> None
             | Some (row, bitPos) \<Rightarrow>
                 let bitPos = align_byte e bitPos; pixels = pixels @ [row] in
                 if rows_done e (int (length pixels)) then Some (Ok pixels)
                 else decodeG31D_loop e cl encoded pixels bitPos)))
     else Some (Ok pixels))"

definition decodeG31D :: "Encoder \<Rightarrow> colours \<Rightarrow> u8 list \<Rightarrow> u8 list list crun" where
  "decodeG31D e cl encoded = decodeG31D_loop e cl encoded [] 0"

section \<open>Group 3, mixed\<close>

text \<open>
  A row that is still nil after decoding is empty, as appending no pixels to a nil slice
  leaves it nil; such a row is not added to the image.
\<close>

partial_function (option) decodeG32D_row ::
    "Encoder \<Rightarrow> colours \<Rightarrow> u8 list \<Rightarrow> u8 list list \<Rightarrow> u8 list \<Rightarrow> nat \<Rightarrow> bool \<Rightarrow> int \<Rightarrow>
     (u8 list \<times> nat) crun" where
  "decodeG32D_row e cl encoded pixels pixelsRow bitPos isWhite a0 =
    (case fetchNext2DCode encoded bitPos of (twoDimCode, bitPos, ok) \<Rightarrow>
       if ok then
         run_bind (decode2D_step cl encoded pixels twoDimCode pixelsRow bitPos isWhite a0)
           (\<lambda>(pixelsRow, bitPos, isWhite, a0).
         if int (length pixelsRow) \<ge> Columns e then Some (Ok (pixelsRow, bitPos))
         else decodeG32D_row e cl encoded pixels pixelsRow bitPos isWhite a0)
       else Some (Ok (pixelsRow, bitPos)))"

text \<open>The inner loop; the flag of its result is \<open>break byteLoop\<close>.\<close>

partial_function (option) decodeG32D_inner ::
    "Encoder \<Rightarrow> colours \<Rightarrow> u8 list \<Rightarrow> int \<Rightarrow> u8 list list \<Rightarrow> nat \<Rightarrow> (u8 list list \<times> nat \<times> bool) crun" where
  "decodeG32D_inner e cl encoded i pixels bitPos =
    (if i < K e \<and> bitPos div 8 < length encoded then
       (case tryFetchEOL0 encoded bitPos of (gotEOL, bitPos) \<Rightarrow>
        run_bind (Some (if gotEOL then Ok (False, bitPos) else tryFetchRTC2D encoded bitPos))
          (\<lambda>(gotRTC, bitPos).
        if gotRTC then Some (Ok (pixels, bitPos, True))
        else if \<not> gotEOL \<and> EndOfLine e then Some (Err NoEOLFound)
        else
          run_bind (decodeG32D_row e cl encoded pixels [] bitPos True (-1)) (\<lambda>(pixelsRow, bitPos).
          let bitPos = align_byte e bitPos;
              pixels = (if pixelsRow \<noteq> [] then pixels @ [pixelsRow] else pixels) in
          if rows_done e (int (length pixels)) then Some (Ok (pixels, bitPos, True))
          else decodeG32D_inner e cl encoded (i + 1) pixels bitPos)))
     else Some (Ok (pixels, bitPos, False)))"

partial_function (option) decodeG32D_outer ::
    "Encoder \<Rightarrow> colours \<Rightarrow> u8 list \<Rightarrow> u8 list list \<Rightarrow> nat \<Rightarrow> u8 list list crun" where
  "decodeG32D_outer e cl encoded pixels bitPos =
    (if bitPos div 8 < length encoded then
       run_bind (Some (tryFetchRTC2D encoded bitPos)) (\<lambda>(gotRTC, bitPos).
       if gotRTC then Some (Ok pixels)
       else
         (case tryFetchEOL1 encoded bitPos of (gotEOL, bitPos) \<Rightarrow>
          if \<not> gotEOL \<and> EndOfLine e then Some (Err NoEOLFound)
          else
            (case decodeRow1D e cl encoded bitPos of
               None \<Rightarrow> None
             | Some (row, bitPos) \<Rightarrow>
                 let bitPos = align_byte e bitPos;
                     pixels = (if row \<noteq> [] then pixels @ [row] else pixels) in
                 if rows_done e (int (length pixels)) then Some (Ok pixels)
                 else
                   run_bind (decodeG32D_inner e cl encoded 1 pixels bitPos) (\<lambda>(pixels, bitPos, stop).
                   if stop then Some (Ok pixels)
                   else decodeG32D_outer e cl encoded pixels bitPos))))
     else Some (Ok pixels))"

definition decodeG32D :: "Encoder \<Rightarrow> colours \<Rightarrow> u8 list \<Rightarrow> u8 list list crun" where
  "decodeG32D e cl encoded = decodeG32D_outer e cl encoded [] 0"

section \<open>Group 4\<close>

partial_function (option) decodeG4_row ::
    "Encoder \<Rightarrow> colours \<Rightarrow> u8 list \<Rightarrow> u8 list list \<Rightarrow> u8 list \<Rightarrow> nat \<Rightarrow> bool \<Rightarrow> int \<Rightarrow>
     (u8 list \<times> nat) crun" where
  "decodeG4_row e cl encoded pixels pixelsRow bitPos isWhite a0 =
    (if a0 < Columns e then
       (case fetchNext2DCode encoded bitPos of (twoDimCode, bitPos, ok) \<Rightarrow>
          if \<not> ok then Some (Err Invalid2DCode)
          else
            run_bind (decode2D_step cl encoded pixels twoDimCode pixelsRow bitPos isWhite a0)
              (\<lambda>(pixelsRow, bitPos, isWhite, a0).
            if int (length pixelsRow) \<ge> Columns e then Some (Ok (pixelsRow, bitPos))
            else decodeG4_row e cl encoded pixels pixelsRow bitPos isWhite a0))
     else Some (Ok (pixelsRow, bitPos)))"

partial_function (option) decodeG4_loop ::
    "Encoder \<Rightarrow> colours \<Rightarrow> u8 list \<Rightarrow> u8 list list \<Rightarrow> nat \<Rightarrow> u8 list list crun" where
  "decodeG4_loop e cl encoded pixels bitPos =
    (if bitPos div 8 < length encoded then
       run_bind (Some (tryFetchEOFB encoded bitPos)) (\<lambda>(gotEOL, bitPos).
       if gotEOL then Some (Ok pixels)
       else
         run_bind (decodeG4_row e cl encoded pixels [] bitPos True (-1)) (\<lambda>(pixelsRow, bitPos).
         let bitPos = align_byte e bitPos; pixels = pixels @ [pixelsRow] in
         if rows_done e (int (length pixels) - 1) then Some (Ok pixels)
         else decodeG4_loop e cl encoded pixels bitPos))
     else Some (Ok pixels))"

definition decodeG4 :: "Encoder \<Rightarrow> colours \<Rightarrow> u8 list \<Rightarrow> u8 list list crun" where
  "decodeG4 e cl encoded =
    (if Columns e < 0 then Some Panic
     else
       run_bind (decodeG4_loop e cl encoded [replicate (nat (Columns e)) (white cl)] 0)
         (\<lambda>pixels. Some (Ok (drop 1 pixels))))"

definition Decode :: "Encoder \<Rightarrow> u8 list \<Rightarrow> u8 list list crun" where
  "Decode e encoded =
    (let cl = set_colours e in
     if K e = 0 then decodeG31D e cl encoded
     else if K e > 0 then decodeG32D e cl encoded
     else if K e < 4 then decodeG4 e cl encoded
     else Some (Ok []))"

text \<open>The loops are executable: their equations are code equations.\<close>

lemmas [code] =
  decodeRow1D_loop.simps
  decodeNextRunLen.simps
  decodeG31D_loop.simps
  decodeG32D_row.simps
  decodeG32D_inner.simps
  decodeG32D_outer.simps
  decodeG4_row.simps
  decodeG4_loop.simps

end
