(* ===== verification/Ccitt_Encoder_Spec.thy ===== *)
theory Ccitt_Encoder_Spec
  imports Ccitt_Encoder
begin

text \<open>
  What the encoder writes, as bit strings. A row under construction is a byte slice together
  with the number of bits already used; \<open>holds_bits\<close> says which bit string it stands for.
  Every writing operation refines appending to that bit string.
\<close>

section \<open>Appending a code\<close>

text \<open>
  The slice is the packed bit string, or it is still nil while only the unused bits of the
  first byte (those of the previous row) come before the position.
\<close>

definition holds_bits :: "u8 list \<Rightarrow> nat \<Rightarrow> bool list \<Rightarrow> bool" where
  "holds_bits encoded pos bs \<longleftrightarrow> pos = length bs \<and>
    (encoded = pack bs \<or> encoded = [] \<and> length bs < 8 \<and> bs = replicate pos False)"

lemma holds_bits_start: "n < 8 \<Longrightarrow> holds_bits [] n (replicate n False)"
  by (simp add: holds_bits_def)

lemma holds_bits_pack: "holds_bits (pack bs) (length bs) bs"
  by (simp add: holds_bits_def)

lemma bits_update_last:
  assumes "length xs = Suc k"
  shows "bits (xs[k := w]) = take (8 * k) (bits xs) @ word_bits 8 w"
proof -
  from assms obtain ys y where "xs = ys @ [y]" "length ys = k"
    by (metis length_Suc_conv_rev)
  then show ?thesis by (auto simp: list_update_append)
qed

lemma write_chunk:
  assumes B: "bits enc = B @ replicate (8 - length B mod 8) False"
    and n: "length ch \<le> 8 - length B mod 8" "ch \<noteq> []"
    and w: "\<And>j. j < 8 \<Longrightarrow> bit w (7 - j) \<longleftrightarrow> bit (enc ! (length B div 8)) (7 - j) \<or>
        length B mod 8 \<le> j \<and> j < length B mod 8 + length ch \<and> ch ! (j - length B mod 8)"
  shows "enc[length B div 8 := w] = pack (B @ ch)"
proof (rule pack_eqI)
  define k r where "k = length B div 8" and "r = length B mod 8"
  have len: "length B = 8 * k + r" "r < 8" by (simp_all add: k_def r_def)
  from arg_cong [OF B, of length] len have enc: "length enc = Suc k" by (simp add: r_def [symmetric])
  have old: "bit (enc ! k) (7 - j) \<longleftrightarrow> j < r \<and> B ! (8 * k + j)" if "j < 8" for j
  proof -
    have "bit (enc ! k) (7 - j) = bits enc ! (8 * k + j)"
      using that enc by (simp add: nth_bits)
    with that len show ?thesis by (auto simp: B nth_append r_def [symmetric])
  qed
  have wb: "word_bits 8 w = drop (8 * k) B @ ch @ replicate (8 - r - length ch) False"
    using len n by (intro nth_equalityI)
      (auto simp: w [folded k_def r_def] old nth_append r_def [symmetric])
  have "length (B @ ch) mod 8 = (r + length ch) mod 8" by (simp add: len add.assoc)
  moreover have "(8 - (r + length ch) mod 8) mod 8 = 8 - r - length ch"
    using n len by (cases "r + length ch = 8") (auto simp: r_def [symmetric])
  ultimately have "pad8 (B @ ch) = B @ ch @ replicate (8 - r - length ch) False"
    by (simp add: pad8_def)
  moreover have "take (8 * k) (bits enc) = take (8 * k) B" using len by (simp add: B)
  ultimately show "bits (enc[length B div 8 := w]) = pad8 (B @ ch)"
    unfolding k_def [symmetric] by (simp add: bits_update_last enc wb)
qed

lemma holds_bits_extend:
  assumes "holds_bits encoded pos bs"
  defines "enc \<equiv> if length encoded \<le> pos div 8 then encoded @ [0] else encoded"
  shows "bits enc = bs @ replicate (8 - pos mod 8) False" "length enc = Suc (pos div 8)"
proof -
  have z: "word_bits 8 (0 :: u8) = replicate 8 False"
    by (intro nth_equalityI) auto
  have "bits enc = bs @ replicate (8 - pos mod 8) False"
  proof (cases "encoded = pack bs")
    case True
    with assms have pos: "pos = length bs" by (simp add: holds_bits_def)
    show ?thesis
    proof (cases "pos mod 8 = 0")
      case True
      then have "length (pack bs) = pos div 8" by (simp add: pos ceil_div8)
      with True \<open>encoded = pack bs\<close> show ?thesis
        by (simp add: enc_def bits_pack pad8_def z pos)
    next
      case False
      then have "(pos + 7) div 8 = Suc (pos div 8)" by (simp add: ceil_div8)
      with False \<open>encoded = pack bs\<close> show ?thesis
        by (simp add: enc_def bits_pack pad8_def pos)
    qed
  next
    case False
    with assms(1) have e: "encoded = []" "pos < 8" "bs = replicate pos False"
      unfolding holds_bits_def by metis+
    have "pos + (8 - pos mod 8) = 8" using e(2) by simp
    then have "replicate 8 False = replicate pos False @ replicate (8 - pos mod 8) False"
      by (metis replicate_add)
    moreover have "enc = [0]" by (simp add: enc_def e(1))
    ultimately show ?thesis by (simp only: e(3) bits_Cons bits_Nil z append_Nil2)
  qed
  then show "bits enc = bs @ replicate (8 - pos mod 8) False" .
  then have "8 * length enc = length bs + (8 - pos mod 8)"
    by (metis length_append length_bits length_replicate)
  moreover from assms(1) have "length bs = pos" by (simp add: holds_bits_def)
  moreover have "pos = 8 * (pos div 8) + pos mod 8" "pos mod 8 < 8" by simp_all
  ultimately show "length enc = Suc (pos div 8)" by linarith
qed

lemma addCode_step_spec:
  assumes h: "holds_bits encoded pos (bs @ take i (code_bits c))"
    and i: "i < BitsWritten c" "BitsWritten c \<le> 16" "i = 0 \<or> pos mod 8 = 0"
  defines "n \<equiv> min (8 - pos mod 8) (BitsWritten c - i)"
  shows "addCode_step c encoded pos i =
    Ok (pack (bs @ take (i + n) (code_bits c)), pos + n, i + n)"
proof -
  define B where "B = bs @ take i (code_bits c)"
  define enc where "enc = (if length encoded \<le> pos div 8 then encoded @ [0] else encoded)"
  define old where "old = enc ! (pos div 8)"
  define w :: u8 where "w =
    (if i < 8 then
       old OR (ucast (drop_bit (8 + pos mod 8 - i) (Code c)) AND mask_at (8 - n - pos mod 8))
     else old OR drop_bit (pos mod 8) (ucast (push_bit (i - 8) (Code c)) AND mask_at (8 - n)))"
  define ch where "ch = take n (drop i (code_bits c))"
  have pos: "pos = length B" using h by (simp add: holds_bits_def B_def)
  have enc: "bits enc = B @ replicate (8 - pos mod 8) False" "length enc = Suc (pos div 8)"
    using holds_bits_extend [OF h] by (simp_all add: enc_def B_def)
  have n: "0 < n" "n \<le> 8 - pos mod 8" "i + n \<le> BitsWritten c" using i by (auto simp: n_def)
  have ch: "length ch = n" "ch \<noteq> []" using n by (auto simp: ch_def)
  have nth_ch: "ch ! j = bit (Code c) (15 - (i + j))" if "j < n" for j
    using that n by (simp add: ch_def)
  have "enc[length B div 8 := w] = pack (B @ ch)"
  proof (rule write_chunk)
    show "bits enc = B @ replicate (8 - length B mod 8) False" using enc by (simp add: pos)
    show "length ch \<le> 8 - length B mod 8" "ch \<noteq> []" using n ch by (simp_all add: pos)
    fix j :: nat assume j: "j < 8"
    have m: "8 - n - pos mod 8 \<le> 7 - j \<longleftrightarrow> j < pos mod 8 + n" using n j by auto
    show "bit w (7 - j) \<longleftrightarrow> bit (enc ! (length B div 8)) (7 - j) \<or>
        length B mod 8 \<le> j \<and> j < length B mod 8 + length ch \<and> ch ! (j - length B mod 8)"
    proof (cases "i < 8")
      case True
      have high: "\<not> bit (Code c) (15 + (pos mod 8 - j))" if "j < pos mod 8"
        using that by (auto dest: bit_imp_le_length)
      have shift: "8 + pos mod 8 - i + (7 - j) =
        (if j < pos mod 8 then 15 + (pos mod 8 - j) else 15 - (i + (j - pos mod 8)))"
        using True i(3) j by auto
      show ?thesis
        using True high j n(2) nth_ch [of "j - pos mod 8"]
        by (auto simp: w_def bit_or_iff bit_and_iff bit_unsigned_iff bit_drop_bit_eq bit_mask_at
            m shift old_def pos [symmetric] ch(1) simp del: One_nat_def)
    next
      case False
      with i have p0: "pos mod 8 = 0" by auto
      have shift: "7 - j - (i - 8) = 15 - (i + j)" using False by simp
      have low: "i - 8 \<le> 7 - j" if "j < n" using that n i j by linarith
      show ?thesis
        using False low j n p0 nth_ch [of j]
        by (auto simp: w_def bit_or_iff bit_and_iff bit_unsigned_iff bit_push_bit_iff bit_mask_at
            shift add.commute [of j i] old_def pos [symmetric] ch(1))
    qed
  qed
  moreover have "B @ ch = bs @ take (i + n) (code_bits c)"
    by (simp add: B_def ch_def take_add)
  ultimately have "(set_at enc (int (pos div 8)) w :: u8 list cres) = Ok (pack (bs @ take (i + n) (code_bits c)))"
    using enc(2) by (simp add: set_at_def pos nat_div_distrib)
  moreover have "(index_at enc (int (pos div 8)) :: u8 cres) = Ok old"
    using enc(2) by (simp add: index_at_def old_def nat_div_distrib)
  ultimately show ?thesis
    unfolding addCode_step_def Let_def enc_def [symmetric] n_def [symmetric]
    by (simp only: rbind.simps w_def [symmetric])
qed

lemma addCode_loop_spec:
  assumes "holds_bits encoded pos (bs @ take i (code_bits c))"
    "i < BitsWritten c" "BitsWritten c \<le> 16" "i = 0 \<or> pos mod 8 = 0"
  shows "addCode_loop c encoded pos i = Ok (pack (bs @ code_bits c), pos + (BitsWritten c - i))"
  using assms
proof (induction "BitsWritten c - i" arbitrary: encoded pos i rule: less_induct)
  case less
  define n where "n = min (8 - pos mod 8) (BitsWritten c - i)"
  have step: "addCode_step c encoded pos i = Ok (pack (bs @ take (i + n) (code_bits c)), pos + n, i + n)"
    using addCode_step_spec [OF less.prems] by (simp add: n_def)
  have pos: "pos = length bs + i" using less.prems by (simp add: holds_bits_def)
  show ?case
  proof (cases "i + n < BitsWritten c")
    case True
    then have n: "n = 8 - pos mod 8" by (auto simp: n_def)
    then have "(pos + n) mod 8 = 0" by (simp add: mod_eq_0_iff_dvd dvd_def) presburger
    moreover have "holds_bits (pack (bs @ take (i + n) (code_bits c))) (pos + n)
        (bs @ take (i + n) (code_bits c))"
      using True by (simp add: holds_bits_def pos)
    moreover have "0 < n" by (simp add: n)
    ultimately have "addCode_loop c (pack (bs @ take (i + n) (code_bits c))) (pos + n) (i + n) =
        Ok (pack (bs @ code_bits c), pos + n + (BitsWritten c - (i + n)))"
      using True less.prems by (intro less.hyps) auto
    with True less.prems step show ?thesis
      by (subst addCode_loop.simps) simp
  next
    case False
    with less.prems(2) have "i + n = BitsWritten c" by (auto simp: n_def)
    then show ?thesis
      using less.prems step by (subst addCode_loop.simps) (simp add: addCode_loop.simps)
  qed
qed

lemma addCode_spec:
  assumes "holds_bits encoded pos bs" "code_ok c"
  shows "addCode encoded pos c = Ok (pack (bs @ code_bits c), pos + BitsWritten c)"
  using assms addCode_loop_spec [of encoded pos bs 0 c]
  by (simp add: addCode_def code_ok_def)

section \<open>Sequences of codes\<close>

definition codes_bits :: "code list \<Rightarrow> bool list" where
  "codes_bits cs = concat (map code_bits cs)"

lemma codes_bits_simps [simp]:
  "codes_bits [] = []" "codes_bits (c # cs) = code_bits c @ codes_bits cs"
  "codes_bits (cs @ ds) = codes_bits cs @ codes_bits ds"
  by (simp_all add: codes_bits_def)

lemma addCodes_spec:
  assumes "holds_bits encoded pos bs" "code_ok c"
  shows "addCodes (Suc n) c encoded pos =
    Ok (pack (bs @ codes_bits (replicate (Suc n) c)), pos + Suc n * BitsWritten c)"
  using assms
proof (induction n arbitrary: encoded pos bs)
  case 0
  then show ?case by (simp add: addCode_spec)
next
  case (Suc n)
  have "holds_bits (pack (bs @ code_bits c)) (pos + BitsWritten c) (bs @ code_bits c)"
    using Suc.prems by (simp add: holds_bits_def)
  from Suc.IH [OF this Suc.prems(2)] Suc.prems show ?case by (simp add: addCode_spec)
qed

section \<open>Run lengths\<close>

definition run_entries :: "bool \<Rightarrow> (int \<times> code) list" where
  "run_entries isWhite = (if isWhite then white_entries else black_entries)"

lemma table_keys:
  "map fst wTerms = map int [0..<64]" "map fst bTerms = map int [0..<64]"
  "map fst wMakeups = map (\<lambda>m. int m * 64) [1..<28]"
  "map fst bMakeups = map (\<lambda>m. int m * 64) [1..<28]"
  "map fst commonMakeups = map (\<lambda>m. int m * 64) [28..<41]"
  by code_simp+

lemma code_at_in: "k \<in> set (map fst t) \<Longrightarrow> (k, code_at t k) \<in> set t"
  by (force simp: code_at_def split: option.splits dest: map_of_SomeD simp: map_of_eq_None_iff)

lemma map_upt_mem: "a \<le> n \<Longrightarrow> n < b \<Longrightarrow> f n \<in> set (map f [a..<b])"
  by simp

text \<open>Every code that \<open>getRunCode\<close> chooses is in the book, for the part of the run it covers.\<close>

lemma getRunCode_entry:
  assumes "0 \<le> runLen" "getRunCode runLen isWhite = (c, rest, isTerminal)"
  shows "(runLen - rest, c) \<in> set (run_entries isWhite)" "0 \<le> rest"
    "isTerminal \<longleftrightarrow> runLen - rest < 64" "isTerminal \<Longrightarrow> rest = 0" "0 \<le> runLen - rest"
proof -
  define m where "m = runLen div 64"
  have m: "m * 64 \<le> runLen" "runLen < m * 64 + 64" by (simp_all add: m_def)
  have terms: "runLen \<in> set (map fst wTerms)" "runLen \<in> set (map fst bTerms)" if "runLen < 64"
    using map_upt_mem [of 0 "nat runLen" 64 int] that assms(1) unfolding table_keys by simp_all
  have makeups: "m * 64 \<in> set (map fst wMakeups)" "m * 64 \<in> set (map fst bMakeups)"
    if "1 \<le> m" "m \<le> 27"
    using map_upt_mem [of 1 "nat m" 28 "\<lambda>m. int m * 64"] that unfolding table_keys
    by (simp_all only: nat_0_le)
  have commons: "m * 64 \<in> set (map fst commonMakeups)" if "28 \<le> m" "m \<le> 40" for m
    using map_upt_mem [of 28 "nat m" 41 "\<lambda>m. int m * 64"] that unfolding table_keys
    by (simp only: nat_0_le)
  have commons40: "2560 \<in> set (map fst commonMakeups)" using commons [of 40] by simp
  note defs = run_entries_def white_entries_def black_entries_def
  consider "runLen < 64" | "64 \<le> runLen" "m > 40" | "28 \<le> m" "m \<le> 40" | "1 \<le> m" "m \<le> 27"
    using m assms(1) by linarith
  then have "(runLen - rest, c) \<in> set (run_entries isWhite) \<and> 0 \<le> rest \<and>
    (isTerminal \<longleftrightarrow> runLen - rest < 64) \<and> (isTerminal \<longrightarrow> rest = 0) \<and> 0 \<le> runLen - rest"
  proof cases
    case 1
    with assms terms [THEN code_at_in] show ?thesis
      by (auto simp: getRunCode_def defs split: if_splits)
  next
    case 2
    with assms m commons40 [THEN code_at_in] show ?thesis
      by (auto simp: getRunCode_def Let_def m_def [symmetric] defs)
  next
    case 3
    with assms m commons [OF 3, THEN code_at_in] show ?thesis
      by (auto simp: getRunCode_def Let_def m_def [symmetric] defs)
  next
    case 4
    with assms m makeups [OF 4, THEN code_at_in] show ?thesis
      by (auto simp: getRunCode_def Let_def m_def [symmetric] defs split: if_splits)
  qed
  then show "(runLen - rest, c) \<in> set (run_entries isWhite)" "0 \<le> rest"
    "isTerminal \<longleftrightarrow> runLen - rest < 64" "isTerminal \<Longrightarrow> rest = 0" "0 \<le> runLen - rest"
    by simp_all
qed

lemma run_entries_ok: "(k, c) \<in> set (run_entries isWhite) \<Longrightarrow> code_ok c"
  using white_codes_ok black_codes_ok by (auto simp: run_entries_def list_all_iff split: if_splits)

text \<open>The codes of a run: make-up codes (multiples of 64), then one terminating code.\<close>

function run_items :: "int \<Rightarrow> bool \<Rightarrow> (int \<times> code) list" where
  "run_items runLen isWhite =
    (case getRunCode runLen isWhite of (c, rest, isTerminal) \<Rightarrow>
       (runLen - rest, c) # (if isTerminal then [] else run_items rest isWhite))"
  by pat_completeness auto
termination
  by (relation "measure (\<lambda>(runLen, isWhite). nat runLen)")
    (auto dest!: getRunCode_shrinks [OF sym])

declare run_items.simps [simp del]

definition run_bits :: "bool \<Rightarrow> int \<Rightarrow> bool list" where
  "run_bits isWhite runLen = codes_bits (map snd (run_items runLen isWhite))"

lemma length_codes_bits: "length (codes_bits cs) = sum_list (map BitsWritten cs)"
  by (induction cs) simp_all

text \<open>\<open>encodeRunLen\<close> returns for every run and appends exactly its codes.\<close>

lemma encodeRunLen_spec:
  assumes "holds_bits encoded pos bs" "0 \<le> runLen"
  shows "encodeRunLen encoded pos runLen isWhite =
    Ok (pack (bs @ run_bits isWhite runLen), pos + length (run_bits isWhite runLen))"
  using assms
proof (induction runLen isWhite arbitrary: encoded pos bs rule: run_items.induct)
  case (1 runLen isWhite)
  obtain c rest t where g: "getRunCode runLen isWhite = (c, rest, t)" by (metis prod_cases3)
  note e = getRunCode_entry [OF "1.prems"(2) g]
  have c: "code_ok c" using e(1) by (rule run_entries_ok)
  have items: "run_bits isWhite runLen = code_bits c @ (if t then [] else run_bits isWhite rest)"
    by (simp add: run_bits_def run_items.simps [of runLen] g)
  show ?case
  proof (cases t)
    case True
    then show ?thesis
      by (subst encodeRunLen.simps) (simp add: g addCode_spec [OF "1.prems"(1) c] items)
  next
    case False
    have h: "holds_bits (pack (bs @ code_bits c)) (pos + BitsWritten c) (bs @ code_bits c)"
      using "1.prems"(1) by (simp add: holds_bits_def)
    from False "1.IH" [OF g [symmetric] refl _ h e(2)]
    show ?thesis
      by (subst encodeRunLen.simps) (simp add: g addCode_spec [OF "1.prems"(1) c] items)
  qed
qed

lemma run_items_spec:
  assumes "0 \<le> runLen"
  shows "\<exists>ms t. run_items runLen isWhite = ms @ [t] \<and> set (ms @ [t]) \<subseteq> set (run_entries isWhite) \<and>
    (\<forall>(k, c) \<in> set ms. 64 \<le> k) \<and> 0 \<le> fst t \<and> fst t < 64 \<and> sum_list (map fst (ms @ [t])) = runLen"
  using assms
proof (induction runLen isWhite rule: run_items.induct)
  case (1 runLen isWhite)
  obtain c rest t where g: "getRunCode runLen isWhite = (c, rest, t)" by (metis prod_cases3)
  note e = getRunCode_entry [OF "1.prems" g]
  show ?case
  proof (cases t)
    case True
    with e show ?thesis
      by (intro exI [of _ "[]"] exI [of _ "(runLen - rest, c)"])
        (simp add: run_items.simps [of runLen] g)
  next
    case False
    from "1.IH" [OF g [symmetric] refl False e(2)] obtain ms u where u:
      "run_items rest isWhite = ms @ [u]" "set (ms @ [u]) \<subseteq> set (run_entries isWhite)"
      "\<forall>(k, c) \<in> set ms. 64 \<le> k" "0 \<le> fst u" "fst u < 64" "sum_list (map fst (ms @ [u])) = rest"
      by blast
    from False e(3) have "64 \<le> runLen - rest" by simp
    with u e(1) False show ?thesis
      by (intro exI [of _ "(runLen - rest, c) # ms"] exI [of _ u])
        (simp add: run_items.simps [of runLen] g)
  qed
qed

lemma run_bits_nonempty: "0 \<le> runLen \<Longrightarrow> run_bits isWhite runLen \<noteq> []"
proof -
  assume "0 \<le> runLen"
  from run_items_spec [OF this, of isWhite] obtain ms t where
    "run_items runLen isWhite = ms @ [t]" "t \<in> set (run_entries isWhite)" by auto
  moreover from this have "code_ok (snd t)" by (cases t) (auto intro: run_entries_ok)
  then have "code_bits (snd t) \<noteq> []" by (metis code_ok_def length_code_bits list.size(3) not_less0)
  ultimately show "run_bits isWhite runLen \<noteq> []" by (simp add: run_bits_def)
qed

section \<open>One-dimensional rows\<close>

definition pixel :: "colours \<Rightarrow> bool \<Rightarrow> u8" where
  "pixel cl isWhite = (if isWhite then white cl else black cl)"

definition row_ok :: "colours \<Rightarrow> u8 list \<Rightarrow> bool" where
  "row_ok cl row \<longleftrightarrow> white cl \<noteq> black cl \<and> set row \<subseteq> {white cl, black cl}"

lemma row_okD: "row_ok cl row \<Longrightarrow> i < length row \<Longrightarrow> row ! i \<noteq> pixel cl w \<Longrightarrow> row ! i = pixel cl (\<not> w)"
  unfolding row_ok_def pixel_def by (metis insertE nth_mem singletonD subsetD)

lemma pixel_neq: "row_ok cl row \<Longrightarrow> pixel cl w \<noteq> pixel cl (\<not> w)"
  by (auto simp: row_ok_def pixel_def)

lemma calcRun_eq:
  "calcRun cl row isWhite pos =
    (let n = length (takeWhile (\<lambda>x. x = pixel cl isWhite) (drop pos row)) in (n, pos + n))"
proof (induction cl row isWhite pos rule: calcRun.induct)
  case (1 cl row isWhite pos)
  show ?case
  proof (cases "pos < length row \<and> row ! pos = pixel cl isWhite")
    case True
    then have "drop pos row = row ! pos # drop (Suc pos) row" by (metis Cons_nth_drop_Suc)
    with True "1.IH" show ?thesis
      by (subst calcRun.simps) (simp add: pixel_def Let_def)
  next
    case False
    then have "takeWhile (\<lambda>x. x = pixel cl isWhite) (drop pos row) = []"
      by (cases "pos < length row") (auto simp: Cons_nth_drop_Suc [symmetric])
    with False show ?thesis
      by (subst calcRun.simps) (auto simp: pixel_def Let_def)
  qed
qed

text \<open>
  Alternating runs that start with a given colour: the pixels they draw and the bits they are
  written with. No run is left over once the row is full (\<open>runs_ok\<close>).
\<close>

fun draw_runs :: "colours \<Rightarrow> bool \<Rightarrow> nat list \<Rightarrow> u8 list" where
  "draw_runs cl isWhite [] = []"
| "draw_runs cl isWhite (r # rs) = replicate r (pixel cl isWhite) @ draw_runs cl (\<not> isWhite) rs"

fun runs_bits :: "bool \<Rightarrow> nat list \<Rightarrow> bool list" where
  "runs_bits isWhite [] = []"
| "runs_bits isWhite (r # rs) = run_bits isWhite (int r) @ runs_bits (\<not> isWhite) rs"

fun runs_ok :: "nat list \<Rightarrow> bool" where
  "runs_ok [] = True"
| "runs_ok (r # rs) = (0 < r + sum_list rs \<and> runs_ok rs)"

lemma length_draw_runs [simp]: "length (draw_runs cl w rs) = sum_list rs"
  by (induction rs arbitrary: w) simp_all

lemma encodeRow1D_loop_spec:
  assumes "row_ok cl row" "pos \<le> length row"
  shows "\<exists>rs. draw_runs cl w rs = drop pos row \<and> runs_ok rs \<and>
    encodeRow1D_loop cl row w (pack bs) (length bs) pos =
      Some (Ok (pack (bs @ runs_bits w rs), length (bs @ runs_bits w rs)))"
  using assms(2)
proof (induction "2 * (length row - pos) + (if pos < length row \<and> row ! pos \<noteq> pixel cl w then 1 else 0)"
    arbitrary: pos w bs rule: less_induct)
  case less
  show ?case
  proof (cases "pos < length row")
    case False
    then show ?thesis
      by (intro exI [of _ "[]"]) (simp add: encodeRow1D_loop.simps)
  next
    case True
    define n where "n = length (takeWhile (\<lambda>x. x = pixel cl w) (drop pos row))"
    have n: "pos + n \<le> length row"
      unfolding n_def using length_takeWhile_le [of _ "drop pos row"] True by (simp add: le_diff_conv2 add.commute)
    have tw: "takeWhile (\<lambda>x. x = pixel cl w) (drop pos row) = replicate n (pixel cl w)"
      unfolding n_def by (metis (mono_tags, lifting) replicate_length_same set_takeWhileD)
    have "takeWhile (\<lambda>x. x = pixel cl w) (drop pos row) @ drop (pos + n) row = drop pos row"
      using takeWhile_dropWhile_id [of "\<lambda>x. x = pixel cl w" "drop pos row"]
      by (simp add: n_def dropWhile_eq_drop add.commute)
    then have split: "drop pos row = replicate n (pixel cl w) @ drop (pos + n) row"
      by (simp only: tw)
    have next_px: "row ! (pos + n) \<noteq> pixel cl w" if "pos + n < length row"
      using nth_length_takeWhile [of "\<lambda>x. x = pixel cl w" "drop pos row"] that
      by (simp add: n_def [symmetric])
    have flip: "row ! (pos + n) = pixel cl (\<not> w)" if "pos + n < length row"
      using row_okD [OF assms(1) that next_px [OF that]] .
    have zero: "n = 0" if "row ! pos \<noteq> pixel cl w"
      using that True by (simp add: n_def Cons_nth_drop_Suc [symmetric])
    have pos_n: "0 < n" if "row ! pos = pixel cl w"
      using that True by (simp add: n_def Cons_nth_drop_Suc [symmetric])
    have dec: "2 * (length row - (pos + n)) +
        (if pos + n < length row \<and> row ! (pos + n) \<noteq> pixel cl (\<not> w) then 1 else 0) <
      2 * (length row - pos) + (if pos < length row \<and> row ! pos \<noteq> pixel cl w then 1 else (0::nat))"
      using flip zero pos_n True by (cases "row ! pos = pixel cl w") auto
    define R where "R = run_bits w (int n)"
    have enc: "encodeRow1D_loop cl row w (pack bs) (length bs) pos =
        encodeRow1D_loop cl row (\<not> w) (pack (bs @ R)) (length (bs @ R)) (pos + n)"
      using True encodeRunLen_spec [OF holds_bits_pack, of "int n" bs w]
      by (subst encodeRow1D_loop.simps) (simp add: calcRun_eq n_def [symmetric] R_def [symmetric] Let_def)
    from less.hyps [OF dec n, of "bs @ R"] obtain rs where rs:
      "draw_runs cl (\<not> w) rs = drop (pos + n) row" "runs_ok rs"
      "encodeRow1D_loop cl row (\<not> w) (pack (bs @ R)) (length (bs @ R)) (pos + n)
        = Some (Ok (pack ((bs @ R) @ runs_bits (\<not> w) rs), length ((bs @ R) @ runs_bits (\<not> w) rs)))"
      by blast
    have "0 < n + sum_list rs"
      using arg_cong [OF rs(1), of length] True n by (cases "n = 0") auto
    with rs split show ?thesis
      by (intro exI [of _ "n # rs"]) (simp add: enc R_def)
  qed
qed

text \<open>A one-dimensional row: the end-of-line code, then its runs.\<close>

lemma encodeRow1D_spec:
  assumes "row_ok cl row" "bitPos < 8" "code_ok c"
  shows "\<exists>rs. draw_runs cl True rs = row \<and> runs_ok rs \<and>
    encodeRow1D cl row bitPos c =
      (let X = code_bits c @ runs_bits True rs
       in Some (Ok (pack (replicate bitPos False @ X), (bitPos + length X) mod 8)))"
proof -
  define bs where "bs = replicate bitPos False @ code_bits c"
  have "addCode [] bitPos c = Ok (pack bs, length bs)"
    using addCode_spec [OF holds_bits_start [OF assms(2)] assms(3)] by (simp add: bs_def)
  moreover from encodeRow1D_loop_spec [OF assms(1), of 0 True bs] obtain rs where
    "draw_runs cl True rs = row" "runs_ok rs"
    "encodeRow1D_loop cl row True (pack bs) (length bs) 0 =
      Some (Ok (pack (bs @ runs_bits True rs), length (bs @ runs_bits True rs)))"
    by auto
  ultimately show ?thesis
    by (intro exI [of _ rs]) (simp add: encodeRow1D_def bs_def Let_def add.assoc)
qed

end
