(* ===== verification/Ccitt_Rows.thy ===== *)
theory Ccitt_Rows
  imports Ccitt_Encoder_Spec
begin

text \<open>
  The two-dimensional coding of a row against the row above it. \<open>next_change\<close> and \<open>b1_of\<close>
  are the abstract changing elements of the recommendation; \<open>row_code\<close> is the coding
  procedure as a step relation: from the position \<open>a0\<close> and the current colour, the row is
  described by a bit string. The encoder produces such a bit string for every row
  (\<open>encodeRow2D_spec\<close>); the decoder inverts the relation (\<open>Ccitt_Decoder_Spec\<close>).
\<close>

section \<open>Changing elements\<close>

definition run_from :: "u8 list \<Rightarrow> u8 \<Rightarrow> nat \<Rightarrow> nat" where
  "run_from row color i = i + length (takeWhile (\<lambda>x. x = color) (drop i row))"

definition color_at :: "colours \<Rightarrow> u8 list \<Rightarrow> int \<Rightarrow> u8" where
  "color_at cl row i = (if i < 0 then white cl else row ! nat i)"

definition next_change :: "colours \<Rightarrow> u8 list \<Rightarrow> int \<Rightarrow> int" where
  "next_change cl row cur =
    (if cur \<ge> int (length row) then cur
     else int (run_from row (color_at cl row cur) (nat (cur + 1))))"

lemma run_from_bounds: "i \<le> length row \<Longrightarrow> i \<le> run_from row color i \<and> run_from row color i \<le> length row"
  using length_takeWhile_le [of "\<lambda>x. x = color" "drop i row"] by (simp add: run_from_def)

lemma run_from_color: "i \<le> j \<Longrightarrow> j < run_from row color i \<Longrightarrow> row ! j = color"
proof -
  assume j: "i \<le> j" "j < run_from row color i"
  define tw where "tw = takeWhile (\<lambda>x. x = color) (drop i row)"
  have l: "j - i < length tw" using j by (simp add: run_from_def tw_def less_diff_conv2)
  then have "tw ! (j - i) = drop i row ! (j - i)" by (simp add: tw_def takeWhile_nth)
  moreover have "tw ! (j - i) = color" using nth_mem [OF l] by (auto simp: tw_def dest: set_takeWhileD)
  moreover have "i + (j - i) < length row"
    using l length_takeWhile_le [of "\<lambda>x. x = color" "drop i row"] by (simp add: tw_def)
  ultimately show "row ! j = color" using j(1) by simp
qed

lemma run_from_stop: "run_from row color i < length row \<Longrightarrow> row ! run_from row color i \<noteq> color"
  using nth_length_takeWhile [of "\<lambda>x. x = color" "drop i row"] by (simp add: run_from_def)

lemma seek_loop_eq: "i \<le> length row \<Longrightarrow> seek_loop row color (int i) = Ok (int (run_from row color i))"
proof (induction "length row - i" arbitrary: i)
  case 0
  then show ?case by (subst seek_loop.simps) (simp add: run_from_def)
next
  case (Suc n)
  then have i: "i < length row" "drop i row = row ! i # drop (Suc i) row"
    by (simp_all add: Cons_nth_drop_Suc)
  from Suc.hyps(1) [of "Suc i"] Suc.hyps(2) i(1)
  have "seek_loop row color (int i + 1) = Ok (int (run_from row color (Suc i)))"
    by (simp add: add.commute)
  with i show ?case by (subst seek_loop.simps) (auto simp: run_from_def)
qed

lemma seekChangingElem_eq:
  "-1 \<le> cur \<Longrightarrow> seekChangingElem cl row cur = Ok (next_change cl row cur)"
proof (cases "cur \<ge> int (length row)")
  case False
  assume "-1 \<le> cur"
  with False have "seek_loop row color (cur + 1) = Ok (int (run_from row color (nat (cur + 1))))" for color
    using seek_loop_eq [of "nat (cur + 1)" row color] by simp
  with False \<open>-1 \<le> cur\<close> show ?thesis
    by (auto simp: seekChangingElem_def next_change_def color_at_def index_at_def)
qed (simp add: seekChangingElem_def next_change_def)

text \<open>Seeking from a position below \<open>-1\<close> reads the row at a negative index.\<close>

lemma seekChangingElem_panics: "cur < -1 \<Longrightarrow> seekChangingElem cl row cur = Panic"
  by (simp add: seekChangingElem_def) (subst seek_loop.simps, simp add: index_at_def)

lemma next_change_bounds:
  "-1 \<le> cur \<Longrightarrow> cur < int (length row) \<Longrightarrow> cur < next_change cl row cur \<and> next_change cl row cur \<le> int (length row)"
  using run_from_bounds [of "nat (cur + 1)" row "color_at cl row cur"]
  by (auto simp: next_change_def nat_le_iff)

lemma next_change_ge: "-1 \<le> cur \<Longrightarrow> cur \<le> next_change cl row cur"
  using next_change_bounds [of cur row cl] by (cases "cur < int (length row)") (auto simp: next_change_def)

lemma next_change_le: "-1 \<le> cur \<Longrightarrow> cur \<le> int (length row) \<Longrightarrow> next_change cl row cur \<le> int (length row)"
  using next_change_bounds [of cur row cl] by (cases "cur < int (length row)") (auto simp: next_change_def)

lemma next_change_color:
  assumes "-1 \<le> cur" "cur < j" "j < next_change cl row cur"
  shows "row ! nat j = color_at cl row cur"
proof (cases "cur < int (length row)")
  case True
  with assms show ?thesis
    using run_from_color [of "nat (cur + 1)" "nat j" row "color_at cl row cur"]
    by (simp add: next_change_def)
qed (use assms in \<open>simp add: next_change_def\<close>)

lemma next_change_stop:
  "-1 \<le> cur \<Longrightarrow> cur < int (length row) \<Longrightarrow> next_change cl row cur < int (length row) \<Longrightarrow>
    row ! nat (next_change cl row cur) \<noteq> color_at cl row cur"
  using run_from_stop [of row "color_at cl row cur" "nat (cur + 1)"] by (simp add: next_change_def)

section \<open>The reference changing element \<open>b1\<close>\<close>

definition b1_of :: "colours \<Rightarrow> u8 list \<Rightarrow> int \<Rightarrow> bool \<Rightarrow> int" where
  "b1_of cl ref a0 isWhite =
    (let ch = next_change cl ref a0 in
     if ch < int (length ref) \<and> ref ! nat ch = pixel cl isWhite then next_change cl ref ch else ch)"

text \<open>The state of the coding of a row: nothing coded yet and white, or at a pixel of the colour.\<close>

definition at_color :: "colours \<Rightarrow> u8 list \<Rightarrow> int \<Rightarrow> bool \<Rightarrow> bool" where
  "at_color cl row a0 isWhite \<longleftrightarrow>
    a0 = -1 \<and> isWhite \<or> 0 \<le> a0 \<and> a0 < int (length row) \<and> row ! nat a0 = pixel cl isWhite"

lemma at_color_color: "at_color cl row a0 isWhite \<Longrightarrow> color_at cl row a0 = pixel cl isWhite"
  by (auto simp: at_color_def color_at_def pixel_def)

lemma at_color_ge: "at_color cl row a0 isWhite \<Longrightarrow> -1 \<le> a0"
  by (auto simp: at_color_def)

lemma next_change_index:
  "-1 \<le> a0 \<Longrightarrow> next_change cl ref a0 < int (length ref) \<Longrightarrow>
    (index_at ref (next_change cl ref a0) :: u8 cres) = Ok (ref ! nat (next_change cl ref a0)) \<and>
    0 \<le> next_change cl ref a0"
  using next_change_bounds [of a0 ref cl] by (cases "a0 < int (length ref)") (auto simp: index_at_def next_change_def)

text \<open>
  The encoder reads the colour at \<open>a0\<close> from the row, the decoder, whose row ends before \<open>a0\<close>,
  from its flag: both find the same element.
\<close>

lemma seekB1_eq:
  assumes "at_color cl row a0 isWhite"
  shows "seekB1 cl row ref a0 = Ok (b1_of cl ref a0 isWhite)"
proof -
  note ge = at_color_ge [OF assms]
  show ?thesis
  proof (cases "next_change cl ref a0 < int (length ref)")
    case True
    note ix = next_change_index [OF ge True]
    from ix have sk: "seekChangingElem cl ref (next_change cl ref a0) = Ok (next_change cl ref (next_change cl ref a0))"
      by (intro seekChangingElem_eq) linarith
    define r where "r = ref ! nat (next_change cl ref a0)"
    from assms consider "a0 = -1" "isWhite"
      | i where "a0 = int i" "i < length row" "row ! i = pixel cl isWhite"
      unfolding at_color_def by (metis nat_less_iff nonneg_int_cases nat_int)
    then have "seekB1 cl row ref a0 =
      (if r = pixel cl isWhite then seekChangingElem cl ref (next_change cl ref a0)
       else Ok (next_change cl ref a0))"
      using True ix by cases
        (auto simp: seekB1_def seekChangingElem_eq r_def pixel_def)
    then show ?thesis
      by (simp add: sk b1_of_def Let_def True r_def)
  qed (simp add: seekB1_def seekChangingElem_eq [OF ge] b1_of_def)
qed

lemma seekB12D_eq:
  assumes "a0 = -1 \<and> isWhite \<or> a0 = int (length partial)"
  shows "seekB12D cl partial ref a0 isWhite = Ok (b1_of cl ref a0 isWhite)"
proof -
  from assms have ge: "-1 \<le> a0" by auto
  show ?thesis
  proof (cases "next_change cl ref a0 < int (length ref)")
    case True
    note ix = next_change_index [OF ge True]
    from ix have "seekChangingElem cl ref (next_change cl ref a0) = Ok (next_change cl ref (next_change cl ref a0))"
      by (intro seekChangingElem_eq) linarith
    with assms True ix show ?thesis
      by (auto simp: seekB12D_def seekChangingElem_eq [OF ge] b1_of_def Let_def pixel_def)
  qed (simp add: seekB12D_def seekChangingElem_eq [OF ge] b1_of_def)
qed

lemma b1_of_bounds:
  assumes "-1 \<le> a0" "a0 < int (length ref)"
  shows "a0 < b1_of cl ref a0 isWhite \<and> b1_of cl ref a0 isWhite \<le> int (length ref)"
proof -
  note b = next_change_bounds [OF assms, of cl]
  then have "next_change cl ref a0 \<le> next_change cl ref (next_change cl ref a0)"
    "next_change cl ref (next_change cl ref a0) \<le> int (length ref)"
    using assms by (auto intro!: next_change_ge next_change_le)
  with b show ?thesis by (simp add: b1_of_def Let_def)
qed

section \<open>The coding procedure\<close>

definition run_len :: "int \<Rightarrow> int \<Rightarrow> int" where
  "run_len a0 a1 = (if a0 > -1 then a1 - a0 else a1 - a0 - 1)"

inductive row_code :: "colours \<Rightarrow> u8 list \<Rightarrow> u8 list \<Rightarrow> int \<Rightarrow> bool \<Rightarrow> bool list \<Rightarrow> bool"
  for cl row ref where
  row_done: "a0 = int (length row) \<Longrightarrow> row_code cl row ref a0 isWhite []"
| pass: "at_color cl row a0 isWhite \<Longrightarrow>
    b2 = next_change cl ref (b1_of cl ref a0 isWhite) \<Longrightarrow> b2 < next_change cl row a0 \<Longrightarrow>
    row_code cl row ref b2 isWhite X \<Longrightarrow>
    row_code cl row ref a0 isWhite (code_bits p_code @ X)"
| horizontal: "at_color cl row a0 isWhite \<Longrightarrow>
    a1 = next_change cl row a0 \<Longrightarrow> a2 = next_change cl row a1 \<Longrightarrow>
    row_code cl row ref a2 isWhite X \<Longrightarrow>
    row_code cl row ref a0 isWhite
      (code_bits h_code @ run_bits isWhite (run_len a0 a1) @ run_bits (\<not> isWhite) (a2 - a1) @ X)"
| vertical: "at_color cl row a0 isWhite \<Longrightarrow>
    a1 = next_change cl row a0 \<Longrightarrow> b1 = b1_of cl ref a0 isWhite \<Longrightarrow> \<bar>b1 - a1\<bar> \<le> 3 \<Longrightarrow>
    row_code cl row ref a1 (\<not> isWhite) X \<Longrightarrow>
    row_code cl row ref a0 isWhite (code_bits (getVCode a1 b1) @ X)"

lemma mode_codes_ok: "code_ok p_code" "code_ok h_code" "\<bar>b1 - a1\<bar> \<le> 3 \<Longrightarrow> code_ok (getVCode a1 b1)"
  by (auto simp: code_ok_def mode_code_defs getVCode_def)

text \<open>
  The element after the next change has the other colour, the one after that the first colour
  again, and every position before a change has the colour at \<open>a0\<close>.
\<close>

lemma at_color_next:
  assumes "row_ok cl row" "at_color cl row a0 isWhite" "next_change cl row a0 < int (length row)"
  shows "at_color cl row (next_change cl row a0) (\<not> isWhite)"
proof -
  from assms(2) have a0: "-1 \<le> a0" "a0 < int (length row)" by (auto simp: at_color_def)
  from next_change_stop [OF a0 assms(3)] at_color_color [OF assms(2)]
  have "row ! nat (next_change cl row a0) \<noteq> pixel cl isWhite" by simp
  moreover have "0 \<le> next_change cl row a0" using next_change_bounds [OF a0, of cl] a0(1) by linarith
  ultimately show ?thesis using assms(1,3) by (auto simp: at_color_def intro: row_okD)
qed

lemma at_color_between:
  assumes "at_color cl row a0 isWhite" "a0 < j" "j < next_change cl row a0"
  shows "at_color cl row j isWhite"
proof -
  from assms(1) have a0: "-1 \<le> a0" "a0 < int (length row)" by (auto simp: at_color_def)
  from next_change_color [OF a0(1) assms(2,3)] at_color_color [OF assms(1)]
  have "row ! nat j = pixel cl isWhite" by simp
  with next_change_bounds [OF a0, of cl] a0 assms show ?thesis by (auto simp: at_color_def)
qed

section \<open>The encoder follows the coding procedure\<close>

lemma encodeHorizontalMode_spec:
  assumes "holds_bits encoded pos bs" "at_color cl row a0 isWhite" "row_ok cl row"
  defines "a1 \<equiv> next_change cl row a0"
  defines "a2 \<equiv> next_change cl row a1"
  defines "Y \<equiv> code_bits h_code @ run_bits isWhite (run_len a0 a1) @ run_bits (\<not> isWhite) (a2 - a1)"
  shows "encodeHorizontalMode cl row encoded pos a0 a1 = Ok (pack (bs @ Y), pos + length Y, a2)"
proof -
  from assms(2) have a0: "-1 \<le> a0" "a0 < int (length row)" by (auto simp: at_color_def)
  note b1 = next_change_bounds [OF a0, of cl, folded a1_def]
  have a1: "-1 \<le> a1" "a1 \<le> a2" using b1 a0 next_change_ge [of a1 cl row] by (simp_all add: a2_def)
  have white: "(if a0 \<ge> 0 then rbind (index_at row a0) (\<lambda>x. Ok (x = white cl \<or> a0 = -1))
      else Ok (a0 = -1)) = (Ok isWhite :: bool cres)"
    using assms(2,3) by (auto simp: at_color_def index_at_def pixel_def row_ok_def split: if_splits)
  have r0: "0 \<le> run_len a0 a1" using b1 a0 by (simp add: run_len_def)
  define bs1 where "bs1 = bs @ code_bits h_code"
  define bs2 where "bs2 = bs1 @ run_bits isWhite (run_len a0 a1)"
  have s1: "addCode encoded pos h_code = Ok (pack bs1, length bs1)"
    using addCode_spec [OF assms(1) mode_codes_ok(2)] assms(1) by (simp add: bs1_def holds_bits_def)
  have s2: "encodeRunLen (pack bs1) (length bs1) (run_len a0 a1) isWhite = Ok (pack bs2, length bs2)"
    using encodeRunLen_spec [OF holds_bits_pack r0] by (simp add: bs2_def)
  have s3: "encodeRunLen (pack bs2) (length bs2) (a2 - a1) (\<not> isWhite) = Ok (pack (bs @ Y), pos + length Y)"
    using encodeRunLen_spec [OF holds_bits_pack, of "a2 - a1" bs2 "\<not> isWhite"] a1 assms(1)
    by (simp add: bs2_def bs1_def Y_def holds_bits_def)
  show ?thesis
    unfolding encodeHorizontalMode_def white
    by (simp add: seekChangingElem_eq a1(1) a2_def [symmetric] s1 s2 [unfolded run_len_def] s3 Let_def)
qed

lemma encodeRow2D_step_spec:
  assumes "holds_bits encoded pos bs" "at_color cl row a0 isWhite" "row_ok cl row"
    "length ref = length row"
  shows "\<exists>Y a0' isWhite'. encodeRow2D_step cl row ref encoded pos a0 = Ok (pack (bs @ Y), pos + length Y, a0') \<and>
    a0 < a0' \<and> a0' \<le> int (length row) \<and>
    (a0' < int (length row) \<longrightarrow> at_color cl row a0' isWhite') \<and>
    (\<forall>X. row_code cl row ref a0' isWhite' X \<longrightarrow> row_code cl row ref a0 isWhite (Y @ X))"
proof -
  define a1 b1 b2 where "a1 = next_change cl row a0" and "b1 = b1_of cl ref a0 isWhite"
    and "b2 = next_change cl ref b1"
  from assms(2) have a0: "-1 \<le> a0" "a0 < int (length row)" by (auto simp: at_color_def)
  note ba1 = next_change_bounds [OF a0, of cl, folded a1_def]
  have bb1: "a0 < b1" "b1 \<le> int (length row)"
    using b1_of_bounds [of a0 ref cl isWhite] a0 assms(4) by (simp_all add: b1_def)
  have bb2: "b1 \<le> b2" using bb1 a0 next_change_ge [of b1 cl ref] by (simp add: b2_def)
  have step: "encodeRow2D_step cl row ref encoded pos a0 =
    (if b2 < a1 then rbind (encodePassMode encoded pos) (\<lambda>(e, p). Ok (e, p, b2))
     else if \<bar>b1 - a1\<bar> > 3 then encodeHorizontalMode cl row encoded pos a0 a1
     else rbind (encodeVerticalMode encoded pos a1 b1) (\<lambda>(e, p). Ok (e, p, a1)))"
    using a0 bb1 by (simp add: encodeRow2D_step_def seekChangingElem_eq seekB1_eq [OF assms(2)]
        a1_def b1_def b2_def)
  consider "b2 < a1" | "\<not> b2 < a1" "\<bar>b1 - a1\<bar> > 3" | "\<not> b2 < a1" "\<bar>b1 - a1\<bar> \<le> 3" by linarith
  then show ?thesis
  proof cases
    case 1
    with bb1 bb2 ba1 have "at_color cl row b2 isWhite"
      by (intro at_color_between [OF assms(2)]) (auto simp: a1_def)
    moreover have "row_code cl row ref a0 isWhite (code_bits p_code @ X)"
      if "row_code cl row ref b2 isWhite X" for X
      using that assms(2) 1 by (intro pass) (auto simp: a1_def b1_def b2_def)
    moreover have "encodeRow2D_step cl row ref encoded pos a0 =
        Ok (pack (bs @ code_bits p_code), pos + length (code_bits p_code), b2)"
      using 1 addCode_spec [OF assms(1) mode_codes_ok(1)] by (simp add: step encodePassMode_def)
    ultimately show ?thesis
      using bb1 bb2 1 ba1 by (intro exI [of _ "code_bits p_code"] exI [of _ b2] exI [of _ isWhite]) auto
  next
    case 2
    define a2 where "a2 = next_change cl row a1"
    have a2: "a1 \<le> a2" "a2 \<le> int (length row)"
      using ba1 a0 by (auto simp: a2_def intro!: next_change_ge next_change_le)
    have "at_color cl row a2 isWhite" if "a2 < int (length row)"
    proof -
      from that a2 have "a1 < int (length row)" by simp
      from at_color_next [OF assms(3,2) this [unfolded a1_def]]
      have "at_color cl row a1 (\<not> isWhite)" by (simp add: a1_def)
      from at_color_next [OF assms(3) this] that show ?thesis by (simp add: a2_def)
    qed
    moreover define Y where "Y = code_bits h_code @ run_bits isWhite (run_len a0 a1) @ run_bits (\<not> isWhite) (a2 - a1)"
    moreover have "row_code cl row ref a0 isWhite (Y @ X)" if "row_code cl row ref a2 isWhite X" for X
      using horizontal [OF assms(2) a1_def a2_def that] by (simp add: Y_def)
    moreover have "encodeRow2D_step cl row ref encoded pos a0 = Ok (pack (bs @ Y), pos + length Y, a2)"
      using 2 encodeHorizontalMode_spec [OF assms(1-3)]
      by (simp add: step a1_def [symmetric] a2_def [symmetric] Y_def)
    ultimately show ?thesis
      using a2 ba1 by (intro exI [of _ Y] exI [of _ a2] exI [of _ isWhite]) auto
  next
    case 3
    have "at_color cl row a1 (\<not> isWhite)" if "a1 < int (length row)"
      using at_color_next [OF assms(3,2)] that by (simp add: a1_def)
    moreover have "row_code cl row ref a0 isWhite (code_bits (getVCode a1 b1) @ X)"
      if "row_code cl row ref a1 (\<not> isWhite) X" for X
      using vertical [OF assms(2) a1_def b1_def 3(2) that] .
    moreover have "encodeRow2D_step cl row ref encoded pos a0 =
        Ok (pack (bs @ code_bits (getVCode a1 b1)), pos + length (code_bits (getVCode a1 b1)), a1)"
      using 3 addCode_spec [OF assms(1) mode_codes_ok(3) [OF 3(2)]] by (simp add: step encodeVerticalMode_def)
    ultimately show ?thesis
      using ba1 by (intro exI [of _ "code_bits (getVCode a1 b1)"] exI [of _ a1] exI [of _ "\<not> isWhite"]) auto
  qed
qed

lemma encodeRow2D_spec:
  assumes "holds_bits encoded pos bs" "at_color cl row a0 isWhite" "row_ok cl row"
    "length ref = length row"
  shows "\<exists>X. row_code cl row ref a0 isWhite X \<and>
    encodeRow2D cl row ref encoded pos a0 = Some (Ok (pack (bs @ X), pos + length X))"
  using assms(1,2)
proof (induction "nat (int (length row) - a0)" arbitrary: encoded pos bs a0 isWhite rule: less_induct)
  case less
  from encodeRow2D_step_spec [OF less.prems assms(3,4)] obtain Y a0' w' where Y:
    "encodeRow2D_step cl row ref encoded pos a0 = Ok (pack (bs @ Y), pos + length Y, a0')"
    "a0 < a0'" "a0' \<le> int (length row)" "a0' < int (length row) \<Longrightarrow> at_color cl row a0' w'"
    "\<And>X. row_code cl row ref a0' w' X \<Longrightarrow> row_code cl row ref a0 isWhite (Y @ X)"
    by blast
  have a0: "a0 < int (length row)" using less.prems by (auto simp: at_color_def)
  have h: "holds_bits (pack (bs @ Y)) (pos + length Y) (bs @ Y)"
    using less.prems(1) by (simp add: holds_bits_def)
  show ?case
  proof (cases "a0' < int (length row)")
    case True
    from less.hyps [OF _ h Y(4) [OF True]] Y(2) a0 obtain X where
      "row_code cl row ref a0' w' X"
      "encodeRow2D cl row ref (pack (bs @ Y)) (pos + length Y) a0' =
        Some (Ok (pack ((bs @ Y) @ X), pos + length Y + length X))"
      by auto
    with Y a0 show ?thesis
      by (intro exI [of _ "Y @ X"], subst encodeRow2D.simps) simp
  next
    case False
    with Y(3) have "a0' = int (length row)" by simp
    with Y(5) [OF row_done] Y a0 show ?thesis
      by (intro exI [of _ Y], subst encodeRow2D.simps) (simp add: encodeRow2D.simps)
  qed
qed

end
