(* ===== verification/Ccitt_Decoder_Spec.thy ===== *)
theory Ccitt_Decoder_Spec
  imports Ccitt_Decoder Ccitt_Rows
begin

text \<open>
  What the decoder reads. The unread input at a bit position is the bit string
  \<open>drop pos (bits data)\<close>; every fetching function of \<open>decode.go\<close> is characterised by it, and
  the decoding of a row is shown to invert the encoder's description of it.
\<close>

section \<open>The next bits\<close>

lemma bit_255: "bit (255 :: int) i \<longleftrightarrow> i < 8"
proof -
  have "bit (mask 8 :: int) i \<longleftrightarrow> i < 8" unfolding bit_mask_iff by simp
  moreover have "mask 8 = (255 :: int)" by (simp add: mask_eq_exp_minus_1)
  ultimately show ?thesis by (simp only:)
qed

lemma bit_u8_high: "8 \<le> n \<Longrightarrow> \<not> bit w n" for w :: u8
  by (auto dest: bit_imp_le_length)

lemma nth_bits_at:
  assumes "i + b = 8 * q + 7" "b < 8" "i < 8 * length data"
  shows "bits data ! i = bit (data ! q) b"
proof -
  from assms(1,2) have "i = 8 * q + (7 - b)" "7 - b < 8" by simp_all
  then have "i div 8 = q" "i mod 8 = 7 - b" by simp_all
  with nth_bits [OF assms(3)] assms(2) show ?thesis by simp
qed

text \<open>
  \<open>fetchNextCode\<close> delivers the next 16 bits, or all that are left, as the low bits of a word.
\<close>

lemma fetchNextCode_spec:
  fixes data :: "u8 list" and pos :: nat
  defines "n \<equiv> min 16 (8 * length data - pos)"
  shows "\<exists>w. fetchNextCode data pos = (w, 16 - n, pos + n) \<and>
    (\<forall>j. bit w j \<longleftrightarrow> j < n \<and> bits data ! (pos + (n - 1 - j)))"
proof -
  define k r where "k = pos div 8" and "r = pos mod 8"
  have pos: "pos = 8 * k + r" and r: "r < 8" by (simp_all add: k_def r_def)
  consider "length data \<le> k" | "length data = Suc k" | "length data = Suc (Suc k)" | "Suc (Suc k) < length data"
    by linarith
  then show ?thesis
  proof cases
    case 1
    then show ?thesis
      by (simp add: fetchNextCode_def n_def pos div_add1_eq r Let_def)
  next
    case 2
    then have n: "n = 8 - r" by (simp add: n_def pos)
    have "bits data ! (pos + (n - 1 - j)) = bit (data ! k) j" if "j < n" for j
      using that n r 2 pos by (intro nth_bits_at) linarith+
    then show ?thesis
      using 2 r n by (auto simp: fetchNextCode_def k_def [symmetric] r_def [symmetric] Let_def bit_simps bit_255)
  next
    case 3
    then have n: "n = 16 - r" by (simp add: n_def pos)
    have "bits data ! (pos + (n - 1 - j)) = (if j < 8 then bit (data ! Suc k) j else bit (data ! k) (j - 8))" if "j < n" for j
      
      by (cases "j < 8"; simp only: if_True if_False; rule nth_bits_at; use that n r 3 pos in simp)
    then show ?thesis
      using 3 r n by (auto simp: fetchNextCode_def k_def [symmetric] r_def [symmetric] Let_def bit_simps bit_255 bit_u8_high split: if_splits)
  next
    case 4
    note len = 4
    then have "16 \<le> 8 * length data - pos" using pos r by linarith
    then have n: "n = 16" by (simp add: n_def)
    define w :: u16 where "w =
      (push_bit 8 (ucast (push_bit r (data ! k AND drop_bit r 0xFF))) OR push_bit r (ucast (data ! Suc k)))
      OR (if r = 0 then 0 else ucast (drop_bit (8 - r) (data ! Suc (Suc k))))"
    have "fetchNextCode data pos = (w, 0, pos + 16)"
      using 4 r by (auto simp: fetchNextCode_def k_def [symmetric] r_def [symmetric] Let_def w_def)
    moreover have "bit w j \<longleftrightarrow> j < 16 \<and> bits data ! (pos + (15 - j))" for j
    proof -
      consider "j < r" | "r \<le> j" "j < r + 8" | "r + 8 \<le> j" "j < 16" | "16 \<le> j" by linarith
      then show ?thesis
      proof cases
        case 1
        have "bits data ! (pos + (15 - j)) = bit (data ! Suc (Suc k)) (8 - r + j)"
          by (rule nth_bits_at; use 1 len r pos in simp)
        with 1 r show ?thesis by (simp add: w_def bit_simps)
      next
        case 2
        have "bits data ! (pos + (15 - j)) = bit (data ! Suc k) (j - r)"
          by (rule nth_bits_at; use 2 len r pos in simp)
        with 2 r show ?thesis by (auto simp: w_def bit_simps bit_u8_high)
      next
        case 3
        have "bits data ! (pos + (15 - j)) = bit (data ! k) (j - r - 8)"
          by (rule nth_bits_at; use 3 len r pos in simp)
        with 3 r show ?thesis by (auto simp: w_def bit_simps bit_255 bit_u8_high add.commute [of r 8])
      next
        case 4
        then show ?thesis by (auto dest: bit_imp_le_length)
      qed
    qed
    ultimately show ?thesis by (auto simp: n)
  qed
qed

abbreviation unread :: "u8 list \<Rightarrow> nat \<Rightarrow> bool list" where
  "unread data pos \<equiv> drop pos (bits data)"

lemma unread_append: "unread data pos = xs @ ys \<Longrightarrow> n = length xs \<Longrightarrow> unread data (pos + n) = ys"
  by (metis add.commute append_eq_conv_conj drop_drop)

lemma fetchNextCode_bits:
  "\<exists>w n. fetchNextCode data pos = (w, 16 - n, pos + n) \<and> n \<le> 16 \<and> word_bits n w = take 16 (unread data pos)"
proof -
  define n where "n = min 16 (8 * length data - pos)"
  from fetchNextCode_spec [of data pos, folded n_def] obtain w where
    w: "fetchNextCode data pos = (w, 16 - n, pos + n)"
    "\<And>j. bit w j \<longleftrightarrow> j < n \<and> bits data ! (pos + (n - 1 - j))"
    by auto
  have "word_bits n w = take 16 (unread data pos)"
    by (rule nth_equalityI) (auto simp: n_def w(2))
  with w(1) show ?thesis by (auto simp: n_def)
qed

section \<open>Looking codes up\<close>

lemma run_keys: "list_all (\<lambda>e. 0 \<le> fst e) white_entries" "list_all (\<lambda>e. 0 \<le> fst e) black_entries"
  by code_simp+

lemma run_entries_nonneg: "(k, c) \<in> set (run_entries isWhite) \<Longrightarrow> 0 \<le> k"
  using run_keys by (auto simp: run_entries_def list_all_iff split: if_splits)

definition run_tree :: "bool \<Rightarrow> decodingTreeNode" where
  "run_tree isWhite = (if isWhite then whiteTree else blackTree)"

text \<open>
  The decoder finds the entry of the book whose code comes next, whatever follows it, and
  \<open>-1\<close> at an unchanged position when no code comes next.
\<close>

lemma fetchNextRunLen_eq:
  "fetchNextRunLen data pos isWhite =
    (case next_entry (run_entries isWhite) (unread data pos) of
       None \<Rightarrow> (-1, pos)
     | Some (k, c) \<Rightarrow> (k, pos + BitsWritten c))"
proof -
  obtain w n where w: "fetchNextCode data pos = (w, 16 - n, pos + n)" "n \<le> 16"
    "word_bits n w = take 16 (unread data pos)"
    using fetchNextCode_bits by blast
  define d where "d = next_entry (run_entries isWhite) (unread data pos)"
  have "findRunLen (if isWhite then whiteTree else blackTree) w (16 - n) = (map_option fst d, map_option snd d)"
    unfolding d_def run_entries_def
    using white_book.search_tree [OF addNodes_whiteTree w(2), of w]
      black_book.search_tree [OF addNodes_blackTree w(2), of w]
    by (simp add: w(3) white_book.next_entry_take black_book.next_entry_take)
  moreover have "0 \<le> k" if "d = Some (k, c)" for k c
    using that run_entries_nonneg next_entry_SomeD by (metis d_def)
  ultimately show ?thesis
    unfolding d_def [symmetric]
    by (cases isWhite; cases d) (auto simp: fetchNextRunLen_def w(1) decodeRunLenFromUint16_def)
qed

lemma fetchNext2DCode_eq:
  "fetchNext2DCode data pos =
    (case next_entry two_dim_entries (unread data pos) of
       None \<Rightarrow> (mk_code 0 0, pos, False)
     | Some (k, c) \<Rightarrow> (c, pos + BitsWritten c, True))"
proof -
  obtain w n where w: "fetchNextCode data pos = (w, 16 - n, pos + n)" "n \<le> 16"
    "word_bits n w = take 16 (unread data pos)"
    using fetchNextCode_bits by blast
  show ?thesis
    using two_dim_book.search_tree [OF addNodes_twoDimTree w(2), of w]
    by (auto simp: fetchNext2DCode_def w get2DCodeFromUint16_def two_dim_book.next_entry_take split: option.splits)
qed

lemma fetchNextRunLen_hit:
  assumes "(k, c) \<in> set (run_entries isWhite)" "unread data pos = code_bits c @ X"
  shows "fetchNextRunLen data pos isWhite = (k, pos + BitsWritten c)"
proof -
  have "next_entry (run_entries isWhite) (unread data pos) = Some (k, c)"
    using assms white_book.next_entry_iff black_book.next_entry_iff
    by (cases isWhite) (simp_all add: run_entries_def)
  then show ?thesis by (simp add: fetchNextRunLen_eq)
qed

lemma fetchNext2DCode_hit:
  assumes "(0, c) \<in> set two_dim_entries" "unread data pos = code_bits c @ X"
  shows "fetchNext2DCode data pos = (c, pos + BitsWritten c, True)"
proof -
  have "next_entry two_dim_entries (unread data pos) = Some (0, c)"
    using assms two_dim_book.next_entry_iff by simp
  then show ?thesis by (simp add: fetchNext2DCode_eq)
qed

section \<open>End-of-line codes\<close>

lemma window_eq:
  assumes "fetchNextCode data pos = (w, codeBitPos, pos')" "BitsWritten c = m" "8 \<le> m \<and> m \<le> 16"
    "\<And>j. j < 16 - m \<Longrightarrow> \<not> bit (Code c) j"
  shows "codeBitPos \<le> 16 - m \<and> push_bit (16 - m) (drop_bit (16 - m - codeBitPos) w) = Code c
      \<longleftrightarrow> prefix (code_bits c) (unread data pos)"
    "codeBitPos \<le> 16 - m \<Longrightarrow> pos' - (16 - m) + codeBitPos = pos + m"
proof -
  define n where "n = min 16 (8 * length data - pos)"
  from fetchNextCode_spec [of data pos, folded n_def] assms(1)
  have w: "codeBitPos = 16 - n" "pos' = pos + n"
    "\<And>j. bit w j \<longleftrightarrow> j < n \<and> bits data ! (pos + (n - 1 - j))"
    by auto
  have n: "n \<le> 16" by (simp add: n_def)
  show "pos' - (16 - m) + codeBitPos = pos + m" if "codeBitPos \<le> 16 - m"
    using that n assms(3) unfolding w by arith
  show "codeBitPos \<le> 16 - m \<and> push_bit (16 - m) (drop_bit (16 - m - codeBitPos) w) = Code c
      \<longleftrightarrow> prefix (code_bits c) (unread data pos)"
  proof (cases "m \<le> n")
    case True
    have b: "bit (push_bit (16 - m) (drop_bit (16 - m - codeBitPos) w)) j \<longleftrightarrow>
        16 - m \<le> j \<and> j < 16 \<and> bits data ! (pos + (15 - j))" for j
      using True n assms(3) by (auto simp: bit_simps w)
    have "push_bit (16 - m) (drop_bit (16 - m - codeBitPos) w) = Code c \<longleftrightarrow>
        (\<forall>i < m. bits data ! (pos + i) = bit (Code c) (15 - i))"
    proof
      assume eq: "push_bit (16 - m) (drop_bit (16 - m - codeBitPos) w) = Code c"
      have "bit (Code c) (15 - i) = bits data ! (pos + i)" if "i < m" for i
      proof -
        from that assms(3) have "16 - m \<le> 15 - i" "15 - (15 - i) = i" "15 - i < 16" by linarith+
        with b [of "15 - i", unfolded eq] show ?thesis by simp
      qed
      then show "\<forall>i < m. bits data ! (pos + i) = bit (Code c) (15 - i)" by simp
    next
      assume eq: "\<forall>i < m. bits data ! (pos + i) = bit (Code c) (15 - i)"
      show "push_bit (16 - m) (drop_bit (16 - m - codeBitPos) w) = Code c"
      proof (rule bit_word_eqI)
        fix j assume "j < LENGTH(16)"
        then have "j < 16" by simp
        then show "bit (push_bit (16 - m) (drop_bit (16 - m - codeBitPos) w)) j = bit (Code c) j"
          unfolding b using eq [rule_format, of "15 - j"] assms(3,4) by (cases "16 - m \<le> j") auto
      qed
    qed
    moreover have "m \<le> 8 * length data - pos" using True by (simp add: n_def)
    ultimately show ?thesis
      using True n assms(2,3) by (auto simp: prefix_nth w)
  next
    case False
    then have "8 * length data - pos < m" using assms(3) by (simp add: n_def)
    with False assms(2,3) n show ?thesis by (auto simp: w dest: prefix_length_le)
  qed
qed

lemma low_bits_eol:
  "j < 4 \<Longrightarrow> \<not> bit (Code eol) j" "j < 3 \<Longrightarrow> \<not> bit (Code eol0) j" "j < 3 \<Longrightarrow> \<not> bit (Code eol1) j"
  by (auto simp: less_Suc_eq numeral_eq_Suc eol_def eol0_def eol1_def bit_simps)

text \<open>A line end is found exactly when its code comes next; otherwise nothing is consumed.\<close>

lemma tryFetchEOL_eq:
  "tryFetchEOL data pos =
    (if prefix (code_bits eol) (unread data pos) then (True, pos + 12) else (False, pos))"
proof -
  obtain w cb pos' where w: "fetchNextCode data pos = (w, cb, pos')" by (metis prod_cases3)
  have "BitsWritten eol = 12" by (simp add: eol_def)
  from window_eq [OF w this] low_bits_eol(1) show ?thesis
    by (auto simp: tryFetchEOL_def w Let_def)
qed

lemma tryFetchExtendedEOL_eq:
  assumes "c \<in> {eol0, eol1}"
  shows "tryFetchExtendedEOL data pos c =
    (if prefix (code_bits c) (unread data pos) then (True, pos + 13) else (False, pos))"
proof -
  obtain w cb pos' where w: "fetchNextCode data pos = (w, cb, pos')" by (metis prod_cases3)
  have "BitsWritten c = 13" using assms by (auto simp: eol0_def eol1_def)
  from window_eq [OF w this] low_bits_eol(2,3) assms show ?thesis
    by (auto simp: tryFetchExtendedEOL_def w Let_def)
qed

section \<open>Runs\<close>

lemma drawPixels_eq: "0 \<le> len \<Longrightarrow> drawPixels cl row isWhite len = row @ replicate (nat len) (pixel cl isWhite)"
  by (simp add: drawPixels_def pixel_def)

text \<open>The code words of one run: make-up codes, then a terminating code.\<close>

definition run_words :: "bool \<Rightarrow> (int \<times> code) list \<Rightarrow> (int \<times> code) \<Rightarrow> bool" where
  "run_words isWhite ms t \<longleftrightarrow> set (ms @ [t]) \<subseteq> set (run_entries isWhite) \<and>
    (\<forall>(k, c) \<in> set ms. 64 \<le> k) \<and> fst t < 64"

lemma run_words_Nil: "run_words isWhite [] t \<longleftrightarrow> t \<in> set (run_entries isWhite) \<and> fst t < 64"
  by (auto simp: run_words_def)

lemma run_words_Cons: "run_words isWhite ((k, c) # ms) t \<longleftrightarrow>
    (k, c) \<in> set (run_entries isWhite) \<and> 64 \<le> k \<and> run_words isWhite ms t"
  by (auto simp: run_words_def)

lemma run_bits_words:
  assumes "0 \<le> runLen"
  obtains ms t where "run_words isWhite ms t" "run_bits isWhite runLen = codes_bits (map snd (ms @ [t]))"
    "sum_list (map fst (ms @ [t])) = runLen"
  using run_items_spec [OF assms, of isWhite] that unfolding run_words_def run_bits_def by metis

lemma run_words_sum: "run_words isWhite ms t \<Longrightarrow> 0 \<le> sum_list (map fst (ms @ [t]))"
proof (induction ms)
  case Nil
  then show ?case by (cases t) (auto simp: run_words_Nil dest: run_entries_nonneg)
next
  case (Cons m ms)
  then show ?case by (cases m) (simp add: run_words_Cons)
qed

lemma decodeNextRunLen_words:
  assumes "run_words isWhite ms t" "unread data pos = codes_bits (map snd (ms @ [t])) @ X"
  shows "decodeNextRunLen cl data row pos isWhite =
    Some (Ok (row @ replicate (nat (sum_list (map fst (ms @ [t])))) (pixel cl isWhite),
      pos + length (codes_bits (map snd (ms @ [t])))))"
  using assms
proof (induction ms arbitrary: row pos)
  case Nil
  obtain k c where t: "t = (k, c)" by (cases t)
  with Nil.prems have e: "(k, c) \<in> set (run_entries isWhite)" "k < 64" by (simp_all add: run_words_Nil)
  with Nil.prems run_entries_nonneg [OF e(1)] show ?case
    by (subst decodeNextRunLen.simps)
      (simp add: t fetchNextRunLen_hit [OF e(1)] Let_def drawPixels_eq)
next
  case (Cons m ms)
  obtain k c where m: "m = (k, c)" by (cases m)
  with Cons.prems(1) have e: "(k, c) \<in> set (run_entries isWhite)" "64 \<le> k" "run_words isWhite ms t"
    by (simp_all add: run_words_Cons)
  have u: "unread data pos = code_bits c @ (codes_bits (map snd (ms @ [t])) @ X)"
    using Cons.prems(2) by (simp add: m)
  note IH = Cons.IH [OF e(3) unread_append [OF u, of "BitsWritten c"]]
  show ?case
    using e run_words_sum [OF e(3)] unfolding m
    by (subst decodeNextRunLen.simps)
      (simp add: fetchNextRunLen_hit [OF e(1) u] Let_def drawPixels_eq IH nat_add_distrib replicate_add)
qed

lemma decodeNextRunLen_spec:
  assumes "0 \<le> runLen" "unread data pos = run_bits isWhite runLen @ X"
  shows "decodeNextRunLen cl data row pos isWhite =
    Some (Ok (row @ replicate (nat runLen) (pixel cl isWhite), pos + length (run_bits isWhite runLen)))"
proof -
  from run_bits_words [OF assms(1), of isWhite] obtain ms t where
    "run_words isWhite ms t" "run_bits isWhite runLen = codes_bits (map snd (ms @ [t]))"
    "sum_list (map fst (ms @ [t])) = runLen" .
  with decodeNextRunLen_words [of isWhite ms t pos data X cl row] assms(2) show ?thesis by simp
qed

section \<open>One-dimensional rows\<close>

definition decodeRow1D_from ::
    "Encoder \<Rightarrow> colours \<Rightarrow> u8 list \<Rightarrow> u8 list \<Rightarrow> bool \<Rightarrow> nat \<Rightarrow> (u8 list \<times> nat) option" where
  "decodeRow1D_from e cl data row isWhite pos =
    (case fetchNextRunLen data pos isWhite of (runLen, pos) \<Rightarrow>
       decodeRow1D_loop e cl data row isWhite runLen pos)"

lemma decodeRow1D_words:
  assumes "run_words isWhite ms t" "unread data pos = codes_bits (map snd (ms @ [t])) @ X"
  shows "decodeRow1D_from e cl data row isWhite pos =
    (let row = row @ replicate (nat (sum_list (map fst (ms @ [t])))) (pixel cl isWhite);
         pos = pos + length (codes_bits (map snd (ms @ [t])))
     in if int (length row) \<ge> Columns e then Some (row, pos)
        else decodeRow1D_from e cl data row (\<not> isWhite) pos)"
  using assms
proof (induction ms arbitrary: row pos)
  case Nil
  obtain k c where t: "t = (k, c)" by (cases t)
  with Nil.prems have e: "(k, c) \<in> set (run_entries isWhite)" "k < 64" by (simp_all add: run_words_Nil)
  have u: "unread data pos = code_bits c @ X" using Nil.prems by (simp add: t)
  from e run_entries_nonneg [OF e(1)] show ?case
    unfolding decodeRow1D_from_def t fetchNextRunLen_hit [OF e(1) u] prod.case
    by (subst decodeRow1D_loop.simps) (simp add: Let_def drawPixels_eq)
next
  case (Cons m ms)
  obtain k c where m: "m = (k, c)" by (cases m)
  with Cons.prems(1) have e: "(k, c) \<in> set (run_entries isWhite)" "64 \<le> k" "run_words isWhite ms t"
    by (simp_all add: run_words_Cons)
  have u: "unread data pos = code_bits c @ (codes_bits (map snd (ms @ [t])) @ X)"
    using Cons.prems(2) by (simp add: m)
  note IH = Cons.IH [OF e(3) unread_append [OF u, of "BitsWritten c"]]
  have "decodeRow1D_from e cl data row isWhite pos =
      decodeRow1D_from e cl data (row @ replicate (nat k) (pixel cl isWhite)) isWhite (pos + BitsWritten c)"
    unfolding decodeRow1D_from_def [of e cl data row] fetchNextRunLen_hit [OF e(1) u]
    using e(2) by (simp, subst decodeRow1D_loop.simps) (simp add: Let_def drawPixels_eq decodeRow1D_from_def)
  then show ?case
    using e(2) run_words_sum [OF e(3)]
    by (simp add: m IH Let_def nat_add_distrib replicate_add add.assoc)
qed

text \<open>Decoding the runs of a full row gives the row back and stops right after its bits.\<close>

lemma decodeRow1D_runs:
  assumes "runs_ok rs" "rs \<noteq> []" "int (length row + sum_list rs) = Columns e"
    "unread data pos = runs_bits isWhite rs @ X"
  shows "decodeRow1D_from e cl data row isWhite pos =
    Some (row @ draw_runs cl isWhite rs, pos + length (runs_bits isWhite rs))"
  using assms
proof (induction rs arbitrary: row isWhite pos)
  case (Cons r rs)
  have u: "unread data pos = run_bits isWhite (int r) @ runs_bits (\<not> isWhite) rs @ X"
    using Cons.prems(4) by simp
  obtain ms t where w: "run_words isWhite ms t" "run_bits isWhite (int r) = codes_bits (map snd (ms @ [t]))"
    "sum_list (map fst (ms @ [t])) = int r"
    using run_bits_words [of "int r" isWhite] by auto
  note step = decodeRow1D_words [OF w(1) u [unfolded w(2)], of e cl row, folded w(2), unfolded w(3)]
  show ?case
  proof (cases "rs = []")
    case True
    with Cons.prems(3) show ?thesis by (simp add: step pixel_def Let_def)
  next
    case False
    with Cons.prems(1) have "0 < sum_list rs" by (cases rs) auto
    moreover have "decodeRow1D_from e cl data (row @ replicate r (pixel cl isWhite)) (\<not> isWhite)
        (pos + length (run_bits isWhite (int r))) =
      Some ((row @ replicate r (pixel cl isWhite)) @ draw_runs cl (\<not> isWhite) rs,
        pos + length (run_bits isWhite (int r)) + length (runs_bits (\<not> isWhite) rs))"
      using False Cons.prems by (intro Cons.IH unread_append [OF u]) auto
    ultimately show ?thesis using Cons.prems(3) by (simp add: step Let_def)
  qed
qed simp

section \<open>Two-dimensional rows\<close>

lemma take_run:
  assumes "at_color cl row a0 isWhite" "a0 \<le> j" "j \<le> next_change cl row a0"
  shows "take (nat a0) row @ replicate (nat (run_len a0 j)) (pixel cl isWhite) = take (nat j) row"
proof -
  from assms(1) have a0: "-1 \<le> a0" "a0 < int (length row)" by (auto simp: at_color_def)
  from next_change_bounds [OF a0, of cl] assms(3) have j: "j \<le> int (length row)" by simp
  have n: "nat a0 + nat (run_len a0 j) = nat j"
    using a0 assms(2) by (auto simp: run_len_def)
  have px: "row ! i = pixel cl isWhite" if "nat a0 \<le> i" "i < nat j" for i
  proof (cases "int i = a0")
    case True
    with assms(1) show ?thesis by (auto simp: at_color_def)
  next
    case False
    with that assms(3) a0 have "a0 < int i" "int i < next_change cl row a0" by linarith+
    from at_color_between [OF assms(1) this] show ?thesis by (simp add: at_color_def)
  qed
  have len: "length (take (nat a0) row) = nat a0" using a0 by simp
  show ?thesis
  proof (rule nth_equalityI)
    fix i assume "i < length (take (nat a0) row @ replicate (nat (run_len a0 j)) (pixel cl isWhite))"
    then have "i < nat j" using len n by simp
    then show "(take (nat a0) row @ replicate (nat (run_len a0 j)) (pixel cl isWhite)) ! i = take (nat j) row ! i"
      using len n px [of i] less_diff_conv2 [of "nat a0" i "nat (run_len a0 j)"]
      by (cases "i < nat a0") (simp_all add: nth_append add.commute)
  qed (use len n j in simp)
qed

lemma take_run_next:
  assumes "row_ok cl row" "at_color cl row a0 isWhite"
  defines "a1 \<equiv> next_change cl row a0"
  defines "a2 \<equiv> next_change cl row a1"
  shows "take (nat a1) row @ replicate (nat (a2 - a1)) (pixel cl (\<not> isWhite)) = take (nat a2) row"
proof (cases "a1 < int (length row)")
  case True
  from at_color_next [OF assms(1,2)] True have c: "at_color cl row a1 (\<not> isWhite)" by (simp add: a1_def)
  then have "0 \<le> a1" using assms(2) next_change_bounds [of a0 row cl] by (auto simp: at_color_def a1_def)
  then have "run_len a1 a2 = a2 - a1" by (simp add: run_len_def)
  with take_run [OF c, of a2] show ?thesis
    using \<open>0 \<le> a1\<close> by (simp add: a2_def next_change_ge)
qed (simp add: a2_def next_change_def)

lemma two_dim_members:
  "(0, p_code) \<in> set two_dim_entries" "(0, h_code) \<in> set two_dim_entries"
  "\<bar>b1 - a1\<bar> \<le> 3 \<Longrightarrow> (0, getVCode a1 b1) \<in> set two_dim_entries"
  by (auto simp: two_dim_entries_def getVCode_def)

lemma getVCode_shift:
  "\<bar>b1 - a1\<bar> \<le> 3 \<Longrightarrow> vertical_shift (getVCode a1 b1) = Some (a1 - b1) \<and>
    getVCode a1 b1 \<noteq> p_code \<and> getVCode a1 b1 \<noteq> h_code"
  by (auto simp: getVCode_def vertical_shift_def mode_code_defs)

text \<open>
  One step of the decoder takes back one step of the coding procedure. The decoder's row is
  the part of the row before \<open>a0\<close>.
\<close>

lemma decode2D_step_inverts:
  assumes "row_code cl row ref a0 isWhite bs" "a0 < int (length row)" "row_ok cl row"
    "length ref = length row" "unread data pos = bs @ X" "pixels \<noteq> []" "last pixels = ref"
  obtains c pos1 a0' pos2 isWhite' Y where
    "fetchNext2DCode data pos = (c, pos1, True)"
    "decode2D_step cl data pixels c (take (nat a0) row) pos1 isWhite a0 =
      Some (Ok (take (nat a0') row, pos2, isWhite', a0'))"
    "row_code cl row ref a0' isWhite' Y" "unread data pos2 = Y @ X"
    "pos2 + length Y = pos + length bs" "length Y < length bs" "0 \<le> a0'" "a0' \<le> int (length row)"
proof -
  have at: "at_color cl row a0 isWhite" using assms(1,2) by (cases rule: row_code.cases) auto
  then have a0: "-1 \<le> a0" "a0 < int (length row)" "a0 < int (length ref)"
    using assms(4) by (auto simp: at_color_def)
  define a1 b1 where "a1 = next_change cl row a0" and "b1 = b1_of cl ref a0 isWhite"
  have pc: "a0 = -1 \<and> isWhite \<or> a0 = int (length (take (nat a0) row))"
    using at by (auto simp: at_color_def)
  have ref: "(index_at pixels (int (length pixels) - 1) :: u8 list cres) = Ok ref"
    using assms(6,7) by (cases pixels rule: rev_cases) (auto simp: index_at_def nat_add_distrib)
  have b1: "a0 < b1" "b1 \<le> int (length row)"
    using b1_of_bounds [of a0 ref cl isWhite] a0 assms(4) by (simp_all add: b1_def)
  note ba1 = next_change_bounds [OF a0(1,2), of cl, folded a1_def]
  have draw: "drawPixels cl (take (nat a0) row) isWhite (if a0 = -1 then j - a0 - 1 else j - a0) = take (nat j) row"
    if "a0 < j" "j \<le> a1" for j
    using take_run [OF at, of j] that a0 by (auto simp: run_len_def a1_def drawPixels_eq split: if_splits)
  from assms(1) show thesis
  proof (cases rule: row_code.cases)
    case row_done
    with assms(2) show thesis by simp
  next
    case (pass b2 Y)
    have u: "unread data pos = code_bits p_code @ (Y @ X)" using assms(5) pass by simp
    have b2: "b1 \<le> b2" "b2 < a1" using pass b1 a0 next_change_ge [of b1 cl ref] by (simp_all add: b1_def a1_def)
    have "seekChangingElem cl ref b1 = Ok b2"
      using pass b1 a0 by (simp add: b1_def seekChangingElem_eq)
    then have "decodePassMode cl pixels (take (nat a0) row) isWhite a0 = Ok (take (nat b2) row, b2)"
      using draw [of b2] b1 b2
      by (auto simp: decodePassMode_def ref seekB12D_eq [OF pc] b1_def [symmetric])
    then have "decode2D_step cl data pixels p_code (take (nat a0) row) (pos + BitsWritten p_code) isWhite a0 =
      Some (Ok (take (nat b2) row, pos + BitsWritten p_code, isWhite, b2))"
      by (simp add: decode2D_step_def)
    then show thesis
      using pass b1 b2 a0 ba1 unread_append [OF u, of "BitsWritten p_code"] mode_codes_ok(1)
      by (intro that [OF fetchNext2DCode_hit [OF two_dim_members(1) u], of "b2" _ isWhite Y])
        (auto simp: code_ok_def)
  next
    case (horizontal a1' a2 Y)
    have a1': "a1' = a1" using horizontal by (simp add: a1_def)
    have a2: "a1 \<le> a2" "a2 \<le> int (length row)"
      using horizontal ba1 a0 by (auto simp: a1' intro!: next_change_ge next_change_le)
    define R1 R2 where "R1 = run_bits isWhite (run_len a0 a1)" and "R2 = run_bits (\<not> isWhite) (a2 - a1)"
    have bs: "bs = code_bits h_code @ R1 @ R2 @ Y" using horizontal by (simp add: a1' R1_def R2_def)
    have u: "unread data pos = code_bits h_code @ (R1 @ R2 @ Y @ X)" using assms(5) by (simp add: bs)
    note u1 = unread_append [OF u, of "BitsWritten h_code", simplified]
    note u2 = unread_append [OF u1 refl]
    note u3 = unread_append [OF u2 refl]
    have "0 \<le> run_len a0 a1" using a0 ba1 by (simp add: run_len_def)
    note d1 = decodeNextRunLen_spec [OF this u1 [unfolded R1_def], folded R1_def]
    have "0 \<le> a2 - a1" using a2 by simp
    note d2 = decodeNextRunLen_spec [OF this u2 [unfolded R2_def], folded R2_def]
    have "decodeHorizontalMode cl data (take (nat a0) row) (pos + BitsWritten h_code) isWhite =
        Some (Ok (take (nat a2) row, pos + BitsWritten h_code + length R1 + length R2, a2))"
      using take_run [OF at, of a1] take_run_next [OF assms(3) at] ba1 a2 a0 horizontal
      by (simp add: decodeHorizontalMode_def d1 d2 a1_def)
    then have "decode2D_step cl data pixels h_code (take (nat a0) row) (pos + BitsWritten h_code) isWhite a0 =
      Some (Ok (take (nat a2) row, pos + BitsWritten h_code + length R1 + length R2, isWhite, a2))"
      by (simp add: decode2D_step_def mode_code_defs)
    then show thesis
      using horizontal a2 a0 ba1 u3 mode_codes_ok(2)
      by (intro that [OF fetchNext2DCode_hit [OF two_dim_members(2) u], of "a2" _ isWhite Y])
        (auto simp: code_ok_def bs add.assoc)
  next
    case (vertical a1' b1' Y)
    have e: "a1' = a1" "b1' = b1" using vertical by (simp_all add: a1_def b1_def)
    have u: "unread data pos = code_bits (getVCode a1 b1) @ (Y @ X)" using assms(5) vertical by (simp add: e)
    have le: "\<bar>b1 - a1\<bar> \<le> 3" using vertical by (simp add: e)
    have "decodeVerticalMode cl pixels (take (nat a0) row) isWhite a0 (a1 - b1) = Ok (take (nat a1) row, a1)"
      using draw [of a1] ba1
      by (auto simp: decodeVerticalMode_def ref seekB12D_eq [OF pc] b1_def [symmetric])
    then have "decode2D_step cl data pixels (getVCode a1 b1) (take (nat a0) row) (pos + BitsWritten (getVCode a1 b1)) isWhite a0 =
      Some (Ok (take (nat a1) row, pos + BitsWritten (getVCode a1 b1), \<not> isWhite, a1))"
      using getVCode_shift [OF le] by (simp add: decode2D_step_def)
    then show thesis
      using vertical a0 ba1 unread_append [OF u, of "BitsWritten (getVCode a1 b1)"] mode_codes_ok(3) [OF le]
      by (intro that [OF fetchNext2DCode_hit [OF two_dim_members(3) [OF le] u], of "a1" _ "\<not> isWhite" Y])
        (auto simp: code_ok_def e)
  qed
qed

lemma decodeG4_row_inverts:
  assumes "row_code cl row ref a0 isWhite bs" "a0 < int (length row)" "row_ok cl row"
    "length ref = length row" "unread data pos = bs @ X" "pixels \<noteq> []" "last pixels = ref"
    "Columns e = int (length row)"
  shows "decodeG4_row e cl data pixels (take (nat a0) row) pos isWhite a0 = Some (Ok (row, pos + length bs))"
  using assms(1,2,5)
proof (induction "length bs" arbitrary: a0 isWhite bs pos rule: less_induct)
  case less
  from decode2D_step_inverts [OF less.prems(1,2) assms(3,4) less.prems(3) assms(6,7)]
  obtain c pos1 a0' pos2 isWhite' Y where s:
    "fetchNext2DCode data pos = (c, pos1, True)"
    "decode2D_step cl data pixels c (take (nat a0) row) pos1 isWhite a0 =
      Some (Ok (take (nat a0') row, pos2, isWhite', a0'))"
    "row_code cl row ref a0' isWhite' Y" "unread data pos2 = Y @ X"
    "pos2 + length Y = pos + length bs" "length Y < length bs" "0 \<le> a0'" "a0' \<le> int (length row)" .
  show ?case
  proof (cases "a0' = int (length row)")
    case True
    have "Y = []" using s(3) True by (cases rule: row_code.cases) (auto simp: at_color_def)
    with True s show ?thesis
      using less.prems(2) assms(8) by (subst decodeG4_row.simps) simp
  next
    case False
    with s have l: "a0' < int (length row)" by simp
    then have nl: "\<not> length row \<le> nat a0'" using s(7) by linarith
    with less.hyps [OF s(6,3) l s(4)] s less.prems(2) assms(8) show ?thesis
      by (subst decodeG4_row.simps) (simp add: nl min_def)
  qed
qed

lemma decodeG32D_row_inverts:
  assumes "row_code cl row ref a0 isWhite bs" "a0 < int (length row)" "row_ok cl row"
    "length ref = length row" "unread data pos = bs @ X" "pixels \<noteq> []" "last pixels = ref"
    "Columns e = int (length row)"
  shows "decodeG32D_row e cl data pixels (take (nat a0) row) pos isWhite a0 = Some (Ok (row, pos + length bs))"
  using assms(1,2,5)
proof (induction "length bs" arbitrary: a0 isWhite bs pos rule: less_induct)
  case less
  from decode2D_step_inverts [OF less.prems(1,2) assms(3,4) less.prems(3) assms(6,7)]
  obtain c pos1 a0' pos2 isWhite' Y where s:
    "fetchNext2DCode data pos = (c, pos1, True)"
    "decode2D_step cl data pixels c (take (nat a0) row) pos1 isWhite a0 =
      Some (Ok (take (nat a0') row, pos2, isWhite', a0'))"
    "row_code cl row ref a0' isWhite' Y" "unread data pos2 = Y @ X"
    "pos2 + length Y = pos + length bs" "length Y < length bs" "0 \<le> a0'" "a0' \<le> int (length row)" .
  show ?case
  proof (cases "a0' = int (length row)")
    case True
    have "Y = []" using s(3) True by (cases rule: row_code.cases) (auto simp: at_color_def)
    with True s show ?thesis
      using assms(8) by (subst decodeG32D_row.simps) simp
  next
    case False
    with s have l: "a0' < int (length row)" by simp
    then have nl: "\<not> length row \<le> nat a0'" using s(7) by linarith
    with less.hyps [OF s(6,3) l s(4)] s assms(8) show ?thesis
      by (subst decodeG32D_row.simps) (simp add: nl min_def)
  qed
qed

end
