(* ===== verification/Ccitt_Roundtrip.thy ===== *)
theory Ccitt_Roundtrip
  imports Ccitt_Decoder_Spec
begin

text \<open>
  The whole images: what the three encoders write, row after row, and that \<open>Decode\<close> gives
  the image back. \<open>joined\<close> is the bit string of a sequence of rows, each filled up to a byte
  boundary when the encoder aligns its rows; \<open>offset\<close> is the position at which a row starts.
\<close>

section \<open>The bit stream of an image\<close>

definition fill :: "Encoder \<Rightarrow> bool list \<Rightarrow> bool list" where
  "fill e S = (if EncodedByteAlign e then pad8 S else S)"

fun joined :: "Encoder \<Rightarrow> bool list \<Rightarrow> bool list list \<Rightarrow> bool list" where
  "joined e S [] = S"
| "joined e S (X # Xs) = joined e (fill e (S @ X)) Xs"

definition offset :: "Encoder \<Rightarrow> bool list list \<Rightarrow> nat \<Rightarrow> nat" where
  "offset e Xs t = length (joined e [] (take t Xs))"

lemma joined_append: "joined e S (Xs @ Ys) = joined e (joined e S Xs) Ys"
  by (induction Xs arbitrary: S) simp_all

lemma joined_snoc: "joined e S (Xs @ [X]) = fill e (joined e S Xs @ X)"
  by (simp add: joined_append)

lemma pack_fill [simp]: "pack (fill e S) = pack S"
  by (simp add: fill_def)

lemma fill_prefix: "prefix S (fill e S)"
  by (simp add: fill_def pad8_def)

lemma joined_prefix: "prefix S (joined e S Xs)"
proof (induction Xs arbitrary: S)
  case (Cons X Xs)
  have "prefix S (fill e (S @ X))" by (rule prefix_order.trans [OF _ fill_prefix]) simp
  also have "prefix (fill e (S @ X)) (joined e (fill e (S @ X)) Xs)" by (rule Cons.IH)
  finally show ?case by simp
qed simp

lemma fill_aligned: "EncodedByteAlign e \<Longrightarrow> length (fill e S) mod 8 = 0"
  by (simp add: fill_def)

lemma joined_aligned: "EncodedByteAlign e \<Longrightarrow> length S mod 8 = 0 \<Longrightarrow> length (joined e S Xs) mod 8 = 0"
  by (induction Xs arbitrary: S) (simp_all add: fill_aligned)

lemma offset_0 [simp]: "offset e Xs 0 = 0"
  by (simp add: offset_def)

lemma pad8_length_mod: "(8 - n mod 8) mod 8 = (if n mod 8 = 0 then 0 else 8 - n mod 8)" for n :: nat
  by simp

text \<open>Reading a stream row by row.\<close>

lemma unread_row:
  assumes "bits data = pad8 (joined e [] Xs)" "t < length Xs"
  shows "\<exists>Z. unread data (offset e Xs t) = Xs ! t @ Z"
proof -
  define S where "S = joined e [] (take t Xs)"
  have "Xs = take t Xs @ Xs ! t # drop (Suc t) Xs" using assms(2) by (simp add: id_take_nth_drop)
  then have "joined e [] Xs = joined e S (Xs ! t # drop (Suc t) Xs)"
    unfolding S_def by (metis joined_append)
  moreover have "prefix (S @ Xs ! t) (fill e (S @ Xs ! t))" by (rule fill_prefix)
  moreover have "prefix (fill e (S @ Xs ! t)) (joined e S (Xs ! t # drop (Suc t) Xs))"
    by (simp add: joined_prefix)
  ultimately have "prefix (S @ Xs ! t) (pad8 (joined e [] Xs))"
    by (metis pad8_def prefix_order.trans prefixI)
  then show ?thesis
    using assms(1) by (auto simp: prefix_def offset_def S_def)
qed

lemma offset_inside:
  assumes "bits data = pad8 (joined e [] Xs)" "t < length Xs" "Xs ! t \<noteq> []"
  shows "offset e Xs t div 8 < length data"
proof -
  from unread_row [OF assms(1,2)] assms(3) have "unread data (offset e Xs t) \<noteq> []" by auto
  then have "offset e Xs t < length data * 8" by (simp add: mult.commute)
  then show ?thesis by (rule less_mult_imp_div_less)
qed

lemma align_byte_length: "align_byte e (length S) = length (fill e S)"
  by (auto simp: align_byte_def fill_def pad8_def pad8_length_mod)

lemma align_offset:
  assumes "t < length Xs"
  shows "align_byte e (offset e Xs t + length (Xs ! t)) = offset e Xs (Suc t)"
  using align_byte_length [of e "joined e [] (take t Xs) @ Xs ! t"] assms
  by (simp add: offset_def take_Suc_conv_app_nth joined_snoc)

lemma offset_end:
  assumes "bits data = pad8 (joined e [] Xs)" "EncodedByteAlign e" "length Xs \<le> t"
  shows "\<not> offset e Xs t div 8 < length data"
proof -
  have "length (joined e [] Xs) mod 8 = 0" using joined_aligned [OF assms(2)] by simp
  then have "bits data = joined e [] Xs" using assms(1) by (simp add: pad8_aligned)
  with assms(3) have "offset e Xs t = 8 * length data"
    by (metis length_bits offset_def take_all)
  then show ?thesis by simp
qed

section \<open>Joining rows\<close>

text \<open>
  The first byte of a row written after bits of the previous row is joined with its last byte;
  the slices then hold the rows one after the other.
\<close>

lemma word_bits_or: "word_bits n (v OR w) = map2 (\<or>) (word_bits n v) (word_bits n w)"
  by (rule nth_equalityI) (simp_all add: bit_or_iff)

lemma bits_drop: "bits (drop n xs) = drop (8 * n) (bits xs)"
proof (induction xs arbitrary: n)
  case (Cons x xs)
  then show ?case by (cases n) simp_all
qed simp

lemma map2_or_zeros:
  "length xs = n \<Longrightarrow> length ys = m \<Longrightarrow>
    map2 (\<or>) (xs @ replicate m False) (replicate n False @ ys) = xs @ ys"
  by (rule nth_equalityI) (auto simp: nth_append)

lemma pack_eq_Nil_iff [simp]: "pack bs = [] \<longleftrightarrow> bs = []"
proof -
  have "pack bs = [] \<longleftrightarrow> (length bs + 7) div 8 = 0" by (metis length_0_conv length_pack)
  also have "\<dots> \<longleftrightarrow> bs = []" unfolding div_eq_0_iff by auto
  finally show ?thesis .
qed

lemma pack_join:
  assumes r: "r = length S mod 8" "r \<noteq> 0" and X: "X \<noteq> []"
  defines "new \<equiv> pack (replicate r False @ X)"
  shows "(pack S)[length (pack S) - 1 := last (pack S) OR hd new] @ tl new = pack (S @ X)"
proof (rule pack_eqI)
  define k where "k = length S div 8"
  have S: "length S = 8 * k + r" "r < 8" by (simp_all add: k_def r(1))
  have lp: "length (pack S) = Suc k" using r by (simp add: ceil_div8 k_def)
  define z where "z = (8 - (r + length X) mod 8) mod 8"
  define Y where "Y = X @ replicate z False"
  have "length (S @ X) mod 8 = (r + length X) mod 8" by (simp add: S add.assoc)
  then have pad: "pad8 (S @ X) = S @ Y" by (simp add: pad8_def z_def Y_def)
  have new: "bits new = replicate r False @ Y"
    by (simp add: new_def bits_pack pad8_def z_def Y_def)
  have ne: "new \<noteq> []" using X by (simp add: new_def)
  then obtain b bs where b: "new = b # bs" by (cases new) auto
  have lY: "length Y + r = 8 * Suc (length bs)"
    using arg_cong [OF new, of length] by (simp add: b)
  have "take 8 (bits new) = word_bits 8 b" "drop 8 (bits new) = bits bs" by (simp_all add: b)
  then have wb: "word_bits 8 b = replicate r False @ take (8 - r) Y" "bits bs = drop (8 - r) Y"
    unfolding new using S(2) by simp_all
  have S8: "bits (pack S) = S @ replicate (8 - r) False" using r by (simp add: bits_pack pad8_def)
  have "word_bits 8 (last (pack S)) = drop (8 * k) (bits (pack S))"
  proof -
    obtain ys y where "pack S = ys @ [y]" "length ys = k" using lp by (metis length_Suc_conv_rev)
    then show ?thesis by simp
  qed
  also have "\<dots> = drop (8 * k) S @ replicate (8 - r) False" using S by (simp add: S8)
  finally have last: "word_bits 8 (last (pack S)) = drop (8 * k) S @ replicate (8 - r) False" .
  have "word_bits 8 (last (pack S) OR b) = drop (8 * k) S @ take (8 - r) Y"
    unfolding word_bits_or last wb(1) using S lY by (intro map2_or_zeros) simp_all
  then have "bits ((pack S)[k := last (pack S) OR b]) = take (8 * k) S @ drop (8 * k) S @ take (8 - r) Y"
    unfolding bits_update_last [OF lp] using S by (simp add: S8)
  then show "bits ((pack S)[length (pack S) - 1 := last (pack S) OR hd new] @ tl new) = pad8 (S @ X)"
    using lp by (simp add: b wb(2) pad)
qed

lemma index_at_last: "xs \<noteq> [] \<Longrightarrow> index_at xs (int (length xs) - 1) = Ok (last xs)"
  by (cases xs rule: rev_cases) (simp_all add: index_at_def)

lemma set_at_last: "xs \<noteq> [] \<Longrightarrow> set_at xs (int (length xs) - 1) x = Ok (xs[length xs - 1 := x])"
  by (cases xs rule: rev_cases) (simp_all add: set_at_def)

lemma appendEncodedRow_spec:
  assumes "EncodedByteAlign e \<Longrightarrow> length S mod 8 = 0" "X \<noteq> []" "r = length S mod 8"
  shows "appendEncodedRow e (pack S) (pack (replicate r False @ X)) r = Ok (pack (S @ X))"
proof (cases "r = 0")
  case True
  with assms(3) show ?thesis by (simp add: appendEncodedRow_def pack_append_aligned)
next
  case False
  with assms have na: "\<not> EncodedByteAlign e" "pack S \<noteq> []" by auto
  define new where "new = pack (replicate r False @ X)"
  have ne: "new \<noteq> []" using assms(2) by (simp add: new_def)
  have "(index_at new 0 :: u8 cres) = Ok (hd new)"
    using ne by (simp add: index_at_def hd_conv_nth)
  with na False pack_join [OF assms(3) False assms(2)] show ?thesis
    unfolding appendEncodedRow_def new_def [symmetric]
    by (simp add: index_at_last set_at_last drop_Suc del: length_pack)
qed

section \<open>What the encoder writes\<close>

definition row_1d :: "colours \<Rightarrow> code \<Rightarrow> u8 list \<Rightarrow> bool list \<Rightarrow> bool" where
  "row_1d cl pre row X \<longleftrightarrow>
    (\<exists>rs. draw_runs cl True rs = row \<and> runs_ok rs \<and> X = code_bits pre @ runs_bits True rs)"

definition row_above :: "colours \<Rightarrow> u8 list list \<Rightarrow> nat \<Rightarrow> u8 list" where
  "row_above cl px t = (if t = 0 then replicate (length (px ! 0)) (white cl) else px ! (t - 1))"

text \<open>The bits of row \<open>t\<close> of an image in the scheme selected by \<open>K\<close>.\<close>

definition row_bits :: "Encoder \<Rightarrow> colours \<Rightarrow> u8 list list \<Rightarrow> nat \<Rightarrow> bool list \<Rightarrow> bool" where
  "row_bits e cl px t X \<longleftrightarrow>
    (if K e = 0 then row_1d cl eol (px ! t) X
     else if K e > 0 then
       (if int t mod K e = 0 then row_1d cl eol1 (px ! t) X
        else \<exists>Y. X = code_bits eol0 @ Y \<and> row_code cl (px ! t) (row_above cl px t) (-1) True Y)
     else row_code cl (px ! t) (row_above cl px t) (-1) True X)"

definition rows_bits :: "Encoder \<Rightarrow> colours \<Rightarrow> u8 list list \<Rightarrow> nat \<Rightarrow> nat \<Rightarrow> bool list list \<Rightarrow> bool" where
  "rows_bits e cl px t n Xs \<longleftrightarrow> length Xs = n - t \<and> (\<forall>u < n - t. row_bits e cl px (t + u) (Xs ! u))"

definition trailer :: "Encoder \<Rightarrow> bool list list" where
  "trailer e =
    (if \<not> EndOfBlock e then []
     else if K e = 0 then [codes_bits (replicate 6 eol)]
     else if K e > 0 then [codes_bits (replicate 6 eol1)]
     else [codes_bits (replicate 2 eol)])"

definition image_ok :: "colours \<Rightarrow> nat \<Rightarrow> u8 list list \<Rightarrow> bool" where
  "image_ok cl w px \<longleftrightarrow> 0 < w \<and> (\<forall>row \<in> set px. row_ok cl row \<and> length row = w)"

lemma image_okD: "image_ok cl w px \<Longrightarrow> t < length px \<Longrightarrow> row_ok cl (px ! t) \<and> length (px ! t) = w \<and> 0 < w"
  by (simp add: image_ok_def)

lemma length_row_above: "image_ok cl w px \<Longrightarrow> t < length px \<Longrightarrow> length (row_above cl px t) = w"
  by (cases t) (auto simp: row_above_def image_ok_def)

lemma row_code_nonempty: "row_code cl row ref a0 isWhite X \<Longrightarrow> a0 < int (length row) \<Longrightarrow> X \<noteq> []"
  by (cases rule: row_code.cases, assumption)
    (auto simp: mode_codes_ok [unfolded code_ok_def] simp flip: length_greater_0_conv)

lemma code_bits_nonempty: "code_ok c \<Longrightarrow> code_bits c \<noteq> []"
  by (simp add: code_ok_def flip: length_greater_0_conv)

lemma eol_codes_ok: "code_ok eol" "code_ok eol0" "code_ok eol1"
  by (simp_all add: code_ok_def eol_def eol0_def eol1_def)

lemma row_bits_nonempty:
  assumes "row_bits e cl px t X" "image_ok cl w px" "t < length px"
  shows "X \<noteq> []"
  using assms eol_codes_ok [THEN code_bits_nonempty]
  by (auto simp: row_bits_def row_1d_def split: if_splits dest!: row_code_nonempty)

lemma rows_bits_Nil: "n \<le> t \<Longrightarrow> rows_bits e cl px t n []"
  by (simp add: rows_bits_def)

lemma rows_bits_Cons:
  "t < n \<Longrightarrow> row_bits e cl px t X \<Longrightarrow> rows_bits e cl px (Suc t) n Xs \<Longrightarrow> rows_bits e cl px t n (X # Xs)"
  by (auto simp: rows_bits_def nth_Cons split: nat.splits)

lemma rows_bits_append:
  assumes "t \<le> m" "m \<le> n" "rows_bits e cl px t m Xs" "rows_bits e cl px m n Ys"
  shows "rows_bits e cl px t n (Xs @ Ys)"
  unfolding rows_bits_def
proof (intro conjI allI impI)
  show "length (Xs @ Ys) = n - t" using assms by (simp add: rows_bits_def)
  fix u assume "u < n - t"
  show "row_bits e cl px (t + u) ((Xs @ Ys) ! u)"
  proof (cases "u < m - t")
    case True
    with assms(3) show ?thesis by (simp add: rows_bits_def nth_append)
  next
    case False
    then have "t + u = m + (u - (m - t))" "u - (m - t) < n - m" using assms \<open>u < n - t\<close> by simp_all
    with False assms(3,4) show ?thesis by (metis nth_append rows_bits_def)
  qed
qed

text \<open>The state between two rows: the slice, and the number of bits used of its last byte.\<close>

definition row_state :: "Encoder \<Rightarrow> bool list \<Rightarrow> bool" where
  "row_state e S \<longleftrightarrow> (EncodedByteAlign e \<longrightarrow> length S mod 8 = 0)"

lemma row_state_fill: "row_state e (fill e S)"
  by (simp add: row_state_def fill_aligned)

lemma next_bit_pos:
  "(if EncodedByteAlign e then 0 else (length S mod 8 + length X) mod 8) = length (fill e (S @ X)) mod 8"
  "(if EncodedByteAlign e then 0 else length S mod 8 + length X) mod 8 = length (fill e (S @ X)) mod 8"
  by (simp_all add: fill_def mod_add_left_eq)

lemma encodeRow1D_row_1d:
  assumes "row_ok cl row" "r < 8" "code_ok pre"
  obtains X where "row_1d cl pre row X"
    "encodeRow1D cl row r pre = Some (Ok (pack (replicate r False @ X), (r + length X) mod 8))"
proof -
  from encodeRow1D_spec [OF assms] obtain rs where
    "draw_runs cl True rs = row" "runs_ok rs"
    "encodeRow1D cl row r pre = (let X = code_bits pre @ runs_bits True rs
       in Some (Ok (pack (replicate r False @ X), (r + length X) mod 8)))"
    by blast
  then show thesis by (intro that [of "code_bits pre @ runs_bits True rs"]) (auto simp: row_1d_def Let_def)
qed

lemma encodeRow2D_row_code:
  assumes "row_ok cl row" "length ref = length row" "holds_bits encoded pos bs" 
  obtains X where "row_code cl row ref (-1) True X"
    "encodeRow2D cl row ref encoded pos (-1) = Some (Ok (pack (bs @ X), pos + length X))"
  using encodeRow2D_spec [OF assms(3) _ assms(1,2), of "-1" True] that by (auto simp: at_color_def)

lemma encodeG31D_rows_spec:
  assumes "image_ok cl w px" "K e = 0" "t \<le> n" "n \<le> length px" "row_state e S"
    "n = (if Rows e > 0 \<and> \<not> EndOfBlock e then min (nat (Rows e)) (length px) else length px)"
  shows "\<exists>Xs. rows_bits e cl px t n Xs \<and>
    encodeG31D_rows e cl (drop t px) (int t) (pack S) (length S mod 8) =
      Some (Ok (pack (joined e S Xs), length (joined e S Xs) mod 8))"
  using assms(3,5)
proof (induction "n - t" arbitrary: t S)
  case 0
  then have t: "t = n" by simp
  then have "encodeG31D_rows e cl (drop t px) (int t) (pack S) (length S mod 8) = Some (Ok (pack S, length S mod 8))"
    using assms(6) by (cases "drop t px") (auto split: if_splits)
  with t show ?case by (intro exI [of _ "[]"]) (simp add: rows_bits_Nil)
next
  case (Suc m)
  then have t: "t < n" "t < length px" using assms(4) by simp_all
  have go: "\<not> (Rows e > 0 \<and> \<not> EndOfBlock e \<and> int t = Rows e)"
    using t(1) assms(6) by (auto simp: min_def split: if_splits)
  from encodeRow1D_row_1d [of cl "px ! t" "length S mod 8" eol] image_okD [OF assms(1) t(2)] eol_codes_ok(1)
  obtain X where X: "row_1d cl eol (px ! t) X" "encodeRow1D cl (px ! t) (length S mod 8) eol =
      Some (Ok (pack (replicate (length S mod 8) False @ X), (length S mod 8 + length X) mod 8))"
    by auto
  have rb: "row_bits e cl px t X" using X(1) assms(2) by (simp add: row_bits_def)
  have app: "appendEncodedRow e (pack S) (pack (replicate (length S mod 8) False @ X)) (length S mod 8) =
      Ok (pack (fill e (S @ X)))"
    using Suc.prems(2) row_bits_nonempty [OF rb assms(1) t(2)]
    by (simp add: appendEncodedRow_spec row_state_def)
  have "m = n - Suc t" "Suc t \<le> n" using Suc.hyps(2) by simp_all
  from Suc.hyps(1) [OF this row_state_fill [of e "S @ X"]] obtain Xs where
    Xs: "rows_bits e cl px (Suc t) n Xs"
    "encodeG31D_rows e cl (drop (Suc t) px) (int (Suc t)) (pack (fill e (S @ X))) (length (fill e (S @ X)) mod 8) =
      Some (Ok (pack (joined e (fill e (S @ X)) Xs), length (joined e (fill e (S @ X)) Xs) mod 8))"
    by blast
  have "encodeG31D_rows e cl (drop t px) (int t) (pack S) (length S mod 8) =
      encodeG31D_rows e cl (drop (Suc t) px) (int t + 1) (pack (fill e (S @ X))) (length (fill e (S @ X)) mod 8)"
    unfolding Cons_nth_drop_Suc [OF t(2), symmetric] encodeG31D_rows.simps if_not_P [OF go] X(2)
    by (simp add: app next_bit_pos)
  with Xs t(1) rb show ?case
    by (intro exI [of _ "X # Xs"]) (simp add: rows_bits_Cons add.commute [of 1 "int t"])
qed

lemma encodeG4_rows_spec:
  assumes "image_ok cl w px" "K e < 0" "t \<le> n" "n \<le> length px" "row_state e S"
    "n = (if Rows e > 0 \<and> \<not> EndOfBlock e then min (nat (Rows e)) (length px) else length px)"
  shows "\<exists>Xs. rows_bits e cl px t n Xs \<and>
    encodeG4_rows e cl (row_above cl px t) (drop t px) (int t + 1) (pack S) (length S mod 8) =
      Some (Ok (pack (joined e S Xs), length (joined e S Xs) mod 8))"
  using assms(3,5)
proof (induction "n - t" arbitrary: t S)
  case 0
  then have t: "t = n" by simp
  then have "encodeG4_rows e cl (row_above cl px t) (drop t px) (int t + 1) (pack S) (length S mod 8) =
      Some (Ok (pack S, length S mod 8))"
    using assms(6) by (cases "drop t px") (auto split: if_splits)
  with t show ?case by (intro exI [of _ "[]"]) (simp add: rows_bits_Nil)
next
  case (Suc m)
  then have t: "t < n" "t < length px" using assms(4) by simp_all
  have go: "\<not> (Rows e > 0 \<and> \<not> EndOfBlock e \<and> int t + 1 = Rows e + 1)"
    using t(1) assms(6) by (auto simp: min_def split: if_splits)
  define r where "r = length S mod 8"
  have len: "length (row_above cl px t) = length (px ! t)"
    using length_row_above [OF assms(1) t(2)] image_okD [OF assms(1) t(2)] by simp
  from encodeRow2D_row_code [OF _ len holds_bits_start, of cl r] image_okD [OF assms(1) t(2)]
  obtain X where X: "row_code cl (px ! t) (row_above cl px t) (-1) True X"
    "encodeRow2D cl (px ! t) (row_above cl px t) [] r (-1) = Some (Ok (pack (replicate r False @ X), r + length X))"
    by (auto simp: r_def)
  have rb: "row_bits e cl px t X" using X(1) assms(2) by (simp add: row_bits_def)
  have app: "appendEncodedRow e (pack S) (pack (replicate r False @ X)) r = Ok (pack (fill e (S @ X)))"
    using Suc.prems(2) row_bits_nonempty [OF rb assms(1) t(2)]
    by (simp add: appendEncodedRow_spec row_state_def r_def)
  have "m = n - Suc t" "Suc t \<le> n" using Suc.hyps(2) by simp_all
  from Suc.hyps(1) [OF this row_state_fill [of e "S @ X"]] obtain Xs where
    Xs: "rows_bits e cl px (Suc t) n Xs"
    "encodeG4_rows e cl (row_above cl px (Suc t)) (drop (Suc t) px) (int (Suc t) + 1) (pack (fill e (S @ X))) (length (fill e (S @ X)) mod 8) =
      Some (Ok (pack (joined e (fill e (S @ X)) Xs), length (joined e (fill e (S @ X)) Xs) mod 8))"
    by blast
  have "encodeG4_rows e cl (row_above cl px t) (drop t px) (int t + 1) (pack S) r =
      encodeG4_rows e cl (px ! t) (drop (Suc t) px) (int t + 1 + 1) (pack (fill e (S @ X))) (length (fill e (S @ X)) mod 8)"
    unfolding Cons_nth_drop_Suc [OF t(2), symmetric] encodeG4_rows.simps if_not_P [OF go] X(2)
      run_bind_simps prod.case app next_bit_pos(2) [of e S X, folded r_def]
    by (rule refl)
  with Xs t(1) rb show ?case
    by (intro exI [of _ "X # Xs"]) (simp add: rows_bits_Cons add.commute [of 1 "int t"] row_above_def r_def)
qed

lemma encodeG32D_inner_spec:
  assumes "image_ok cl w px" "K e > 0" "int i mod K e = 0"
    "i < t" "t \<le> n" "n = min (i + nat (K e)) (length px)" "row_state e S"
    "EndOfBlock e \<or> Rows e \<le> 0 \<or> int (length px) \<le> Rows e"
  shows "\<exists>Xs. rows_bits e cl px t n Xs \<and> row_state e (joined e S Xs) \<and>
    encodeG32D_inner e cl px (int i) (int t) (pack S) (length S mod 8) =
      Some (Ok (pack (joined e S Xs), length (joined e S Xs) mod 8))"
  using assms(4,5,7)
proof (induction "n - t" arbitrary: t S)
  case 0
  then have "t = n" by simp
  then have "\<not> (int t < int i + K e \<and> int t < int (length px))"
    using assms(2,6) by (auto simp: min_def)
  then have "encodeG32D_inner e cl px (int i) (int t) (pack S) (length S mod 8) = Some (Ok (pack S, length S mod 8))"
    by (subst encodeG32D_inner.simps) (simp only: if_False)
  with \<open>t = n\<close> 0 show ?case by (intro exI [of _ "[]"]) (simp add: rows_bits_Nil)
next
  case (Suc m)
  have tn: "t < n" using Suc.hyps(2) by (simp del: min_less_iff_conj)
  then have t: "t < n" "t < length px" "0 < t" using assms(6) Suc.prems(1) by simp_all
  have cond: "int t < int i + K e \<and> int t < int (length px)" using t assms(2,6) by auto
  have go: "\<not> (Rows e > 0 \<and> \<not> EndOfBlock e \<and> int t = Rows e)" using t(2) assms(8) by auto
  have nz: "int t mod K e \<noteq> 0"
  proof
    assume "int t mod K e = 0"
    with assms(3) have "K e dvd (int t - int i)" by (metis dvd_diff dvd_eq_mod_eq_0)
    moreover have "0 < int t - int i" using Suc.prems(1) by simp
    ultimately have "K e \<le> int t - int i" by (rule zdvd_imp_le)
    with cond show False by simp
  qed
  define r where "r = length S mod 8"
  define hs where "hs = replicate r False @ code_bits eol0"
  have add: "addCode [] r eol0 = Ok (pack hs, length hs)"
    using addCode_spec [OF holds_bits_start [of r] eol_codes_ok(2)] by (simp add: hs_def r_def)
  have above: "row_above cl px t = px ! (t - 1)" using t(3) by (simp add: row_above_def)
  have len: "length (px ! (t - 1)) = length (px ! t)"
    using image_okD [OF assms(1) t(2)] image_okD [OF assms(1), of "t - 1"] t(2) by simp
  from encodeRow2D_row_code [OF _ len holds_bits_pack, of cl hs] image_okD [OF assms(1) t(2)]
  obtain Y where Y: "row_code cl (px ! t) (px ! (t - 1)) (-1) True Y"
    "encodeRow2D cl (px ! t) (px ! (t - 1)) (pack hs) (length hs) (-1) = Some (Ok (pack (hs @ Y), length hs + length Y))"
    by auto
  define X where "X = code_bits eol0 @ Y"
  have rb: "row_bits e cl px t X" using Y(1) assms(2) nz by (simp add: row_bits_def X_def above)
  have app: "appendEncodedRow e (pack S) (pack (hs @ Y)) r = Ok (pack (fill e (S @ X)))"
    using Suc.prems(3) row_bits_nonempty [OF rb assms(1) t(2)] appendEncodedRow_spec [of e S X r]
    by (simp add: row_state_def r_def hs_def X_def)
  have pos: "(if EncodedByteAlign e then 0 else length hs + length Y) mod 8 = length (fill e (S @ X)) mod 8"
  proof -
    have "length hs + length Y = r + length X" by (simp add: hs_def X_def)
    then show ?thesis by (simp only: next_bit_pos(2) [of e S X, folded r_def])
  qed
  have "m = n - Suc t" "i < Suc t" "Suc t \<le> n" using Suc.hyps(2) Suc.prems(1) by simp_all
  from Suc.hyps(1) [OF this row_state_fill [of e "S @ X"]] obtain Xs where
    Xs: "rows_bits e cl px (Suc t) n Xs" "row_state e (joined e (fill e (S @ X)) Xs)"
    "encodeG32D_inner e cl px (int i) (int (Suc t)) (pack (fill e (S @ X))) (length (fill e (S @ X)) mod 8) =
      Some (Ok (pack (joined e (fill e (S @ X)) Xs), length (joined e (fill e (S @ X)) Xs) mod 8))"
    by blast
  have ix: "(index_at px (int t) :: u8 list cres) = Ok (px ! t)"
    "(index_at px (int t - 1) :: u8 list cres) = Ok (px ! (t - 1))"
    using t by (simp_all add: index_at_def nat_diff_distrib)
  have "encodeG32D_inner e cl px (int i) (int t) (pack S) r =
      encodeG32D_inner e cl px (int i) (int t + 1) (pack (fill e (S @ X))) (length (fill e (S @ X)) mod 8)"
    by (subst encodeG32D_inner.simps, unfold if_P [OF cond] if_not_P [OF go] add ix run_bind_simps prod.case Y(2) app pos) (rule refl)
  with Xs t(1) rb show ?case
    by (intro exI [of _ "X # Xs"]) (simp add: rows_bits_Cons add.commute [of 1 "int t"] r_def)
qed

lemma encodeG32D_outer_spec:
  assumes "image_ok cl w px" "K e > 0" "int i mod K e = 0" "row_state e S"
    "EndOfBlock e \<or> Rows e \<le> 0 \<or> int (length px) \<le> Rows e"
  shows "\<exists>Xs. rows_bits e cl px i (length px) Xs \<and>
    encodeG32D_outer e cl px (int i) (pack S) (length S mod 8) =
      Some (Ok (pack (joined e S Xs), length (joined e S Xs) mod 8))"
  using assms(3,4)
proof (induction "length px - i" arbitrary: i S rule: less_induct)
  case less
  show ?case
  proof (cases "i < length px")
    case False
    then show ?thesis
      by (intro exI [of _ "[]"], subst encodeG32D_outer.simps) (simp add: rows_bits_Nil)
  next
    case True
    define r where "r = length S mod 8"
    define m where "m = min (i + nat (K e)) (length px)"
    have cond: "int i < int (length px)" using True by simp
    have go: "\<not> (Rows e > 0 \<and> \<not> EndOfBlock e \<and> int i = Rows e)" using True assms(5) by auto
    have m: "Suc i \<le> m" "i < m" "m \<le> length px" using True assms(2) by (auto simp: m_def)
    from encodeRow1D_row_1d [of cl "px ! i" r eol1] image_okD [OF assms(1) True] eol_codes_ok(3)
    obtain X where X: "row_1d cl eol1 (px ! i) X" "encodeRow1D cl (px ! i) r eol1 =
        Some (Ok (pack (replicate r False @ X), (r + length X) mod 8))"
      by (auto simp: r_def)
    have rb: "row_bits e cl px i X" using X(1) assms(2) less.prems(1) by (simp add: row_bits_def)
    have app: "appendEncodedRow e (pack S) (pack (replicate r False @ X)) r = Ok (pack (fill e (S @ X)))"
      using less.prems(2) row_bits_nonempty [OF rb assms(1) True] appendEncodedRow_spec [of e S X r]
      by (simp add: row_state_def r_def)
    have ix: "(index_at px (int i) :: u8 list cres) = Ok (px ! i)" using True by simp
    from encodeG32D_inner_spec [OF assms(1,2) less.prems(1) lessI m(1) m_def row_state_fill [of e "S @ X"] assms(5)]
    obtain Ys where Ys: "rows_bits e cl px (Suc i) m Ys" "row_state e (joined e (fill e (S @ X)) Ys)"
      "encodeG32D_inner e cl px (int i) (int (Suc i)) (pack (fill e (S @ X))) (length (fill e (S @ X)) mod 8) =
        Some (Ok (pack (joined e (fill e (S @ X)) Ys), length (joined e (fill e (S @ X)) Ys) mod 8))"
      by blast
    have suc: "int (Suc i) = int i + 1" by simp
    have rest: "encodeG32D_outer e cl px (int i) (pack S) r =
      encodeG32D_outer e cl px (int i + K e) (pack (joined e (fill e (S @ X)) Ys)) (length (joined e (fill e (S @ X)) Ys) mod 8)"
      by (subst encodeG32D_outer.simps, unfold if_P [OF cond] if_not_P [OF go] ix run_bind_simps X(2) prod.case app
          next_bit_pos(1) [of e S X, folded r_def] Ys(3) [unfolded suc]) (rule refl)
    define i' where "i' = i + nat (K e)"
    have i': "int i + K e = int i'" "int i' mod K e = 0" "length px - i' < length px - i"
      using assms(2) less.prems(1) True by (simp_all add: i'_def)
    from less.hyps [OF i'(3,2) Ys(2)] obtain Zs where Zs: "rows_bits e cl px i' (length px) Zs"
      "encodeG32D_outer e cl px (int i') (pack (joined e (fill e (S @ X)) Ys)) (length (joined e (fill e (S @ X)) Ys) mod 8) =
        Some (Ok (pack (joined e (joined e (fill e (S @ X)) Ys) Zs), length (joined e (joined e (fill e (S @ X)) Ys) Zs) mod 8))"
      by blast
    have "rows_bits e cl px m (length px) Zs"
      using Zs(1) by (cases "i' \<le> length px") (simp_all add: m_def i'_def rows_bits_def)
    with rows_bits_append [OF m(1,3) Ys(1)] rows_bits_Cons [OF _ rb] m True
    have "rows_bits e cl px i (length px) (X # Ys @ Zs)" by blast
    with rest Zs(2) show ?thesis
      by (intro exI [of _ "X # Ys @ Zs"]) (simp add: i'(1) joined_append r_def)
  qed
qed

section \<open>Encoding an image\<close>

definition encoded_rows :: "Encoder \<Rightarrow> u8 list list \<Rightarrow> nat" where
  "encoded_rows e px =
    (if Rows e > 0 \<and> \<not> EndOfBlock e then min (nat (Rows e)) (length px) else length px)"

lemma addCodes_trailer:
  assumes "code_ok c" "r < 8" "0 < n"
  shows "addCodes n c [] r = Ok (pack (replicate r False @ codes_bits (replicate n c)), r + n * BitsWritten c)"
  using addCodes_spec [OF holds_bits_start [OF assms(2)] assms(1), of "n - 1"] assms(3) by simp

lemma append_trailer:
  assumes "code_ok c" "0 < n" "row_state e S"
  shows "appendEncodedRow e (pack S) (pack (replicate (length S mod 8) False @ codes_bits (replicate n c))) (length S mod 8)
    = Ok (pack (joined e S [codes_bits (replicate n c)]))"
proof -
  have "codes_bits (replicate n c) \<noteq> []"
    using assms(1,2) code_bits_nonempty by (cases n) auto
  then show ?thesis using assms(3) by (simp add: appendEncodedRow_spec row_state_def)
qed

text \<open>
  The complete encoder: the bits of its rows in order, each aligned when the encoder aligns
  rows, and the code of the end of the block.
\<close>

lemma Encode_stream:
  assumes "image_ok (set_colours e) w px" "K e < 0 \<Longrightarrow> px \<noteq> []"
    "K e > 0 \<Longrightarrow> EndOfBlock e \<or> Rows e \<le> 0 \<or> int (length px) \<le> Rows e"
  shows "\<exists>Xs. rows_bits e (set_colours e) px 0 (encoded_rows e px) Xs \<and>
    Encode e px = Some (Ok (pack (joined e [] (Xs @ trailer e))))"
proof -
  define cl where "cl = set_colours e"
  have st: "row_state e (joined e [] Xs)" for Xs by (simp add: row_state_def joined_aligned)
  consider "K e = 0" | "K e > 0" | "K e < 0" by linarith
  then show ?thesis
  proof cases
    case 1
    have "encoded_rows e px \<le> length px" by (simp add: encoded_rows_def)
    from encodeG31D_rows_spec [OF assms(1) 1 _ this _ encoded_rows_def, of 0 "[]"] obtain Xs where
      "rows_bits e cl px 0 (encoded_rows e px) Xs"
      "encodeG31D_rows e cl px 0 [] 0 = Some (Ok (pack (joined e [] Xs), length (joined e [] Xs) mod 8))"
      by (auto simp: row_state_def cl_def)
    then show ?thesis
      using 1 append_trailer [OF eol_codes_ok(1) _ st, of 6 Xs]
      by (intro exI [of _ Xs])
        (simp add: Encode_def cl_def [symmetric] Let_def encodeG31D_def encodeRTC_def addCodes_trailer eol_codes_ok
          trailer_def joined_append)
  next
    case 2
    have n: "encoded_rows e px = length px" using assms(3) [OF 2] by (auto simp: encoded_rows_def)
    from encodeG32D_outer_spec [OF assms(1) 2 _ _ assms(3) [OF 2], of 0 "[]"] obtain Xs where
      "rows_bits e cl px 0 (length px) Xs"
      "encodeG32D_outer e cl px 0 [] 0 = Some (Ok (pack (joined e [] Xs), length (joined e [] Xs) mod 8))"
      by (auto simp: row_state_def cl_def)
    then show ?thesis
      using 2 append_trailer [OF eol_codes_ok(3) _ st, of 6 Xs]
      by (intro exI [of _ Xs])
        (simp add: n Encode_def cl_def [symmetric] Let_def encodeG32D_def encodeRTC2D_def addCodes_trailer eol_codes_ok
          trailer_def joined_append)
  next
    case 3
    have ref: "(appendWhiteReferenceLine cl px) = Ok (row_above cl px 0 # px)"
      using assms(2) [OF 3] by (cases px) (simp_all add: appendWhiteReferenceLine_def row_above_def index_at_def)
    have "encoded_rows e px \<le> length px" by (simp add: encoded_rows_def)
    from encodeG4_rows_spec [OF assms(1) 3 _ this _ encoded_rows_def, of 0 "[]"] obtain Xs where
      "rows_bits e cl px 0 (encoded_rows e px) Xs"
      "encodeG4_rows e cl (row_above cl px 0) px 1 [] 0 = Some (Ok (pack (joined e [] Xs), length (joined e [] Xs) mod 8))"
      by (auto simp: row_state_def cl_def)
    then show ?thesis
      using 3 append_trailer [OF eol_codes_ok(1) _ st, of 2 Xs]
      by (intro exI [of _ Xs])
        (simp add: Encode_def cl_def [symmetric] Let_def encodeG4_def encodeEOFB_def addCodes_trailer eol_codes_ok
          trailer_def joined_append ref)
  qed
qed

end
