(* ===== verification/Ccitt_Inverse.thy ===== *)
theory Ccitt_Inverse
  imports Ccitt_Roundtrip
begin

text \<open>
  \<open>Decode\<close> gives back the rows that \<open>Encode\<close> wrote, in all three schemes. The end-of-line
  codes and the trailers are recognised because no code of a book is comparable to them.
\<close>

section \<open>Telling line ends from codes\<close>

definition incomparable :: "(int \<times> code) list \<Rightarrow> code \<Rightarrow> bool" where
  "incomparable entries c \<longleftrightarrow>
    list_all (\<lambda>x. \<not> prefix (code_bits (snd x)) (code_bits c) \<and> \<not> prefix (code_bits c) (code_bits (snd x))) entries"

lemma eol_incomparable:
  "incomparable white_entries eol" "incomparable white_entries eol1" "incomparable two_dim_entries eol"
  by code_simp+

lemma eol1_not_eol0: "\<not> prefix (code_bits eol0) (code_bits eol1)" "\<not> prefix (code_bits eol1) (code_bits eol0)"
  by code_simp+

lemma incomparableD:
  assumes "incomparable entries c" "x \<in> set entries"
  shows "\<not> prefix (code_bits c) (code_bits (snd x) @ Z)"
  using assms prefix_same_cases [of "code_bits c" "code_bits (snd x) @ Z" "code_bits (snd x)"]
  by (auto simp: incomparable_def list_all_iff)

lemma prefix_eol_other:
  "\<not> prefix (code_bits eol1) (code_bits eol0 @ Z)" "\<not> prefix (code_bits eol0) (code_bits eol1 @ Z)"
  using prefix_same_cases [of "code_bits eol1" "code_bits eol0 @ Z" "code_bits eol0"]
    prefix_same_cases [of "code_bits eol0" "code_bits eol1 @ Z" "code_bits eol1"] eol1_not_eol0
  by auto

text \<open>The bits of a run begin with a code of its book.\<close>

lemma runs_bits_start:
  assumes "rs \<noteq> []"
  obtains e Y where "e \<in> set white_entries" "runs_bits True rs = code_bits (snd e) @ Y"
proof -
  from assms obtain r rs' where rs: "rs = r # rs'" by (cases rs) auto
  obtain ms t where w: "run_words True ms t" "run_bits True (int r) = codes_bits (map snd (ms @ [t]))"
    by (rule run_bits_words [of "int r" True]) auto
  from w(1) have sub: "set (ms @ [t]) \<subseteq> set white_entries" by (simp add: run_words_def run_entries_def)
  obtain x xs where x: "ms @ [t] = x # xs" by (cases "ms @ [t]") auto
  show thesis
  proof (rule that [of x])
    show "x \<in> set white_entries" using sub by (simp add: x)
    show "runs_bits True rs = code_bits (snd x) @ codes_bits (map snd xs) @ runs_bits False rs'"
      by (simp add: rs w(2) x)
  qed
qed

lemma runs_bits_no_eol:
  assumes "rs \<noteq> []"
  shows "\<not> prefix (code_bits eol) (runs_bits True rs @ Z)" "\<not> prefix (code_bits eol1) (runs_bits True rs @ Z)"
proof -
  from assms obtain x Y where x: "x \<in> set white_entries" "runs_bits True rs = code_bits (snd x) @ Y"
    by (rule runs_bits_start)
  show "\<not> prefix (code_bits eol) (runs_bits True rs @ Z)" "\<not> prefix (code_bits eol1) (runs_bits True rs @ Z)"
    using eol_incomparable(1,2) [THEN incomparableD, OF x(1), of "Y @ Z"] by (simp_all add: x(2))
qed

lemma row_code_no_eol:
  assumes "row_code cl row ref a0 isWhite X" "a0 < int (length row)"
  shows "\<not> prefix (code_bits eol) (X @ Z)"
proof -
  have "\<exists>c Y. (0, c) \<in> set two_dim_entries \<and> X = code_bits c @ Y"
    using assms by (cases rule: row_code.cases) (use two_dim_members in blast)+
  then obtain c Y where c: "(0, c) \<in> set two_dim_entries" "X = code_bits c @ Y" by blast
  show ?thesis using incomparableD [OF eol_incomparable(3) c(1), of "Y @ Z"] by (simp add: c(2))
qed

section \<open>One row\<close>

lemma row_1d_runs:
  assumes "row_1d cl pre row X" "0 < length row"
  obtains rs where "rs \<noteq> []" "draw_runs cl True rs = row" "runs_ok rs" "X = code_bits pre @ runs_bits True rs"
  using assms unfolding row_1d_def by (metis draw_runs.simps(1) length_greater_0_conv)

lemma decodeRow1D_inverts:
  assumes "row_1d cl pre row X" "unread data pos = X @ Z" "Columns e = int (length row)" "0 < length row"
  shows "decodeRow1D e cl data (pos + BitsWritten pre) = Some (row, pos + length X)"
proof -
  from row_1d_runs [OF assms(1,4)] obtain rs where rs: "rs \<noteq> []" "draw_runs cl True rs = row" "runs_ok rs"
    "X = code_bits pre @ runs_bits True rs" .
  have u: "unread data pos = code_bits pre @ (runs_bits True rs @ Z)" using assms(2) rs(4) by simp
  have "length row = sum_list rs" using rs(2) by auto
  with decodeRow1D_runs [OF rs(3,1) _ unread_append [OF u], of "[]" e "BitsWritten pre" cl] assms(3)
  show ?thesis by (simp add: decodeRow1D_def decodeRow1D_from_def rs(2,4))
qed

lemma fetchRTC_rest_none:
  "\<not> prefix (code_bits eol) (unread data pos) \<Longrightarrow> fetchRTC_rest data 0 pos = Ok (False, pos)"
  by (subst fetchRTC_rest.simps) (simp add: tryFetchEOL_eq)

lemma fetchRTC_rest_found:
  "unread data pos = codes_bits (replicate n eol) @ Z \<Longrightarrow> i + n = 5 \<Longrightarrow>
    fetchRTC_rest data i pos = Ok (True, pos + 12 * n)"
proof (induction n arbitrary: i pos)
  case 0
  then show ?case by (subst fetchRTC_rest.simps) simp
next
  case (Suc n)
  have u: "unread data pos = code_bits eol @ (codes_bits (replicate n eol) @ Z)" using Suc.prems(1) by simp
  have "length (code_bits eol) = 12" by (simp add: eol_def)
  from Suc.IH [OF unread_append [OF u this [symmetric]], of "Suc i"] Suc.prems(2) show ?case
    by (subst fetchRTC_rest.simps) (simp add: tryFetchEOL_eq u)
qed

lemma tryFetchRTC2D_found:
  "unread data pos = codes_bits (replicate n eol1) @ Z \<Longrightarrow> i + n = 6 \<Longrightarrow>
    tryFetchRTC2D_loop data start i pos = Ok (True, pos + 13 * n)"
proof (induction n arbitrary: i pos)
  case 0
  then show ?case by (subst tryFetchRTC2D_loop.simps) simp
next
  case (Suc n)
  have u: "unread data pos = code_bits eol1 @ (codes_bits (replicate n eol1) @ Z)" using Suc.prems(1) by simp
  have "length (code_bits eol1) = 13" by (simp add: eol1_def)
  from Suc.IH [OF unread_append [OF u this [symmetric]], of "Suc i"] Suc.prems(2) show ?case
    by (subst tryFetchRTC2D_loop.simps) (simp add: tryFetchEOL1_def tryFetchExtendedEOL_eq u)
qed

lemma tryFetchRTC2D_none:
  assumes "row_1d cl eol1 row X" "unread data pos = X @ Z" "0 < length row"
  shows "tryFetchRTC2D data pos = Ok (False, pos)" "tryFetchEOL1 data pos = (True, pos + 13)"
proof -
  from row_1d_runs [OF assms(1,3)] obtain rs where rs: "rs \<noteq> []" "X = code_bits eol1 @ runs_bits True rs" .
  have u: "unread data pos = code_bits eol1 @ (runs_bits True rs @ Z)" using assms(2) rs(2) by simp
  have "length (code_bits eol1) = 13" by (simp add: eol1_def)
  note u' = unread_append [OF u this [symmetric]]
  show e: "tryFetchEOL1 data pos = (True, pos + 13)"
    by (simp add: tryFetchEOL1_def tryFetchExtendedEOL_eq u)
  have "tryFetchEOL1 data (pos + 13) = (False, pos + 13)"
    using runs_bits_no_eol(2) [OF rs(1)] by (simp add: tryFetchEOL1_def tryFetchExtendedEOL_eq u')
  with e show "tryFetchRTC2D data pos = Ok (False, pos)"
    unfolding tryFetchRTC2D_def
    by (subst tryFetchRTC2D_loop.simps, simp, subst tryFetchRTC2D_loop.simps, simp)
qed

section \<open>The three decoders\<close>

text \<open>
  What the decoder needs to know where the image ends: the end-of-block code, the number of
  rows, or rows aligned to bytes, so that no unused bits follow the last one.
\<close>

definition end_known :: "Encoder \<Rightarrow> u8 list list \<Rightarrow> bool" where
  "end_known e px \<longleftrightarrow>
    EndOfBlock e \<or> EncodedByteAlign e \<or> 0 < Rows e \<and> Rows e \<le> int (length px)"

lemma replicate_trailer: "replicate 6 c = c # replicate 5 c" "replicate 2 c = [c, c]"
  by (simp_all add: numeral_eq_Suc)

lemma trailer_single: "EndOfBlock e \<Longrightarrow> \<exists>T. trailer e = [T] \<and> T \<noteq> []"
  using eol_codes_ok(1,3) [THEN code_bits_nonempty] by (simp add: trailer_def replicate_trailer)

definition written :: "Encoder \<Rightarrow> u8 list list \<Rightarrow> bool list list \<Rightarrow> u8 list \<Rightarrow> bool" where
  "written e px Xs data \<longleftrightarrow> rows_bits e (set_colours e) px 0 (encoded_rows e px) Xs \<and>
    bits data = pad8 (joined e [] (Xs @ trailer e))"

lemma encoded_rows_le: "encoded_rows e px \<le> length px"
  by (simp add: encoded_rows_def)

text \<open>
  Reading row \<open>t\<close> of a stream, whatever follows it.
\<close>

lemma stream_row:
  assumes b: "bits data = pad8 (joined e [] Xs)" and rb: "row_bits e (set_colours e) px t (Xs ! t)"
    and im: "image_ok (set_colours e) w px" and t: "t < length Xs" "t < length px"
  defines "p \<equiv> offset e Xs t"
  obtains Z where "unread data p = Xs ! t @ Z" "p div 8 < length data"
    "align_byte e (p + length (Xs ! t)) = offset e Xs (Suc t)" "Xs ! t \<noteq> []"
proof -
  from row_bits_nonempty [OF rb im t(2)] have ne: "Xs ! t \<noteq> []" .
  from unread_row [OF b t(1)] obtain Z where "unread data p = Xs ! t @ Z" by (auto simp: p_def)
  with that [OF this] offset_inside [OF b t(1) ne] align_offset [OF t(1), of e] ne show thesis
    by (simp add: p_def)
qed

text \<open>Reading row \<open>t\<close> of a written image.\<close>

lemma written_row:
  assumes "written e px Xs data" "image_ok (set_colours e) w px" "t < encoded_rows e px"
  defines "p \<equiv> offset e (Xs @ trailer e) t"
  obtains X Z where "row_bits e (set_colours e) px t X" "unread data p = X @ Z" "p div 8 < length data"
    "align_byte e (p + length X) = offset e (Xs @ trailer e) (Suc t)" "X \<noteq> []"
proof -
  have len: "length Xs = encoded_rows e px" using assms(1) by (simp add: written_def rows_bits_def)
  have rb: "row_bits e (set_colours e) px t ((Xs @ trailer e) ! t)"
    using assms(1,3) len by (simp add: written_def rows_bits_def nth_append)
  have b: "bits data = pad8 (joined e [] (Xs @ trailer e))" using assms(1) by (simp add: written_def)
  have t: "t < length (Xs @ trailer e)" "t < length px" using assms(3) len encoded_rows_le [of e px] by simp_all
  from stream_row [OF b rb assms(2) t] that [OF rb] show thesis unfolding p_def by blast
qed

text \<open>After the last row: the end of the block, or the end of the data.\<close>

lemma written_end:
  assumes "written e px Xs data" "end_known e px"
  defines "p \<equiv> offset e (Xs @ trailer e) (encoded_rows e px)"
  obtains (end_of_block) Z where "EndOfBlock e" "unread data p = hd (trailer e) @ Z" "p div 8 < length data"
    | (rows) "\<not> EndOfBlock e" "0 < Rows e" "int (encoded_rows e px) = Rows e"
    | (end_of_data) "\<not> EndOfBlock e" "\<not> p div 8 < length data"
proof -
  have len: "length Xs = encoded_rows e px" using assms(1) by (simp add: written_def rows_bits_def)
  have b: "bits data = pad8 (joined e [] (Xs @ trailer e))" using assms(1) by (simp add: written_def)
  show thesis
  proof (cases "EndOfBlock e")
    case True
    then obtain T where T: "trailer e = [T]" "T \<noteq> []" using trailer_single by blast
    then have t: "encoded_rows e px < length (Xs @ trailer e)" "(Xs @ trailer e) ! encoded_rows e px = T"
      using len by (simp_all add: nth_append)
    from unread_row [OF b t(1)] offset_inside [OF b t(1)] t(2) T end_of_block True show thesis
      by (auto simp: p_def)
  next
    case False
    show thesis
    proof (cases "EncodedByteAlign e")
      case True
      have "trailer e = []" using False by (simp add: trailer_def)
      with offset_end [OF b True, of "encoded_rows e px"] len False end_of_data show thesis by (simp add: p_def)
    next
      case na: False
      with False assms(2) have R: "0 < Rows e" "nat (Rows e) \<le> length px" by (auto simp: end_known_def)
      with False have "int (encoded_rows e px) = Rows e" by (simp add: encoded_rows_def min_absorb1)
      with False R rows show thesis by blast
    qed
  qed
qed

lemma not_rows_done: "n < encoded_rows e px \<Longrightarrow> \<not> rows_done e (int n)"
  by (auto simp: rows_done_def encoded_rows_def split: if_splits)

text \<open>
  Whether the decoder stops after row \<open>t\<close>: only when this was the last encoded row.
\<close>

lemma rows_done_last: "rows_done e (int n) \<Longrightarrow> n \<le> encoded_rows e px \<Longrightarrow> n = encoded_rows e px"
  using not_rows_done [of n e px] by linarith

lemma decodeG31D_loop_inverts:
  assumes wr: "written e px Xs data" and im: "image_ok (set_colours e) w px" and "end_known e px"
    and K: "K e = 0" and C: "Columns e = int w" and "t \<le> encoded_rows e px"
    and "\<not> rows_done e (int t)"
  shows "decodeG31D_loop e (set_colours e) data (take t px) (offset e (Xs @ trailer e) t) =
    Some (Ok (take (encoded_rows e px) px))"
  using assms(6,7)
proof (induction "encoded_rows e px - t" arbitrary: t)
  case 0
  then have t: "t = encoded_rows e px" by simp
  from wr assms(3) show ?case
  proof (cases rule: written_end)
    case (end_of_block Z)
    then have T: "unread data (offset e (Xs @ trailer e) t) = code_bits eol @ codes_bits (replicate 5 eol) @ Z"
      using K by (simp add: trailer_def t replicate_trailer)
    have "length (code_bits eol) = 12" by (simp add: eol_def)
    from fetchRTC_rest_found [OF unread_append [OF T this [symmetric]], of 0] T end_of_block show ?thesis
      by (subst decodeG31D_loop.simps) (simp add: tryFetchEOL_eq t del: codes_bits_simps)
  next
    case rows
    then have "rows_done e (int t)" by (simp add: rows_done_def t)
    with 0 show ?thesis by simp
  next
    case end_of_data
    then show ?thesis by (subst decodeG31D_loop.simps) (simp add: t)
  qed
next
  case (Suc m)
  define p where "p = offset e (Xs @ trailer e) t"
  have t: "t < encoded_rows e px" using Suc.hyps(2) by simp
  then have tp: "t < length px" using encoded_rows_le [of e px] by simp
  from wr im t obtain X Z where X: "row_bits e (set_colours e) px t X" "unread data p = X @ Z" "p div 8 < length data"
    "align_byte e (p + length X) = offset e (Xs @ trailer e) (Suc t)"
    unfolding p_def by (rule written_row)
  have r: "row_1d (set_colours e) eol (px ! t) X" using X(1) K by (simp add: row_bits_def)
  from image_okD [OF im tp] have w: "Columns e = int (length (px ! t))" "0 < length (px ! t)" using C by simp_all
  from row_1d_runs [OF r w(2)] obtain rs where rs: "rs \<noteq> []" "X = code_bits eol @ runs_bits True rs" .
  have u: "unread data p = code_bits eol @ (runs_bits True rs @ Z)" using X(2) rs(2) by simp
  have l12: "BitsWritten eol = 12" by (simp add: eol_def)
  have u': "unread data (p + 12) = runs_bits True rs @ Z"
    using unread_append [OF u, of 12] l12 by simp
  have eolf: "tryFetchEOL data p = (True, p + 12)" by (simp add: tryFetchEOL_eq u)
  have rest: "fetchRTC_rest data 0 (p + 12) = Ok (False, p + 12)"
    using runs_bits_no_eol(1) [OF rs(1)] by (intro fetchRTC_rest_none) (simp add: u')
  have row: "decodeRow1D e (set_colours e) data (p + 12) = Some (px ! t, p + length X)"
    using decodeRow1D_inverts [OF r X(2) w] by (simp add: l12)
  have tk: "take t px @ [px ! t] = take (Suc t) px" using tp by (simp add: take_Suc_conv_app_nth)
  have lt: "length (take (Suc t) px) = Suc t" using tp by simp
  have step: "decodeG31D_loop e (set_colours e) data (take t px) p =
    (if rows_done e (int (Suc t)) then Some (Ok (take (Suc t) px))
     else decodeG31D_loop e (set_colours e) data (take (Suc t) px) (offset e (Xs @ trailer e) (Suc t)))"
    by (subst decodeG31D_loop.simps)
      (simp only: X(3,4) eolf rest row tk lt if_True prod.case simp_thms if_False run_bind_simps option.case Let_def)
  show ?case
  proof (cases "rows_done e (int (Suc t))")
    case True
    with rows_done_last [OF True, of px] t show ?thesis by (simp add: step p_def [symmetric])
  next
    case False
    with Suc.hyps(1) [of "Suc t"] Suc.hyps(2) t show ?thesis by (simp add: step p_def [symmetric])
  qed
qed

lemma take_next: "t < length px \<Longrightarrow> take t px @ [px ! t] = take (Suc t) px"
  by (simp add: take_Suc_conv_app_nth)

lemma last_above:
  assumes "image_ok cl w px" "t < length px"
  shows "last (replicate w (white cl) # take t px) = row_above cl px t"
proof (cases t)
  case 0
  with image_okD [OF assms] show ?thesis by (simp add: row_above_def)
next
  case (Suc k)
  then show ?thesis using assms(2) by (simp add: row_above_def take_Suc_conv_app_nth)
qed

text \<open>One round of the Group 4 decoder.\<close>

lemma decodeG4_loop_row:
  assumes b: "bits data = pad8 (joined e [] Xs)" and rb: "row_bits e (set_colours e) px t (Xs ! t)"
    and im: "image_ok (set_colours e) w px" and K: "K e < 0" and C: "Columns e = int w"
    and t: "t < length Xs" "t < length px"
  defines "W \<equiv> replicate w (white (set_colours e))"
  shows "decodeG4_loop e (set_colours e) data (W # take t px) (offset e Xs t) =
    (if rows_done e (int (Suc t)) then Some (Ok (W # take (Suc t) px))
     else decodeG4_loop e (set_colours e) data (W # take (Suc t) px) (offset e Xs (Suc t)))"
proof -
  define p X where "p = offset e Xs t" and "X = Xs ! t"
  from stream_row [OF b rb im t] obtain Z where X: "unread data p = X @ Z" "p div 8 < length data"
    "align_byte e (p + length X) = offset e Xs (Suc t)" unfolding p_def X_def by blast
  note ok = image_okD [OF im t(2)]
  have r: "row_code (set_colours e) (px ! t) (row_above (set_colours e) px t) (-1) True X"
    using rb K by (simp add: row_bits_def X_def)
  have "\<not> prefix (code_bits eol) (X @ Z)" by (rule row_code_no_eol [OF r]) simp
  then have eofb: "tryFetchEOFB data p = Ok (False, p)" by (simp add: tryFetchEOFB_def tryFetchEOL_eq X(1))
  have la: "last (W # take t px) = row_above (set_colours e) px t" unfolding W_def by (rule last_above [OF im t(2)])
  have len: "length (row_above (set_colours e) px t) = length (px ! t)" using length_row_above [OF im t(2)] ok by simp
  have row: "decodeG4_row e (set_colours e) data (W # take t px) [] p True (-1) = Some (Ok (px ! t, p + length X))"
    using decodeG4_row_inverts [OF r _ _ len X(1) _ la, of e] ok C by simp
  have l: "int (length (W # take (Suc t) px)) - 1 = int (Suc t)" using t(2) by simp
  show ?thesis
    unfolding p_def [symmetric]
    by (subst decodeG4_loop.simps)
      (simp only: X(2,3) eofb row append_Cons take_next [OF t(2)] l if_True prod.case if_False run_bind_simps Let_def)
qed

text \<open>The rows of a stream are decoded, and decoding goes on behind them.\<close>

lemma decodeG4_loop_rows:
  assumes b: "bits data = pad8 (joined e [] (Xs @ Ys))" and rs: "rows_bits e (set_colours e) px 0 (length px) Xs"
    and im: "image_ok (set_colours e) w px" and K: "K e < 0" and C: "Columns e = int w"
    and R: "\<not> rows_done e (int (length px))" and "t \<le> length px"
  defines "W \<equiv> replicate w (white (set_colours e))"
  shows "decodeG4_loop e (set_colours e) data [W] 0 = decodeG4_loop e (set_colours e) data (W # take t px) (offset e (Xs @ Ys) t)"
  using \<open>t \<le> length px\<close>
proof (induction t)
  case (Suc t)
  have len: "length Xs = length px" using rs by (simp add: rows_bits_def)
  have "row_bits e (set_colours e) px t ((Xs @ Ys) ! t)" using rs Suc.prems by (simp add: rows_bits_def nth_append)
  moreover have "\<not> rows_done e (int (Suc t))" using R Suc.prems by (auto simp: rows_done_def)
  ultimately show ?case
    using Suc decodeG4_loop_row [OF b _ im K C, of t, folded W_def] len by simp
qed simp

lemma decodeG4_loop_inverts:
  assumes wr: "written e px Xs data" and im: "image_ok (set_colours e) w px" and "end_known e px"
    and K: "K e < 0" and C: "Columns e = int w" and "t \<le> encoded_rows e px" and "\<not> rows_done e (int t)"
  shows "decodeG4_loop e (set_colours e) data (replicate w (white (set_colours e)) # take t px)
      (offset e (Xs @ trailer e) t) =
    Some (Ok (replicate w (white (set_colours e)) # take (encoded_rows e px) px))"
  using assms(6,7)
proof (induction "encoded_rows e px - t" arbitrary: t)
  case 0
  then have t: "t = encoded_rows e px" by simp
  from wr assms(3) show ?case
  proof (cases rule: written_end)
    case (end_of_block Z)
    then have T: "unread data (offset e (Xs @ trailer e) t) = code_bits eol @ (code_bits eol @ Z)"
      using K by (simp add: trailer_def t replicate_trailer)
    have "length (code_bits eol) = 12" by (simp add: eol_def)
    note T' = unread_append [OF T this [symmetric]]
    show ?thesis
      using end_of_block by (subst decodeG4_loop.simps) (simp add: tryFetchEOFB_def tryFetchEOL_eq T T' t [symmetric])
  next
    case rows
    then have "rows_done e (int t)" by (simp add: rows_done_def t)
    with 0 show ?thesis by simp
  next
    case end_of_data
    then show ?thesis by (subst decodeG4_loop.simps) (simp add: t)
  qed
next
  case (Suc m)
  have t: "t < encoded_rows e px" using Suc.hyps(2) by simp
  have len: "length Xs = encoded_rows e px" using wr by (simp add: written_def rows_bits_def)
  have b: "bits data = pad8 (joined e [] (Xs @ trailer e))" using wr by (simp add: written_def)
  have rb: "row_bits e (set_colours e) px t ((Xs @ trailer e) ! t)"
    using wr t len by (simp add: written_def rows_bits_def nth_append)
  note step = decodeG4_loop_row [OF b rb im K C]
  show ?case
  proof (cases "rows_done e (int (Suc t))")
    case True
    with rows_done_last [OF True, of px] t len encoded_rows_le [of e px] show ?thesis by (simp add: step)
  next
    case False
    with Suc.hyps(1) [of "Suc t"] Suc.hyps(2) t len encoded_rows_le [of e px] show ?thesis by (simp add: step)
  qed
qed

lemma tryFetchEOL0_row:
  assumes "unread data pos = (code_bits eol0 @ Y) @ Z"
  shows "tryFetchEOL0 data pos = (True, pos + 13)" "unread data (pos + 13) = Y @ Z"
proof -
  have u: "unread data pos = code_bits eol0 @ (Y @ Z)" using assms by simp
  have "length (code_bits eol0) = 13" by (simp add: eol0_def)
  from unread_append [OF u this [symmetric]] show "unread data (pos + 13) = Y @ Z" .
  show "tryFetchEOL0 data pos = (True, pos + 13)" by (simp add: tryFetchEOL0_def tryFetchExtendedEOL_eq u)
qed

lemma trailer_2d:
  assumes "K e > 0" "EndOfBlock e" "unread data p = hd (trailer e) @ Z"
  shows "tryFetchRTC2D data p = Ok (True, p + 78)" "tryFetchEOL0 data p = (False, p)"
proof -
  have u: "unread data p = codes_bits (replicate 6 eol1) @ Z" using assms by (simp add: trailer_def)
  then have "unread data p = code_bits eol1 @ (codes_bits (replicate 5 eol1) @ Z)" by (simp add: replicate_trailer)
  then show "tryFetchEOL0 data p = (False, p)"
    using prefix_eol_other(2) by (simp add: tryFetchEOL0_def tryFetchExtendedEOL_eq del: codes_bits_simps)
  show "tryFetchRTC2D data p = Ok (True, p + 78)"
    using tryFetchRTC2D_found [OF u, of 0 p] by (simp add: tryFetchRTC2D_def)
qed

lemma decodeG32D_inner_inverts:
  assumes wr: "written e px Xs data" and im: "image_ok (set_colours e) w px" and "end_known e px"
    and K: "K e > 0" and C: "Columns e = int w" and g: "int g mod K e = 0"
    and "g < t" "int t \<le> int g + K e" "t \<le> encoded_rows e px" "\<not> rows_done e (int t)"
  shows "(\<exists>q. decodeG32D_inner e (set_colours e) data (int t - int g) (take t px) (offset e (Xs @ trailer e) t) =
      Some (Ok (take (encoded_rows e px) px, q, True))) \<or>
    (\<exists>t'. t < t' + 1 \<and> t' \<le> encoded_rows e px \<and> (int t' = int g + K e \<or> t' = encoded_rows e px) \<and> \<not> rows_done e (int t') \<and>
      decodeG32D_inner e (set_colours e) data (int t - int g) (take t px) (offset e (Xs @ trailer e) t) =
        Some (Ok (take t' px, offset e (Xs @ trailer e) t', False)))"
  using assms(7-10)
proof (induction "encoded_rows e px - t" arbitrary: t)
  case 0
  then have t: "t = encoded_rows e px" by simp
  define p where "p = offset e (Xs @ trailer e) t"
  from wr assms(3) show ?case
  proof (cases rule: written_end)
    case (end_of_block Z)
    note tr = trailer_2d [OF K end_of_block(1,2), folded t p_def]
    show ?thesis
    proof (cases "int t - int g < K e")
      case True
      then have "decodeG32D_inner e (set_colours e) data (int t - int g) (take t px) p =
          Some (Ok (take t px, p + 78, True))"
        using tr end_of_block(3) by (subst decodeG32D_inner.simps) (simp add: t [symmetric] p_def [symmetric])
      then show ?thesis by (simp add: t p_def)
    next
      case False
      with 0 t show ?thesis
        by (intro disjI2 exI [of _ t]) (subst decodeG32D_inner.simps, simp)
    qed
  next
    case rows
    then have "rows_done e (int t)" by (simp add: rows_done_def t)
    with 0 show ?thesis by simp
  next
    case end_of_data
    with 0 t show ?thesis
      by (intro disjI2 exI [of _ t]) (subst decodeG32D_inner.simps, simp)
  qed
next
  case (Suc m)
  show ?case
  proof (cases "int t - int g < K e")
    case False
    with Suc.prems show ?thesis
      by (intro disjI2 exI [of _ t]) (subst decodeG32D_inner.simps, simp)
  next
    case True
    define p where "p = offset e (Xs @ trailer e) t"
    have t: "t < encoded_rows e px" using Suc.hyps(2) by simp
    then have tp: "t < length px" using encoded_rows_le [of e px] by simp
    from wr im t obtain X Z where X: "row_bits e (set_colours e) px t X" "unread data p = X @ Z" "p div 8 < length data"
      "align_byte e (p + length X) = offset e (Xs @ trailer e) (Suc t)"
      unfolding p_def by (rule written_row)
    note ok = image_okD [OF im tp]
    have nz: "int t mod K e \<noteq> 0"
    proof
      assume "int t mod K e = 0"
      with g have "K e dvd (int t - int g)" by (metis dvd_diff dvd_eq_mod_eq_0)
      from zdvd_imp_le [OF this] Suc.prems(1) True show False by simp
    qed
    with X(1) K obtain Y where Y: "X = code_bits eol0 @ Y"
      "row_code (set_colours e) (px ! t) (row_above (set_colours e) px t) (-1) True Y"
      by (auto simp: row_bits_def)
    note eolf = tryFetchEOL0_row [OF X(2) [unfolded Y(1)]]
    have la: "last (take t px) = row_above (set_colours e) px t" "take t px \<noteq> []"
      using last_above [OF im tp] Suc.prems(1) tp by (auto split: if_splits)
    have len: "length (row_above (set_colours e) px t) = length (px ! t)" using length_row_above [OF im tp] ok by simp
    have "length (code_bits eol0) = 13" by (simp add: eol0_def)
    then have pl: "p + 13 + length Y = p + length X" using Y(1) by simp
    have row: "decodeG32D_row e (set_colours e) data (take t px) [] (p + 13) True (-1) = Some (Ok (px ! t, p + length X))"
      using decodeG32D_row_inverts [OF Y(2) _ _ len eolf(2) la(2,1), of e] ok C by (simp add: pl)
    have ne: "px ! t \<noteq> []" using ok by auto
    have l: "length (take (Suc t) px) = Suc t" using tp by simp
    have i1: "int t - int g + 1 = int (Suc t) - int g" by simp
    have step: "decodeG32D_inner e (set_colours e) data (int t - int g) (take t px) p =
      (if rows_done e (int (Suc t)) then Some (Ok (take (Suc t) px, offset e (Xs @ trailer e) (Suc t), True))
       else decodeG32D_inner e (set_colours e) data (int (Suc t) - int g) (take (Suc t) px) (offset e (Xs @ trailer e) (Suc t)))"
      by (subst decodeG32D_inner.simps)
        (simp only: X(3,4) True eolf(1) row ne take_next [OF tp] l i1 if_True prod.case if_False run_bind_simps Let_def
          simp_thms)
    show ?thesis
    proof (cases "rows_done e (int (Suc t))")
      case rd: True
      with rows_done_last [OF rd, of px] t show ?thesis by (simp add: step p_def [symmetric])
    next
      case False
      have "m = encoded_rows e px - Suc t" using Suc.hyps(2) by simp
      from Suc.hyps(1) [OF this] Suc.prems True t False
      show ?thesis unfolding p_def [symmetric] step if_not_P [OF False] by fastforce
    qed
  qed
qed

lemma decodeG32D_outer_inverts:
  assumes wr: "written e px Xs data" and im: "image_ok (set_colours e) w px" and "end_known e px"
    and K: "K e > 0" and C: "Columns e = int w"
    and "int t mod K e = 0 \<or> t = encoded_rows e px" "t \<le> encoded_rows e px" "\<not> rows_done e (int t)"
  shows "decodeG32D_outer e (set_colours e) data (take t px) (offset e (Xs @ trailer e) t) =
    Some (Ok (take (encoded_rows e px) px))"
  using assms(6-8)
proof (induction "encoded_rows e px - t" arbitrary: t rule: less_induct)
  case less
  define p where "p = offset e (Xs @ trailer e) t"
  show ?case
  proof (cases "t = encoded_rows e px")
    case True
    from wr assms(3) show ?thesis
    proof (cases rule: written_end)
      case (end_of_block Z)
      from trailer_2d [OF K end_of_block(1,2)] end_of_block(3) show ?thesis
        by (subst decodeG32D_outer.simps) (simp add: True)
    next
      case rows
      then have "rows_done e (int t)" by (simp add: rows_done_def True)
      with less.prems show ?thesis by simp
    next
      case end_of_data
      then show ?thesis by (subst decodeG32D_outer.simps) (simp add: True)
    qed
  next
    case False
    then have t: "t < encoded_rows e px" "int t mod K e = 0" using less.prems by auto
    then have tp: "t < length px" using encoded_rows_le [of e px] by simp
    from wr im t(1) obtain X Z where X: "row_bits e (set_colours e) px t X" "unread data p = X @ Z" "p div 8 < length data"
      "align_byte e (p + length X) = offset e (Xs @ trailer e) (Suc t)"
      unfolding p_def by (rule written_row)
    have r: "row_1d (set_colours e) eol1 (px ! t) X" using X(1) K t(2) by (simp add: row_bits_def)
    from image_okD [OF im tp] have w: "Columns e = int (length (px ! t))" "0 < length (px ! t)" using C by simp_all
    note rtc = tryFetchRTC2D_none [OF r X(2) w(2)]
    have row: "decodeRow1D e (set_colours e) data (p + 13) = Some (px ! t, p + length X)"
      using decodeRow1D_inverts [OF r X(2) w] by (simp add: eol1_def)
    have ne: "px ! t \<noteq> []" using w(2) by auto
    have l: "length (take (Suc t) px) = Suc t" using tp by simp
    have step: "decodeG32D_outer e (set_colours e) data (take t px) p =
      (if rows_done e (int (Suc t)) then Some (Ok (take (Suc t) px))
       else run_bind (decodeG32D_inner e (set_colours e) data 1 (take (Suc t) px) (offset e (Xs @ trailer e) (Suc t)))
         (\<lambda>(pixels, bitPos, stop). if stop then Some (Ok pixels)
           else decodeG32D_outer e (set_colours e) data pixels bitPos))"
      by (subst decodeG32D_outer.simps)
        (simp only: X(3,4) rtc row ne take_next [OF tp] l if_True prod.case if_False run_bind_simps Let_def
          simp_thms option.case)
    show ?thesis
    proof (cases "rows_done e (int (Suc t))")
      case True
      with rows_done_last [OF True, of px] t show ?thesis by (simp add: step p_def [symmetric])
    next
      case nd: False
      have s: "t < Suc t" "int (Suc t) \<le> int t + K e" "Suc t \<le> encoded_rows e px" using K t by simp_all
      have one: "int (Suc t) - int t = 1" by simp
      from decodeG32D_inner_inverts [OF wr im assms(3) K C t(2) s nd, unfolded one]
      show ?thesis
      proof (elim disjE exE conjE)
        fix q assume "decodeG32D_inner e (set_colours e) data 1 (take (Suc t) px) (offset e (Xs @ trailer e) (Suc t)) =
          Some (Ok (take (encoded_rows e px) px, q, True))"
        then show ?thesis using nd by (simp add: step p_def [symmetric])
      next
        fix t' assume t': "Suc t < t' + 1" "t' \<le> encoded_rows e px" "\<not> rows_done e (int t')"
          "int t' = int t + K e"
          "decodeG32D_inner e (set_colours e) data 1 (take (Suc t) px) (offset e (Xs @ trailer e) (Suc t)) =
            Some (Ok (take t' px, offset e (Xs @ trailer e) t', False))"
        then have "int t' mod K e = 0" using t(2) by simp
        with t' t less.hyps [of t'] nd show ?thesis by (simp add: step p_def [symmetric])
      next
        fix t' assume t': "Suc t < t' + 1" "t' \<le> encoded_rows e px" "\<not> rows_done e (int t')"
          "t' = encoded_rows e px"
          "decodeG32D_inner e (set_colours e) data 1 (take (Suc t) px) (offset e (Xs @ trailer e) (Suc t)) =
            Some (Ok (take t' px, offset e (Xs @ trailer e) t', False))"
        with t less.hyps [of t'] nd show ?thesis by (simp add: step p_def [symmetric])
      qed
    qed
  qed
qed

section \<open>Round trip\<close>

text \<open>The image as the caller gives it: rectangular, of the configured width, pixels 0 or 1.\<close>

definition valid_image :: "Encoder \<Rightarrow> u8 list list \<Rightarrow> bool" where
  "valid_image e px \<longleftrightarrow> 0 < Columns e \<and>
    list_all (\<lambda>row. int (length row) = Columns e \<and> list_all (\<lambda>p. p = 0 \<or> p = 1) row) px"

lemma valid_image_ok: "valid_image e px \<Longrightarrow> image_ok (set_colours e) (nat (Columns e)) px"
  by (auto simp: valid_image_def image_ok_def row_ok_def set_colours_def list_all_iff)

lemma Encode_written:
  assumes "valid_image e px" "K e < 0 \<Longrightarrow> px \<noteq> []"
    "K e > 0 \<Longrightarrow> EndOfBlock e \<or> Rows e \<le> 0 \<or> int (length px) \<le> Rows e"
  obtains data Xs where "Encode e px = Some (Ok data)" "written e px Xs data"
proof -
  from Encode_stream [OF valid_image_ok [OF assms(1)] assms(2,3)] obtain Xs where
    "rows_bits e (set_colours e) px 0 (encoded_rows e px) Xs"
    "Encode e px = Some (Ok (pack (joined e [] (Xs @ trailer e))))" by blast
  then show thesis by (intro that [of _ Xs]) (auto simp: written_def bits_pack)
qed

lemma Decode_written:
  assumes wr: "written e px Xs data" and v: "valid_image e px" and E: "end_known e px"
  shows "Decode e data = Some (Ok (take (encoded_rows e px) px))"
proof -
  have im: "image_ok (set_colours e) (nat (Columns e)) px" using valid_image_ok [OF v] .
  have C: "Columns e = int (nat (Columns e))" "0 < Columns e" using v by (simp_all add: valid_image_def)
  have nd: "\<not> rows_done e (int 0)" by (simp add: rows_done_def)
  consider "K e = 0" | "K e > 0" | "K e < 0" by linarith
  then show ?thesis
  proof cases
    case 1
    with decodeG31D_loop_inverts [OF wr im E 1 C(1) le0 nd] show ?thesis
      by (simp add: Decode_def decodeG31D_def)
  next
    case 2
    with decodeG32D_outer_inverts [OF wr im E 2 C(1) _ le0 nd] show ?thesis
      by (simp add: Decode_def decodeG32D_def)
  next
    case 3
    with decodeG4_loop_inverts [OF wr im E 3 C(1) le0 nd] C(2) show ?thesis
      by (simp add: Decode_def decodeG4_def)
  qed
qed

end
