(* ===== verification/Ccitt_Limits.thy ===== *)
theory Ccitt_Limits
  imports Ccitt_Inverse
begin

text \<open>
  The behaviour on inputs that no encoder wrote: the Group 4 decoder returns on every input,
  the one-dimensional one need not; what happens outside the contract of the round trip; and the
  data on which the Group 4 and the mixed decoder panic.
\<close>

section \<open>Every code read moves on\<close>

lemma fetchNextRunLen_moves:
  assumes "fetchNextRunLen data pos isWhite = (runLen, pos')" "runLen \<noteq> -1"
  shows "pos < pos' \<and> pos' \<le> 8 * length data \<and> 0 \<le> runLen"
proof -
  from assms obtain c where c: "next_entry (run_entries isWhite) (unread data pos) = Some (runLen, c)"
    "pos' = pos + BitsWritten c"
    by (auto simp: fetchNextRunLen_eq split: option.splits)
  from next_entry_SomeD [OF c(1)] have e: "(runLen, c) \<in> set (run_entries isWhite)"
    "prefix (code_bits c) (unread data pos)" by simp_all
  have "BitsWritten c \<le> 8 * length data - pos" using prefix_length_le [OF e(2)] by simp
  with run_entries_ok [OF e(1)] run_entries_nonneg [OF e(1)] c(2) show ?thesis by (auto simp: code_ok_def)
qed

lemma fetchNext2DCode_moves:
  assumes "fetchNext2DCode data pos = (c, pos', True)"
  shows "pos < pos' \<and> pos' \<le> 8 * length data"
proof -
  from assms obtain k where c: "next_entry two_dim_entries (unread data pos) = Some (k, c)"
    "pos' = pos + BitsWritten c"
    by (auto simp: fetchNext2DCode_eq split: option.splits)
  from next_entry_SomeD [OF c(1)] have e: "(k, c) \<in> set two_dim_entries"
    "prefix (code_bits c) (unread data pos)" by simp_all
  have "BitsWritten c \<le> 8 * length data - pos" using prefix_length_le [OF e(2)] by simp
  moreover have "code_ok c" using two_dim_codes_ok e(1) by (auto simp: list_all_iff)
  ultimately show ?thesis using c(2) by (auto simp: code_ok_def)
qed

section \<open>Termination\<close>

lemma decodeRow1D_loop_returns:
  "\<exists>row' pos'. decodeRow1D_loop e cl data row isWhite runLen pos = Some (row', pos') \<and> pos \<le> pos'"
proof (induction "8 * length data - pos" arbitrary: row isWhite runLen pos rule: less_induct)
  case less
  define row1 where "row1 = drawPixels cl row isWhite runLen"
  define w where "w = (if runLen < 64 then \<not> isWhite else isWhite)"
  obtain k p where f: "fetchNextRunLen data pos w = (k, p)" by (cases "fetchNextRunLen data pos w")
  show ?case
  proof (cases "runLen = -1 \<or> runLen < 64 \<and> int (length row1) \<ge> Columns e")
    case True
    then show ?thesis by (subst decodeRow1D_loop.simps) (auto simp: row1_def Let_def)
  next
    case False
    then have step: "decodeRow1D_loop e cl data row isWhite runLen pos = decodeRow1D_loop e cl data row1 w k p"
      by (subst decodeRow1D_loop.simps) (auto simp: row1_def [symmetric] w_def [symmetric] f Let_def)
    show ?thesis
    proof (cases "k = -1")
      case True
      then have "p = pos" using f by (auto simp: fetchNextRunLen_eq split: option.splits dest!: next_entry_SomeD run_entries_nonneg)
      with True show ?thesis by (simp add: step) (subst decodeRow1D_loop.simps, simp)
    next
      case False
      from fetchNextRunLen_moves [OF f False] less.hyps [of p row1 w k] show ?thesis
        by (fastforce simp: step)
    qed
  qed
qed

lemma decodeRow1D_returns: "\<exists>row pos'. decodeRow1D e cl data pos = Some (row, pos') \<and> pos \<le> pos'"
proof -
  obtain k p where f: "fetchNextRunLen data pos True = (k, p)" by (cases "fetchNextRunLen data pos True")
  then have "pos \<le> p" by (auto simp: fetchNextRunLen_eq split: option.splits)
  with decodeRow1D_loop_returns [of e cl data "[]" True k p] show ?thesis
    by (auto simp: decodeRow1D_def f intro: order_trans)
qed

lemma decodeNextRunLen_returns:
  "\<exists>r. decodeNextRunLen cl data row pos isWhite = Some r \<and>
    (\<forall>row' pos'. r = Ok (row', pos') \<longrightarrow> pos < pos')"
proof (induction "8 * length data - pos" arbitrary: row pos rule: less_induct)
  case less
  obtain k p where f: "fetchNextRunLen data pos isWhite = (k, p)" by (cases "fetchNextRunLen data pos isWhite")
  show ?case
  proof (cases "k = -1")
    case True
    then show ?thesis by (subst decodeNextRunLen.simps) (simp add: f)
  next
    case False
    note m = fetchNextRunLen_moves [OF f False]
    show ?thesis
    proof (cases "k < 64")
      case True
      with m False show ?thesis by (subst decodeNextRunLen.simps) (simp add: f Let_def)
    next
      case big: False
      from less.hyps [of p "drawPixels cl row isWhite k"] m obtain r where
        "decodeNextRunLen cl data (drawPixels cl row isWhite k) p isWhite = Some r"
        "\<forall>row' pos'. r = Ok (row', pos') \<longrightarrow> p < pos'" by force
      with m False big show ?thesis by (subst decodeNextRunLen.simps) (auto simp: f Let_def)
    qed
  qed
qed

lemma decode2D_step_returns:
  "\<exists>r. decode2D_step cl data pixels c row pos isWhite a0 = Some r \<and>
    (\<forall>row' pos' w a. r = Ok (row', pos', w, a) \<longrightarrow> pos \<le> pos')"
proof -
  have h: "\<exists>r. decodeHorizontalMode cl data row pos isWhite = Some r \<and>
    (\<forall>row' pos' a. r = Ok (row', pos', a) \<longrightarrow> pos \<le> pos')"
  proof -
    obtain r1 where r1: "decodeNextRunLen cl data row pos isWhite = Some r1"
      "\<forall>row' pos'. r1 = Ok (row', pos') \<longrightarrow> pos < pos'" using decodeNextRunLen_returns by blast
    show ?thesis
    proof (cases r1)
      case (Ok x)
      then obtain row1 p1 where x: "r1 = Ok (row1, p1)" by (cases x) simp
      obtain r2 where r2: "decodeNextRunLen cl data row1 p1 (\<not> isWhite) = Some r2"
        "\<forall>row' pos'. r2 = Ok (row', pos') \<longrightarrow> p1 < pos'" using decodeNextRunLen_returns by blast
      from r1 r2 x show ?thesis by (cases r2) (auto simp: decodeHorizontalMode_def)
    qed (use r1 in \<open>auto simp: decodeHorizontalMode_def\<close>)
  qed
  then obtain r where r: "decodeHorizontalMode cl data row pos isWhite = Some r"
    "\<forall>row' pos' a. r = Ok (row', pos', a) \<longrightarrow> pos \<le> pos'" by blast
  show ?thesis
  proof (cases "c = h_code \<and> c \<noteq> p_code")
    case True
    with r show ?thesis by (cases r) (auto simp: decode2D_step_def)
  next
    case False
    then show ?thesis
      by (cases "decodePassMode cl pixels row isWhite a0"; cases "vertical_shift c";
          cases "decodeVerticalMode cl pixels row isWhite a0 (the (vertical_shift c))")
        (auto simp: decode2D_step_def)
  qed
qed

lemma decodeG4_row_returns:
  "\<exists>r. decodeG4_row e cl data pixels row pos isWhite a0 = Some r \<and>
    (\<forall>row' pos'. r = Ok (row', pos') \<longrightarrow> pos \<le> pos' \<and> (a0 < Columns e \<longrightarrow> pos < pos'))"
proof (induction "8 * length data - pos" arbitrary: row pos isWhite a0 rule: less_induct)
  case less
  obtain c p ok where f: "fetchNext2DCode data pos = (c, p, ok)" by (metis prod_cases3)
  show ?case
  proof (cases "a0 < Columns e \<and> ok")
    case False
    then show ?thesis by (subst decodeG4_row.simps) (auto simp: f)
  next
    case True
    with f have m: "pos < p" "p \<le> 8 * length data" using fetchNext2DCode_moves [of data pos c p] by auto
    obtain r where r: "decode2D_step cl data pixels c row p isWhite a0 = Some r"
      "\<forall>row' pos' w a. r = Ok (row', pos', w, a) \<longrightarrow> p \<le> pos'" using decode2D_step_returns by blast
    show ?thesis
    proof (cases r)
      case (Ok x)
      then obtain row1 p1 w1 a1 where x: "r = Ok (row1, p1, w1, a1)" by (cases x) simp
      then have p1: "p \<le> p1" using r(2) by blast
      show ?thesis
      proof (cases "int (length row1) \<ge> Columns e")
        case full: True
        with True m p1 r(1) x f show ?thesis by (subst decodeG4_row.simps) simp
      next
        case more: False
        from less.hyps [of p1 row1 w1 a1] m p1 obtain r' where
          "decodeG4_row e cl data pixels row1 p1 w1 a1 = Some r'"
          "\<forall>row' pos'. r' = Ok (row', pos') \<longrightarrow> p1 \<le> pos'" by (meson diff_less_mono2 le_trans less_le_trans)
        with True more m p1 r(1) x f show ?thesis
          by (subst decodeG4_row.simps) (auto intro: order_trans less_le_trans)
      qed
    qed (use True f r in \<open>subst decodeG4_row.simps, simp\<close>)+
  qed
qed

lemma align_byte_ge: "pos \<le> align_byte e pos"
  by (simp only: align_byte_def le_add1 order_refl split: if_split) simp

lemma decodeG4_loop_returns:
  assumes "0 \<le> Columns e"
  shows "decodeG4_loop e cl data pixels pos \<noteq> None"
proof (induction "8 * length data - pos" arbitrary: pixels pos rule: less_induct)
  case less
  show ?case
  proof (cases "pos div 8 < length data")
    case False
    then show ?thesis by (subst decodeG4_loop.simps) simp
  next
    case True
    then have inside: "pos < 8 * length data" by linarith
    show ?thesis
    proof (cases "tryFetchEOFB data pos")
      case (Ok x)
      then obtain g p where x: "tryFetchEOFB data pos = Ok (g, p)" by (cases x) simp
      then have p: "pos \<le> p" by (auto simp: tryFetchEOFB_def tryFetchEOL_eq split: if_splits)
      obtain r where r: "decodeG4_row e cl data pixels [] p True (-1) = Some r"
        "\<forall>row' pos'. r = Ok (row', pos') \<longrightarrow> p \<le> pos' \<and> ((-1) < Columns e \<longrightarrow> p < pos')"
        using decodeG4_row_returns by blast
      show ?thesis
      proof (cases r)
        case (Ok y)
        then obtain row p1 where y: "r = Ok (row, p1)" by (cases y) simp
        with r(2) assms have "p < p1" by simp
        with p inside align_byte_ge [of p1 e] have "8 * length data - align_byte e p1 < 8 * length data - pos"
          by linarith
        from less.hyps [OF this] True x r(1) y show ?thesis
          by (subst decodeG4_loop.simps) (simp add: Let_def)
      qed (use True x r in \<open>subst decodeG4_loop.simps, simp\<close>)+
    qed (use True in \<open>subst decodeG4_loop.simps, simp\<close>)+
  qed
qed

section \<open>Outside the contract\<close>

text \<open>
  A position from which the one-dimensional decoder cannot move: no end-of-line code and no
  white code comes next. Without \<open>EndOfLine\<close> and without a number of rows the loop then appends
  empty rows without end.
\<close>

definition stuck_at :: "Encoder \<Rightarrow> u8 list \<Rightarrow> nat \<Rightarrow> bool" where
  "stuck_at e data pos \<longleftrightarrow> pos div 8 < length data \<and> align_byte e pos = pos \<and>
    \<not> prefix (code_bits eol) (unread data pos) \<and> next_entry white_entries (unread data pos) = None"

lemma decodeG31D_loop_stuck:
  assumes "stuck_at e data pos" "\<not> EndOfLine e" "EndOfBlock e \<or> Rows e \<le> 0"
  shows "decodeG31D_loop e cl data pixels pos = None"
proof -
  have stuck: "tryFetchEOL data pos = (False, pos)" "decodeRow1D e cl data pos = Some ([], pos)"
    "align_byte e pos = pos" "pos div 8 < length data" "\<And>n. \<not> rows_done e n" "\<not> EndOfLine e"
    using assms
    by (auto simp: stuck_at_def tryFetchEOL_eq decodeRow1D_def fetchNextRunLen_eq run_entries_def
        decodeRow1D_loop.simps [of _ _ _ _ _ "-1"] rows_done_def)
  have "\<not> (e' = e \<and> cl' = cl \<and> data' = data \<and> pos' = pos)"
    if "decodeG31D_loop e' cl' data' pixels' pos' = Some y" for e' cl' data' pixels' pos' y
    using that
  proof (induction rule: decodeG31D_loop.raw_induct [rotated, consumes 1])
    case (1 f e' cl' data' pixels' pos' y)
    show ?case
    proof
      assume eq: "e' = e \<and> cl' = cl \<and> data' = data \<and> pos' = pos"
      with 1(2) stuck have "f e cl data (pixels' @ [[]]) pos = Some y" by (simp add: Let_def)
      from 1(1) [OF this] show False by simp
    qed
  qed
  then show ?thesis by (cases "decodeG31D_loop e cl data pixels pos") blast+
qed

text \<open>
  A row longer than the row above it: from the end of the shorter row on, the encoder writes
  pass codes without moving.
\<close>

lemma encodeRow2D_stuck:
  assumes "int (length ref) \<le> a0" "0 \<le> a0" "a0 < int (length row)" "holds_bits encoded pos bs"
  shows "encodeRow2D cl row ref encoded pos a0 = None"
proof -
  have a1: "a0 < next_change cl row a0" using next_change_bounds [of a0 row cl] assms by simp
  have ref: "seekChangingElem cl ref a0 = Ok a0" using assms(1) by (simp add: seekChangingElem_def)
  have step: "encodeRow2D_step cl row ref encoded' pos' a0 = Ok (pack (bs' @ code_bits p_code), pos' + BitsWritten p_code, a0)"
    if "holds_bits encoded' pos' bs'" for encoded' pos' bs'
    using a1 ref assms addCode_spec [OF that mode_codes_ok(1)]
    by (simp add: encodeRow2D_step_def seekChangingElem_eq [of a0 cl row] seekB1_def encodePassMode_def)
  have "\<not> (cl' = cl \<and> row' = row \<and> ref' = ref \<and> a' = a0 \<and> (\<exists>bs'. holds_bits encoded' pos' bs'))"
    if "encodeRow2D cl' row' ref' encoded' pos' a' = Some y" for cl' row' ref' encoded' pos' a' y
    using that
  proof (induction rule: encodeRow2D.raw_induct [rotated, consumes 1])
    case (1 f cl' row' ref' encoded' pos' a' y)
    show ?case
    proof
      assume eq: "cl' = cl \<and> row' = row \<and> ref' = ref \<and> a' = a0 \<and> (\<exists>bs'. holds_bits encoded' pos' bs')"
      then obtain bs' where b: "holds_bits encoded' pos' bs'" by blast
      have h: "holds_bits (pack (bs' @ code_bits p_code)) (pos' + BitsWritten p_code) (bs' @ code_bits p_code)"
        using b by (simp add: holds_bits_def)
      from 1(2) eq step [OF b] assms(3)
      have "f cl row ref (pack (bs' @ code_bits p_code)) (pos' + BitsWritten p_code) a0 = Some y" by simp
      from 1(1) [OF this] h show False by blast
    qed
  qed
  with assms(4) show ?thesis by (cases "encodeRow2D cl row ref encoded pos a0") blast+
qed

section \<open>Panics\<close>

text \<open>The changing element that a vertical code at the start of a row refers to: the first pixel that is not white.\<close>

lemma seekB12D_start: "seekB12D cl [] ref (-1) True = Ok (int (length (takeWhile (\<lambda>x. x = white cl) ref)))"
proof -
  let ?n = "length (takeWhile (\<lambda>x. x = white cl) ref)"
  have n: "next_change cl ref (-1) = int ?n" by (simp add: next_change_def color_at_def run_from_def)
  then have "ref ! ?n \<noteq> pixel cl True" if "?n < length ref" using that nth_length_takeWhile [of "\<lambda>x. x = white cl" ref]
    by (simp add: pixel_def)
  with n show ?thesis by (auto simp: seekB12D_eq b1_of_def Let_def)
qed

text \<open>The codes that look at the row above: the pass code and the vertical codes.\<close>

definition seeking_code :: "code \<Rightarrow> bool" where
  "seeking_code c \<longleftrightarrow> c = p_code \<or> vertical_shift c \<noteq> None"

lemma seeking_members: "seeking_code c \<Longrightarrow> (0, c) \<in> set two_dim_entries \<and> c \<noteq> h_code"
  by (auto simp: seeking_code_def vertical_shift_def two_dim_entries_def mode_code_defs split: if_splits)

lemma decode2D_step_negative:
  assumes "seeking_code c" "pixels \<noteq> []" "a0 < -1"
  shows "decode2D_step cl data pixels c row pos isWhite a0 = Some Panic"
  using assms seekChangingElem_panics [OF assms(3)] seeking_members [OF assms(1)]
  by (auto simp: seeking_code_def decode2D_step_def decodePassMode_def decodeVerticalMode_def index_at_last seekB12D_def)

lemma decodeG4_row_panics:
  assumes "pixels \<noteq> []" "0 < Columns e" "vertical_shift vl = Some s" "seeking_code c"
    and "int (length (takeWhile (\<lambda>x. x = white cl) (last pixels))) + s < -1"
    and "unread data pos = code_bits vl @ code_bits c @ Z"
  shows "decodeG4_row e cl data pixels [] pos True (-1) = Some Panic"
proof -
  have vl: "seeking_code vl" "vl \<noteq> p_code" using assms(3)
    by (auto simp: seeking_code_def vertical_shift_def mode_code_defs split: if_splits)
  note f = fetchNext2DCode_hit [OF seeking_members [OF vl(1), THEN conjunct1] assms(6)]
  have u: "unread data (pos + BitsWritten vl) = code_bits c @ Z" by (rule unread_append [OF assms(6)]) simp
  note f2 = fetchNext2DCode_hit [OF seeking_members [OF assms(4), THEN conjunct1] u]
  let ?a = "int (length (takeWhile (\<lambda>x. x = white cl) (last pixels))) + s"
  have step: "decode2D_step cl data pixels vl [] (pos + BitsWritten vl) True (-1) = Some (Ok ([], pos + BitsWritten vl, False, ?a))"
    using assms(1,3,5) vl seeking_members [OF vl(1)]
    by (simp add: decode2D_step_def decodeVerticalMode_def index_at_last seekB12D_start drawPixels_def)
  have "decodeG4_row e cl data pixels [] pos True (-1) = decodeG4_row e cl data pixels [] (pos + BitsWritten vl) False ?a"
    using assms(2) by (subst decodeG4_row.simps) (simp add: f step)
  also have "\<dots> = Some Panic"
    using assms(2,5) decode2D_step_negative [OF assms(4,1,5)] by (subst decodeG4_row.simps) (simp add: f2)
  finally show ?thesis .
qed

lemma decodeG4_panics:
  assumes "image_ok (set_colours e) w px" "K e < 0" "Columns e = int w" "\<not> rows_done e (int (length px))"
    and "rows_bits e (set_colours e) px 0 (length px) Xs" "vertical_shift vl = Some s" "seeking_code c"
    and "int (length (takeWhile (\<lambda>x. x = white (set_colours e)) (last (replicate w (white (set_colours e)) # px)))) + s < -1"
    and data: "data = pack (joined e [] Xs @ code_bits vl @ code_bits c @ rest)"
  shows "decodeG4 e (set_colours e) data = Some Panic"
proof -
  define cl W T p where "cl = set_colours e" and "W = replicate w (white cl)" and "T = code_bits vl @ code_bits c @ rest"
    and "p = offset e (Xs @ [T]) (length px)"
  have w: "0 < w" using assms(1) by (simp add: image_ok_def)
  have len: "length Xs = length px" using assms(5) by (simp add: rows_bits_def)
  have b: "bits data = pad8 (joined e [] (Xs @ [T]))"
    using bits_pack [of "fill e (joined e [] Xs @ T)"] by (simp add: data T_def joined_snoc)
  have vl: "seeking_code vl" using assms(6) by (simp add: seeking_code_def)
  have "code_ok vl" using seeking_members [OF vl] two_dim_codes_ok by (auto simp: list_all_iff)
  then have T: "(Xs @ [T]) ! length px = T" "T \<noteq> []" using len code_bits_nonempty by (auto simp: T_def nth_append)
  from unread_row [OF b, of "length px"] len T obtain Z where
    Z: "unread data p = code_bits vl @ code_bits c @ rest @ Z" by (auto simp: T_def p_def)
  have inside: "p div 8 < length data" using offset_inside [OF b, of "length px"] len T by (simp add: p_def)
  have "\<not> prefix (code_bits eol) (unread data p)"
    unfolding Z by (rule incomparableD [OF eol_incomparable(3) seeking_members [OF vl, THEN conjunct1], simplified])
  then have eofb: "tryFetchEOFB data p = Ok (False, p)" by (simp add: tryFetchEOFB_def tryFetchEOL_eq)
  have row: "decodeG4_row e cl data (W # px) [] p True (-1) = Some Panic"
    using decodeG4_row_panics [OF _ _ assms(6,7) _ Z, of "W # px" e cl] assms(3,8) w by (simp add: cl_def W_def)
  have "decodeG4_loop e cl data [W] 0 = decodeG4_loop e cl data (W # px) p"
    using decodeG4_loop_rows [OF b assms(5,1-4) order_refl] by (simp add: cl_def W_def p_def)
  also have "\<dots> = Some Panic" using inside eofb row by (subst decodeG4_loop.simps) simp
  finally show ?thesis using assms(3) by (simp add: decodeG4_def cl_def W_def)
qed

text \<open>The mixed decoder looks at the row above when there is none.\<close>

lemma eol_2d_incomparable: "incomparable two_dim_entries eol0" "incomparable two_dim_entries eol1"
  by code_simp+

lemma decodeG32D_row_no_row_above:
  assumes "seeking_code c" "unread data pos = code_bits c @ Z"
  shows "decodeG32D_row e cl data [] [] pos True (-1) = Some Panic"
proof -
  note f = fetchNext2DCode_hit [OF seeking_members [OF assms(1), THEN conjunct1] assms(2)]
  have "decode2D_step cl data [] c [] (pos + BitsWritten c) True (-1) = Some Panic"
    using assms(1) seeking_members [OF assms(1)]
    by (auto simp: seeking_code_def decode2D_step_def decodePassMode_def decodeVerticalMode_def index_at_def)
  then show ?thesis by (subst decodeG32D_row.simps) (simp add: f)
qed

lemma decodeG32D_panics:
  assumes "1 < K e" "\<not> EndOfLine e" "next_entry white_entries (bits data) = None"
    and c: "seeking_code c" "bits data = code_bits c @ Z"
  shows "decodeG32D e cl data = Some Panic"
proof -
  have u: "unread data 0 = code_bits c @ Z" using c(2) by simp
  note m = seeking_members [OF c(1), THEN conjunct1]
  have no: "\<not> prefix (code_bits eol0) (unread data 0)" "\<not> prefix (code_bits eol1) (unread data 0)"
    unfolding u using eol_2d_incomparable [THEN incomparableD, OF m] by simp_all
  have start: "tryFetchEOL0 data 0 = (False, 0)" "tryFetchEOL1 data 0 = (False, 0)" "tryFetchRTC2D data 0 = Ok (False, 0)"
    using no by (simp_all add: tryFetchEOL0_def tryFetchEOL1_def tryFetchExtendedEOL_eq tryFetchRTC2D_def
        tryFetchRTC2D_loop.simps [of _ _ 0])
  have "code_ok c" using m two_dim_codes_ok by (auto simp: list_all_iff)
  then have "data \<noteq> []" using c(2) code_bits_nonempty by auto
  moreover have "decodeRow1D e cl data 0 = Some ([], 0)"
    using assms(3) by (simp add: decodeRow1D_def fetchNextRunLen_eq run_entries_def decodeRow1D_loop.simps [of _ _ _ _ _ "-1"])
  moreover have "align_byte e 0 = 0" "\<not> rows_done e 0" by (simp_all add: align_byte_def rows_done_def)
  moreover have "decodeG32D_inner e cl data 1 [] 0 = Some Panic"
    using assms(1,2) start decodeG32D_row_no_row_above [OF c(1) u] \<open>data \<noteq> []\<close>
    by (subst decodeG32D_inner.simps) simp
  ultimately show ?thesis
    using assms(2) start unfolding decodeG32D_def by (subst decodeG32D_outer.simps) simp
qed

end
