(* ===== verification/Ccitt_Properties.thy ===== *)
theory Ccitt_Properties
  imports Ccitt_Limits
begin

text \<open>
  The properties of the CCITT fax coder, over the definitions of \<open>Ccitt_Tree\<close>,
  \<open>Ccitt_Encoder\<close> and \<open>Ccitt_Decoder\<close>, each with an application to a small image.
\<close>

section \<open>Sample configurations\<close>

definition fax :: "int \<Rightarrow> int \<Rightarrow> int \<Rightarrow> bool \<Rightarrow> bool \<Rightarrow> Encoder" where
  "fax k columns rows endOfBlock align =
    \<lparr>K = k, EndOfLine = False, EncodedByteAlign = align, Columns = columns, Rows = rows,
      EndOfBlock = endOfBlock, BlackIs1 = False, DamagedRowsBeforeError = 0\<rparr>"

section \<open>Round trips\<close>

text \<open>C3: Decoding what the encoder wrote gives the image back, in all three schemes (K = 0, K > 0, K < 0) and for every combination of EndOfLine, EncodedByteAlign and BlackIs1, for rectangular images of the configured width. With a number of rows and no end-of-block code these are the first Rows rows. The conditions say where the decoder can know that the image ends, that a Group 4 image has a first row, and that a mixed image is not cut short by Rows.\<close>

theorem ccitt_roundtrip:
  assumes "valid_image e px" "end_known e px" "K e < 0 \<Longrightarrow> px \<noteq> []"
    "K e > 0 \<Longrightarrow> EndOfBlock e \<or> Rows e \<le> 0 \<or> int (length px) \<le> Rows e"
  shows "run_bind (Encode e px) (Decode e) = Some (Ok (take (encoded_rows e px) px))"
proof -
  from Encode_written [OF assms(1,3,4)] obtain data Xs where
    "Encode e px = Some (Ok data)" "written e px Xs data" by blast
  with Decode_written [OF _ assms(1,2)] show ?thesis by simp
qed

lemma ccitt_roundtrip_witness:
  "run_bind (Encode (fax (-1) 3 0 True False) [[1, 0, 1], [0, 0, 1]]) (Decode (fax (-1) 3 0 True False))
    = Some (Ok [[1, 0, 1], [0, 0, 1]]) \<and>
   run_bind (Encode (fax 2 2 2 False True) [[0, 0], [1, 0]]) (Decode (fax 2 2 2 False True))
    = Some (Ok [[0, 0], [1, 0]])"
  using ccitt_roundtrip [of "fax (-1) 3 0 True False" "[[1, 0, 1], [0, 0, 1]]"]
    ccitt_roundtrip [of "fax 2 2 2 False True" "[[0, 0], [1, 0]]"]
  by (simp add: fax_def valid_image_def end_known_def encoded_rows_def)

text \<open>C7: The encoder returns without error and its output is the packed sequence of the bit strings of its rows (each filled to a byte when EncodedByteAlign is set), followed by the end-of-block code of the scheme: for K = 0 every row is an EOL and its alternating run codes, for K > 0 every K-th row is, after EOL1, and the others are, after EOL0, coded against the row above, for K < 0 every row is coded against the row above, the first one against a white row.\<close>

theorem ccitt_encode_layout:
  assumes "valid_image e px" "K e < 0 \<Longrightarrow> px \<noteq> []"
    "K e > 0 \<Longrightarrow> EndOfBlock e \<or> Rows e \<le> 0 \<or> int (length px) \<le> Rows e"
  shows "\<exists>Xs. rows_bits e (set_colours e) px 0 (encoded_rows e px) Xs \<and>
    Encode e px = Some (Ok (pack (joined e [] (Xs @ trailer e))))"
  using Encode_stream [OF valid_image_ok [OF assms(1)] assms(2,3)] .

lemma ccitt_encode_layout_witness:
  "\<exists>Xs. rows_bits (fax 0 2 0 True False) (set_colours (fax 0 2 0 True False)) [[0, 1]] 0 1 Xs \<and>
    Encode (fax 0 2 0 True False) [[0, 1]] =
      Some (Ok (pack (joined (fax 0 2 0 True False) [] (Xs @ trailer (fax 0 2 0 True False)))))"
  using ccitt_encode_layout [of "fax 0 2 0 True False" "[[0, 1]]"]
  by (simp add: fax_def valid_image_def encoded_rows_def)

text \<open>C8: A run of any length is written without error and read back by the decoder of the horizontal mode: the pixels drawn are exactly the run, and the position returned is the one after the run's codes, also for runs of several make-up codes.\<close>

theorem run_length_roundtrip:
  assumes "0 \<le> runLen"
  shows "\<exists>data len. encodeRunLen [] 0 runLen isWhite = Ok (data, len) \<and>
    decodeNextRunLen cl data row 0 isWhite =
      Some (Ok (row @ replicate (nat runLen) (if isWhite then white cl else black cl), len))"
proof -
  have h: "holds_bits [] 0 []" by (simp add: holds_bits_def)
  have "\<exists>X. unread (pack (run_bits isWhite runLen)) 0 = run_bits isWhite runLen @ X"
    by (simp add: bits_pack pad8_def)
  with decodeNextRunLen_spec [OF assms] encodeRunLen_spec [OF h assms, of isWhite] show ?thesis
    by (auto simp: pixel_def)
qed

lemma run_length_roundtrip_witness:
  "\<exists>data len. encodeRunLen [] 0 5200 True = Ok (data, len) \<and>
    decodeNextRunLen \<lparr>white = 1, black = 0\<rparr> data [] 0 True = Some (Ok (replicate 5200 1, len))"
  using run_length_roundtrip [of 5200 True "\<lparr>white = 1, black = 0\<rparr>" "[]"] by simp

text \<open>C9: A row coded against a row of the same width is decoded to itself by the Group 4 row decoder whose last decoded row is that row; the encoder returns for every pair of such rows.\<close>

theorem row_2d_roundtrip:
  assumes "white cl \<noteq> black cl" "set row \<subseteq> {white cl, black cl}" "length ref = length row"
    "Columns e = int (length row)"
  shows "\<exists>data len. encodeRow2D cl row ref [] 0 (-1) = Some (Ok (data, len)) \<and>
    decodeG4_row e cl data (pixels @ [ref]) [] 0 True (-1) = Some (Ok (row, len))"
proof -
  have ok: "row_ok cl row" using assms(1,2) by (simp add: row_ok_def)
  have h: "holds_bits [] 0 []" by (simp add: holds_bits_def)
  from encodeRow2D_row_code [OF ok assms(3) h] obtain X where X: "row_code cl row ref (-1) True X"
    "encodeRow2D cl row ref [] 0 (-1) = Some (Ok (pack X, length X))" by auto
  have "unread (pack X) 0 = X @ replicate ((8 - length X mod 8) mod 8) False" by (simp add: bits_pack pad8_def)
  from decodeG4_row_inverts [OF X(1) _ ok assms(3) this, of "pixels @ [ref]" e] X(2) assms(4) show ?thesis
    by simp
qed

lemma row_2d_roundtrip_witness:
  "\<exists>data len. encodeRow2D \<lparr>white = 1, black = 0\<rparr> [1, 0, 0, 1] [0, 0, 1, 1] [] 0 (-1) = Some (Ok (data, len)) \<and>
    decodeG4_row (fax (-1) 4 0 True False) \<lparr>white = 1, black = 0\<rparr> data [[0, 0, 1, 1]] [] 0 True (-1) =
      Some (Ok ([1, 0, 0, 1], len))"
  using row_2d_roundtrip [of "\<lparr>white = 1, black = 0\<rparr>" "[1, 0, 0, 1]" "[0, 0, 1, 1]" "fax (-1) 4 0 True False" "[]"]
  by (simp add: fax_def)

section \<open>Codes\<close>

text \<open>Appending a code writes exactly its bits: when the slice holds a bit string up to a position, then after addCode it holds the bit string followed by the bits of the code, the rest of the last byte being zero, and the position has moved by the length of the code; no index is out of range.\<close>

theorem addCode_appends:
  assumes "holds_bits encoded pos bs" "code_ok c"
  shows "addCode encoded pos c = Ok (pack (bs @ code_bits c), pos + BitsWritten c)"
  using addCode_spec [OF assms] .

lemma addCode_appends_witness:
  "addCode (pack [True, False, True]) 3 h_code = Ok (pack ([True, False, True] @ code_bits h_code), 6)"
  using addCode_appends [of "pack [True, False, True]" 3 "[True, False, True]" h_code]
  by (simp add: holds_bits_def code_ok_def h_code_def)

text \<open>C10: The one-dimensional decoder reads a code exactly when a code of the colour's book comes next in the data, at any bit position and with any number of bits left: the run length of that entry and the position after it; otherwise -1 and the position unchanged.\<close>

theorem fetchNextRunLen_exact:
  "fetchNextRunLen data pos isWhite =
    (case next_entry (if isWhite then white_entries else black_entries) (drop pos (bits data)) of
       None \<Rightarrow> (-1, pos)
     | Some (k, c) \<Rightarrow> (k, pos + BitsWritten c))"
  using fetchNextRunLen_eq [unfolded run_entries_def] .

text \<open>The decoding trees do not depend on the order of the insertions: init ranges over Go maps, whose order is random, and for every order of the entries of a book the insertion returns a tree in which every lookup gives the same run length and code.\<close>

theorem tree_order_irrelevant:
  assumes "mset es = mset (if isWhite then white_entries else black_entries)"
  shows "\<exists>t. addNodes new_root es = Some t \<and>
    (\<forall>w pos. pos \<le> 16 \<longrightarrow>
      findRunLen t w pos = findRunLen (if isWhite then whiteTree else blackTree) w pos)"
  using white_book.search_any_order [OF _ addNodes_whiteTree] black_book.search_any_order [OF _ addNodes_blackTree]
    assms by (cases isWhite) (simp_all only: if_True if_False)

lemma tree_order_irrelevant_witness:
  "\<exists>t. addNodes new_root (rev white_entries) = Some t \<and>
    (\<forall>w pos. pos \<le> 16 \<longrightarrow> findRunLen t w pos = findRunLen whiteTree w pos)"
  using tree_order_irrelevant [of "rev white_entries" True] by simp

text \<open>An end-of-line code is found exactly when its twelve bits come next, at any bit position; then the position moves by twelve, and otherwise it does not move. The same holds for the thirteen bits of EOL0 and EOL1 of the mixed scheme.\<close>

theorem tryFetchEOL_exact:
  "tryFetchEOL data pos =
    (if prefix (code_bits eol) (drop pos (bits data)) then (True, pos + 12) else (False, pos)) \<and>
   tryFetchEOL0 data pos =
    (if prefix (code_bits eol0) (drop pos (bits data)) then (True, pos + 13) else (False, pos)) \<and>
   tryFetchEOL1 data pos =
    (if prefix (code_bits eol1) (drop pos (bits data)) then (True, pos + 13) else (False, pos))"
  by (simp add: tryFetchEOL_eq tryFetchEOL0_def tryFetchEOL1_def tryFetchExtendedEOL_eq)

section \<open>Termination\<close>

text \<open>C11: The Group 4 decoder returns on every input, whatever bytes it is given: with rows, an error or a panic, but never in an endless loop.\<close>

theorem decodeG4_returns: "\<exists>r. decodeG4 e cl encoded = Some r"
proof (cases "Columns e < 0")
  case False
  then have "decodeG4_loop e cl encoded [replicate (nat (Columns e)) (white cl)] 0 \<noteq> None"
    by (intro decodeG4_loop_returns) simp
  then obtain r where r: "decodeG4_loop e cl encoded [replicate (nat (Columns e)) (white cl)] 0 = Some r" by auto
  with False show ?thesis by (cases r) (simp_all add: decodeG4_def)
qed (simp add: decodeG4_def)

text \<open>C12: The one-dimensional row decoder returns on every input and never moves backwards.\<close>

theorem decodeRow1D_terminates:
  "\<exists>row bitPos'. decodeRow1D e cl encoded bitPos = Some (row, bitPos') \<and> bitPos \<le> bitPos'"
  using decodeRow1D_returns .

section \<open>Behaviour outside the contract\<close>

text \<open>The one-dimensional image decoder does not return on data that starts with neither an end-of-line code nor a white run code, unless EndOfLine is set or a number of rows ends it: it appends empty rows at an unchanged position without end. A single zero byte is such an input.\<close>

theorem decodeG31D_diverges:
  assumes "encoded \<noteq> []" "\<not> prefix (code_bits eol) (bits encoded)"
    "next_entry white_entries (bits encoded) = None" "\<not> EndOfLine e" "EndOfBlock e \<or> Rows e \<le> 0"
  shows "decodeG31D e cl encoded = None"
  unfolding decodeG31D_def
  by (rule decodeG31D_loop_stuck) (use assms in \<open>simp_all add: stuck_at_def align_byte_def\<close>)

lemma decodeG31D_diverges_witness: "Decode (fax 0 8 0 True False) [0] = None"
proof -
  have "next_entry white_entries (bits [0]) = None" "\<not> prefix (code_bits eol) (bits [0])"
    by code_simp+
  from decodeG31D_diverges [OF _ this(2,1)] show ?thesis by (simp add: Decode_def fax_def)
qed

text \<open>The Group 4 encoder does not return on a row longer than the row above it: past the end of the shorter row it writes pass codes without moving. The image with an empty row above a row of one pixel is such an input.\<close>

theorem encodeRow2D_diverges:
  assumes "length ref < length row"
  shows "encodeRow2D cl row ref (pack bs) (length bs) (int (length ref)) = None"
  using assms by (intro encodeRow2D_stuck [OF _ _ _ holds_bits_pack]) simp_all

lemma encodeRow2D_diverges_witness: "Encode (fax (-1) 1 0 True False) [[], [1]] = None"
proof -
  define cl where "cl = \<lparr>white = (1 :: u8), black = 0\<rparr>"
  define bs where "bs = [False, False, False, False, True]"
  have "encodeRow2D_step cl [1] [] [] 1 (-1) = Ok (pack bs, length bs, int (length ([] :: u8 list)))"
    unfolding cl_def bs_def by code_simp
  moreover have "encodeRow2D cl [1] [] (pack bs) (length bs) (int (length ([] :: u8 list))) = None"
    using encodeRow2D_diverges [of "[]" "[1]"] by simp
  ultimately have "encodeRow2D cl [1] [] [] 1 (-1) = None"
    by (subst encodeRow2D.simps) (simp only: res.case prod.case list.size, simp)
  moreover have "encodeRow2D cl [] [] [] 0 (-1) = Some (Ok ([128], 1))"
    unfolding cl_def by code_simp
  moreover have "set_colours (fax (-1) 1 0 True False) = cl" by (simp add: set_colours_def fax_def cl_def)
  ultimately show ?thesis
    by (simp add: Encode_def encodeG4_def appendWhiteReferenceLine_def index_at_def appendEncodedRow_def Let_def fax_def)
qed

text \<open>C13: Invalid data makes the Group 4 decoder panic instead of returning an error: behind the codes of any image of the configured width (which may have no rows), let a row begin with a vertical code that leads more than one pixel left of the start of the row, because the row above has no white pixels, or one, before its first black one, and let a pass code or a vertical code come next. Whatever follows, the decoder then seeks a changing element from a negative index. The number of rows must not end the image before, and the row above the first one is white.\<close>

theorem decode_panics:
  assumes "valid_image e px" "K e < 0" "\<not> rows_done e (int (length px))"
    and "rows_bits e (set_colours e) px 0 (length px) Xs"
    and "vertical_shift vl = Some s" "seeking_code c"
    and "int (length (takeWhile (\<lambda>x. x = white (set_colours e))
      (last (replicate (nat (Columns e)) (white (set_colours e)) # px)))) + s < -1"
  shows "Decode e (pack (joined e [] Xs @ code_bits vl @ code_bits c @ rest)) = Some Panic"
proof -
  have C: "Columns e = int (nat (Columns e))" using assms(1) by (simp add: valid_image_def)
  from decodeG4_panics [OF valid_image_ok [OF assms(1)] assms(2) C assms(3-7) refl] assms(2) show ?thesis
    by (simp add: Decode_def)
qed

lemma decode_panics_witness:
  "Decode (fax (-1) 1 0 True False) [0x05] = Some Panic \<and>
    (\<exists>Xs. rows_bits (fax (-1) 3 0 True False) \<lparr>white = 1, black = 0\<rparr> [[1, 1, 1], [0, 1, 0]] 0 2 Xs \<and>
      Decode (fax (-1) 3 0 True False)
        (pack (joined (fax (-1) 3 0 True False) [] Xs @ code_bits v2l @ code_bits p_code @ [True])) = Some Panic)"
proof
  have "pack (joined (fax (-1) 1 0 True False) [] [] @ code_bits v3l @ code_bits v0 @ []) = [0x05]" by code_simp
  with decode_panics [of "fax (-1) 1 0 True False" "[]" "[]" v3l "-3" v0 "[]"]
  show "Decode (fax (-1) 1 0 True False) [0x05] = Some Panic"
    by (simp add: fax_def valid_image_def rows_done_def rows_bits_Nil vertical_shift_def seeking_code_def
        set_colours_def mode_code_defs)
  let ?e = "fax (-1) 3 0 True False" and ?px = "[[1, 1, 1], [0, 1, 0 :: u8]]"
  have valid: "valid_image ?e ?px" by (simp add: valid_image_def fax_def)
  have cl: "set_colours ?e = \<lparr>white = 1, black = 0\<rparr>" by (simp add: set_colours_def fax_def)
  from Encode_stream [OF valid_image_ok [OF valid]] obtain Xs where Xs: "rows_bits ?e (set_colours ?e) ?px 0 (length ?px) Xs"
    by (auto simp: fax_def encoded_rows_def)
  have "Decode ?e (pack (joined ?e [] Xs @ code_bits v2l @ code_bits p_code @ [True])) = Some Panic"
  proof (rule decode_panics [OF valid _ _ Xs, of v2l "-2" p_code])
    show "int (length (takeWhile (\<lambda>x. x = white (set_colours ?e))
        (last (replicate (nat (Columns ?e)) (white (set_colours ?e)) # ?px)))) + -2 < -1" by (simp add: cl)
  qed (simp_all add: fax_def rows_done_def vertical_shift_def seeking_code_def mode_code_defs)
  with Xs show "\<exists>Xs. rows_bits ?e \<lparr>white = 1, black = 0\<rparr> ?px 0 2 Xs \<and>
      Decode ?e (pack (joined ?e [] Xs @ code_bits v2l @ code_bits p_code @ [True])) = Some Panic"
    by (auto simp: cl numeral_2_eq_2)
qed

text \<open>The mixed decoder panics on data that begins with no white run code but with a pass code or a vertical code: the first row is then empty and not kept, and the next row is decoded against a row above that does not exist.\<close>

theorem decode_mixed_panics:
  assumes "1 < K e" "\<not> EndOfLine e" "next_entry white_entries (bits data) = None"
    and "seeking_code c" "bits data = code_bits c @ Z"
  shows "Decode e data = Some Panic"
  using decodeG32D_panics [OF assms] assms(1) by (simp add: Decode_def)

lemma decode_mixed_panics_witness: "Decode (fax 2 1 0 True False) [0x4C] = Some Panic"
proof (rule decode_mixed_panics)
  show "next_entry white_entries (bits [0x4C]) = None" by code_simp
  show "bits [0x4C] = code_bits v1l @ [False, True, True, False, False]" by code_simp
qed (simp_all add: fax_def seeking_code_def vertical_shift_def mode_code_defs)

text \<open>With a number of rows that is not a multiple of K and no end-of-block code, the mixed encoder does not stop after Rows rows: the break only leaves the inner loop, and the following groups are written. For K = 2 and Rows = 1 the image of four rows is encoded to more than its first row.\<close>

theorem encodeG32D_exceeds_rows:
  "Encode (fax 2 1 1 False False) [[1], [0], [0], [1]] \<noteq> Encode (fax 2 1 1 False False) [[1]]"
  by code_simp

end
