(* ===== verification/Go_Numbers.thy ===== *)
theory Go_Numbers
  imports Go_Prelude "HOL-Library.Signed_Division"
begin

text \<open>
  Characters and numbers as text: the character classes of \<open>pdf/core/symbols.go\<close>, decimal
  integers as \<open>strconv\<close> prints and parses them, and the operations on float64, which are the
  fields of a record \<open>fops\<close>, a parameter of every definition that uses them.
\<close>

section \<open>Floating point\<close>

text \<open>
  \<open>literal\<close> is the constant of the code with that whole value, \<open>format5\<close> and \<open>format6\<close> the
  verbs \<open>%.5f\<close> and \<open>%f\<close>, \<open>FormatFloat\<close> is \<open>strconv.FormatFloat\<close> in the shortest \<open>f\<close> format,
  \<open>ParseFloat\<close> has no value where the function of \<open>strconv\<close> returns an error.
\<close>

record 'f fops =
  of_int64 :: "u64 \<Rightarrow> 'f"
  to_int64 :: "'f \<Rightarrow> u64"
  literal :: "nat \<Rightarrow> 'f"
  tolerance :: 'f
  half :: 'f
  Pi :: 'f
  fadd :: "'f \<Rightarrow> 'f \<Rightarrow> 'f"
  fsub :: "'f \<Rightarrow> 'f \<Rightarrow> 'f"
  fmul :: "'f \<Rightarrow> 'f \<Rightarrow> 'f"
  fdiv :: "'f \<Rightarrow> 'f \<Rightarrow> 'f"
  fneg :: "'f \<Rightarrow> 'f"
  flt :: "'f \<Rightarrow> 'f \<Rightarrow> bool"
  feq :: "'f \<Rightarrow> 'f \<Rightarrow> bool"
  Abs :: "'f \<Rightarrow> 'f"
  Ceil :: "'f \<Rightarrow> 'f"
  Floor :: "'f \<Rightarrow> 'f"
  Pow :: "'f \<Rightarrow> 'f \<Rightarrow> 'f"
  Sqrt :: "'f \<Rightarrow> 'f"
  Log10 :: "'f \<Rightarrow> 'f"
  Ln :: "'f \<Rightarrow> 'f"
  Sin :: "'f \<Rightarrow> 'f"
  Cos :: "'f \<Rightarrow> 'f"
  Atan :: "'f \<Rightarrow> 'f"
  format5 :: "'f \<Rightarrow> string"
  format6 :: "'f \<Rightarrow> string"
  FormatFloat :: "'f \<Rightarrow> string"
  ParseFloat :: "string \<Rightarrow> 'f option"

section \<open>Character classes\<close>

definition IsWhiteSpace :: "char \<Rightarrow> bool" where
  "IsWhiteSpace ch \<longleftrightarrow> of_char ch \<in> {0x00, 0x09, 0x0A, 0x0C, 0x0D, 0x20 :: nat}"

definition IsFloatDigit :: "char \<Rightarrow> bool" where
  "IsFloatDigit c \<longleftrightarrow> 48 \<le> (of_char c :: nat) \<and> (of_char c :: nat) \<le> 57 \<or> c = CHR ''.''"

definition IsDecimalDigit :: "char \<Rightarrow> bool" where
  "IsDecimalDigit c \<longleftrightarrow> 48 \<le> (of_char c :: nat) \<and> (of_char c :: nat) \<le> 57"

definition IsOctalDigit :: "char \<Rightarrow> bool" where
  "IsOctalDigit c \<longleftrightarrow> 48 \<le> (of_char c :: nat) \<and> (of_char c :: nat) \<le> 55"

definition IsPrintable :: "char \<Rightarrow> bool" where
  "IsPrintable c \<longleftrightarrow> \<not> ((of_char c :: nat) < 0x21 \<or> (of_char c :: nat) > 0x7E)"

definition IsDelimiter :: "char \<Rightarrow> bool" where
  "IsDelimiter c \<longleftrightarrow> c = CHR ''('' \<or> c = CHR '')'' \<or> c = CHR ''<'' \<or> c = CHR ''>'' \<or>
     c = CHR ''['' \<or> c = CHR '']'' \<or> c = CHR ''{'' \<or> c = CHR ''}'' \<or> c = CHR ''/'' \<or> c = CHR ''%''"

section \<open>Printing and parsing integers\<close>

text \<open>Decimal digits, as \<open>%d\<close> prints them.\<close>

definition digit :: "nat \<Rightarrow> char" where
  "digit d = char_of (48 + d)"

fun show_nat :: "nat \<Rightarrow> string" where
  "show_nat n = (if n < 10 then [digit n] else show_nat (n div 10) @ [digit (n mod 10)])"

declare show_nat.simps [simp del]

definition show_int64 :: "u64 \<Rightarrow> string" where
  "show_int64 v = (if sint v < 0 then ''-'' @ show_nat (nat (- sint v)) else show_nat (nat (sint v)))"

definition show_bool :: "bool \<Rightarrow> string" where
  "show_bool b = (if b then ''true'' else ''false'')"

text \<open>\<open>strconv.ParseInt\<close> in base 10 at 64 bits: an optional sign, one digit at least, no overflow.\<close>

definition digits_value :: "string \<Rightarrow> nat" where
  "digits_value ds = fold (\<lambda>c n. 10 * n + (of_char c - 48)) ds 0"

definition ParseInt :: "string \<Rightarrow> u64 option" where
  "ParseInt str =
    (let signed = str \<noteq> [] \<and> (hd str = CHR ''-'' \<or> hd str = CHR ''+'');
         neg = str \<noteq> [] \<and> hd str = CHR ''-'';
         ds = (if signed then tl str else str);
         n = digits_value ds
     in if ds = [] \<or> \<not> list_all IsDecimalDigit ds then None
        else if neg then (if n \<le> 2 ^ 63 then Some (- of_nat n) else None)
        else (if n < 2 ^ 63 then Some (of_nat n) else None))"

section \<open>Parsing what was printed\<close>

lemma of_char_digit [simp]: "d < 10 \<Longrightarrow> (of_char (digit d) :: nat) = 48 + d"
  by (simp add: digit_def)

lemma IsDecimalDigit_digit [simp]: "d < 10 \<Longrightarrow> IsDecimalDigit (digit d)"
  by (simp add: IsDecimalDigit_def)

lemma show_nat_not_Nil [simp]: "show_nat n \<noteq> []"
  by (subst show_nat.simps) simp

lemma show_nat_digits: "list_all IsDecimalDigit (show_nat n)"
proof (induction n rule: show_nat.induct)
  case (1 n)
  then show ?case by (subst show_nat.simps) simp
qed

lemma digits_value_snoc: "digits_value (ds @ [c]) = 10 * digits_value ds + (of_char c - 48)"
  by (simp add: digits_value_def)

lemma digits_value_show_nat [simp]: "digits_value (show_nat n) = n"
proof (induction n rule: show_nat.induct)
  case (1 n)
  show ?case
  proof (cases "n < 10")
    case True
    then show ?thesis by (subst show_nat.simps) (simp add: digits_value_def)
  next
    case False
    with 1 show ?thesis by (subst show_nat.simps) (simp add: digits_value_snoc)
  qed
qed

lemma digit_not_sign: "IsDecimalDigit c \<Longrightarrow> c \<noteq> CHR ''-'' \<and> c \<noteq> CHR ''+'' \<and> c \<noteq> CHR ''{'' \<and> c \<noteq> CHR ''}''"
  by (auto simp: IsDecimalDigit_def)

lemma digit_not_space: "IsDecimalDigit c \<Longrightarrow> \<not> IsWhiteSpace c"
  by (auto simp: IsDecimalDigit_def IsWhiteSpace_def)

lemma show_nat_hd: "IsDecimalDigit (hd (show_nat n))"
  using show_nat_digits [of n] by (cases "show_nat n") simp_all

lemma ParseInt_show_int64: "ParseInt (show_int64 v) = Some v"
proof (cases "sint v < 0")
  case True
  have "nat (- sint v) \<le> 2 ^ 63" using sint_ge [of v] by (simp add: nat_le_iff)
  moreover have "- of_nat (nat (- sint v)) = v" using True by (simp add: of_nat_nat)
  ultimately show ?thesis
    using True show_nat_digits [of "nat (- sint v)"] by (simp add: show_int64_def ParseInt_def Let_def)
next
  case False
  have "nat (sint v) < 2 ^ 63" using sint_lt [of v] by (simp add: nat_less_iff)
  moreover have "of_nat (nat (sint v)) = v" using False by (simp add: of_nat_nat)
  moreover have "hd (show_nat (nat (sint v))) \<noteq> CHR ''-''" "hd (show_nat (nat (sint v))) \<noteq> CHR ''+''"
    using digit_not_sign [OF show_nat_hd] by blast+
  ultimately show ?thesis
    using False show_nat_digits [of "nat (sint v)"] by (simp add: show_int64_def ParseInt_def Let_def)
qed

text \<open>The text of a number: a sign perhaps, then digits, with or without a point.\<close>

definition number_text :: "bool \<Rightarrow> string \<Rightarrow> bool" where
  "number_text point str \<longleftrightarrow>
    (let ds = (if str \<noteq> [] \<and> hd str = CHR ''-'' then tl str else str)
     in ds \<noteq> [] \<and> IsDecimalDigit (hd ds) \<and> list_all (\<lambda>c. IsDecimalDigit c \<or> c = CHR ''.'') ds \<and>
        (CHR ''.'' \<in> set ds \<longleftrightarrow> point))"

lemma number_text_show_int64: "number_text False (show_int64 v)"
proof -
  have no: "CHR ''.'' \<notin> set ds" if "list_all IsDecimalDigit ds" for ds
    using that by (auto simp: list_all_iff IsDecimalDigit_def)
  have "hd (show_nat (nat (sint v))) \<noteq> CHR ''-''" using digit_not_sign [OF show_nat_hd] by blast
  with show_nat_digits show_nat_hd no [OF show_nat_digits] show ?thesis
    by (auto simp: number_text_def show_int64_def Let_def list_all_iff)
qed

section \<open>A concrete arithmetic\<close>

text \<open>Whole numbers, for the concrete applications of theorems.\<close>

definition int_fops :: "int fops" where
  "int_fops = \<lparr>of_int64 = sint, to_int64 = word_of_int, literal = int, tolerance = 1, half = 0, Pi = 3,
     fadd = (+), fsub = (-), fmul = (*), fdiv = (sdiv), fneg = uminus, flt = (<), feq = (=), Abs = abs,
     Ceil = id, Floor = id, Pow = (\<lambda>b e. b ^ nat e), Sqrt = (\<lambda>v. v), Log10 = (\<lambda>v. v), Ln = (\<lambda>v. v),
     Sin = (\<lambda>v. v), Cos = (\<lambda>v. v), Atan = (\<lambda>v. v), format5 = (\<lambda>v. show_int64 (word_of_int v) @ ''.00000''),
     format6 = (\<lambda>v. show_int64 (word_of_int v) @ ''.000000''), FormatFloat = (\<lambda>v. show_int64 (word_of_int v) @ ''.0''),
     ParseFloat = (\<lambda>str. map_option sint (ParseInt (takeWhile (\<lambda>c. c \<noteq> CHR ''.'') str)))\<rparr>"

end
