(* ===== verification/Core_Objects.thy ===== *)
theory Core_Objects
  imports Go_Numbers "HOL-Library.AList"
begin

text \<open>
  The primitive PDF objects (\<open>pdf/core/primitives.go\<close>) and their text. Objects are values:
  a pointer to a primitive object is what it points to, and the parser that references and
  dictionaries keep for lazy loading is left out. Strings of bytes are lists of characters.
  A dictionary is the map of the code, as an association list, with its list of keys.
\<close>

section \<open>Data\<close>

datatype 'v pdf_dict = PdfDict (dict: "(string \<times> 'v) list") (keys: "string list")

datatype 'f PdfObject =
    PdfObjectBool bool
  | PdfObjectInteger u64
  | PdfObjectFloat 'f
  | PdfObjectString string bool
  | PdfObjectName string
  | PdfObjectArray "'f PdfObject list"
  | PdfObjectDictionary "'f PdfObject pdf_dict"
  | PdfObjectNull
  | PdfObjectReference u64 u64
  | PdfIndirectObject u64 u64 "'f PdfObject"
  | PdfObjectStream u64 u64 "'f PdfObject pdf_dict" "u8 list"
  | PdfObjectStreams u64 u64 "'f PdfObject list"

lemma entry_size: "(k, v) \<in> set al \<Longrightarrow> f v \<le> size_list (size_prod (\<lambda>x. 0) f) al"
  by (induction al) auto

lemma dict_entry_size [termination_simp]: "(k, v) \<in> set (dict d) \<Longrightarrow> f v < Suc (size_pdf_dict f d)"
  using entry_size [of k v "dict d" f] by (cases d) simp

lemma stream_entry_size [termination_simp]:
  "(k, v) \<in> set (dict d) \<Longrightarrow> f v < Suc (size_pdf_dict f d + n)"
  using dict_entry_size [of k v d f] by simp

datatype core_error =
    ErrTypeError
  | ErrNotANumber
  | OutsideBounds

section \<open>Dictionaries\<close>

definition MakeDict :: "'v pdf_dict" where
  "MakeDict = PdfDict [] []"

definition dict_Set :: "string \<Rightarrow> 'v \<Rightarrow> 'v pdf_dict \<Rightarrow> 'v pdf_dict" where
  "dict_Set key val d =
    (let found = map_of (dict d) key \<noteq> None
     in PdfDict (AList.update key val (dict d)) (if found then keys d else keys d @ [key]))"

definition dict_Get :: "string \<Rightarrow> 'v pdf_dict \<Rightarrow> 'v option" where
  "dict_Get key d = map_of (dict d) key"

definition dict_Keys :: "'v pdf_dict \<Rightarrow> string list" where
  "dict_Keys d = keys d"

definition dict_Clear :: "'v pdf_dict \<Rightarrow> 'v pdf_dict" where
  "dict_Clear d = PdfDict [] []"

text \<open>The index of the first occurrence, as the loop of \<open>Remove\<close> finds it.\<close>

fun index_of :: "string \<Rightarrow> string list \<Rightarrow> nat option" where
  "index_of key [] = None"
| "index_of key (k # ks) = (if k = key then Some 0 else map_option Suc (index_of key ks))"

definition dict_Remove :: "string \<Rightarrow> 'v pdf_dict \<Rightarrow> 'v pdf_dict" where
  "dict_Remove key d =
    (case index_of key (keys d) of
       None \<Rightarrow> d
     | Some idx \<Rightarrow> PdfDict (AList.delete key (dict d)) (take idx (keys d) @ drop (idx + 1) (keys d)))"

definition dict_Merge :: "'v pdf_dict \<Rightarrow> 'v pdf_dict \<Rightarrow> 'v pdf_dict" where
  "dict_Merge d another =
    fold (\<lambda>key d. case dict_Get key another of Some val \<Rightarrow> dict_Set key val d | None \<Rightarrow> d)
      (dict_Keys another) d"

definition GetString :: "string \<Rightarrow> 'f PdfObject pdf_dict \<Rightarrow> string \<times> bool" where
  "GetString key d = (case map_of (dict d) key of Some (PdfObjectString val _) \<Rightarrow> (val, True) | _ \<Rightarrow> ('''', False))"

section \<open>Arrays\<close>

definition array_Get :: "'a list \<Rightarrow> int \<Rightarrow> 'a option" where
  "array_Get vec i = (if i \<ge> int (length vec) \<or> i < 0 then None else Some (vec ! nat i))"

definition array_Set :: "'a list \<Rightarrow> int \<Rightarrow> 'a \<Rightarrow> core_error + 'a list" where
  "array_Set vec i obj =
    (if i < 0 \<or> i \<ge> int (length vec) then Inl OutsideBounds else Inr (vec[nat i := obj]))"

fun ToFloat64Array :: "'f fops \<Rightarrow> 'f PdfObject list \<Rightarrow> core_error + 'f list" where
  "ToFloat64Array F [] = Inr []"
| "ToFloat64Array F (obj # vec) =
    (case obj of
       PdfObjectInteger t \<Rightarrow> map_sum id ((#) (of_int64 F t)) (ToFloat64Array F vec)
     | PdfObjectFloat t \<Rightarrow> map_sum id ((#) t) (ToFloat64Array F vec)
     | _ \<Rightarrow> Inl ErrTypeError)"

fun ToInt64Slice :: "'f PdfObject list \<Rightarrow> core_error + u64 list" where
  "ToInt64Slice [] = Inr []"
| "ToInt64Slice (obj # vec) =
    (case obj of
       PdfObjectInteger t \<Rightarrow> map_sum id ((#) t) (ToInt64Slice vec)
     | _ \<Rightarrow> Inl ErrTypeError)"

definition GetNumberAsFloat :: "'f fops \<Rightarrow> 'f PdfObject \<Rightarrow> core_error + 'f" where
  "GetNumberAsFloat F obj =
    (case obj of
       PdfObjectFloat t \<Rightarrow> Inr t
     | PdfObjectInteger t \<Rightarrow> Inr (of_int64 F t)
     | _ \<Rightarrow> Inl ErrNotANumber)"

definition GetNumberAsInt64 :: "'f fops \<Rightarrow> 'f PdfObject \<Rightarrow> core_error + u64" where
  "GetNumberAsInt64 F obj =
    (case obj of
       PdfObjectFloat t \<Rightarrow> Inr (to_int64 F t)
     | PdfObjectInteger t \<Rightarrow> Inr t
     | _ \<Rightarrow> Inl ErrNotANumber)"

definition getNumberAsFloatOrNull :: "'f fops \<Rightarrow> 'f PdfObject \<Rightarrow> core_error + 'f option" where
  "getNumberAsFloatOrNull F obj =
    (case obj of
       PdfObjectFloat t \<Rightarrow> Inr (Some t)
     | PdfObjectInteger t \<Rightarrow> Inr (Some (of_int64 F t))
     | PdfObjectNull \<Rightarrow> Inr None
     | _ \<Rightarrow> Inl ErrNotANumber)"

fun GetNumbersAsFloat :: "'f fops \<Rightarrow> 'f PdfObject list \<Rightarrow> core_error + 'f list" where
  "GetNumbersAsFloat F [] = Inr []"
| "GetNumbersAsFloat F (obj # objects) =
    (case GetNumberAsFloat F obj of
       Inl err \<Rightarrow> Inl err
     | Inr val \<Rightarrow> map_sum id ((#) val) (GetNumbersAsFloat F objects))"

section \<open>Writing\<close>

definition hex_digit :: "nat \<Rightarrow> char" where
  "hex_digit d = (if d < 10 then char_of (48 + d) else char_of (87 + d))"

definition hex_byte :: "char \<Rightarrow> string" where
  "hex_byte c = [hex_digit (of_char c div 16), hex_digit (of_char c mod 16)]"

definition EncodeToString :: "string \<Rightarrow> string" where
  "EncodeToString s = concat (map hex_byte s)"

definition escapeSequences :: "(char \<times> string) list" where
  "escapeSequences = [
     (CHR 0x0A, [CHR 0x5C, CHR ''n'']),
     (CHR 0x0D, [CHR 0x5C, CHR ''r'']),
     (CHR 0x09, [CHR 0x5C, CHR ''t'']),
     (CHR 0x08, [CHR 0x5C, CHR ''b'']),
     (CHR 0x0C, [CHR 0x5C, CHR ''f'']),
     (CHR ''('', [CHR 0x5C, CHR ''('']),
     (CHR '')'', [CHR 0x5C, CHR '')'']),
     (CHR 0x5C, [CHR 0x5C, CHR 0x5C])]"

definition escape_char :: "char \<Rightarrow> string" where
  "escape_char char = (case map_of escapeSequences char of Some escStr \<Rightarrow> escStr | None \<Rightarrow> [char])"

definition string_WriteString :: "string \<Rightarrow> bool \<Rightarrow> string" where
  "string_WriteString val isHex =
    (if isHex then ''<'' @ EncodeToString val @ ''>''
     else ''('' @ concat (map escape_char val) @ '')'')"

definition name_char :: "char \<Rightarrow> string" where
  "name_char char =
    (if \<not> IsPrintable char \<or> char = CHR ''#'' \<or> IsDelimiter char then ''#'' @ hex_byte char else [char])"

definition name_WriteString :: "string \<Rightarrow> string" where
  "name_WriteString name = ''/'' @ concat (map name_char name)"

text \<open>The elements with a separator between them.\<close>

fun separated :: "string \<Rightarrow> string list \<Rightarrow> string" where
  "separated sep [] = ''''"
| "separated sep [t] = t"
| "separated sep (t # ts) = t @ sep @ separated sep ts"

definition ref_WriteString :: "u64 \<Rightarrow> u64 \<Rightarrow> string" where
  "ref_WriteString n g = show_int64 n @ '' '' @ show_int64 g @ '' R''"

definition dict_WriteString :: "(string \<times> string) list \<Rightarrow> string list \<Rightarrow> string" where
  "dict_WriteString texts ks = ''<<'' @ concat (map (\<lambda>k. name_WriteString k @ '' '' @
     (case map_of texts k of Some t \<Rightarrow> t | None \<Rightarrow> '''')) ks) @ ''>>''"

text \<open>
  The text of an object. A key without an entry would be a nil object; the invariant of
  dictionaries (\<open>dict_ok\<close>) excludes it.
\<close>

fun WriteString :: "'f fops \<Rightarrow> 'f PdfObject \<Rightarrow> string" where
  "WriteString F (PdfObjectBool b) = show_bool b"
| "WriteString F (PdfObjectInteger i) = show_int64 i"
| "WriteString F (PdfObjectFloat f) = FormatFloat F f"
| "WriteString F (PdfObjectString val isHex) = string_WriteString val isHex"
| "WriteString F (PdfObjectName name) = name_WriteString name"
| "WriteString F (PdfObjectArray vec) = ''['' @ separated '' '' (map (WriteString F) vec) @ '']''"
| "WriteString F (PdfObjectDictionary d) =
    dict_WriteString (map (map_prod id (WriteString F)) (dict d)) (keys d)"
| "WriteString F PdfObjectNull = ''null''"
| "WriteString F (PdfObjectReference n g) = ref_WriteString n g"
| "WriteString F (PdfIndirectObject n g obj) = show_int64 n @ '' 0 R''"
| "WriteString F (PdfObjectStream n g d stream) = show_int64 n @ '' 0 R''"
| "WriteString F (PdfObjectStreams n g vec) = show_int64 n @ '' 0 R''"

text \<open>The description for debugging.\<close>

definition dict_String :: "(string \<times> string) list \<Rightarrow> string list \<Rightarrow> string" where
  "dict_String texts ks = ''Dict('' @ concat (map (\<lambda>k. [CHR 0x22] @ k @ [CHR 0x22] @ '': '' @
     (case map_of texts k of Some t \<Rightarrow> t | None \<Rightarrow> '''') @ '', '') ks) @ '')''"

fun object_String :: "'f fops \<Rightarrow> 'f PdfObject \<Rightarrow> string" where
  "object_String F (PdfObjectBool b) = show_bool b"
| "object_String F (PdfObjectInteger i) = show_int64 i"
| "object_String F (PdfObjectFloat f) = format6 F f"
| "object_String F (PdfObjectString val isHex) = val"
| "object_String F (PdfObjectName name) = name"
| "object_String F (PdfObjectArray vec) = ''['' @ separated '', '' (map (object_String F) vec) @ '']''"
| "object_String F (PdfObjectDictionary d) =
    dict_String (map (map_prod id (object_String F)) (dict d)) (keys d)"
| "object_String F PdfObjectNull = ''null''"
| "object_String F (PdfObjectReference n g) = ''Ref('' @ show_int64 n @ '' '' @ show_int64 g @ '')''"
| "object_String F (PdfIndirectObject n g obj) = ''IObject:'' @ show_int64 n"
| "object_String F (PdfObjectStream n g d stream) =
    ''Object stream '' @ show_int64 n @ '': '' @
     dict_String (map (map_prod id (object_String F)) (dict d)) (keys d)"
| "object_String F (PdfObjectStreams n g vec) = ''Object stream '' @ show_int64 n"

end
