(* ===== verification/Core_Parser.thy ===== *)
theory Core_Parser
  imports Core_Objects
begin

text \<open>
  The parser of primitive objects (\<open>pdf/core/parser.go\<close>). Its state is what the buffered
  reader has left. A function returns its error or value with that rest; a value that
  accompanies an error is dropped, as every caller in the program drops it. The regular
  expressions are written out as functions. \<open>parseObject\<close>, \<open>parseArray\<close> and \<open>ParseDict\<close> call
  each other and need not end (see \<open>Core_Properties\<close>): they are the three kinds of call of one
  partial function.
\<close>

datatype pdf_error =
    UnexpectedEOF
  | CommentStart
  | InvalidName
  | UnexpectedBool
  | UnexpectedPattern
  | InvalidDict
  | IndexPanic

type_synonym 'a parsed = "(pdf_error + 'a) \<times> string"

abbreviation LF :: char where "LF \<equiv> CHR 0x0A"
abbreviation CR :: char where "CR \<equiv> CHR 0x0D"
abbreviation backslash :: char where "backslash \<equiv> CHR 0x5C"

section \<open>Spaces and comments\<close>

fun pdf_skipSpaces_loop :: "nat \<Rightarrow> string \<Rightarrow> nat parsed" where
  "pdf_skipSpaces_loop cnt [] = (Inl UnexpectedEOF, [])"
| "pdf_skipSpaces_loop cnt (b # s) =
    (if IsWhiteSpace b then pdf_skipSpaces_loop (cnt + 1) s else (Inr cnt, b # s))"

definition pdf_skipSpaces :: "string \<Rightarrow> nat parsed" where
  "pdf_skipSpaces s = pdf_skipSpaces_loop 0 s"

lemma pdf_skipSpaces_snd: "snd (pdf_skipSpaces s) = dropWhile IsWhiteSpace s"
proof -
  have "snd (pdf_skipSpaces_loop cnt s) = dropWhile IsWhiteSpace s" for cnt
    by (induction s arbitrary: cnt) auto
  then show ?thesis by (simp add: pdf_skipSpaces_def)
qed

fun readTextLine_loop :: "string \<Rightarrow> string \<Rightarrow> string parsed" where
  "readTextLine_loop r [] = (Inl UnexpectedEOF, [])"
| "readTextLine_loop r (b # s) =
    (if b \<noteq> CR \<and> b \<noteq> LF then readTextLine_loop (r @ [b]) s else (Inr r, b # s))"

definition readTextLine :: "string \<Rightarrow> string parsed" where
  "readTextLine s = readTextLine_loop [] s"

fun readComment_loop :: "bool \<Rightarrow> string \<Rightarrow> string \<Rightarrow> string parsed" where
  "readComment_loop isFirst r [] = (Inl UnexpectedEOF, [])"
| "readComment_loop isFirst r (b # s) =
    (if isFirst \<and> b \<noteq> CHR ''%'' then (Inl CommentStart, b # s)
     else if b \<noteq> CR \<and> b \<noteq> LF then readComment_loop False (r @ [b]) s
     else (Inr r, b # s))"

definition readComment :: "string \<Rightarrow> string parsed" where
  "readComment s =
    (case pdf_skipSpaces s of
       (Inl err, s) \<Rightarrow> (Inl err, s)
     | (Inr _, s) \<Rightarrow> readComment_loop True [] s)"

lemma readComment_loop_snd:
  "snd (readComment_loop False r s) = dropWhile (\<lambda>b. b \<noteq> CR \<and> b \<noteq> LF) s"
  by (induction s arbitrary: r) auto

lemma readComment_percent:
  "snd (readComment (CHR ''%'' # s)) = dropWhile (\<lambda>b. b \<noteq> CR \<and> b \<noteq> LF) s"
  by (simp add: readComment_def pdf_skipSpaces_def IsWhiteSpace_def readComment_loop_snd)

function skipComments :: "string \<Rightarrow> unit parsed" where
  "skipComments s =
    (case pdf_skipSpaces s of
       (Inl err, s) \<Rightarrow> (Inl err, s)
     | (Inr _, s) \<Rightarrow>
         if hd s \<noteq> CHR ''%'' then (Inr (), s)
         else (case readComment_loop True [] s of
             (Inl err, s) \<Rightarrow> (Inl err, s)
           | (Inr _, s) \<Rightarrow> skipComments s))"
  by pat_completeness auto
termination
proof (relation "measure length")
  fix s r1 s1 n r2 s2 c
  assume a: "(r1, s1) = pdf_skipSpaces s" "\<not> hd s1 \<noteq> CHR ''%''"
    "(r2, s2) = readComment_loop True [] s1" "r2 = Inr c" "r1 = Inr n"
  have l: "length s1 \<le> length s"
    using a(1) pdf_skipSpaces_snd [of s] length_dropWhile_le by (metis snd_conv)
  show "(s2, s) \<in> measure length"
  proof (cases s1)
    case (Cons b t)
    have "length (dropWhile P t) < length s" for P
      using l Cons length_dropWhile_le [of P t] by simp
    with a(2,3) Cons show ?thesis
      by (auto simp: readComment_loop_snd split: if_splits dest!: arg_cong [where f = snd])
  qed (use a in simp)
qed simp

declare skipComments.simps [simp del]

section \<open>Names\<close>

fun hex_value :: "char \<Rightarrow> nat option" where
  "hex_value c =
    (let n = of_char c in
     if 48 \<le> n \<and> n \<le> 57 then Some (n - 48)
     else if 97 \<le> n \<and> n \<le> 102 then Some (n - 87)
     else if 65 \<le> n \<and> n \<le> 70 then Some (n - 55)
     else None)"

text \<open>\<open>hex.DecodeString\<close>: the bytes before the first error, and whether there was none.\<close>

fun DecodeString :: "string \<Rightarrow> string \<times> bool" where
  "DecodeString [] = ([], True)"
| "DecodeString [c] = ([], False)"
| "DecodeString (c1 # c2 # s) =
    (case (hex_value c1, hex_value c2) of
       (Some a, Some b) \<Rightarrow> map_prod (\<lambda>t. char_of (16 * a + b) # t) id (DecodeString s)
     | _ \<Rightarrow> ([], False))"

function parseName_loop :: "bool \<Rightarrow> string \<Rightarrow> string \<Rightarrow> string parsed" where
  "parseName_loop nameStarted r s =
    (case s of
       [] \<Rightarrow> (Inr r, [])
     | b # t \<Rightarrow>
         if \<not> nameStarted then
           if b = CHR ''/'' then parseName_loop True r t
           else if b = CHR ''%'' then
             parseName_loop False r (snd (pdf_skipSpaces (snd (readComment s))))
           else (Inl InvalidName, s)
         else if IsWhiteSpace b then (Inr r, s)
         else if b = CHR ''/'' \<or> b = CHR ''['' \<or> b = CHR ''('' \<or> b = CHR '']'' \<or> b = CHR ''<'' \<or> b = CHR ''>'' then
           (Inr r, s)
         else if b = CHR ''#'' then
           if length s < 3 then (Inl UnexpectedEOF, s)
           else (case DecodeString [s ! 1, s ! 2] of
               (code, True) \<Rightarrow> parseName_loop True (r @ code) (drop 3 s)
             | (_, False) \<Rightarrow> parseName_loop True (r @ ''#'') (drop 3 s))
         else parseName_loop True (r @ [b]) t)"
  by pat_completeness auto
termination
proof (relation "measure (\<lambda>(n, r, s). length s)", goal_cases)
  case (3 n r s b t)
  have "length (dropWhile P (dropWhile Q t)) \<le> length t" for P Q
    using length_dropWhile_le le_trans by blast
  then show ?case using 3 by (simp add: readComment_percent pdf_skipSpaces_snd le_imp_less_Suc)
qed auto

declare parseName_loop.simps [simp del]

definition parseName :: "string \<Rightarrow> string parsed" where
  "parseName s = parseName_loop False [] s"

section \<open>Numbers\<close>

text \<open>The characters of a number, and whether it is a real.\<close>

fun pdf_parseNumber_loop :: "bool \<Rightarrow> bool \<Rightarrow> string \<Rightarrow> string \<Rightarrow> (bool \<times> string) \<times> string" where
  "pdf_parseNumber_loop allowSigns isFloat r [] = ((isFloat, r), [])"
| "pdf_parseNumber_loop allowSigns isFloat r (b # s) =
    (if allowSigns \<and> (b = CHR ''-'' \<or> b = CHR ''+'') then pdf_parseNumber_loop False isFloat (r @ [b]) s
     else if IsDecimalDigit b then pdf_parseNumber_loop allowSigns isFloat (r @ [b]) s
     else if b = CHR ''.'' then pdf_parseNumber_loop allowSigns True (r @ [b]) s
     else if b = CHR ''e'' \<or> b = CHR ''E'' then pdf_parseNumber_loop True True (r @ [b]) s
     else ((isFloat, r), b # s))"

definition pdf_parseNumber :: "'f fops \<Rightarrow> string \<Rightarrow> 'f PdfObject parsed" where
  "pdf_parseNumber F s =
    (case pdf_parseNumber_loop True False [] s of
       ((isFloat, r), s) \<Rightarrow>
         if isFloat then
           (Inr (PdfObjectFloat (case ParseFloat F r of Some fVal \<Rightarrow> fVal | None \<Rightarrow> literal F 0)), s)
         else (Inr (PdfObjectInteger (case ParseInt r of Some intVal \<Rightarrow> intVal | None \<Rightarrow> 0)), s))"

section \<open>Strings\<close>

definition octal_value :: "string \<Rightarrow> nat" where
  "octal_value ds = fold (\<lambda>c n. 8 * n + (of_char c - 48)) ds 0"

definition escape_value :: "char \<Rightarrow> string" where
  "escape_value b =
    (if b = CHR ''n'' then [CHR 0x0A]
     else if b = CHR ''r'' then [CHR 0x0D]
     else if b = CHR ''t'' then [CHR 0x09]
     else if b = CHR ''b'' then [CHR 0x08]
     else if b = CHR ''f'' then [CHR 0x0C]
     else if b = CHR ''('' then ''(''
     else if b = CHR '')'' then '')''
     else if b = backslash then [backslash]
     else [])"

function parseString_loop :: "nat \<Rightarrow> string \<Rightarrow> string \<Rightarrow> string parsed" where
  "parseString_loop count r s =
    (case s of
       [] \<Rightarrow> (Inl UnexpectedEOF, [])
     | b # t \<Rightarrow>
         if b = backslash then
           (case t of
              [] \<Rightarrow> (Inl UnexpectedEOF, [])
            | b # u \<Rightarrow>
                if IsOctalDigit b then
                  if length u < 2 then (Inl UnexpectedEOF, u)
                  else
                    let numeric = b # takeWhile IsOctalDigit (take 2 u)
                    in parseString_loop count (r @ [char_of (octal_value numeric)]) (drop (length numeric - 1) u)
                else parseString_loop count (r @ escape_value b) u)
         else if b = CHR ''('' then parseString_loop (count + 1) (r @ [b]) t
         else if b = CHR '')'' then
           if count - 1 = 0 then (Inr r, t) else parseString_loop (count - 1) (r @ [b]) t
         else parseString_loop count (r @ [b]) t)"
  by pat_completeness auto
termination by (relation "measure (\<lambda>(c, r, s). length s)") auto

declare parseString_loop.simps [simp del]

definition parseString :: "'f fops \<Rightarrow> string \<Rightarrow> 'f PdfObject parsed" where
  "parseString F s =
    (case parseString_loop 1 [] (tl s) of
       (Inl err, s) \<Rightarrow> (Inl err, s) | (Inr r, s) \<Rightarrow> (Inr (PdfObjectString r False), s))"

fun parseHexString_loop :: "string \<Rightarrow> string \<Rightarrow> string parsed" where
  "parseHexString_loop r [] = (Inl UnexpectedEOF, [])"
| "parseHexString_loop r (b # s) =
    (if b = CHR ''>'' then (Inr r, s)
     else if \<not> IsWhiteSpace b then parseHexString_loop (r @ [b]) s
     else parseHexString_loop r s)"

definition parseHexString :: "'f fops \<Rightarrow> string \<Rightarrow> 'f PdfObject parsed" where
  "parseHexString F s =
    (case parseHexString_loop [] (tl s) of
       (Inl err, s) \<Rightarrow> (Inl err, s)
     | (Inr r, s) \<Rightarrow>
         let r = (if length r mod 2 = 1 then r @ ''0'' else r)
         in (Inr (PdfObjectString (fst (DecodeString r)) True), s))"

section \<open>Words\<close>

definition pdf_parseBool :: "'f fops \<Rightarrow> string \<Rightarrow> 'f PdfObject parsed" where
  "pdf_parseBool F s =
    (if length s < 4 then (Inl UnexpectedEOF, s)
     else if take 4 s = ''true'' then (Inr (PdfObjectBool True), drop 4 s)
     else if length s < 5 then (Inl UnexpectedEOF, s)
     else if take 5 s = ''false'' then (Inr (PdfObjectBool False), drop 5 s)
     else (Inl UnexpectedBool, s))"

definition parseNull :: "'f fops \<Rightarrow> string \<Rightarrow> 'f PdfObject parsed" where
  "parseNull F s = (if length s < 4 then (Inl UnexpectedEOF, []) else (Inr PdfObjectNull, drop 4 s))"

text \<open>\<open>\s\<close> of the regular expressions.\<close>

definition re_space :: "char \<Rightarrow> bool" where
  "re_space c \<longleftrightarrow> c = CHR 0x09 \<or> c = CHR 0x0A \<or> c = CHR 0x0C \<or> c = CHR 0x0D \<or> c = CHR 0x20"

text \<open>The end of \<open>reReference\<close>, after the first number: \<open>\s+(\d+)\s+R\<close>.\<close>

definition match_tail :: "string \<Rightarrow> string option" where
  "match_tail s =
    (let s1 = dropWhile re_space s; gen = takeWhile IsDecimalDigit s1;
         s2 = dropWhile IsDecimalDigit s1; s3 = dropWhile re_space s2
     in if s \<noteq> [] \<and> re_space (hd s) \<and> gen \<noteq> [] \<and> s2 \<noteq> [] \<and> re_space (hd s2) \<and> s3 \<noteq> [] \<and> hd s3 = CHR ''R''
        then Some gen else None)"

definition reReference :: "string \<Rightarrow> (string \<times> string) option" where
  "reReference s =
    (let s1 = dropWhile re_space s; num = takeWhile IsDecimalDigit s1
     in if num = [] then None else map_option (Pair num) (match_tail (dropWhile IsDecimalDigit s1)))"

text \<open>
  Whether \<open>reNumeric\<close> matches. The range from the plus sign to the point takes in the comma.
  What \<open>reExponential\<close> matches \<open>reNumeric\<close> matches, so the branch for it is never reached.
\<close>

definition reNumeric :: "string \<Rightarrow> bool" where
  "reNumeric s =
    (let sign = (\<lambda>c. c = CHR ''+'' \<or> c = CHR '','' \<or> c = CHR ''-'' \<or> c = CHR ''.'');
         rest = dropWhile sign s
     in CHR ''.'' \<in> set (takeWhile sign s) \<or> rest \<noteq> [] \<and> IsDecimalDigit (hd rest))"

definition parseReference :: "string \<Rightarrow> pdf_error + 'f PdfObject" where
  "parseReference refStr =
    (case reReference refStr of
       None \<Rightarrow> Inl UnexpectedPattern
     | Some (num, gen) \<Rightarrow> Inr (PdfObjectReference (of_nat (digits_value num)) (of_nat (digits_value gen))))"

text \<open>The last branch of \<open>parseObject\<close>: a word, a reference or a number.\<close>

definition parse_word :: "'f fops \<Rightarrow> string \<Rightarrow> 'f PdfObject parsed" where
  "parse_word F s =
    (let peekStr = take 15 s in
     if length peekStr > 3 \<and> take 4 peekStr = ''null'' then parseNull F s
     else if length peekStr > 4 \<and> take 5 peekStr = ''false'' then pdf_parseBool F s
     else if length peekStr > 3 \<and> take 4 peekStr = ''true'' then pdf_parseBool F s
     else if reReference peekStr \<noteq> None then
       (parseReference (takeWhile (\<lambda>c. c \<noteq> CHR ''R'') s @ ''R''), tl (dropWhile (\<lambda>c. c \<noteq> CHR ''R'') s))
     else if reNumeric peekStr then pdf_parseNumber F s
     else (Inl UnexpectedPattern, s))"

section \<open>Objects\<close>

text \<open>
  The calls: an object, the loop of \<open>parseArray\<close> with the elements so far, and the loop of
  \<open>ParseDict\<close> with the dictionary so far.
\<close>

datatype 'f call =
    ObjectCall
  | ArrayLoop "'f PdfObject list"
  | DictLoop "'f PdfObject pdf_dict"

definition parsed_as :: "('a \<Rightarrow> 'b) \<Rightarrow> 'a parsed \<Rightarrow> 'b parsed" where
  "parsed_as f p = map_prod (map_sum id f) id p"

definition ends_in_null :: "string \<Rightarrow> bool" where
  "ends_in_null keyName \<longleftrightarrow> length keyName > 4 \<and> drop (length keyName - 4) keyName = ''null''"

partial_function (option) parse :: "'f fops \<Rightarrow> 'f call \<Rightarrow> string \<Rightarrow> 'f PdfObject parsed option" where
  "parse F call s =
    (case call of
       ObjectCall \<Rightarrow>
         let s = snd (pdf_skipSpaces s) in
         if s = [] then Some (Inl UnexpectedEOF, s)
         else
           let bb = take 2 (if length s = 1 then s @ '' '' else s) in
           if bb ! 0 = CHR ''/'' then Some (parsed_as PdfObjectName (parseName s))
           else if bb ! 0 = CHR ''('' then Some (parseString F s)
           else if bb ! 0 = CHR ''['' then parse F (ArrayLoop []) (tl s)
           else if bb ! 0 = CHR ''<'' \<and> bb ! 1 = CHR ''<'' then parse F (DictLoop MakeDict) (drop 2 s)
           else if bb ! 0 = CHR ''<'' then Some (parseHexString F s)
           else if bb ! 0 = CHR ''%'' then parse F ObjectCall (snd (readComment s))
           else Some (parse_word F s)
     | ArrayLoop arr \<Rightarrow>
         let s = snd (pdf_skipSpaces s) in
         if s = [] then Some (Inl UnexpectedEOF, s)
         else if hd s = CHR '']'' then Some (Inr (PdfObjectArray arr), tl s)
         else
           Option.bind (parse F ObjectCall s) (\<lambda>(r, s).
             case r of Inl err \<Rightarrow> Some (Inl err, s) | Inr obj \<Rightarrow> parse F (ArrayLoop (arr @ [obj])) s)
     | DictLoop d \<Rightarrow>
         let s = snd (skipComments (snd (pdf_skipSpaces s))) in
         if length s < 2 then Some (Inl UnexpectedEOF, s)
         else if s ! 0 = CHR ''>'' \<and> s ! 1 = CHR ''>'' then Some (Inr (PdfObjectDictionary d), drop 2 s)
         else
           (case parseName s of
              (Inl err, s) \<Rightarrow> Some (Inl err, s)
            | (Inr keyName, s) \<Rightarrow>
                let s = snd (pdf_skipSpaces s) in
                if ends_in_null keyName \<and> s = [] then Some (Inl IndexPanic, s)
                else if ends_in_null keyName \<and> hd s = CHR ''/'' then
                  parse F (DictLoop (dict_Set (take (length keyName - 4) keyName) PdfObjectNull d)) s
                else
                  Option.bind (parse F ObjectCall s) (\<lambda>(r, s).
                    case r of Inl err \<Rightarrow> Some (Inl err, s)
                    | Inr val \<Rightarrow> parse F (DictLoop (dict_Set keyName val d)) s)))"

definition parseObject :: "'f fops \<Rightarrow> string \<Rightarrow> 'f PdfObject parsed option" where
  "parseObject F s = parse F ObjectCall s"

definition parseArray :: "'f fops \<Rightarrow> string \<Rightarrow> 'f PdfObject parsed option" where
  "parseArray F s = parse F (ArrayLoop []) (tl s)"

definition ParseDict :: "'f fops \<Rightarrow> string \<Rightarrow> 'f PdfObject parsed option" where
  "ParseDict F s =
    (if s = [] \<or> hd s \<noteq> CHR ''<'' then Some (Inl InvalidDict, tl s)
     else if tl s = [] \<or> hd (tl s) \<noteq> CHR ''<'' then Some (Inl InvalidDict, drop 2 s)
     else parse F (DictLoop MakeDict) (drop 2 s))"

end
