(* ===== verification/Core_Dict.thy ===== *)
theory Core_Dict
  imports Core_Parser
begin

text \<open>
  Dictionaries: what their users rely on (\<open>ordered_map\<close>), and that the map with a list of keys
  of the code provides it. The order of the keys is the order of their first insertion.
\<close>

section \<open>The interface\<close>

locale ordered_map =
  fixes ok :: "'d \<Rightarrow> bool"
    and empty :: 'd
    and put :: "string \<Rightarrow> 'v \<Rightarrow> 'd \<Rightarrow> 'd"
    and get :: "string \<Rightarrow> 'd \<Rightarrow> 'v option"
    and remove :: "string \<Rightarrow> 'd \<Rightarrow> 'd"
    and key_list :: "'d \<Rightarrow> string list"
  assumes ok_empty: "ok empty"
    and ok_put: "ok d \<Longrightarrow> ok (put k v d)"
    and ok_remove: "ok d \<Longrightarrow> ok (remove k d)"
    and get_empty: "get k empty = None"
    and get_put: "get k (put k' v d) = (if k = k' then Some v else get k d)"
    and get_remove: "ok d \<Longrightarrow> get k (remove k' d) = (if k = k' then None else get k d)"
    and key_list_put: "ok d \<Longrightarrow> key_list (put k v d) = (if get k d = None then key_list d @ [k] else key_list d)"
    and key_list_remove: "ok d \<Longrightarrow> key_list (remove k d) = filter (\<lambda>k'. k' \<noteq> k) (key_list d)"
    and key_list_distinct: "ok d \<Longrightarrow> distinct (key_list d)"
    and key_list_get: "ok d \<Longrightarrow> k \<in> set (key_list d) \<longleftrightarrow> get k d \<noteq> None"
begin

text \<open>Merging: the entries of the second dictionary win.\<close>

definition merge :: "'d \<Rightarrow> 'd \<Rightarrow> 'd" where
  "merge d e = fold (\<lambda>k d. case get k e of Some v \<Rightarrow> put k v d | None \<Rightarrow> d) (key_list e) d"

lemma fold_put_ok: "ok d \<Longrightarrow> ok (fold (\<lambda>k d. case get k e of Some v \<Rightarrow> put k v d | None \<Rightarrow> d) ks d)"
  by (induction ks arbitrary: d) (auto intro: ok_put split: option.split)

lemma fold_put_get:
  "get k (fold (\<lambda>k d. case get k e of Some v \<Rightarrow> put k v d | None \<Rightarrow> d) ks d) =
    (if k \<in> set ks \<and> get k e \<noteq> None then get k e else get k d)"
  by (induction ks arbitrary: d) (auto simp: get_put split: option.splits)

lemma merge_ok: "ok d \<Longrightarrow> ok (merge d e)"
  unfolding merge_def by (rule fold_put_ok)

lemma merge_get: "ok e \<Longrightarrow> get k (merge d e) = (case get k e of Some v \<Rightarrow> Some v | None \<Rightarrow> get k d)"
  by (auto simp: merge_def fold_put_get key_list_get split: option.split)

lemma remove_put: "ok d \<Longrightarrow> get k' (remove k (put k v d)) = get k' (remove k d)"
  by (simp add: get_remove get_put ok_put)

end

section \<open>The dictionaries of the code\<close>

definition dict_ok :: "'v pdf_dict \<Rightarrow> bool" where
  "dict_ok d \<longleftrightarrow> map fst (dict d) = keys d \<and> distinct (keys d)"

lemma AList_update_fst: "map fst (AList.update k v al) = (if k \<in> fst ` set al then map fst al else map fst al @ [k])"
  by (induction al) auto

lemma AList_update_new: "k \<notin> fst ` set al \<Longrightarrow> AList.update k v al = al @ [(k, v)]"
  by (induction al) auto

lemma index_of_None: "index_of k ks = None \<longleftrightarrow> k \<notin> set ks"
  by (induction ks) auto

lemma index_of_remove:
  "index_of k ks = Some i \<Longrightarrow> distinct ks \<Longrightarrow> take i ks @ drop (Suc i) ks = filter (\<lambda>k'. k' \<noteq> k) ks"
proof (induction ks arbitrary: i)
  case (Cons a ks)
  then show ?case by (cases "a = k") (auto intro!: filter_True [symmetric])
qed simp

lemma dict_Get_keys: "dict_ok d \<Longrightarrow> dict_Get k d \<noteq> None \<longleftrightarrow> k \<in> set (keys d)"
  by (auto simp: dict_ok_def dict_Get_def map_of_eq_None_iff simp flip: set_map)

lemma AList_delete_fst: "map fst (AList.delete k al) = filter (\<lambda>k'. k' \<noteq> k) (map fst al)"
  by (induction al) auto

lemma dict_Remove_eq:
  "dict_ok d \<Longrightarrow> dict_Remove k d = PdfDict (AList.delete k (dict d)) (filter (\<lambda>k'. k' \<noteq> k) (keys d))"
proof (cases "index_of k (keys d)")
  case None
  assume "dict_ok d"
  with None have "k \<notin> fst ` set (dict d)" "k \<notin> set (keys d)"
    by (auto simp: index_of_None dict_ok_def simp flip: set_map)
  then have "AList.delete k (dict d) = dict d" "filter (\<lambda>k'. k' \<noteq> k) (keys d) = keys d"
    by (auto intro: delete_id filter_True)
  with None show ?thesis by (simp add: dict_Remove_def)
qed (simp add: dict_Remove_def index_of_remove dict_ok_def)

interpretation dictionary: ordered_map dict_ok MakeDict dict_Set dict_Get dict_Remove dict_Keys
proof (unfold_locales, goal_cases)
  case 1
  show ?case by (simp add: dict_ok_def MakeDict_def)
next
  case (2 d k v)
  then show ?case
    by (auto simp: dict_ok_def dict_Set_def AList_update_fst map_of_eq_None_iff simp flip: set_map)
next
  case (3 d k)
  then show ?case
    by (simp add: dict_Remove_eq) (simp add: dict_ok_def AList_delete_fst)
next
  case (6 d k k')
  then show ?case
    by (simp add: dict_Remove_eq dict_Get_def delete_conv')
next
  case (8 d k)
  then show ?case
    by (simp add: dict_Remove_eq dict_Keys_def)
next
  case (10 d k)
  then show ?case using dict_Get_keys [of d k] by (simp add: dict_Keys_def)
qed (auto simp: dict_ok_def dict_Get_def dict_Set_def dict_Keys_def MakeDict_def update_conv')

lemma dict_Merge_eq: "dict_Merge d e = dictionary.merge d e"
  by (simp add: dict_Merge_def dictionary.merge_def)

lemma dict_Set_new:
  "dict_ok d \<Longrightarrow> k \<notin> set (keys d) \<Longrightarrow> dict_Set k v d = PdfDict (dict d @ [(k, v)]) (keys d @ [k])"
  using dict_Get_keys [of d k]
  by (auto simp: dict_Set_def dict_Get_def dict_ok_def AList_update_new simp flip: set_map)

end
