(* ===== verification/Core_Roundtrip.thy ===== *)
theory Core_Roundtrip
  imports Core_Dict
begin

text \<open>
  Writing an object and parsing the text: names, strings, numbers, references, arrays and
  dictionaries, nested to any depth.
\<close>

section \<open>Strings and names\<close>

lemma hex_value_digit [simp]: "d < 16 \<Longrightarrow> hex_value (hex_digit d) = Some d"
  by (auto simp: hex_digit_def Let_def)

declare hex_value.simps [simp del]

lemma of_char_div_mod [simp]: "(of_char c :: nat) div 16 < 16"
  using nat_of_char_less_256 [of c] by linarith

lemma hex_digits_of_char: "char_of (16 * (of_char c div 16) + (of_char c mod 16 :: nat)) = c"
  by simp

lemma DecodeString_hex_byte [simp]:
  "DecodeString (hex_byte c @ s) = map_prod (\<lambda>t. c # t) id (DecodeString s)"
  by (simp add: hex_byte_def hex_digits_of_char)

lemma DecodeString_EncodeToString: "DecodeString (EncodeToString val) = (val, True)"
  by (induction val) (simp_all add: EncodeToString_def)

lemma hex_digit_char: "d < 16 \<Longrightarrow> \<not> IsWhiteSpace (hex_digit d) \<and> hex_digit d \<noteq> CHR ''>'' \<and> hex_digit d \<noteq> CHR ''<''"
  by (auto simp: hex_digit_def IsWhiteSpace_def dest: arg_cong [where f = "of_char :: char \<Rightarrow> nat"])

lemma parseHexString_loop_encoded:
  "parseHexString_loop r (EncodeToString val @ CHR ''>'' # s) = (Inr (r @ EncodeToString val), s)"
  by (induction val arbitrary: r) (auto simp: EncodeToString_def hex_byte_def hex_digit_char)

lemma length_EncodeToString: "length (EncodeToString val) = 2 * length val"
  by (induction val) (simp_all add: EncodeToString_def hex_byte_def)

lemma parseString_loop_char:
  "parseString_loop n r (escape_char c @ s) = parseString_loop n (r @ [c]) s"
  by (auto simp: escape_char_def escapeSequences_def parseString_loop.simps [of _ _ "_ # _"]
      escape_value_def IsOctalDigit_def)

lemma parseString_loop_text:
  "parseString_loop (Suc 0) r (concat (map escape_char val) @ CHR '')'' # s) = (Inr (r @ val), s)"
proof (induction val arbitrary: r)
  case Nil
  show ?case by (simp add: parseString_loop.simps)
qed (simp add: parseString_loop_char)

lemma parse_string_text:
  "string_WriteString val isHex @ s = CHR ''<'' # t \<Longrightarrow> isHex \<Longrightarrow>
    parseHexString F (CHR ''<'' # t) = (Inr (PdfObjectString val True), s)"
  "string_WriteString val isHex @ s = CHR ''('' # t \<Longrightarrow> \<not> isHex \<Longrightarrow>
    parseString F (CHR ''('' # t) = (Inr (PdfObjectString val False), s)"
  by (auto simp: string_WriteString_def parseHexString_def parseHexString_loop_encoded
      length_EncodeToString DecodeString_EncodeToString parseString_def parseString_loop_text)

lemma printable_not_space: "IsPrintable c \<Longrightarrow> \<not> IsWhiteSpace c"
  by (auto simp: IsPrintable_def IsWhiteSpace_def)

lemma parseName_loop_char:
  "parseName_loop True r (name_char c @ s) = parseName_loop True (r @ [c]) s"
proof (cases "\<not> IsPrintable c \<or> c = CHR ''#'' \<or> IsDelimiter c")
  case True
  have "DecodeString (hex_byte c) = ([c], True)" using DecodeString_hex_byte [of c "[]"] by simp
  then have "DecodeString [hex_digit (of_char c div 16), hex_digit (of_char c mod 16)] = ([c], True)"
    by (simp add: hex_byte_def)
  with True show ?thesis
    by (simp add: name_char_def parseName_loop.simps [of _ _ "_ # _"] hex_byte_def IsWhiteSpace_def)
next
  case False
  then show ?thesis
    by (simp add: name_char_def parseName_loop.simps [of _ _ "_ # _"] printable_not_space IsDelimiter_def)
qed

definition name_stop :: "string \<Rightarrow> bool" where
  "name_stop s \<longleftrightarrow> s = [] \<or> hd s = CHR '' '' \<or> hd s = CHR '']'' \<or> hd s = CHR ''/'' \<or> hd s = CHR ''>''"

lemma parseName_loop_stop:
  assumes "name_stop s"
  shows "parseName_loop True r s = (Inr r, s)"
proof (cases s)
  case Nil
  then show ?thesis by (subst parseName_loop.simps) simp
next
  case (Cons b t)
  have "IsWhiteSpace b \<or> b = CHR ''/'' \<or> b = CHR '']'' \<or> b = CHR ''>''"
    using assms Cons by (auto simp: name_stop_def IsWhiteSpace_def)
  then show ?thesis unfolding Cons by (subst parseName_loop.simps) (elim disjE; simp)
qed

lemma parseName_loop_name:
  "name_stop s \<Longrightarrow> parseName_loop True r (concat (map name_char name) @ s) = (Inr (r @ name), s)"
proof (induction name arbitrary: r)
  case Nil
  then show ?case by (simp add: parseName_loop_stop)
qed (simp add: parseName_loop_char)

lemma parseName_text: "name_stop s \<Longrightarrow> parseName (name_WriteString name @ s) = (Inr name, s)"
  unfolding parseName_def name_WriteString_def
  by (subst parseName_loop.simps) (simp add: parseName_loop_name)

section \<open>What may follow\<close>

text \<open>A space and then the letter \<open>R\<close>: the end of a reference.\<close>

definition space_R :: "string \<Rightarrow> bool" where
  "space_R s \<longleftrightarrow> (let t = dropWhile re_space s in s \<noteq> [] \<and> re_space (hd s) \<and> t \<noteq> [] \<and> hd t = CHR ''R'')"

definition ok_rest :: "string \<Rightarrow> bool" where
  "ok_rest s \<longleftrightarrow> name_stop s \<and> match_tail s = None \<and> \<not> space_R s"

lemma match_tail_iff:
  "match_tail s = Some g \<longleftrightarrow> (\<exists>a c u. s = a @ g @ c @ CHR ''R'' # u \<and> a \<noteq> [] \<and> list_all re_space a \<and>
     g \<noteq> [] \<and> list_all IsDecimalDigit g \<and> c \<noteq> [] \<and> list_all re_space c)"
  (is "_ \<longleftrightarrow> ?R")
proof
  assume "match_tail s = Some g"
  then have *: "g = takeWhile IsDecimalDigit (dropWhile re_space s)" "g \<noteq> []" "s \<noteq> []" "re_space (hd s)"
    "dropWhile IsDecimalDigit (dropWhile re_space s) \<noteq> []"
    "re_space (hd (dropWhile IsDecimalDigit (dropWhile re_space s)))"
    "dropWhile re_space (dropWhile IsDecimalDigit (dropWhile re_space s)) \<noteq> []"
    "hd (dropWhile re_space (dropWhile IsDecimalDigit (dropWhile re_space s))) = CHR ''R''"
    by (auto simp: match_tail_def Let_def split: if_splits)
  let ?s1 = "dropWhile re_space s" let ?s2 = "dropWhile IsDecimalDigit ?s1"
  have "s = takeWhile re_space s @ g @ takeWhile re_space ?s2 @ dropWhile re_space ?s2"
    using *(1) by (metis takeWhile_dropWhile_id)
  moreover have "dropWhile re_space ?s2 = CHR ''R'' # tl (dropWhile re_space ?s2)"
    using *(7,8) by (metis list.collapse)
  moreover have "takeWhile re_space s \<noteq> []" "takeWhile re_space ?s2 \<noteq> []"
    using *(3-6) by (auto simp: takeWhile_eq_Nil_iff)
  moreover have "list_all P (takeWhile P l)" for P and l :: string
    by (auto simp: list_all_iff dest: set_takeWhileD)
  ultimately show ?R using *(1,2) by metis
next
  assume ?R
  then obtain a c u where s: "s = a @ g @ c @ CHR ''R'' # u" "a \<noteq> []" "list_all re_space a" "g \<noteq> []"
    "list_all IsDecimalDigit g" "c \<noteq> []" "list_all re_space c" by blast
  have sp: "re_space x \<Longrightarrow> \<not> IsDecimalDigit x" for x by (auto simp: re_space_def IsDecimalDigit_def)
  have drop: "dropWhile P (l @ r) = r" if "list_all P l" "r \<noteq> []" "\<not> P (hd r)" for P and l r :: string
    using that by (induction l) (auto simp: dropWhile_eq_self_iff)
  have "\<not> re_space (hd g)" using s(4,5) sp by (cases g) auto
  with drop [OF s(3), of "g @ c @ CHR ''R'' # u"] have 1: "dropWhile re_space s = g @ c @ CHR ''R'' # u"
    using s(1,4) by simp
  have "\<not> IsDecimalDigit (hd c)" using s(6,7) sp by (cases c) auto
  with drop [OF s(5), of "c @ CHR ''R'' # u"] have 2:
    "dropWhile IsDecimalDigit (g @ c @ CHR ''R'' # u) = c @ CHR ''R'' # u" using s(6) by simp
  have 3: "dropWhile re_space (c @ CHR ''R'' # u) = CHR ''R'' # u"
    using drop [OF s(7), of "CHR ''R'' # u"] by (simp add: re_space_def)
  have 4: "takeWhile IsDecimalDigit (g @ c @ CHR ''R'' # u) = g"
    using s(5-7) sp by (cases c) (auto simp: list_all_iff takeWhile_append2)
  show "match_tail s = Some g"
    unfolding match_tail_def Let_def 1 2 3 4 using s by (cases a; cases c) auto
qed

lemma match_tail_Nil: "match_tail [] = None"
  by (simp add: match_tail_def)

lemma match_tail_take: "match_tail s = None \<Longrightarrow> match_tail (take n s) = None"
proof (rule ccontr)
  assume n: "match_tail s = None" and "match_tail (take n s) \<noteq> None"
  then obtain g a c u where t: "take n s = a @ g @ c @ CHR ''R'' # u" "a \<noteq> []" "list_all re_space a" "g \<noteq> []"
    "list_all IsDecimalDigit g" "c \<noteq> []" "list_all re_space c"
    unfolding not_None_eq match_tail_iff by blast
  have "s = a @ g @ c @ CHR ''R'' # (u @ drop n s)"
    using t(1) append_take_drop_id [of n s] by simp
  with t(2-7) have "match_tail s = Some g" unfolding match_tail_iff by blast
  with n show False by simp
qed

section \<open>Numbers and references\<close>

lemma name_stop_not_number:
  "name_stop s \<Longrightarrow> s = c # t \<Longrightarrow> \<not> IsDecimalDigit c \<and> c \<notin> {CHR ''.'', CHR ''e'', CHR ''E'', CHR ''+'', CHR ''-''}"
  by (auto simp: name_stop_def IsDecimalDigit_def)

lemma pdf_parseNumber_loop_digits:
  "list_all (\<lambda>c. IsDecimalDigit c \<or> c = CHR ''.'') ds \<Longrightarrow> name_stop s \<Longrightarrow>
   pdf_parseNumber_loop a f r (ds @ s) = ((f \<or> CHR ''.'' \<in> set ds, r @ ds), s)"
proof (induction ds arbitrary: f r)
  case Nil
  then show ?case using name_stop_not_number [of s] by (cases s) auto
next
  case (Cons c ds)
  have "\<not> IsDecimalDigit CHR ''.''" by (simp add: IsDecimalDigit_def)
  with Cons digit_not_sign [of c] show ?case by (auto split: if_splits)
qed

lemma pdf_parseNumber_loop_text:
  assumes "number_text point str" "name_stop s"
  shows "pdf_parseNumber_loop True False [] (str @ s) = ((point, str), s)"
proof (cases "hd str = CHR ''-''")
  case True
  with assms(1) obtain ds where "str = CHR ''-'' # ds" by (cases str) (auto simp: number_text_def)
  with assms show ?thesis by (simp add: number_text_def Let_def pdf_parseNumber_loop_digits)
next
  case False
  with assms show ?thesis by (simp add: number_text_def Let_def pdf_parseNumber_loop_digits)
qed

lemma number_text_cases:
  assumes "number_text point str"
  obtains (minus) c ds where "str = CHR ''-'' # c # ds" "IsDecimalDigit c"
  | (digits) c ds where "str = c # ds" "IsDecimalDigit c"
proof (cases str)
  case (Cons c ds)
  then show thesis
    using assms minus digits by (cases "c = CHR ''-''"; cases ds) (auto simp: number_text_def)
qed (use assms in \<open>simp add: number_text_def\<close>)

lemma no_word:
  assumes "IsDecimalDigit c \<or> c = CHR ''-''"
  shows "take 4 (c # t) \<noteq> ''null'' \<and> take 4 (c # t) \<noteq> ''true'' \<and> take 5 (c # t) \<noteq> ''false''"
  using assms by (auto simp: IsDecimalDigit_def)

lemma reNumeric_text:
  assumes "number_text point str"
  shows "reNumeric (take 15 (str @ s))"
  using assms
proof (cases rule: number_text_cases)
  case (minus c ds)
  have "c \<noteq> CHR ''+'' \<and> c \<noteq> CHR ''-'' \<and> c \<noteq> CHR '','' \<and> c \<noteq> CHR ''.''"
    using minus(2) by (auto simp: IsDecimalDigit_def)
  with minus show ?thesis by (simp add: reNumeric_def take_Cons')
next
  case (digits c ds)
  have "c \<noteq> CHR ''+'' \<and> c \<noteq> CHR ''-'' \<and> c \<noteq> CHR '','' \<and> c \<noteq> CHR ''.''"
    using digits(2) by (auto simp: IsDecimalDigit_def)
  with digits show ?thesis by (simp add: reNumeric_def take_Cons')
qed

lemma number_text_rest:
  assumes "number_text point str" "hd str \<noteq> CHR ''-''"
  shows "if point then dropWhile IsDecimalDigit str \<noteq> [] \<and> hd (dropWhile IsDecimalDigit str) = CHR ''.''
    else dropWhile IsDecimalDigit str = []"
proof -
  let ?r = "dropWhile IsDecimalDigit str"
  have all: "list_all (\<lambda>c. IsDecimalDigit c \<or> c = CHR ''.'') str" "CHR ''.'' \<in> set str \<longleftrightarrow> point"
    using assms by (auto simp: number_text_def Let_def)
  have "?r = []" if "\<not> point"
    using all that by (auto simp: list_all_iff dropWhile_eq_Nil_conv)
  moreover have "?r \<noteq> [] \<and> hd ?r = CHR ''.''" if point
  proof -
    have "\<not> IsDecimalDigit CHR ''.''" by (simp add: IsDecimalDigit_def)
    then have "\<not> (\<forall>x \<in> set str. IsDecimalDigit x)" using all(2) that by blast
    then have "?r \<noteq> []" by (simp add: dropWhile_eq_Nil_conv)
    moreover have "hd ?r \<in> set str" "\<not> IsDecimalDigit (hd ?r)"
      using calculation hd_in_set set_dropWhileD hd_dropWhile by metis+
    ultimately show ?thesis using all(1) by (auto simp: list_all_iff)
  qed
  ultimately show ?thesis by simp
qed

text \<open>After the digits of a number comes no space, or nothing that makes a reference of it.\<close>

lemma no_reference:
  assumes "number_text point str" "point \<or> match_tail s = None" "name_stop s"
  shows "reReference (take n (str @ s)) = None"
proof (cases "hd str = CHR ''-'' \<or> n = 0")
  case True
  have "\<not> re_space CHR ''-''" "\<not> IsDecimalDigit CHR ''-''" by (simp_all add: re_space_def IsDecimalDigit_def)
  with True assms(1) show ?thesis
    by (cases str; cases n) (auto simp: reReference_def number_text_def)
next
  case False
  let ?d = "takeWhile IsDecimalDigit str" let ?r = "dropWhile IsDecimalDigit str"
  have r: "\<not> point \<Longrightarrow> ?r = []" "point \<Longrightarrow> ?r \<noteq> [] \<and> hd ?r = CHR ''.''"
    using number_text_rest [OF assms(1)] False by (auto split: if_splits)
  have split: "take n (str @ s) = take n ?d @ take (n - length ?d) (?r @ s)"
    by (metis append_assoc take_append takeWhile_dropWhile_id)
  have tail: "match_tail (take m (?r @ s)) = None" for m
  proof (cases point)
    case True
    with r(2) obtain u where "?r = CHR ''.'' # u" by (metis list.collapse)
    then show ?thesis by (cases m) (simp_all add: match_tail_def re_space_def)
  next
    case False
    then show ?thesis unfolding r(1) [OF False] append_Nil using assms(2) by (simp add: match_tail_take)
  qed
  have nodigit: "?r @ s = [] \<or> \<not> IsDecimalDigit (hd (?r @ s))"
  proof (cases "?r = []")
    case True
    show ?thesis unfolding True append_Nil using name_stop_not_number [OF assms(3)] by (cases s) auto
  qed (simp add: hd_dropWhile)
  have "str \<noteq> []" "IsDecimalDigit (hd str)" using assms(1) False by (auto simp: number_text_def Let_def)
  then have d: "?d = hd str # takeWhile IsDecimalDigit (tl str)" by (cases str) auto
  have sp: "\<not> re_space (hd str)" using \<open>IsDecimalDigit (hd str)\<close> by (auto simp: re_space_def IsDecimalDigit_def)
  define t where "t = take n (str @ s)"
  define w where "w = ?r @ s"
  have td: "t = take n ?d @ take (n - length ?d) w" by (simp only: t_def w_def split)
  have t0: "dropWhile re_space t = t"
    using False d sp by (cases n) (auto simp: td)
  have t1: "dropWhile IsDecimalDigit t = (if n \<le> length ?d then [] else take (n - length ?d) w)"
  proof (cases "n \<le> length ?d")
    case True
    have "\<forall>x \<in> set (take n ?d). IsDecimalDigit x" by (meson in_set_takeD set_takeWhileD)
    with True show ?thesis by (simp add: td)
  next
    case F: False
    have "dropWhile IsDecimalDigit (?d @ u) = dropWhile IsDecimalDigit u" for u
      by (rule dropWhile_append2) (auto dest: set_takeWhileD)
    moreover have "t = ?d @ take (n - length ?d) w" using F by (simp add: td)
    moreover have "dropWhile IsDecimalDigit (take k w) = take k w" for k
      using nodigit unfolding w_def [symmetric] by (cases w; cases k) simp_all
    ultimately show ?thesis using F by simp
  qed
  then have "match_tail (dropWhile IsDecimalDigit t) = None"
    using tail [folded w_def] by (simp add: match_tail_Nil)
  then show ?thesis unfolding reReference_def t_def [symmetric] t0 Let_def by simp
qed

lemma parse_word_number:
  assumes "number_text point str" "point \<or> match_tail s = None" "name_stop s"
  shows "parse_word F (str @ s) = pdf_parseNumber F (str @ s)"
proof -
  obtain c t where ct: "take 15 (str @ s) = c # t" "IsDecimalDigit c \<or> c = CHR ''-''"
    using assms(1) by (cases rule: number_text_cases) auto
  show ?thesis
    using no_word [OF ct(2), of t] no_reference [OF assms, of 15] reNumeric_text [OF assms(1), of s]
    by (auto simp: parse_word_def Let_def ct(1) simp del: take_append)
qed

lemma show_nat_of_sint: "0 \<le> sint v \<Longrightarrow> show_int64 v = show_nat (nat (sint v))"
  by (simp add: show_int64_def)

lemma takeWhile_digits: "list_all IsDecimalDigit ds \<Longrightarrow> \<not> IsDecimalDigit c \<Longrightarrow>
    takeWhile IsDecimalDigit (ds @ c # s) = ds \<and> dropWhile IsDecimalDigit (ds @ c # s) = c # s"
  by (simp add: list_all_iff)

lemma of_nat_sint: "0 \<le> sint v \<Longrightarrow> of_nat (nat (sint v)) = v" for v :: u64
  by (simp add: of_nat_nat)

lemma reReference_text:
  assumes "0 \<le> sint n" "0 \<le> sint g"
  shows "reReference (ref_WriteString n g @ s) = Some (show_int64 n, show_int64 g)"
proof -
  let ?a = "show_nat (nat (sint n))" and ?b = "show_nat (nat (sint g))"
  have sp: "re_space CHR '' ''" "\<not> IsDecimalDigit CHR '' ''" "\<not> re_space CHR ''R''"
    by (simp_all add: re_space_def IsDecimalDigit_def)
  have hd: "\<not> re_space (hd (show_nat k @ u))" for k u
    using show_nat_hd [of k] by (cases "show_nat k") (auto simp: re_space_def IsDecimalDigit_def)
  have drop: "dropWhile re_space (show_nat k @ u) = show_nat k @ u" for k u
    using hd [of k u] by (cases "show_nat k") auto
  have t: "ref_WriteString n g @ s = ?a @ CHR '' '' # ?b @ CHR '' '' # CHR ''R'' # s"
    using assms by (simp add: ref_WriteString_def show_nat_of_sint)
  have "match_tail (CHR '' '' # ?b @ CHR '' '' # CHR ''R'' # s) = Some ?b"
    using takeWhile_digits [OF show_nat_digits sp(2), of "nat (sint g)" "CHR ''R'' # s"] sp drop
    by (simp add: match_tail_def)
  then show ?thesis
    using takeWhile_digits [OF show_nat_digits sp(2), of "nat (sint n)" "?b @ CHR '' '' # CHR ''R'' # s"]
    by (simp add: reReference_def t drop) (simp add: assms show_nat_of_sint)
qed

lemma no_R: "list_all IsDecimalDigit ds \<Longrightarrow> CHR ''R'' \<notin> set ds"
  by (auto simp: list_all_iff IsDecimalDigit_def)

lemma parse_word_reference:
  assumes "0 \<le> sint n" "0 \<le> sint g" "length (ref_WriteString n g) \<le> 15"
  shows "parse_word F (ref_WriteString n g @ s) = (Inr (PdfObjectReference n g), s)"
proof -
  let ?a = "show_nat (nat (sint n))" and ?b = "show_nat (nat (sint g))"
  define u where "u = take (15 - length (ref_WriteString n g)) s"
  have t15: "take 15 (ref_WriteString n g @ s) = ref_WriteString n g @ u" using assms(3) by (simp add: u_def)
  obtain c t where ct: "ref_WriteString n g @ u = c # t" "IsDecimalDigit c"
    using assms(1) show_nat_hd [of "nat (sint n)"]
    by (cases ?a) (auto simp: ref_WriteString_def show_nat_of_sint)
  have ref: "reReference (take 15 (ref_WriteString n g @ s)) = Some (show_int64 n, show_int64 g)"
    unfolding t15 by (rule reReference_text [OF assms(1,2)])
  have R: "ref_WriteString n g @ s = (?a @ '' '' @ ?b @ '' '') @ CHR ''R'' # s"
    "CHR ''R'' \<notin> set (?a @ '' '' @ ?b @ '' '')"
    using assms no_R [OF show_nat_digits] by (auto simp: ref_WriteString_def show_nat_of_sint)
  have "takeWhile (\<lambda>c. c \<noteq> CHR ''R'') (ref_WriteString n g @ s) = ?a @ '' '' @ ?b @ '' ''"
    "dropWhile (\<lambda>c. c \<noteq> CHR ''R'') (ref_WriteString n g @ s) = CHR ''R'' # s"
    unfolding R(1) using R(2) by (subst takeWhile_append2 dropWhile_append2; auto)+
  moreover have "parseReference (?a @ '' '' @ ?b @ '' '' @ ''R'') = Inr (PdfObjectReference n g)"
    using reReference_text [OF assms(1,2), of "[]"] assms(1,2)
    by (simp add: parseReference_def ref_WriteString_def show_nat_of_sint of_nat_sint)
  ultimately show ?thesis
    using no_word [of c t] ct ref by (auto simp: parse_word_def Let_def t15 simp del: take_append)
qed

section \<open>Objects\<close>

fun is_name :: "'f PdfObject \<Rightarrow> bool" where
  "is_name (PdfObjectName name) = True"
| "is_name _ = False"

fun writable :: "'f fops \<Rightarrow> 'f PdfObject \<Rightarrow> bool" where
  "writable F (PdfObjectFloat f) =
    (number_text True (FormatFloat F f) \<and> ParseFloat F (FormatFloat F f) = Some f)"
| "writable F (PdfObjectArray vec) = (\<forall>x \<in> set vec. writable F x)"
| "writable F (PdfObjectDictionary d) =
    (dict_ok d \<and> (\<forall>(k, v) \<in> set (dict d). writable F v \<and> \<not> (ends_in_null k \<and> is_name v)))"
| "writable F (PdfObjectReference n g) =
    (0 \<le> sint n \<and> 0 \<le> sint g \<and> length (ref_WriteString n g) \<le> 15)"
| "writable F (PdfIndirectObject n g obj) = False"
| "writable F (PdfObjectStream n g d stream) = False"
| "writable F (PdfObjectStreams n g vec) = False"
| "writable F _ = True"

text \<open>The first character of the text of an object.\<close>

definition starts_object :: "char \<Rightarrow> bool" where
  "starts_object c \<longleftrightarrow> \<not> IsWhiteSpace c \<and> \<not> re_space c \<and> c \<noteq> CHR '']'' \<and> c \<noteq> CHR ''%'' \<and> c \<noteq> CHR ''R'' \<and> c \<noteq> CHR ''>''"

lemma number_text_start_object:
  assumes "number_text point str"
  shows "\<exists>c t. str = c # t \<and> starts_object c \<and> c \<notin> {CHR ''/'', CHR ''('', CHR ''['', CHR ''<''}"
  using assms
  by (cases rule: number_text_cases) (auto simp: starts_object_def IsDecimalDigit_def IsWhiteSpace_def re_space_def)

lemma WriteString_start:
  assumes "writable F x"
  shows "\<exists>c t. WriteString F x = c # t \<and> starts_object c \<and> (c = CHR ''/'' \<longleftrightarrow> is_name x)"
proof (cases x)
  case (PdfObjectInteger v)
  then show ?thesis using number_text_start_object [OF number_text_show_int64 [of v]] by auto
next
  case (PdfObjectFloat f)
  then show ?thesis using assms number_text_start_object [of True "FormatFloat F f"] by auto
next
  case (PdfObjectReference n g)
  then obtain c t where "show_int64 n = c # t" "starts_object c" "c \<noteq> CHR ''/''"
    using number_text_start_object [OF number_text_show_int64 [of n]] by auto
  with PdfObjectReference show ?thesis by (simp add: ref_WriteString_def)
qed (use assms in \<open>auto simp: show_bool_def string_WriteString_def name_WriteString_def dict_WriteString_def
    starts_object_def IsWhiteSpace_def re_space_def\<close>)

text \<open>The text of an element after a space does not continue a reference.\<close>

lemma element_not_tail:
  assumes "writable F x" "ok_rest s"
  shows "match_tail (CHR '' '' # WriteString F x @ s) = None"
proof -
  obtain c t where c: "WriteString F x = c # t" "starts_object c"
    using WriteString_start [OF assms(1)] by blast
  have sp: "re_space CHR '' ''" by (simp add: re_space_def)
  have drop: "dropWhile re_space (CHR '' '' # WriteString F x @ s) = WriteString F x @ s"
    using c sp by (simp add: starts_object_def)
  let ?g = "takeWhile IsDecimalDigit (WriteString F x @ s)"
  let ?r = "dropWhile IsDecimalDigit (WriteString F x @ s)"
  show ?thesis
  proof (cases "IsDecimalDigit c")
    case False
    then show ?thesis using c drop by (simp add: match_tail_def)
  next
    case True
    have num: "\<not> space_R (dropWhile IsDecimalDigit (str @ s))"
      if str: "number_text point str" "hd str = c" for point str
    proof (cases point)
      case point: True
      with number_text_rest [OF str(1)] str(2) digit_not_sign [OF True]
      obtain u where "dropWhile IsDecimalDigit str = CHR ''.'' # u" by (metis list.collapse)
      then have "dropWhile IsDecimalDigit (str @ s) = CHR ''.'' # u @ s"
        by (auto simp: dropWhile_append dest: dropWhile_eq_Nil_conv [THEN iffD2])
      then show ?thesis by (simp add: space_R_def re_space_def)
    next
      case False
      with number_text_rest [OF str(1)] str(2) digit_not_sign [OF True]
      have "\<forall>x \<in> set str. IsDecimalDigit x" by (simp add: dropWhile_eq_Nil_conv)
      then have "dropWhile IsDecimalDigit (str @ s) = dropWhile IsDecimalDigit s"
        by (simp add: dropWhile_append2)
      also have "\<dots> = s"
        using name_stop_not_number [of s] assms(2) by (cases s) (auto simp: ok_rest_def)
      finally show ?thesis using assms(2) by (simp add: ok_rest_def)
    qed
    have no: "\<not> space_R ?r"
    proof (cases x)
      case (PdfObjectInteger v)
      then show ?thesis using num [OF number_text_show_int64 [of v]] c by simp
    next
      case (PdfObjectFloat f)
      then show ?thesis using num [of True "FormatFloat F f"] c assms(1) by simp
    next
      case (PdfObjectReference n g)
      with assms(1) have ng: "0 \<le> sint n" "0 \<le> sint g" by simp_all
      have "dropWhile IsDecimalDigit (ref_WriteString n g @ s) = CHR '' '' # show_int64 g @ CHR '' '' # CHR ''R'' # s"
        using takeWhile_digits [OF show_nat_digits [of "nat (sint n)"], of "CHR '' ''"] ng
        by (simp add: ref_WriteString_def show_nat_of_sint IsDecimalDigit_def)
      moreover obtain d u where "show_int64 g = d # u" "IsDecimalDigit d"
        using show_nat_hd [of "nat (sint g)"] ng by (cases "show_int64 g") (auto simp: show_nat_of_sint)
      moreover have "re_space CHR '' ''" "\<not> re_space d" "d \<noteq> CHR ''R''"
        using calculation(3) by (auto simp: re_space_def IsDecimalDigit_def)
      ultimately show ?thesis by (simp add: PdfObjectReference space_R_def)
    qed (use c True assms(1) in \<open>auto simp: show_bool_def string_WriteString_def name_WriteString_def dict_WriteString_def
        IsDecimalDigit_def split: if_splits\<close>)
    then show ?thesis unfolding match_tail_def Let_def drop by (auto simp: space_R_def Let_def)
  qed
qed

section \<open>Round trip\<close>

lemma white_chars [simp]: "IsWhiteSpace CHR '' ''" "\<not> IsWhiteSpace CHR '']''" "\<not> IsWhiteSpace CHR ''/''"
  "\<not> IsWhiteSpace CHR ''>''" "\<not> IsWhiteSpace CHR ''<''" "\<not> IsWhiteSpace CHR ''[''" "\<not> IsWhiteSpace CHR ''(''"
  by (simp_all add: IsWhiteSpace_def)

lemma parse_ObjectCall:
  assumes "\<not> IsWhiteSpace c"
  shows "parse F ObjectCall (c # t) =
    (if c = CHR ''/'' then Some (parsed_as PdfObjectName (parseName (c # t)))
     else if c = CHR ''('' then Some (parseString F (c # t))
     else if c = CHR ''['' then parse F (ArrayLoop []) t
     else if c = CHR ''<'' \<and> t \<noteq> [] \<and> hd t = CHR ''<'' then parse F (DictLoop MakeDict) (tl t)
     else if c = CHR ''<'' then Some (parseHexString F (c # t))
     else if c = CHR ''%'' then parse F ObjectCall (snd (readComment (c # t)))
     else Some (parse_word F (c # t)))"
  using assms by (subst parse.simps) (cases t; simp add: pdf_skipSpaces_snd)

lemma parse_ArrayLoop_end:
  "parse F (ArrayLoop arr) (CHR '']'' # t) = Some (Inr (PdfObjectArray arr), t)"
  by (subst parse.simps) (simp add: pdf_skipSpaces_snd)

lemma parse_ArrayLoop_space: "parse F (ArrayLoop arr) (CHR '' '' # t) = parse F (ArrayLoop arr) t"
  by (subst (1 2) parse.simps) (simp add: pdf_skipSpaces_snd)

lemma parse_ArrayLoop_object:
  assumes "starts_object c" "parse F ObjectCall (c # t) = Some (Inr obj, s)"
  shows "parse F (ArrayLoop arr) (c # t) = parse F (ArrayLoop (arr @ [obj])) s"
  using assms by (subst parse.simps) (simp add: pdf_skipSpaces_snd starts_object_def)

lemma skipComments_none: "\<not> IsWhiteSpace c \<Longrightarrow> c \<noteq> CHR ''%'' \<Longrightarrow> skipComments (c # t) = (Inr (), c # t)"
  by (subst skipComments.simps) (simp add: pdf_skipSpaces_def)

lemma parse_DictLoop_end: "parse F (DictLoop d) (CHR ''>'' # CHR ''>'' # t) = Some (Inr (PdfObjectDictionary d), t)"
  by (subst parse.simps) (simp add: pdf_skipSpaces_snd skipComments_none)

lemma parse_DictLoop_entry:
  assumes "starts_object c" "ends_in_null k \<Longrightarrow> c \<noteq> CHR ''/''" "parse F ObjectCall (c # t) = Some (Inr obj, s)"
  shows "parse F (DictLoop d) (name_WriteString k @ CHR '' '' # c # t) = parse F (DictLoop (dict_Set k obj d)) s"
proof -
  have name: "parseName (name_WriteString k @ CHR '' '' # c # t) = (Inr k, CHR '' '' # c # t)"
    by (rule parseName_text) (simp add: name_stop_def)
  obtain u where u: "name_WriteString k @ CHR '' '' # c # t = CHR ''/'' # u" "u \<noteq> []"
    by (simp add: name_WriteString_def)
  have "\<not> IsWhiteSpace c"
    using assms(1) by (simp add: starts_object_def)
  with name assms(2,3) u(2) show ?thesis
    unfolding u(1)
    by (subst parse.simps) (auto simp: pdf_skipSpaces_snd skipComments_none Let_def)
qed

text \<open>Elements and entries, once their objects are parsed.\<close>

abbreviation parses :: "'f fops \<Rightarrow> 'f PdfObject \<Rightarrow> bool" where
  "parses F x \<equiv> \<forall>s. ok_rest s \<longrightarrow> parse F ObjectCall (WriteString F x @ s) = Some (Inr x, s)"

lemma ok_rest_closing: "ok_rest (CHR '']'' # s)" "ok_rest (CHR ''>'' # s)" "ok_rest (CHR ''/'' # s)"
  by (simp_all add: ok_rest_def name_stop_def match_tail_def space_R_def re_space_def)

lemma ok_rest_space:
  assumes "writable F x" "ok_rest s"
  shows "ok_rest (CHR '' '' # WriteString F x @ s)"
proof -
  obtain c t where "WriteString F x = c # t" "starts_object c" using WriteString_start [OF assms(1)] by blast
  then have "\<not> space_R (CHR '' '' # WriteString F x @ s)"
    by (simp add: space_R_def starts_object_def re_space_def)
  with element_not_tail [OF assms] show ?thesis by (simp add: ok_rest_def name_stop_def)
qed

lemma ok_rest_elements:
  "\<forall>x \<in> set vec. writable F x \<Longrightarrow> vec \<noteq> [] \<Longrightarrow>
    ok_rest (CHR '' '' # separated '' '' (map (WriteString F) vec) @ CHR '']'' # s)"
proof (induction vec)
  case (Cons x vec)
  then show ?case
  proof (cases vec)
    case Nil
    then show ?thesis using ok_rest_space [OF _ ok_rest_closing(1)] Cons.prems by simp
  next
    case (Cons y ys)
    then show ?thesis
      using Cons.IH Cons.prems ok_rest_space [of F x "CHR '' '' # separated '' '' (map (WriteString F) vec) @ CHR '']'' # s"]
      by simp
  qed
qed simp

lemma parse_elements:
  "\<forall>x \<in> set vec. writable F x \<and> parses F x \<Longrightarrow>
    parse F (ArrayLoop arr) (separated '' '' (map (WriteString F) vec) @ CHR '']'' # s) =
      Some (Inr (PdfObjectArray (arr @ vec)), s)"
proof (induction vec arbitrary: arr)
  case Nil
  then show ?case by (simp add: parse_ArrayLoop_end)
next
  case (Cons x vec)
  define r where "r = (if vec = [] then CHR '']'' # s
    else CHR '' '' # separated '' '' (map (WriteString F) vec) @ CHR '']'' # s)"
  have str_eq: "separated '' '' (map (WriteString F) (x # vec)) @ CHR '']'' # s = WriteString F x @ r"
    by (cases vec) (simp_all add: r_def)
  have "ok_rest r" using Cons.prems ok_rest_elements [of vec F s] ok_rest_closing by (auto simp: r_def)
  then have obj: "parse F ObjectCall (WriteString F x @ r) = Some (Inr x, r)" using Cons.prems by simp
  obtain c t where ct: "WriteString F x = c # t" "starts_object c"
    using WriteString_start [of F x] Cons.prems by auto
  have "parse F (ArrayLoop arr) (WriteString F x @ r) = parse F (ArrayLoop (arr @ [x])) r"
    using parse_ArrayLoop_object [OF ct(2), of F "t @ r"] obj by (simp add: ct)
  also have "\<dots> = Some (Inr (PdfObjectArray (arr @ x # vec)), s)"
    using Cons by (cases "vec = []") (simp_all add: r_def parse_ArrayLoop_space parse_ArrayLoop_end)
  finally show ?case by (simp only: str_eq)
qed

definition entries_text :: "'f fops \<Rightarrow> (string \<times> 'f PdfObject) list \<Rightarrow> string" where
  "entries_text F al = concat (map (\<lambda>(k, v). name_WriteString k @ '' '' @ WriteString F v) al)"

lemma WriteString_dict:
  assumes "dict_ok d"
  shows "WriteString F (PdfObjectDictionary d) = ''<<'' @ entries_text F (dict d) @ ''>>''"
proof -
  have "distinct (map fst (dict d))" "keys d = map fst (dict d)" using assms by (auto simp: dict_ok_def)
  then have "map_of (map (map_prod id (WriteString F)) (dict d)) k = Some (WriteString F v)"
    if "(k, v) \<in> set (dict d)" for k v
    using that by (intro map_of_is_SomeI) (force simp: comp_def)+
  then have "map (\<lambda>k. name_WriteString k @ '' '' @
      (case map_of (map (map_prod id (WriteString F)) (dict d)) k of Some t \<Rightarrow> t | None \<Rightarrow> '''')) (keys d) =
    map (\<lambda>(k, v). name_WriteString k @ '' '' @ WriteString F v) (dict d)"
    using \<open>keys d = map fst (dict d)\<close> by (auto simp: comp_def)
  then show ?thesis by (simp add: dict_WriteString_def entries_text_def)
qed

lemma parse_entries:
  assumes "dict_ok d" "distinct (map fst (dict d @ al))"
    "\<forall>(k, v) \<in> set al. writable F v \<and> parses F v \<and> \<not> (ends_in_null k \<and> is_name v)"
  shows "parse F (DictLoop d) (entries_text F al @ CHR ''>'' # CHR ''>'' # s) =
    Some (Inr (PdfObjectDictionary (PdfDict (dict d @ al) (keys d @ map fst al))), s)"
  using assms
proof (induction al arbitrary: d)
  case Nil
  then show ?case by (cases d) (simp add: entries_text_def parse_DictLoop_end)
next
  case (Cons kv al)
  obtain k v where kv: "kv = (k, v)" by (cases kv)
  define r where "r = entries_text F al @ CHR ''>'' # CHR ''>'' # s"
  have "ok_rest r"
  proof (cases al)
    case Nil
    then show ?thesis by (simp add: r_def entries_text_def ok_rest_closing)
  next
    case (Cons p ps)
    then show ?thesis by (cases p) (simp add: r_def entries_text_def name_WriteString_def ok_rest_closing)
  qed
  then have obj: "parse F ObjectCall (WriteString F v @ r) = Some (Inr v, r)" using Cons.prems kv by simp
  obtain c t where ct: "WriteString F v = c # t" "starts_object c" "c = CHR ''/'' \<longleftrightarrow> is_name v"
    using WriteString_start [of F v] Cons.prems kv by auto
  have new: "k \<notin> set (keys d)" using Cons.prems(1,2) kv by (auto simp: dict_ok_def)
  have "parse F (DictLoop d) (entries_text F (kv # al) @ CHR ''>'' # CHR ''>'' # s) =
      parse F (DictLoop (dict_Set k v d)) r"
    using parse_DictLoop_entry [OF ct(2), of k F "t @ r" v r d] obj ct Cons.prems(3) kv
    by (auto simp: entries_text_def r_def)
  also have "\<dots> = Some (Inr (PdfObjectDictionary (PdfDict (dict d @ kv # al) (keys d @ map fst (kv # al)))), s)"
    using Cons.IH [of "dict_Set k v d"] Cons.prems kv new
    by (simp add: r_def dict_Set_new dictionary.ok_put) (simp add: dict_ok_def)
  finally show ?case .
qed

lemma parse_number:
  assumes "number_text point str" "ok_rest s"
    "(if point then PdfObjectFloat (case ParseFloat F str of Some fVal \<Rightarrow> fVal | None \<Rightarrow> literal F 0)
      else PdfObjectInteger (case ParseInt str of Some intVal \<Rightarrow> intVal | None \<Rightarrow> 0)) = x"
  shows "parse F ObjectCall (str @ s) = Some (Inr x, s)"
proof -
  obtain c t where c: "str = c # t" "starts_object c" "c \<notin> {CHR ''/'', CHR ''('', CHR ''['', CHR ''<''}"
    using number_text_start_object [OF assms(1)] by blast
  have s: "name_stop s" "match_tail s = None" using assms(2) by (simp_all add: ok_rest_def)
  have "parse F ObjectCall (str @ s) = Some (parse_word F (str @ s))"
    using c by (simp add: parse_ObjectCall starts_object_def)
  also have "\<dots> = Some (pdf_parseNumber F (str @ s))"
    using parse_word_number [OF assms(1) _ s(1)] s(2) by simp
  also have "\<dots> = Some (Inr x, s)"
    using pdf_parseNumber_loop_text [OF assms(1) s(1)] assms(3) by (auto simp: pdf_parseNumber_def)
  finally show ?thesis .
qed

lemma parse_WriteString: "writable F x \<Longrightarrow> parses F x"
proof (induction x)
  case (PdfObjectBool b)
  show ?case
    by (cases b) (simp_all add: show_bool_def parse_ObjectCall IsWhiteSpace_def parse_word_def pdf_parseBool_def)
next
  case (PdfObjectInteger v)
  show ?case by (auto intro: parse_number [OF number_text_show_int64] simp: ParseInt_show_int64)
next
  case (PdfObjectFloat f)
  then show ?case by (auto intro: parse_number [where point = True])
next
  case (PdfObjectString val isHex)
  show ?case
  proof (intro allI impI)
    fix s
    show "parse F ObjectCall (WriteString F (PdfObjectString val isHex) @ s) = Some (Inr (PdfObjectString val isHex), s)"
    proof (cases isHex)
      case True
      obtain t where t: "WriteString F (PdfObjectString val isHex) @ s = CHR ''<'' # t"
        using True by (simp add: string_WriteString_def)
      have "t \<noteq> [] \<and> hd t \<noteq> CHR ''<''"
        using t True hex_digit_char by (cases val) (auto simp: string_WriteString_def EncodeToString_def hex_byte_def)
      with t True parse_string_text(1) [of val isHex s t F] show ?thesis by (simp add: parse_ObjectCall)
    next
      case False
      obtain t where t: "WriteString F (PdfObjectString val isHex) @ s = CHR ''('' # t"
        using False by (simp add: string_WriteString_def)
      with False parse_string_text(2) [of val isHex s t F] show ?thesis by (simp add: parse_ObjectCall)
    qed
  qed
next
  case (PdfObjectName name)
  show ?case
  proof (intro allI impI)
    fix s assume "ok_rest s"
    then have "parseName (name_WriteString name @ s) = (Inr name, s)"
      by (simp add: parseName_text ok_rest_def)
    then show "parse F ObjectCall (WriteString F (PdfObjectName name) @ s) = Some (Inr (PdfObjectName name), s)"
      by (simp add: name_WriteString_def parse_ObjectCall parsed_as_def)
  qed
next
  case (PdfObjectArray vec)
  then show ?case
    using parse_elements [of vec F "[]"] by (auto simp: parse_ObjectCall)
next
  case (PdfObjectDictionary d)
  have ok: "dict_ok d" and entries: "\<forall>(k, v) \<in> set (dict d). writable F v \<and> \<not> (ends_in_null k \<and> is_name v)"
    using PdfObjectDictionary.prems by auto
  have "parses F v" if "(k, v) \<in> set (dict d)" for k v
    using PdfObjectDictionary.IH [of v] entries that by (cases d) (force simp: snds.simps)
  with entries have "\<forall>(k, v) \<in> set (dict d). writable F v \<and> parses F v \<and> \<not> (ends_in_null k \<and> is_name v)" by blast
  from parse_entries [OF _ _ this, of MakeDict] ok show ?case
    by (cases d) (simp add: WriteString_dict parse_ObjectCall MakeDict_def dict_ok_def del: WriteString.simps)
next
  case PdfObjectNull
  show ?case by (simp add: parse_ObjectCall IsWhiteSpace_def parse_word_def parseNull_def)
next
  case (PdfObjectReference n g)
  obtain c t where c: "show_int64 n = c # t" "starts_object c" "c \<notin> {CHR ''/'', CHR ''('', CHR ''['', CHR ''<''}"
    using number_text_start_object [OF number_text_show_int64 [of n]] by blast
  have "parse F ObjectCall (ref_WriteString n g @ s) = Some (Inr (PdfObjectReference n g), s)" for s
  proof -
    obtain u where u: "ref_WriteString n g @ s = c # u" using c(1) by (simp add: ref_WriteString_def)
    have "parse_word F (ref_WriteString n g @ s) = (Inr (PdfObjectReference n g), s)"
      using PdfObjectReference by (intro parse_word_reference) auto
    with c show ?thesis unfolding u by (simp add: parse_ObjectCall starts_object_def)
  qed
  then show ?case by simp
qed simp_all

end
