(* ===== verification/Core_Termination.thy ===== *)
theory Core_Termination
  imports Core_Roundtrip "HOL-Library.Sublist"
begin

text \<open>
  The parser of objects returns on every text without a comma: each object, element and entry
  takes a byte at least, so the rest becomes shorter. A comma before a number is taken for a
  number and nothing is read, so an array with one between its elements is never left.
\<close>

section \<open>What the token parsers read\<close>

text \<open>A parse goes forward, and a value takes a byte at least.\<close>

definition reads :: "'a parsed \<Rightarrow> string \<Rightarrow> bool" where
  "reads p s \<longleftrightarrow> suffix (snd p) s \<and> (isl (fst p) \<or> length (snd p) < length s)"

lemma readsI: "suffix (snd p) t \<Longrightarrow> suffix t s \<Longrightarrow> length t < length s \<Longrightarrow> reads p s"
  by (auto simp: reads_def dest: suffix_length_le intro: suffix_order.trans)

lemma suffix_pdf_skipSpaces: "suffix (snd (pdf_skipSpaces s)) s"
  by (simp add: pdf_skipSpaces_snd suffix_dropWhile)

lemma suffix_Cons: "suffix t s \<Longrightarrow> suffix t (c # s)"
  by (rule suffix_ConsI)

lemma suffix_readComment_loop: "suffix (snd (readComment_loop f r t)) t"
  by (induction t arbitrary: f r) (auto intro: suffix_ConsI)

lemma suffix_readComment: "suffix (snd (readComment s)) s"
proof -
  obtain r1 s1 where s1: "pdf_skipSpaces s = (r1, s1)" by (cases "pdf_skipSpaces s")
  then have "suffix s1 s" using suffix_pdf_skipSpaces [of s] by simp
  with s1 suffix_order.trans [OF suffix_readComment_loop this] show ?thesis
    by (simp add: readComment_def split: sum.split)
qed

lemma comment_shorter:
  assumes "u = snd (pdf_skipSpaces (snd (readComment (CHR ''%'' # t))))"
  shows "suffix u (CHR ''%'' # t)" "length u < length (CHR ''%'' # t)"
proof -
  have "suffix u t"
    unfolding assms readComment_percent pdf_skipSpaces_snd
    by (meson suffix_dropWhile suffix_order.trans)
  then show "suffix u (CHR ''%'' # t)" "length u < length (CHR ''%'' # t)"
    by (auto intro: suffix_ConsI dest: suffix_length_le)
qed

lemma suffix_skipComments: "suffix (snd (skipComments s)) s"
proof (induction s rule: length_induct)
  case (1 s)
  obtain r1 s1 where s1: "pdf_skipSpaces s = (r1, s1)" by (cases "pdf_skipSpaces s")
  then have a: "suffix s1 s" using suffix_pdf_skipSpaces [of s] by simp
  show ?case
  proof (cases "isl r1 \<or> s1 = [] \<or> hd s1 \<noteq> CHR ''%''")
    case True
    then show ?thesis
      using s1 a by (subst skipComments.simps) (auto split: sum.split prod.split)
  next
    case False
    then obtain t where t: "s1 = CHR ''%'' # t" by (cases s1) auto
    obtain r2 s2 where s2: "readComment_loop True [] s1 = (r2, s2)" by (cases "readComment_loop True [] s1")
    have "suffix s2 t" using suffix_readComment_loop [of False "''%''" t] s2 t by simp
    moreover have "suffix t s1" using t by (simp add: suffix_ConsI)
    ultimately have "suffix s2 s" using a by (meson suffix_order.trans)
    have "length s2 < length s"
      using suffix_length_le [OF \<open>suffix s2 t\<close>] suffix_length_le [OF a] by (simp add: t)
    with 1 have "suffix (snd (skipComments s2)) s2" by blast
    from suffix_order.trans [OF this \<open>suffix s2 s\<close>] have "suffix (snd (skipComments s2)) s" .
    with s1 s2 \<open>suffix s2 s\<close> a False show ?thesis
      by (subst skipComments.simps) (auto split: sum.split)
  qed
qed

lemma suffix_parseName_loop: "suffix (snd (parseName_loop n r s)) s"
proof (induction s arbitrary: n r rule: length_induct)
  case (1 s)
  have rec: "suffix (snd (parseName_loop n r u)) s" if "suffix u s" "length u < length s" for n r u
    using 1 that by (blast intro: suffix_order.trans)
  show ?case
  proof (cases s)
    case (Cons b t)
    have comment: "suffix (snd (pdf_skipSpaces (snd (readComment s)))) s"
      using suffix_pdf_skipSpaces suffix_readComment suffix_order.trans by blast
    have len: "length (snd (pdf_skipSpaces (snd (readComment s)))) < length s" if "b = CHR ''%''"
      using comment_shorter(2) [OF refl, of t] that Cons by simp
    have t: "suffix t s" "length t < length s" "suffix (drop 3 s) s" "length (drop 3 s) < length s"
      using Cons suffix_drop [of 3 s] by (auto intro: suffix_ConsI)
    note eq = parseName_loop.simps [of n r s, unfolded Cons list.case, folded Cons]
    consider (slash) "\<not> n" "b = CHR ''/''" | (comment) "\<not> n" "b = CHR ''%''"
      | (invalid) "\<not> n" "b \<noteq> CHR ''/''" "b \<noteq> CHR ''%''"
      | (stop) "n" "IsWhiteSpace b \<or> b \<in> set ''/[(]<>''"
      | (hex) "n" "b = CHR ''#''"
      | (char) "n" "b \<noteq> CHR ''#''" "\<not> IsWhiteSpace b" "b \<notin> set ''/[(]<>''"
      by blast
    then show ?thesis
    proof cases
      case slash
      then have "parseName_loop n r s = parseName_loop True r t" unfolding eq by simp
      then show ?thesis using rec [OF t(1,2)] by simp
    next
      case comment: comment
      then have "parseName_loop n r s = parseName_loop False r (snd (pdf_skipSpaces (snd (readComment s))))"
        unfolding eq by simp
      then show ?thesis using rec [OF \<open>suffix (snd (pdf_skipSpaces (snd (readComment s)))) s\<close> len [OF comment(2)]] by simp
    next
      case invalid
      then have "parseName_loop n r s = (Inl InvalidName, s)" unfolding eq by simp
      then show ?thesis by simp
    next
      case stop
      then have "parseName_loop n r s = (Inr r, s)" unfolding eq by auto
      then show ?thesis by simp
    next
      case hex
      obtain code ok where "DecodeString [s ! 1, s ! 2] = (code, ok)" by fastforce
      with hex have "parseName_loop n r s = (if length s < 3 then (Inl UnexpectedEOF, s)
          else parseName_loop True (r @ (if ok then code else ''#'')) (drop 3 s))"
        unfolding eq by (cases ok) (simp_all add: IsWhiteSpace_def)
      then show ?thesis using rec [OF t(3,4)] by simp
    next
      case char
      then have "parseName_loop n r s = parseName_loop True (r @ [b]) t" unfolding eq by simp
      then show ?thesis using rec [OF t(1,2)] by simp
    qed
  qed (simp add: parseName_loop.simps)
qed

lemma reads_parseName:
  assumes "s \<noteq> []"
  shows "reads (parseName s) s"
proof -
  obtain b t where s: "s = b # t" using assms by (cases s) auto
  consider "b = CHR ''/''" | "b = CHR ''%''" | "b \<noteq> CHR ''/''" "b \<noteq> CHR ''%''" by blast
  then show ?thesis
  proof cases
    case 1
    then show ?thesis
      unfolding parseName_def s
      by (subst parseName_loop.simps) (auto intro: readsI [OF suffix_parseName_loop] suffix_ConsI)
  next
    case 2
    then show ?thesis
      using comment_shorter [OF refl, of t] unfolding parseName_def s
      by (subst parseName_loop.simps) (auto intro: readsI [OF suffix_parseName_loop])
  next
    case 3
    then show ?thesis
      unfolding parseName_def s by (subst parseName_loop.simps) (auto simp: reads_def)
  qed
qed

lemma suffix_parseString_loop: "suffix (snd (parseString_loop n r s)) s"
proof (induction s arbitrary: n r rule: length_induct)
  case (1 s)
  have rec: "suffix (snd (parseString_loop n r u)) s" if "suffix u s" "length u < length s" for n r u
    using 1 that by (blast intro: suffix_order.trans)
  show ?case
  proof (cases s)
    case (Cons b t)
    then have t: "suffix t s" "length t < length s" by (auto intro: suffix_ConsI)
    have u: "suffix u s \<and> length u < length s \<and> suffix (drop k u) s \<and> length (drop k u) < length s"
      if "t = c # u" for c u k
      using that Cons suffix_drop [of k u]
      by (auto intro: suffix_ConsI suffix_order.trans [of _ u])
    show ?thesis
      unfolding parseString_loop.simps [of n r s]
      using rec t u Cons by (auto simp: Let_def split: list.split)
  qed (simp add: parseString_loop.simps)
qed

lemma reads_tail: "suffix (snd p) s \<Longrightarrow> reads p (c # s)"
  by (rule readsI [where t = s]) (auto intro: suffix_ConsI)

lemma reads_parseString: "reads (parseString F (c # s)) (c # s)"
proof (rule reads_tail)
  show "suffix (snd (parseString F (c # s))) s"
    using suffix_parseString_loop [of 1 "[]" s]
    by (auto simp: parseString_def split: prod.split sum.split)
qed

lemma reads_parseHexString: "reads (parseHexString F (c # s)) (c # s)"
proof (rule reads_tail)
  have "suffix (snd (parseHexString_loop r t)) t" for r t
    by (induction t arbitrary: r) (auto intro: suffix_ConsI)
  from this [of "[]" s] show "suffix (snd (parseHexString F (c # s))) s"
    by (auto simp: parseHexString_def Let_def split: prod.split sum.split)
qed

lemma suffix_pdf_parseNumber_loop: "suffix (snd (pdf_parseNumber_loop a f r s)) s"
  by (induction s arbitrary: a f r) (auto intro: suffix_ConsI)

lemma reads_pdf_parseNumber:
  assumes "IsDecimalDigit c \<or> c \<in> {CHR ''+'', CHR ''-'', CHR ''.''}"
  shows "reads (pdf_parseNumber F (c # s)) (c # s)"
proof (rule reads_tail)
  have "suffix (snd (pdf_parseNumber_loop True False [] (c # s))) s"
    using assms suffix_pdf_parseNumber_loop by auto
  moreover obtain f n u where "pdf_parseNumber_loop True False [] (c # s) = ((f, n), u)"
    by (metis prod.collapse)
  ultimately show "suffix (snd (pdf_parseNumber F (c # s))) s"
    unfolding pdf_parseNumber_def by (simp del: pdf_parseNumber_loop.simps)
qed

lemma reNumeric_first:
  assumes "reNumeric (c # t)" "c \<noteq> CHR '',''"
  shows "IsDecimalDigit c \<or> c \<in> {CHR ''+'', CHR ''-'', CHR ''.''}"
  using assms by (auto simp: reNumeric_def Let_def split: if_splits)

lemma reads_parse_word:
  assumes "c \<noteq> CHR '',''"
  shows "reads (parse_word F (c # s)) (c # s)"
proof -
  have drop: "suffix (drop k (c # s)) (c # s)" for k by (rule suffix_drop)
  have "suffix (tl (dropWhile P (c # s))) (c # s)" for P
    using suffix_tl suffix_dropWhile suffix_order.trans by blast
  moreover have "length (tl (dropWhile P (c # s))) < length (c # s)" for P
    using length_dropWhile_le [of P "c # s"] by (cases "dropWhile P (c # s)") auto
  ultimately have ref: "reads (r, tl (dropWhile P (c # s))) (c # s)" for r :: "pdf_error + 'a PdfObject" and P
    by (simp add: reads_def)
  have null: "reads (parseNull F (c # s)) (c # s)" "reads (pdf_parseBool F (c # s)) (c # s)"
    using drop [of 4] drop [of 5] by (auto simp: reads_def parseNull_def pdf_parseBool_def)
  have num: "reads (pdf_parseNumber F (c # s)) (c # s)" if "reNumeric (take 15 (c # s))"
    using that assms by (intro reads_pdf_parseNumber reNumeric_first [of c "take 14 s"]) simp_all
  show ?thesis
    using ref null num by (auto simp: parse_word_def Let_def reads_def simp del: dropWhile.simps take_Suc_Cons)
qed

section \<open>Every text without a comma\<close>

definition call_size :: "'f call \<Rightarrow> string \<Rightarrow> nat" where
  "call_size call s = 2 * length s + (case call of ObjectCall \<Rightarrow> 0 | _ \<Rightarrow> 1)"

definition parse_returns :: "'f fops \<Rightarrow> 'f call \<Rightarrow> string \<Rightarrow> bool" where
  "parse_returns F call s \<longleftrightarrow> (\<exists>p. parse F call s = Some p \<and> suffix (snd p) s \<and>
     (call = ObjectCall \<longrightarrow> reads p s))"

lemma parse_returns_value: "parse F call s = Some p \<Longrightarrow> reads p s \<Longrightarrow> parse_returns F call s"
  by (auto simp: parse_returns_def reads_def)

lemma parse_returns_stop: "parse F call s = Some (r, t) \<Longrightarrow> suffix t s \<Longrightarrow> isl r \<or> call \<noteq> ObjectCall \<Longrightarrow>
    parse_returns F call s"
  by (auto simp: parse_returns_def reads_def)

lemma parse_returns_step:
  assumes "parse F call s = parse F call' t" "parse_returns F call' t" "suffix t s"
    "call = ObjectCall \<Longrightarrow> call' = ObjectCall \<or> length t < length s"
  shows "parse_returns F call s"
proof -
  obtain p where p: "parse F call' t = Some p" "suffix (snd p) t" "call' = ObjectCall \<longrightarrow> reads p t"
    using assms(2) by (auto simp: parse_returns_def)
  have "suffix (snd p) s" using p(2) assms(3) by (rule suffix_order.trans)
  moreover have "length (snd p) \<le> length t" "length t \<le> length s"
    using p(2) assms(3) by (auto dest: suffix_length_le)
  ultimately show ?thesis
    using assms(1,4) p by (auto simp: parse_returns_def reads_def)
qed

lemma reads_parsed_as: "reads p s \<Longrightarrow> reads (parsed_as f p) s"
  by (cases p; cases "fst p") (auto simp: reads_def parsed_as_def)

lemma parse_ObjectCall_skip: "parse F ObjectCall (dropWhile IsWhiteSpace s) = parse F ObjectCall s"
  by (subst (1 2) parse.simps) (simp add: pdf_skipSpaces_snd)

lemma object_returns:
  assumes "\<not> IsWhiteSpace c" "c \<noteq> CHR '',''"
    and IH: "\<And>call t. suffix t u \<Longrightarrow> parse_returns F call t"
  shows "parse_returns F ObjectCall (c # u)"
proof -
  note eq = parse_ObjectCall [OF assms(1), of F u]
  have sub: "suffix t (c # u) \<and> length t < length (c # u)" if "suffix t u" for t
    using that by (auto intro: suffix_ConsI dest: suffix_length_le)
  consider "c = CHR ''/''" | "c = CHR ''(''" | "c = CHR ''[''"
    | "c = CHR ''<''" "u \<noteq> []" "hd u = CHR ''<''" | "c = CHR ''<''" "\<not> (u \<noteq> [] \<and> hd u = CHR ''<'')"
    | "c = CHR ''%''" | "c \<notin> set ''/([<%''"
    by auto
  then show ?thesis
  proof cases
    case 1
    with eq have "parse F ObjectCall (c # u) = Some (parsed_as PdfObjectName (parseName (c # u)))" by simp
    then show ?thesis by (rule parse_returns_value) (rule reads_parsed_as, rule reads_parseName, simp)
  next
    case 2
    with eq have "parse F ObjectCall (c # u) = Some (parseString F (c # u))" by simp
    then show ?thesis by (rule parse_returns_value) (rule reads_parseString)
  next
    case 3
    with eq have "parse F ObjectCall (c # u) = parse F (ArrayLoop []) u" by simp
    then show ?thesis by (rule parse_returns_step [OF _ IH]) (use sub [of u] in blast)+
  next
    case 4
    with eq have "parse F ObjectCall (c # u) = parse F (DictLoop MakeDict) (tl u)" by simp
    then show ?thesis by (rule parse_returns_step [OF _ IH]) (use sub [of "tl u"] suffix_tl in blast)+
  next
    case 5
    with eq have "parse F ObjectCall (c # u) = Some (parseHexString F (c # u))" by auto
    then show ?thesis by (rule parse_returns_value) (rule reads_parseHexString)
  next
    case 6
    have u: "suffix (snd (readComment (c # u))) u" unfolding 6 readComment_percent by (rule suffix_dropWhile)
    from 6 eq have "parse F ObjectCall (c # u) = parse F ObjectCall (snd (readComment (c # u)))" by simp
    then show ?thesis by (rule parse_returns_step [OF _ IH [OF u]]) (use sub [OF u] in blast)+
  next
    case 7
    with eq have "parse F ObjectCall (c # u) = Some (parse_word F (c # u))" by auto
    then show ?thesis by (rule parse_returns_value) (rule reads_parse_word [OF assms(2)])
  qed
qed

lemma loop_returns:
  assumes obj: "parse_returns F ObjectCall t"
    and loop: "\<And>x u. suffix u t \<Longrightarrow> length u < length t \<Longrightarrow> parse_returns F (next x) u"
    and step: "parse F call s = Option.bind (parse F ObjectCall t) (\<lambda>(r, u).
      case r of Inl err \<Rightarrow> Some (Inl err, u) | Inr x \<Rightarrow> parse F (next x) u)"
    and "suffix t s" "call \<noteq> ObjectCall"
  shows "parse_returns F call s"
proof -
  obtain r u where u: "parse F ObjectCall t = Some (r, u)" "reads (r, u) t"
    using obj by (auto simp: parse_returns_def)
  then have su: "suffix u s" using \<open>suffix t s\<close> by (auto simp: reads_def intro: suffix_order.trans)
  show ?thesis
  proof (cases r)
    case (Inl err)
    with u(1) su step \<open>call \<noteq> ObjectCall\<close> show ?thesis by (intro parse_returns_stop) simp_all
  next
    case (Inr x)
    with u(2) have "parse_returns F (next x) u" by (intro loop) (simp_all add: reads_def)
    with u(1) su step Inr \<open>call \<noteq> ObjectCall\<close> show ?thesis
      by (intro parse_returns_step [of F call s "next x" u]) simp_all
  qed
qed

lemma parse_no_comma: "CHR '','' \<notin> set s \<Longrightarrow> parse_returns F call s"
proof (induction "call_size call s" arbitrary: call s rule: less_induct)
  case less
  have IH: "parse_returns F call' t" if "suffix t s" "call_size call' t < call_size call s" for call' t
    using less set_mono_suffix [OF that(1)] that(2) by blast
  have shorter: "call_size call' t < call_size call s" if "length t < length s" for call' t
    using that by (simp add: call_size_def split: call.split)
  define t where "t = dropWhile IsWhiteSpace s"
  have t: "suffix t s" "length t \<le> length s" "t \<noteq> [] \<Longrightarrow> \<not> IsWhiteSpace (hd t)"
    unfolding t_def by (rule suffix_dropWhile, rule length_dropWhile_le, erule hd_dropWhile)
  show ?case
  proof (cases call)
    case ObjectCall
    show ?thesis
    proof (cases t)
      case Nil
      then show ?thesis unfolding ObjectCall
        by (intro parse_returns_stop [of F ObjectCall s "Inl UnexpectedEOF" "[]"])
          (subst parse.simps, simp_all add: pdf_skipSpaces_snd t_def)
    next
      case (Cons c u)
      have "parse_returns F call' v" if "suffix v u" for call' v
      proof (rule IH)
        show "suffix v s" using that t(1) Cons by (meson suffix_ConsI suffix_order.trans order_refl)
        show "call_size call' v < call_size call s"
          using that t(2) Cons by (intro shorter) (auto dest: suffix_length_le)
      qed
      moreover have "c \<noteq> CHR '',''" using less.prems set_mono_suffix [OF t(1)] Cons by auto
      ultimately have "parse_returns F ObjectCall t"
        unfolding Cons using t(3) Cons by (intro object_returns) simp_all
      then show ?thesis
        using t(1) parse_ObjectCall_skip [of F s] ObjectCall
        by (intro parse_returns_step [of F call s ObjectCall t]) (simp_all add: t_def)
    qed
  next
    case (ArrayLoop arr)
    note eq = parse.simps [of F call s, unfolded ArrayLoop call.case pdf_skipSpaces_snd Let_def, folded t_def]
    consider "t = []" | "t \<noteq> []" "hd t = CHR '']''" | "t \<noteq> []" "hd t \<noteq> CHR '']''" by blast
    then show ?thesis
    proof cases
      case 1
      with eq ArrayLoop show ?thesis by (intro parse_returns_stop [of F call s "Inl UnexpectedEOF" "[]"]) simp_all
    next
      case 2
      have "suffix (tl t) s" using t(1) suffix_tl suffix_order.trans by blast
      with 2 eq ArrayLoop show ?thesis
        by (intro parse_returns_stop [of F call s "Inr (PdfObjectArray arr)" "tl t"]) simp_all
    next
      case 3
      have obj: "parse_returns F ObjectCall t"
        using t(2) ArrayLoop by (intro IH t(1)) (simp add: call_size_def)
      have loop: "parse_returns F (ArrayLoop (arr @ [x])) u" if "suffix u t" "length u < length t" for x u
        using that t by (intro IH shorter) (auto intro: suffix_order.trans)
      show ?thesis
        by (rule loop_returns [OF obj loop _ t(1)]) (use 3 eq ArrayLoop in simp_all)
    qed
  next
    case (DictLoop d)
    define w where "w = snd (skipComments t)"
    note eq = parse.simps [of F call s, unfolded DictLoop call.case pdf_skipSpaces_snd Let_def, folded t_def w_def]
    have w: "suffix w s" unfolding w_def using suffix_skipComments t(1) suffix_order.trans by blast
    show ?thesis
    proof (cases "length w < 2 \<or> w ! 0 = CHR ''>'' \<and> w ! 1 = CHR ''>''")
      case True
      have "suffix (drop 2 w) s" using w suffix_drop suffix_order.trans by blast
      have "parse F call s = Some (if length w < 2 then (Inl UnexpectedEOF, w)
          else (Inr (PdfObjectDictionary d), drop 2 w))"
        using True eq DictLoop by auto
      with w \<open>suffix (drop 2 w) s\<close> DictLoop show ?thesis by (simp add: parse_returns_def)
    next
      case False
      obtain r n where n: "parseName w = (r, n)" by (cases "parseName w")
      have rn: "suffix n w" "isl r \<or> length n < length w"
        using reads_parseName [of w] False n by (cases w; auto simp: reads_def)+
      define v where "v = dropWhile IsWhiteSpace n"
      have v: "suffix v n" "suffix v s"
        unfolding v_def using suffix_dropWhile [of _ n] rn(1) w by (auto intro: suffix_order.trans)
      show ?thesis
      proof (cases r)
        case (Inl err)
        have "suffix n s" using rn(1) w by (rule suffix_order.trans)
        with False n Inl eq DictLoop show ?thesis
          by (intro parse_returns_stop [of F call s "Inl err" n]) auto
      next
        case (Inr keyName)
        have lv: "length v < length s"
          using rn Inr v(1) w by (auto dest!: suffix_length_le)
        consider "ends_in_null keyName" "v = []" | "ends_in_null keyName" "v \<noteq> []" "hd v = CHR ''/''"
          | "\<not> (ends_in_null keyName \<and> (v = [] \<or> hd v = CHR ''/''))" by blast
        then show ?thesis
        proof cases
          case 1
          with False n Inr eq v DictLoop show ?thesis
            by (intro parse_returns_stop [of F call s "Inl IndexPanic" v]) (auto simp: v_def)
        next
          case 2
          with False n Inr eq v(2) DictLoop IH [OF v(2) shorter [OF lv]] show ?thesis
            by (intro parse_returns_step [of F call s "DictLoop (dict_Set (take (length keyName - 4) keyName) PdfObjectNull d)" v])
              (auto simp: v_def)
        next
          case 3
          have obj: "parse_returns F ObjectCall v" by (rule IH [OF v(2) shorter [OF lv]])
          have loop: "parse_returns F (DictLoop (dict_Set keyName x d)) u" if "suffix u v" "length u < length v" for x u
            using that v lv by (intro IH shorter) (auto intro: suffix_order.trans)
          show ?thesis
            by (rule loop_returns [OF obj loop _ v(2)]) (use 3 False n Inr eq DictLoop in \<open>auto simp: v_def\<close>)
        qed
      qed
    qed
  qed
qed

section \<open>A comma before a number\<close>

text \<open>Where a comma comes next, \<open>parse_word\<close> takes it for a number if \<open>reNumeric\<close> does, but reads nothing.\<close>

lemma comma_word:
  "parse_word F (CHR '','' # s) =
    (if reNumeric (take 15 (CHR '','' # s)) then (Inr (PdfObjectInteger 0), CHR '','' # s)
     else (Inl UnexpectedPattern, CHR '','' # s))"
  by (simp add: parse_word_def reReference_def re_space_def IsDecimalDigit_def pdf_parseNumber_def ParseInt_def Let_def)

lemma parse_comma: "parse F ObjectCall (CHR '','' # s) = Some (parse_word F (CHR '','' # s))"
  by (subst parse_ObjectCall) (simp_all add: IsWhiteSpace_def)

lemma comma_stuck:
  fixes F :: "'f fops"
  assumes "reNumeric (take 15 (CHR '','' # s))"
  shows "parse F (ArrayLoop arr) (CHR '','' # s) = None"
proof -
  let ?t = "CHR '','' # s"
  have stuck: "F' = F \<longrightarrow> t = ?t \<longrightarrow>
      (case call of ObjectCall \<Rightarrow> y = (Inr (PdfObjectInteger 0), ?t) | ArrayLoop arr \<Rightarrow> False | _ \<Rightarrow> True)"
    if "parse F' call t = Some y" for F' call t y
    using that
  proof (induction rule: parse.raw_induct [rotated, consumes 1])
    case (1 f F' call t y)
    note IH = 1(1) and run = 1(2)
    show ?case
    proof (intro impI)
      assume eq: "F' = F" "t = ?t"
      show "case call of ObjectCall \<Rightarrow> y = (Inr (PdfObjectInteger 0), ?t) | ArrayLoop arr \<Rightarrow> False | _ \<Rightarrow> True"
      proof (cases call)
        case ObjectCall
        with run eq assms show ?thesis by (cases s) (simp_all add: pdf_skipSpaces_snd IsWhiteSpace_def comma_word)
      next
        case (ArrayLoop arr)
        with run eq obtain r u where u: "f F ObjectCall ?t = Some (r, u)"
          "(case r of Inl err \<Rightarrow> Some (Inl err, u) | Inr obj \<Rightarrow> f F (ArrayLoop (arr @ [obj])) u) = Some y"
          by (auto simp: pdf_skipSpaces_snd IsWhiteSpace_def bind_eq_Some_conv)
        with IH [OF u(1)] have "f F (ArrayLoop (arr @ [PdfObjectInteger 0])) ?t = Some y" by simp
        with IH [OF this] show ?thesis by simp
      qed simp
    qed
  qed
  show ?thesis
  proof (cases "parse F (ArrayLoop arr) ?t")
    case (Some y)
    from stuck [OF this] show ?thesis by simp
  qed simp
qed

lemma array_comma:
  "parse F (ArrayLoop arr) (CHR '','' # s) =
    (if reNumeric (take 15 (CHR '','' # s)) then None else Some (Inl UnexpectedPattern, CHR '','' # s))"
proof (cases "reNumeric (take 15 (CHR '','' # s))")
  case False
  then show ?thesis
    by (subst parse.simps) (simp add: pdf_skipSpaces_snd IsWhiteSpace_def parse_comma comma_word)
qed (simp only: comma_stuck if_True)

lemma parse_array_start: "parseObject F (CHR ''['' # s) = parse F (ArrayLoop []) s"
  by (simp add: parseObject_def parse_ObjectCall)

text \<open>The text \<open>s\<close> begins with the objects \<open>xs\<close>, after which \<open>t\<close> is left.\<close>

inductive begins_with :: "'f fops \<Rightarrow> string \<Rightarrow> 'f PdfObject list \<Rightarrow> string \<Rightarrow> bool" where
  no_object: "begins_with F s [] (dropWhile IsWhiteSpace s)"
| an_object: "parseObject F s = Some (Inr x, u) \<Longrightarrow> begins_with F u xs t \<Longrightarrow> begins_with F s (x # xs) t"

lemma parse_ArrayLoop_skip: "parse F (ArrayLoop arr) (dropWhile IsWhiteSpace s) = parse F (ArrayLoop arr) s"
  by (subst (1 2) parse.simps) (simp add: pdf_skipSpaces_snd)

lemma parse_bracket: "parse F ObjectCall (CHR '']'' # s) = Some (Inl UnexpectedPattern, CHR '']'' # s)"
  by (subst parse_ObjectCall)
    (simp_all add: IsWhiteSpace_def parse_word_def reReference_def re_space_def reNumeric_def IsDecimalDigit_def)

lemma parse_ArrayLoop_next:
  assumes "parseObject F s = Some (Inr x, u)"
  shows "parse F (ArrayLoop arr) s = parse F (ArrayLoop (arr @ [x])) u"
proof -
  define t where "t = dropWhile IsWhiteSpace s"
  have x: "parse F ObjectCall t = Some (Inr x, u)"
    using assms by (simp add: parseObject_def t_def parse_ObjectCall_skip)
  have "t \<noteq> []" using x by (auto simp: parse.simps [of F ObjectCall "[]"] pdf_skipSpaces_snd)
  moreover have "hd t \<noteq> CHR '']''" using x parse_bracket [of F "tl t"] \<open>t \<noteq> []\<close> by (cases t) auto
  ultimately show ?thesis
    using x by (subst parse.simps) (simp add: pdf_skipSpaces_snd flip: t_def)
qed

lemma parse_ArrayLoop_begins:
  "begins_with F s xs t \<Longrightarrow> parse F (ArrayLoop arr) s = parse F (ArrayLoop (arr @ xs)) t"
proof (induction arbitrary: arr rule: begins_with.induct)
  case (no_object F s)
  then show ?case by (simp add: parse_ArrayLoop_skip)
next
  case (an_object F s x u xs t)
  then show ?case by (simp add: parse_ArrayLoop_next)
qed

text \<open>Objects that were written begin a text.\<close>

lemma begins_with_written:
  assumes "list_all (writable F) xs"
  shows "begins_with F (concat (map (\<lambda>x. '' '' @ WriteString F x) xs) @ '' ,'' @ s) xs (CHR '','' # s) \<and>
    ok_rest (concat (map (\<lambda>x. '' '' @ WriteString F x) xs) @ '' ,'' @ s)"
  using assms
proof (induction xs)
  case Nil
  have "begins_with F ('' ,'' @ s) [] (dropWhile IsWhiteSpace ('' ,'' @ s))" by (rule no_object)
  then show ?case by (simp add: IsWhiteSpace_def ok_rest_def name_stop_def match_tail_def space_R_def re_space_def IsDecimalDigit_def)
next
  case (Cons x xs)
  define r where "r = concat (map (\<lambda>x. '' '' @ WriteString F x) xs) @ '' ,'' @ s"
  from Cons have x: "writable F x" and r: "begins_with F r xs (CHR '','' # s)" "ok_rest r" by (simp_all add: r_def)
  have "parse F ObjectCall (CHR '' '' # WriteString F x @ r) = parse F ObjectCall (WriteString F x @ r)"
    by (subst (1 2) parse_ObjectCall_skip [symmetric]) simp
  then have "parseObject F (CHR '' '' # WriteString F x @ r) = Some (Inr x, r)"
    using parse_WriteString [OF x] r(2) by (simp add: parseObject_def)
  from an_object [OF this r(1)] ok_rest_space [OF x r(2)] show ?case by (simp add: r_def)
qed

end
