(* ===== verification/Core_Properties.thy ===== *)
theory Core_Properties
  imports Core_Termination
begin

text \<open>
  The properties of the primitive objects and their parser, each followed by a theorem that
  applies it to concrete objects.
\<close>

section \<open>Reading what was written\<close>

text \<open>C1: an object that is written is read back as itself, and the rest of the input is left
  alone: null, booleans, integers of any value, reals that their formatting keeps, literal and
  hexadecimal strings of any bytes, names of any bytes, references, arrays and dictionaries, nested
  to any depth. Excluded are keys that end in \<open>null\<close> before a name, and references of more than
  15 characters.\<close>
theorem pdf_parse_write:
  assumes "writable F x" "ok_rest s"
  shows "parseObject F (WriteString F x @ s) = Some (Inr x, s)"
  using parse_WriteString [OF assms(1)] assms(2) by (simp add: parseObject_def)

lemma pdf_parse_write_witness:
  "parseObject int_fops (WriteString int_fops (PdfObjectArray [PdfObjectInteger (- 7), PdfObjectNull,
      PdfObjectString ''a(b)'' False, PdfObjectReference 12 0, PdfObjectName ''A B'',
      PdfObjectDictionary (dict_Set ''K'' (PdfObjectString ''xy'' True) MakeDict)]) @ '' 5'') =
    Some (Inr (PdfObjectArray [PdfObjectInteger (- 7), PdfObjectNull,
      PdfObjectString ''a(b)'' False, PdfObjectReference 12 0, PdfObjectName ''A B'',
      PdfObjectDictionary (dict_Set ''K'' (PdfObjectString ''xy'' True) MakeDict)]), '' 5'')"
proof (rule pdf_parse_write)
  have "length (ref_WriteString 12 0) = 6"
    by (simp add: ref_WriteString_def show_int64_def show_nat.simps)
  moreover have "dict_ok (dict_Set ''K'' (PdfObjectString ''xy'' True :: int PdfObject) MakeDict)"
    by (rule dictionary.ok_put [OF dictionary.ok_empty])
  ultimately show "writable int_fops (PdfObjectArray [PdfObjectInteger (- 7), PdfObjectNull,
      PdfObjectString ''a(b)'' False, PdfObjectReference 12 0, PdfObjectName ''A B'',
      PdfObjectDictionary (dict_Set ''K'' (PdfObjectString ''xy'' True) MakeDict)])"
    by (simp add: dict_Set_def MakeDict_def)
  show "ok_rest '' 5''"
    by (simp add: ok_rest_def name_stop_def match_tail_def space_R_def re_space_def IsDecimalDigit_def)
qed

text \<open>C14: the parser returns on every input without a comma, with an object or an error. It
  leaves an end of the input, and an object takes one byte at least.\<close>
theorem pdf_parse_returns:
  assumes "CHR '','' \<notin> set s"
  shows "\<exists>r rest. parseObject F s = Some (r, rest) \<and> suffix rest s \<and> (isl r \<or> length rest < length s)"
  using parse_no_comma [OF assms, of F ObjectCall] by (auto simp: parse_returns_def reads_def parseObject_def)

lemma pdf_parse_returns_witness:
  "\<exists>r rest. parseObject int_fops ''<< /A [ (unfinished'' = Some (r, rest) \<and>
    suffix rest ''<< /A [ (unfinished'' \<and> (isl r \<or> length rest < length ''<< /A [ (unfinished'')"
  by (rule pdf_parse_returns) simp

text \<open>C15: an array with any elements, after which a comma comes where the next element should begin: if \<open>reNumeric\<close>
  finds a number in the 15 characters from the comma on, then the comma is taken for a number, of which nothing is read,
  and the parser never comes out of the array; otherwise it returns the error for an unexpected pattern, at the comma.\<close>
theorem pdf_comma_diverges:
  assumes "begins_with F s xs (CHR '','' # t)"
  shows "parseObject F (CHR ''['' # s) =
    (if reNumeric (take 15 (CHR '','' # t)) then None else Some (Inl UnexpectedPattern, CHR '','' # t))"
  using parse_ArrayLoop_begins [OF assms] by (simp only: parse_array_start array_comma)

lemma pdf_comma_diverges_witness:
  "parseObject int_fops ''[1,2]'' = None \<and>
    parseObject int_fops ''[true , x]'' = Some (Inl UnexpectedPattern, '', x]'')"
proof
  have "parseObject int_fops ''1,2]'' = Some (Inr (PdfObjectInteger 1), '',2]'')"
    by (subst parseObject_def, subst parse_ObjectCall)
      (simp_all add: IsWhiteSpace_def parse_word_def reReference_def re_space_def match_tail_def reNumeric_def
        IsDecimalDigit_def pdf_parseNumber_def ParseInt_def digits_value_def)
  from an_object [OF this no_object] have "begins_with int_fops ''1,2]'' [PdfObjectInteger 1] '',2]''"
    by (simp add: IsWhiteSpace_def)
  from pdf_comma_diverges [OF this] show "parseObject int_fops ''[1,2]'' = None"
    by (simp add: reNumeric_def IsDecimalDigit_def)
  have "parseObject int_fops ''true , x]'' = Some (Inr (PdfObjectBool True), '' , x]'')"
    by (subst parseObject_def, subst parse_ObjectCall) (simp_all add: IsWhiteSpace_def parse_word_def pdf_parseBool_def)
  from an_object [OF this no_object]
  have "begins_with int_fops ''true , x]'' [PdfObjectBool True] '', x]''" by (simp add: IsWhiteSpace_def)
  from pdf_comma_diverges [OF this] show "parseObject int_fops ''[true , x]'' = Some (Inl UnexpectedPattern, '', x]'')"
    by (simp add: reNumeric_def IsDecimalDigit_def)
qed

text \<open>An array of objects as they are written, but with a comma and a digit after one of them, is one that is never left.\<close>
theorem written_comma_diverges:
  assumes "list_all (writable F) xs" "IsDecimalDigit c"
  shows "parseObject F (CHR ''['' # concat (map (\<lambda>x. '' '' @ WriteString F x) xs) @ '' ,'' @ c # s) = None"
proof -
  have "c \<notin> {CHR ''+'', CHR '','', CHR ''-'', CHR ''.''}" using assms(2) by (auto simp: IsDecimalDigit_def)
  with assms(2) have "reNumeric (take 15 (CHR '','' # c # s))" by (simp add: reNumeric_def)
  then show ?thesis
    using parse_ArrayLoop_begins [OF conjunct1 [OF begins_with_written [OF assms(1)]], of "[]" "c # s"]
    by (simp only: parse_array_start array_comma if_True)
qed

section \<open>Dictionaries\<close>

text \<open>C16: a dictionary is an ordered map: setting and removing keep its keys distinct and in
  step with its entries; a key has the value set last until it is removed; new keys come last,
  and removing leaves the order of the others; merging adds the entries of the other dictionary,
  which win.\<close>
theorem pdf_dict_laws:
  assumes "dict_ok d" "dict_ok e"
  shows "dict_ok (dict_Set k v d) \<and> dict_ok (dict_Remove k d) \<and> dict_ok (dict_Merge d e) \<and>
    dict_Get k' (dict_Set k v d) = (if k' = k then Some v else dict_Get k' d) \<and>
    dict_Get k' (dict_Remove k d) = (if k' = k then None else dict_Get k' d) \<and>
    dict_Get k' (dict_Merge d e) = (case dict_Get k' e of Some w \<Rightarrow> Some w | None \<Rightarrow> dict_Get k' d) \<and>
    dict_Keys (dict_Set k v d) = (if k \<in> set (dict_Keys d) then dict_Keys d else dict_Keys d @ [k]) \<and>
    dict_Keys (dict_Remove k d) = filter (\<lambda>k'. k' \<noteq> k) (dict_Keys d) \<and>
    (k \<in> set (dict_Keys d)) = (dict_Get k d \<noteq> None)"
  using assms
  by (simp add: dictionary.ok_put dictionary.ok_remove dict_Merge_eq dictionary.merge_ok dictionary.get_put
      dictionary.get_remove dictionary.merge_get dictionary.key_list_put dictionary.key_list_remove
      dictionary.key_list_get)

lemma pdf_dict_laws_witness:
  "dict_Get ''B'' (dict_Set ''A'' (1 :: nat) (PdfDict [(''B'', 2)] [''B''])) = Some 2"
proof -
  have "dict_ok (PdfDict [(''B'', 2 :: nat)] [''B''])" by (simp add: dict_ok_def)
  from pdf_dict_laws [OF this this, of "''A''" 1 "''B''"] show ?thesis by (simp add: dict_Get_def)
qed

text \<open>a key that ends in \<open>null\<close> (and is longer) before a name is taken for a key with a
  null value, and the name for the next key: a dictionary that was written this way is refused.
  When the input ends after such a key, the parser panics.\<close>
theorem pdf_null_keys:
  assumes "ends_in_null k" "\<not> ends_in_null n"
  shows "parseObject F (WriteString F (PdfObjectDictionary (dict_Set k (PdfObjectName n) MakeDict))) =
      Some (Inl UnexpectedPattern, ''>>'') \<and>
    parseObject F (''<<'' @ name_WriteString k) = Some (Inl IndexPanic, [])"
proof (rule conjI)
  have skip: "snd (skipComments (CHR ''/'' # u)) = CHR ''/'' # u" for u by (simp add: skipComments_none)
  have name: "name_WriteString m @ s = CHR ''/'' # concat (map name_char m) @ s" for m s
    by (simp add: name_WriteString_def)
  have k_name: "parseName (name_WriteString k @ CHR '' '' # u) = (Inr k, CHR '' '' # u)" for u
    by (rule parseName_text) (simp add: name_stop_def)
  have n_name: "parseName (name_WriteString n @ ''>>'') = (Inr n, ''>>'')"
    by (rule parseName_text) (simp add: name_stop_def)
  have word: "parse F ObjectCall ''>>'' = Some (Inl UnexpectedPattern, ''>>'')"
    by (simp add: parse_ObjectCall parse_word_def reReference_def re_space_def reNumeric_def IsDecimalDigit_def)
  have second: "parse F (DictLoop d) (name_WriteString n @ ''>>'') = Some (Inl UnexpectedPattern, ''>>'')" for d
    using n_name word assms(2) unfolding name
    by (subst parse.simps) (simp add: pdf_skipSpaces_snd skip)
  have first: "parse F (DictLoop MakeDict) (name_WriteString k @ CHR '' '' # name_WriteString n @ ''>>'') =
      Some (Inl UnexpectedPattern, ''>>'')"
    using k_name [of "name_WriteString n @ ''>>''"] second assms(1) unfolding name [of k]
    by (subst parse.simps) (simp add: pdf_skipSpaces_snd skip name)
  have "WriteString F (PdfObjectDictionary (dict_Set k (PdfObjectName n) MakeDict)) =
      CHR ''<'' # CHR ''<'' # name_WriteString k @ CHR '' '' # name_WriteString n @ ''>>''"
    by (simp add: dict_Set_def MakeDict_def dict_WriteString_def)
  with first show "parseObject F (WriteString F (PdfObjectDictionary (dict_Set k (PdfObjectName n) MakeDict))) =
      Some (Inl UnexpectedPattern, ''>>'')"
    by (simp only: parseObject_def) (simp add: parse_ObjectCall)
next
  have "parseName (name_WriteString k @ []) = (Inr k, [])" by (rule parseName_text) (simp add: name_stop_def)
  moreover have "concat (map name_char k) \<noteq> []"
    using assms(1) by (cases k) (auto simp: ends_in_null_def name_char_def)
  then obtain c u where "concat (map name_char k) = c # u" by (meson neq_Nil_conv)
  ultimately have "parse F (DictLoop MakeDict) (name_WriteString k) = Some (Inl IndexPanic, [])"
    using assms(1) unfolding name_WriteString_def
    by (subst parse.simps) (simp add: pdf_skipSpaces_snd skipComments_none)
  then show "parseObject F (''<<'' @ name_WriteString k) = Some (Inl IndexPanic, [])"
    by (simp add: parseObject_def parse_ObjectCall)
qed

lemma pdf_null_keys_witness:
  "parseObject int_fops (''<<'' @ name_WriteString ''Boundsnull'') = Some (Inl IndexPanic, [])"
  using pdf_null_keys [of "''Boundsnull''" "''A''" int_fops] by (simp add: ends_in_null_def)

text \<open>a real whose shortest text has no point is read as an integer, and as zero when it
  does not fit in 64 bits.\<close>
theorem pdf_float_without_point:
  assumes "FormatFloat F f = show_nat n" "ok_rest s"
  shows "parseObject F (WriteString F (PdfObjectFloat f) @ s) =
    Some (Inr (PdfObjectInteger (if n < 2 ^ 63 then of_nat n else 0)), s)"
proof -
  have no_point: "CHR ''.'' \<notin> set (show_nat n)"
    using show_nat_digits [of n] by (auto simp: list_all_iff IsDecimalDigit_def)
  have "hd (show_nat n) \<noteq> CHR ''-''" "hd (show_nat n) \<noteq> CHR ''+''"
    using digit_not_sign [OF show_nat_hd] by blast+
  with show_nat_digits [of n] show_nat_hd [of n] no_point
  have "number_text False (show_nat n)" "ParseInt (show_nat n) = (if n < 2 ^ 63 then Some (of_nat n) else None)"
    by (auto simp: number_text_def Let_def ParseInt_def list_all_iff)
  then show ?thesis
    using assms by (auto simp: parseObject_def intro!: parse_number)
qed

lemma pdf_float_without_point_witness:
  "parseObject (int_fops\<lparr>FormatFloat := \<lambda>v. show_nat (nat v)\<rparr>)
      (WriteString (int_fops\<lparr>FormatFloat := \<lambda>v. show_nat (nat v)\<rparr>) (PdfObjectFloat (10 ^ 20)) @ []) =
    Some (Inr (PdfObjectInteger 0), [])"
proof -
  have "ok_rest []" by (simp add: ok_rest_def name_stop_def match_tail_def space_R_def)
  then show ?thesis
    using pdf_float_without_point [of "int_fops\<lparr>FormatFloat := \<lambda>v. show_nat (nat v)\<rparr>" "10 ^ 20" "10 ^ 20" "[]"]
    by simp
qed

end
