(* ===== verification/Core_Access.thy ===== *)
theory Core_Access
  imports Core_Dict
begin

text \<open>
  Access to objects through references and indirect objects (\<open>TraceToDirectObject\<close> and the
  getters of \<open>pdf/core/primitives.go\<close>). What a reference stands for is looked up in a file,
  which is not modelled: \<open>resolve\<close> is \<open>PdfObjectReference.Resolve\<close>. A nil object is \<open>None\<close>.
\<close>

type_synonym 'f resolver = "u64 \<Rightarrow> u64 \<Rightarrow> 'f PdfObject"

definition ResolveReference :: "'f resolver \<Rightarrow> 'f PdfObject \<Rightarrow> 'f PdfObject" where
  "ResolveReference resolve obj = (case obj of PdfObjectReference n g \<Rightarrow> resolve n g | _ \<Rightarrow> obj)"

text \<open>The object that an indirect object contains.\<close>

definition GetIndirect :: "'f resolver \<Rightarrow> 'f PdfObject \<Rightarrow> 'f PdfObject option" where
  "GetIndirect resolve obj = (case ResolveReference resolve obj of PdfIndirectObject _ _ inner \<Rightarrow> Some inner | _ \<Rightarrow> None)"

definition traceMaxDepth :: nat where
  "traceMaxDepth = 10"

text \<open>The loop, for the object \<open>obj\<close> in the last indirect object; the number is what is left of the depth.\<close>

fun trace_loop :: "'f resolver \<Rightarrow> nat \<Rightarrow> 'f PdfObject \<Rightarrow> 'f PdfObject option" where
  "trace_loop resolve 0 obj = None"
| "trace_loop resolve (Suc depth) obj =
    (case GetIndirect resolve obj of
       Some inner \<Rightarrow> trace_loop resolve depth inner
     | None \<Rightarrow> Some obj)"

definition TraceToDirectObject :: "'f resolver \<Rightarrow> 'f PdfObject option \<Rightarrow> 'f PdfObject option" where
  "TraceToDirectObject resolve obj =
    (case map_option (ResolveReference resolve) obj of
       Some (PdfIndirectObject _ _ inner) \<Rightarrow> trace_loop resolve traceMaxDepth inner
     | direct \<Rightarrow> direct)"

definition GetBoolVal :: "'f resolver \<Rightarrow> 'f PdfObject option \<Rightarrow> bool option" where
  "GetBoolVal resolve obj = (case TraceToDirectObject resolve obj of Some (PdfObjectBool b) \<Rightarrow> Some b | _ \<Rightarrow> None)"

definition GetIntVal :: "'f resolver \<Rightarrow> 'f PdfObject option \<Rightarrow> int option" where
  "GetIntVal resolve obj = (case TraceToDirectObject resolve obj of Some (PdfObjectInteger v) \<Rightarrow> Some (sint v) | _ \<Rightarrow> None)"

definition GetFloatVal :: "'f resolver \<Rightarrow> 'f PdfObject option \<Rightarrow> 'f option" where
  "GetFloatVal resolve obj = (case TraceToDirectObject resolve obj of Some (PdfObjectFloat x) \<Rightarrow> Some x | _ \<Rightarrow> None)"

definition GetNameVal :: "'f resolver \<Rightarrow> 'f PdfObject option \<Rightarrow> string option" where
  "GetNameVal resolve obj = (case TraceToDirectObject resolve obj of Some (PdfObjectName s) \<Rightarrow> Some s | _ \<Rightarrow> None)"

definition GetArray :: "'f resolver \<Rightarrow> 'f PdfObject option \<Rightarrow> 'f PdfObject list option" where
  "GetArray resolve obj = (case TraceToDirectObject resolve obj of Some (PdfObjectArray vec) \<Rightarrow> Some vec | _ \<Rightarrow> None)"

definition GetDict :: "'f resolver \<Rightarrow> 'f PdfObject option \<Rightarrow> 'f PdfObject pdf_dict option" where
  "GetDict resolve obj = (case TraceToDirectObject resolve obj of Some (PdfObjectDictionary d) \<Rightarrow> Some d | _ \<Rightarrow> None)"

fun ToIntegerArray :: "'f PdfObject list \<Rightarrow> core_error + int list" where
  "ToIntegerArray [] = Inr []"
| "ToIntegerArray (obj # vec) =
    (case obj of
       PdfObjectInteger number \<Rightarrow> map_sum id ((#) (sint number)) (ToIntegerArray vec)
     | _ \<Rightarrow> Inl ErrTypeError)"

section \<open>Numbers in dictionaries\<close>

definition MakeInteger :: "int \<Rightarrow> 'f PdfObject" where
  "MakeInteger val = PdfObjectInteger (of_int val)"

definition in_int64 :: "int \<Rightarrow> bool" where
  "in_int64 x \<longleftrightarrow> - (2 ^ 63) \<le> x \<and> x < 2 ^ 63"

lemma sint_in_int64: "in_int64 (sint (v :: u64))"
  using sint_ge [of v] sint_lt [of v] by (simp add: in_int64_def)

lemma sint_of_int64 [simp]: "in_int64 x \<Longrightarrow> sint (of_int x :: u64) = x"
  by (simp add: in_int64_def signed_of_int signed_take_bit_int_eq_self)

section \<open>Tracing\<close>

text \<open>An object that is neither a reference nor indirect is found as it is.\<close>

fun is_direct :: "'f PdfObject \<Rightarrow> bool" where
  "is_direct (PdfObjectReference n g) = False"
| "is_direct (PdfIndirectObject n g obj) = False"
| "is_direct obj = True"

lemma Trace_None [simp]: "TraceToDirectObject resolve None = None"
  by (simp add: TraceToDirectObject_def)

lemma Trace_direct [simp]: "is_direct obj \<Longrightarrow> TraceToDirectObject resolve (Some obj) = Some obj"
  by (cases obj) (simp_all add: TraceToDirectObject_def ResolveReference_def)

lemma Trace_indirect: "is_direct obj \<Longrightarrow> TraceToDirectObject resolve (Some (PdfIndirectObject n g obj)) = Some obj"
  by (cases obj) (simp_all add: TraceToDirectObject_def ResolveReference_def traceMaxDepth_def numeral_eq_Suc GetIndirect_def)

text \<open>What is found is never an indirect object, and nothing is found beyond the depth.\<close>

lemma trace_loop_not_indirect: "trace_loop resolve depth obj = Some r \<Longrightarrow> GetIndirect resolve r = None"
  by (induction resolve depth obj rule: trace_loop.induct) (auto split: option.splits)

lemma Trace_not_indirect: "TraceToDirectObject resolve obj \<noteq> Some (PdfIndirectObject n g inner)"
  by (cases obj)
    (auto simp: TraceToDirectObject_def split: PdfObject.splits dest!: trace_loop_not_indirect
      simp: GetIndirect_def ResolveReference_def)

end
