(* ===== verification/Crypt_Primitives.thy ===== *)
theory Crypt_Primitives
  imports Go_Prelude
begin

text \<open>
  What encryption uses of the packages under \<open>crypto\<close>. The digests, the key stream of RC4 and the block functions
  of AES are the fields of the record \<open>primitives\<close>, a parameter of every definition that encrypts; \<open>primitives_ok\<close> states
  what their documentation promises. The modes of operation, CBC of \<open>crypto/cipher\<close> and ECB of
  \<open>pdf/core/security/ecb.go\<close>, are defined over them. The source of random bytes is the list of the bytes that it will
  deliver; when too few are left, reading from it fails.
\<close>

type_synonym bytes = "u8 list"

datatype crypt_error =
    KeySizeError
  | RandomError
  | HashLength
  | InvalidR
  | InvalidField
  | InvalidPermissions
  | BufLength
  | InvalidPadLength
  | UnsupportedFilter
  | InvalidFilterLength
  | UnknownFilter
  | MissingField string
  | InvalidEncryptField string
  | InvalidCF
  | LookupError

record primitives =
  md5 :: "bytes \<Rightarrow> bytes"
  sha256 :: "bytes \<Rightarrow> bytes"
  sha384 :: "bytes \<Rightarrow> bytes"
  sha512 :: "bytes \<Rightarrow> bytes"
  rc4_stream :: "bytes \<Rightarrow> nat \<Rightarrow> u8"
  aes_encrypt :: "bytes \<Rightarrow> bytes \<Rightarrow> bytes"
  aes_decrypt :: "bytes \<Rightarrow> bytes \<Rightarrow> bytes"

definition aes_key :: "bytes \<Rightarrow> bool" where
  "aes_key key \<longleftrightarrow> length key = 16 \<or> length key = 24 \<or> length key = 32"

definition primitives_ok :: "primitives \<Rightarrow> bool" where
  "primitives_ok L \<longleftrightarrow>
    (\<forall>x. length (md5 L x) = 16 \<and> length (sha256 L x) = 32 \<and> length (sha384 L x) = 48 \<and> length (sha512 L x) = 64) \<and>
    (\<forall>key b. aes_key key \<longrightarrow> length b = 16 \<longrightarrow>
      length (aes_encrypt L key b) = 16 \<and> aes_decrypt L key (aes_encrypt L key b) = b)"

lemma digest_lengths:
  "primitives_ok L \<Longrightarrow> length (md5 L x) = 16" "primitives_ok L \<Longrightarrow> length (sha256 L x) = 32"
  "primitives_ok L \<Longrightarrow> length (sha384 L x) = 48" "primitives_ok L \<Longrightarrow> length (sha512 L x) = 64"
  by (simp_all add: primitives_ok_def)

section \<open>Random bytes\<close>

text \<open>\<open>io.ReadFull(rand.Reader, b)\<close> for \<open>n\<close> bytes: the bytes and the source after them.\<close>

definition ReadFull :: "nat \<Rightarrow> bytes \<Rightarrow> (crypt_error, bytes \<times> bytes) res" where
  "ReadFull n rnd = (if n \<le> length rnd then Ok (take n rnd, drop n rnd) else Err RandomError)"

lemma ReadFull_Ok: "ReadFull n rnd = Ok (b, rnd') \<longleftrightarrow> n \<le> length rnd \<and> b = take n rnd \<and> rnd' = drop n rnd"
  by (auto simp: ReadFull_def)

section \<open>RC4\<close>

definition xor_bytes :: "bytes \<Rightarrow> bytes \<Rightarrow> bytes" where
  "xor_bytes xs ys = map2 (XOR) xs ys"

text \<open>\<open>XORKeyStream\<close> of a new cipher; \<open>NewCipher\<close> wants a key of 1 to 256 bytes.\<close>

definition rc4_key :: "bytes \<Rightarrow> bool" where
  "rc4_key key \<longleftrightarrow> 1 \<le> length key \<and> length key \<le> 256"

definition rc4 :: "primitives \<Rightarrow> bytes \<Rightarrow> bytes \<Rightarrow> (crypt_error, bytes) res" where
  "rc4 L key data =
    (if \<not> rc4_key key then Err KeySizeError
     else Ok (xor_bytes data (map (rc4_stream L key) [0..<length data])))"

lemma length_xor_bytes [simp]: "length (xor_bytes xs ys) = min (length xs) (length ys)"
  by (simp add: xor_bytes_def)

lemma xor_bytes_cancel: "length xs \<le> length ys \<Longrightarrow> xor_bytes (xor_bytes xs ys) ys = xs"
  by (rule nth_equalityI) (simp_all add: xor_bytes_def xor.assoc)

lemma rc4_Ok: "rc4_key key \<Longrightarrow> rc4 L key data = Ok (xor_bytes data (map (rc4_stream L key) [0..<length data]))"
  by (simp add: rc4_def)

lemma rc4_key_of_Ok: "rc4 L key data = Ok c \<Longrightarrow> rc4_key key \<and> length c = length data"
  by (auto simp: rc4_def split: if_splits)

lemma rc4_involution: "rc4 L key data = Ok c \<Longrightarrow> rc4 L key c = Ok data"
  by (auto simp: rc4_def xor_bytes_cancel split: if_splits)

section \<open>Cipher block chaining\<close>

function cbc_encrypt :: "(bytes \<Rightarrow> bytes) \<Rightarrow> bytes \<Rightarrow> bytes \<Rightarrow> bytes" where
  "cbc_encrypt E iv [] = []"
| "cbc_encrypt E iv (b # bs) =
    (let c = E (xor_bytes (take 16 (b # bs)) iv) in c @ cbc_encrypt E c (drop 16 (b # bs)))"
  by pat_completeness auto
termination by (relation "measure (\<lambda>(E, iv, data). length data)") simp_all

function cbc_decrypt :: "(bytes \<Rightarrow> bytes) \<Rightarrow> bytes \<Rightarrow> bytes \<Rightarrow> bytes" where
  "cbc_decrypt D iv [] = []"
| "cbc_decrypt D iv (b # bs) =
    (let c = take 16 (b # bs) in xor_bytes (D c) iv @ cbc_decrypt D c (drop 16 (b # bs)))"
  by pat_completeness auto
termination by (relation "measure (\<lambda>(D, iv, data). length data)") simp_all

lemma cbc_encrypt_block:
  "length x = 16 \<Longrightarrow> cbc_encrypt E iv (x @ data) = (let c = E (xor_bytes x iv) in c @ cbc_encrypt E c data)"
  by (cases x) simp_all

lemma cbc_decrypt_block: "length c = 16 \<Longrightarrow> cbc_decrypt D iv (c @ data) = xor_bytes (D c) iv @ cbc_decrypt D c data"
  by (cases c) (simp_all add: Let_def)

text \<open>Data of full blocks is split into its first block and the rest.\<close>

lemma blocks_induct [consumes 1, case_names Nil Block]:
  assumes "length data mod 16 = 0" "P []"
    and "\<And>x data. length x = 16 \<Longrightarrow> length data mod 16 = 0 \<Longrightarrow> P data \<Longrightarrow> P (x @ data)"
  shows "P data"
  using assms(1)
proof (induction data rule: length_induct)
  case (1 data)
  show ?case
  proof (cases "data = []")
    case False
    with 1(2) have len: "16 \<le> length data" by (cases data) (auto simp: mod_eq_0_iff_dvd dest: dvd_imp_le)
    with 1(2) have "length (drop 16 data) mod 16 = 0" by (simp add: mod_eq_0_iff_dvd)
    with 1(1) len have "P (drop 16 data)" by simp
    with assms(3) [of "take 16 data" "drop 16 data"] len \<open>length (drop 16 data) mod 16 = 0\<close> show ?thesis by simp
  qed (use assms(2) in simp)
qed

lemma cbc_roundtrip:
  assumes "length data mod 16 = 0" "length iv = 16" "\<And>b. length b = 16 \<Longrightarrow> length (E b) = 16 \<and> D (E b) = b"
  shows "cbc_decrypt D iv (cbc_encrypt E iv data) = data \<and> length (cbc_encrypt E iv data) = length data"
  using assms(1,2)
proof (induction data arbitrary: iv rule: blocks_induct)
  case (Block x data)
  have x: "length (xor_bytes x iv) = 16" using Block by simp
  with assms(3) have "length (E (xor_bytes x iv)) = 16" "D (E (xor_bytes x iv)) = xor_bytes x iv" by blast+
  with Block show ?case by (simp add: cbc_encrypt_block cbc_decrypt_block Let_def xor_bytes_cancel)
qed simp

section \<open>Electronic codebook\<close>

function ecb_loop :: "(bytes \<Rightarrow> bytes) \<Rightarrow> bytes \<Rightarrow> bytes" where
  "ecb_loop f [] = []"
| "ecb_loop f (b # src) = f (take 16 (b # src)) @ ecb_loop f (drop 16 (b # src))"
  by pat_completeness auto
termination by (relation "measure (\<lambda>(f, src). length src)") simp_all

text \<open>\<open>CryptBlocks\<close> of both directions; \<open>dst\<close> has the length of \<open>src\<close>.\<close>

definition ecb_CryptBlocks :: "(bytes \<Rightarrow> bytes) \<Rightarrow> bytes \<Rightarrow> (crypt_error, bytes) res" where
  "ecb_CryptBlocks f src = (if length src mod 16 \<noteq> 0 then Panic else Ok (ecb_loop f src))"

lemma ecb_block: "length x = 16 \<Longrightarrow> ecb_loop f (x @ src) = f x @ ecb_loop f src"
  by (cases x) simp_all

lemma ecb_roundtrip:
  assumes "length src mod 16 = 0" "\<And>b. length b = 16 \<Longrightarrow> length (E b) = 16 \<and> D (E b) = b"
  shows "ecb_loop D (ecb_loop E src) = src \<and> length (ecb_loop E src) = length src"
  using assms(1)
proof (induction src rule: blocks_induct)
  case (Block x src)
  with assms(2) show ?case by (simp add: ecb_block)
qed simp

section \<open>AES\<close>

lemma aes_ok: "primitives_ok L \<Longrightarrow> aes_key key \<Longrightarrow> length b = 16 \<Longrightarrow>
    length (aes_encrypt L key b) = 16 \<and> aes_decrypt L key (aes_encrypt L key b) = b"
  by (simp add: primitives_ok_def)

lemma aes_cbc:
  "primitives_ok L \<Longrightarrow> aes_key key \<Longrightarrow> length data mod 16 = 0 \<Longrightarrow> length iv = 16 \<Longrightarrow>
    cbc_decrypt (aes_decrypt L key) iv (cbc_encrypt (aes_encrypt L key) iv data) = data \<and>
    length (cbc_encrypt (aes_encrypt L key) iv data) = length data"
  by (rule cbc_roundtrip) (simp_all add: aes_ok)

lemma aes_ecb:
  "primitives_ok L \<Longrightarrow> aes_key key \<Longrightarrow> length data mod 16 = 0 \<Longrightarrow>
    ecb_loop (aes_decrypt L key) (ecb_loop (aes_encrypt L key) data) = data \<and>
    length (ecb_loop (aes_encrypt L key) data) = length data"
  by (rule ecb_roundtrip) (simp_all add: aes_ok)

end
