(* ===== verification/Crypt_Filters.thy ===== *)
theory Crypt_Filters
  imports Crypt_Primitives
begin

text \<open>
  The crypt filters (\<open>pdf/core/security/crypt\<close>): RC4 (\<open>V2\<close>), AES with keys of 16 and of 32 bytes (\<open>AESV2\<close>, \<open>AESV3\<close>) and
  the identity. The interface \<open>Filter\<close> is a datatype with a constructor for each type that implements it. A slice
  that a method changes in place is what the method returns.
\<close>

section \<open>Keys\<close>

text \<open>The key of an object, from the numbers of the object and the key of the file.\<close>

definition number_bytes :: "nat \<Rightarrow> u32 \<Rightarrow> bytes" where
  "number_bytes n num = map (\<lambda>i. ucast (drop_bit (8 * i) num AND 0xFF)) [0..<n]"

definition makeKeyV2 :: "primitives \<Rightarrow> u32 \<Rightarrow> u32 \<Rightarrow> bytes \<Rightarrow> bool \<Rightarrow> bytes" where
  "makeKeyV2 L objNum genNum ekey isAES =
    (let key = ekey @ number_bytes 3 objNum @ number_bytes 2 genNum @ (if isAES then [0x73, 0x41, 0x6C, 0x54] else []);
         hashb = md5 L key
     in if length ekey + 5 < 16 then take (length ekey + 5) hashb else hashb)"

section \<open>AES\<close>

definition AES_EncryptBytes :: "primitives \<Rightarrow> bytes \<Rightarrow> bytes \<Rightarrow> bytes \<Rightarrow> (crypt_error, bytes \<times> bytes) res" where
  "AES_EncryptBytes L buf okey rnd =
    (if \<not> aes_key okey then Err KeySizeError
     else
       let pad = 16 - length buf mod 16;
           padded = buf @ replicate pad (of_nat pad)
       in rbind (ReadFull 16 rnd) (\<lambda>(iv, rnd). Ok (iv @ cbc_encrypt (aes_encrypt L okey) iv padded, rnd)))"

definition AES_DecryptBytes :: "primitives \<Rightarrow> bytes \<Rightarrow> bytes \<Rightarrow> (crypt_error, bytes) res" where
  "AES_DecryptBytes L buf okey =
    (if \<not> aes_key okey then Err KeySizeError
     else if length buf < 16 then Err BufLength
     else
       let iv = take 16 buf; rest = drop 16 buf
       in if length rest mod 16 \<noteq> 0 then Err BufLength
          else
            let plain = cbc_decrypt (aes_decrypt L okey) iv rest
            in if plain = [] then Ok []
               else
                 let padLen = unat (last plain)
                 in if length plain < padLen then Err InvalidPadLength
                    else Ok (take (length plain - padLen) plain))"

section \<open>Filters\<close>

datatype crypt_filter_type =
    filterV2 int
  | filterAESV2
  | filterAESV3
  | filterIdentity

record filter_spec =
  CFM :: string
  AuthEvent :: string
  cf_Length :: int

definition newFilterV2 :: "filter_spec \<Rightarrow> (crypt_error, crypt_filter_type) res" where
  "newFilterV2 d =
    (let n = cf_Length d
     in if n mod 8 \<noteq> 0 then Err InvalidFilterLength
        else if n < 5 \<or> 16 < n
        then if n = 40 \<or> n = 64 \<or> n = 128 then Ok (filterV2 (n div 8)) else Err InvalidFilterLength
        else Ok (filterV2 n))"

definition newFilterAESV2 :: "filter_spec \<Rightarrow> (crypt_error, crypt_filter_type) res" where
  "newFilterAESV2 d =
    (let n = (if cf_Length d = 128 then 16 else cf_Length d)
     in if n \<noteq> 0 \<and> n \<noteq> 16 then Err InvalidFilterLength else Ok filterAESV2)"

definition newFilterAESV3 :: "filter_spec \<Rightarrow> (crypt_error, crypt_filter_type) res" where
  "newFilterAESV3 d =
    (let n = (if cf_Length d = 256 then 32 else cf_Length d)
     in if n \<noteq> 0 \<and> n \<noteq> 32 then Err InvalidFilterLength else Ok filterAESV3)"

text \<open>The filters that register themselves, and \<open>NewFilter\<close> over them.\<close>

definition NewFilter :: "filter_spec \<Rightarrow> (crypt_error, crypt_filter_type) res" where
  "NewFilter d =
    (if CFM d = ''V2'' then newFilterV2 d
     else if CFM d = ''AESV2'' then newFilterAESV2 d
     else if CFM d = ''AESV3'' then newFilterAESV3 d
     else Err UnsupportedFilter)"

text \<open>The constructors panic on an error.\<close>

definition NewFilterV2 :: "int \<Rightarrow> (crypt_error, crypt_filter_type) res" where
  "NewFilterV2 n = (case newFilterV2 \<lparr>CFM = [], AuthEvent = [], cf_Length = n\<rparr> of Ok f \<Rightarrow> Ok f | _ \<Rightarrow> Panic)"

definition NewFilterAESV2 :: "(crypt_error, crypt_filter_type) res" where
  "NewFilterAESV2 = (case newFilterAESV2 \<lparr>CFM = [], AuthEvent = [], cf_Length = 0\<rparr> of Ok f \<Rightarrow> Ok f | _ \<Rightarrow> Panic)"

definition NewFilterAESV3 :: "(crypt_error, crypt_filter_type) res" where
  "NewFilterAESV3 = (case newFilterAESV3 \<lparr>CFM = [], AuthEvent = [], cf_Length = 0\<rparr> of Ok f \<Rightarrow> Ok f | _ \<Rightarrow> Panic)"

fun PDFVersion :: "crypt_filter_type \<Rightarrow> int \<times> int" where
  "PDFVersion (filterV2 n) = (0, 0)"
| "PDFVersion filterAESV2 = (1, 5)"
| "PDFVersion filterAESV3 = (2, 0)"
| "PDFVersion filterIdentity = (0, 0)"

fun HandlerVersion :: "crypt_filter_type \<Rightarrow> int \<times> int" where
  "HandlerVersion (filterV2 n) = (2, 3)"
| "HandlerVersion filterAESV2 = (4, 4)"
| "HandlerVersion filterAESV3 = (5, 6)"
| "HandlerVersion filterIdentity = (0, 0)"

fun filter_Name :: "crypt_filter_type \<Rightarrow> string" where
  "filter_Name (filterV2 n) = ''V2''"
| "filter_Name filterAESV2 = ''AESV2''"
| "filter_Name filterAESV3 = ''AESV3''"
| "filter_Name filterIdentity = ''Identity''"

fun KeyLength :: "crypt_filter_type \<Rightarrow> int" where
  "KeyLength (filterV2 n) = n"
| "KeyLength filterAESV2 = 16"
| "KeyLength filterAESV3 = 32"
| "KeyLength filterIdentity = 0"

fun MakeKey :: "primitives \<Rightarrow> crypt_filter_type \<Rightarrow> u32 \<Rightarrow> u32 \<Rightarrow> bytes \<Rightarrow> bytes" where
  "MakeKey L (filterV2 n) objNum genNum ekey = makeKeyV2 L objNum genNum ekey False"
| "MakeKey L filterAESV2 objNum genNum ekey = makeKeyV2 L objNum genNum ekey True"
| "MakeKey L filterAESV3 objNum genNum ekey = ekey"
| "MakeKey L filterIdentity objNum genNum ekey = ekey"

definition V2_EncryptBytes :: "primitives \<Rightarrow> bytes \<Rightarrow> bytes \<Rightarrow> bytes \<Rightarrow> (crypt_error, bytes \<times> bytes) res" where
  "V2_EncryptBytes L buf okey rnd = rbind (rc4 L okey buf) (\<lambda>c. Ok (c, rnd))"

definition V2_DecryptBytes :: "primitives \<Rightarrow> bytes \<Rightarrow> bytes \<Rightarrow> (crypt_error, bytes) res" where
  "V2_DecryptBytes L buf okey = rc4 L okey buf"

definition Identity_EncryptBytes :: "primitives \<Rightarrow> bytes \<Rightarrow> bytes \<Rightarrow> bytes \<Rightarrow> (crypt_error, bytes \<times> bytes) res" where
  "Identity_EncryptBytes L buf okey rnd = Ok (buf, rnd)"

definition Identity_DecryptBytes :: "primitives \<Rightarrow> bytes \<Rightarrow> bytes \<Rightarrow> (crypt_error, bytes) res" where
  "Identity_DecryptBytes L buf okey = Ok buf"

fun EncryptBytes :: "primitives \<Rightarrow> crypt_filter_type \<Rightarrow> bytes \<Rightarrow> bytes \<Rightarrow> bytes \<Rightarrow> (crypt_error, bytes \<times> bytes) res" where
  "EncryptBytes L (filterV2 n) = V2_EncryptBytes L"
| "EncryptBytes L filterAESV2 = AES_EncryptBytes L"
| "EncryptBytes L filterAESV3 = AES_EncryptBytes L"
| "EncryptBytes L filterIdentity = Identity_EncryptBytes L"

fun DecryptBytes :: "primitives \<Rightarrow> crypt_filter_type \<Rightarrow> bytes \<Rightarrow> bytes \<Rightarrow> (crypt_error, bytes) res" where
  "DecryptBytes L (filterV2 n) = V2_DecryptBytes L"
| "DecryptBytes L filterAESV2 = AES_DecryptBytes L"
| "DecryptBytes L filterAESV3 = AES_DecryptBytes L"
| "DecryptBytes L filterIdentity = Identity_DecryptBytes L"

end
