(* ===== verification/Security_R4.thy ===== *)
theory Security_R4
  imports Crypt_Primitives "HOL-Library.Signed_Division"
begin

text \<open>
  The standard security handler for revisions 2 to 4 (\<open>pdf/core/security/standard_r4.go\<close>): keys and the values \<open>O\<close> and
  \<open>U\<close> of the encryption dictionary from passwords, and the check of passwords. A method that sets fields of the
  dictionary returns it changed; after an error the callers drop the dictionary.
\<close>

section \<open>The dictionary\<close>

record std_encrypt =
  sR :: int
  sP :: u32
  sEncryptMetadata :: bool
  sO :: bytes
  sU :: bytes
  sOE :: bytes
  sUE :: bytes
  sPerms :: bytes

definition PermOwner :: u32 where
  "PermOwner = 0xFFFFFFFF"

definition Allowed :: "u32 \<Rightarrow> u32 \<Rightarrow> bool" where
  "Allowed p p2 \<longleftrightarrow> p AND p2 = p2"

text \<open>The \<open>n\<close> bytes of a number, lowest first.\<close>

definition little_endian :: "nat \<Rightarrow> 'a::len word \<Rightarrow> bytes" where
  "little_endian n w = map (\<lambda>i. ucast (drop_bit (8 * i) w)) [0..<n]"

text \<open>The slice \<open>xs[0:n]\<close>.\<close>

definition slice_to :: "bytes \<Rightarrow> int \<Rightarrow> (crypt_error, bytes) res" where
  "slice_to xs n = (if 0 \<le> n \<and> n \<le> int (length xs) then Ok (take (nat n) xs) else Panic)"

section \<open>Keys\<close>

definition padding :: bytes where
  "padding =
  [0x28, 0xBF, 0x4E, 0x5E, 0x4E, 0x75, 0x8A, 0x41, 0x64, 0x00, 0x4E, 0x56, 0xFF,
   0xFA, 0x01, 0x08, 0x2E, 0x2E, 0x00, 0xB6, 0xD0, 0x68, 0x3E, 0x80, 0x2F, 0x0C,
   0xA9, 0xFE, 0x64, 0x53, 0x69, 0x7A]"

record handler_R4 =
  Length :: int
  ID0 :: bytes

definition paddedPass :: "bytes \<Rightarrow> bytes" where
  "paddedPass pass = take 32 pass @ map (\<lambda>i. padding ! (i - length pass)) [length pass..<32]"

text \<open>\<open>n\<close> rounds of MD5 over the first bytes of the last digest.\<close>

fun md5_rounds :: "primitives \<Rightarrow> int \<Rightarrow> nat \<Rightarrow> bytes \<Rightarrow> (crypt_error, bytes) res" where
  "md5_rounds L len 0 hashb = Ok hashb"
| "md5_rounds L len (Suc n) hashb = rbind (slice_to hashb len) (\<lambda>b. md5_rounds L len n (md5 L b))"

definition alg2 :: "primitives \<Rightarrow> handler_R4 \<Rightarrow> std_encrypt \<Rightarrow> bytes \<Rightarrow> (crypt_error, bytes) res" where
  "alg2 L sh d pass =
    (let hashb = md5 L (paddedPass pass @ sO d @ little_endian 4 (sP d) @ ID0 sh @
           (if 4 \<le> sR d \<and> \<not> sEncryptMetadata d then [0xff, 0xff, 0xff, 0xff] else []));
         n = Length sh sdiv 8
     in if 3 \<le> sR d then rbind (md5_rounds L n 50 hashb) (\<lambda>hashb. slice_to hashb n) else slice_to hashb 5)"

definition alg3Key :: "primitives \<Rightarrow> handler_R4 \<Rightarrow> int \<Rightarrow> bytes \<Rightarrow> (crypt_error, bytes) res" where
  "alg3Key L sh R pass =
    (let encKey = (md5 L ^^ (if 3 \<le> R then 51 else 1)) (paddedPass pass)
     in slice_to encKey (if R = 2 then 5 else Length sh sdiv 8))"

text \<open>The key of round \<open>i\<close>, and RC4 with the keys of some rounds one after the other.\<close>

definition xor_key :: "bytes \<Rightarrow> nat \<Rightarrow> bytes" where
  "xor_key key i = map (\<lambda>b. b XOR of_nat i) key"

fun rc4_rounds :: "primitives \<Rightarrow> bytes \<Rightarrow> nat list \<Rightarrow> bytes \<Rightarrow> (crypt_error, bytes) res" where
  "rc4_rounds L key [] s = Ok s"
| "rc4_rounds L key (i # rounds) s = rbind (rc4 L (xor_key key i) s) (rc4_rounds L key rounds)"

section \<open>The values of the dictionary\<close>

definition alg3 :: "primitives \<Rightarrow> handler_R4 \<Rightarrow> int \<Rightarrow> bytes \<Rightarrow> bytes \<Rightarrow> (crypt_error, bytes) res" where
  "alg3 L sh R upass opass =
    rbind (alg3Key L sh R (if opass \<noteq> [] then opass else upass)) (\<lambda>encKey.
      rbind (rc4 L encKey (paddedPass upass)) (\<lambda>encrypted.
        if 3 \<le> R then rc4_rounds L encKey [1..<20] encrypted else Ok encrypted))"

definition alg4 :: "primitives \<Rightarrow> bytes \<Rightarrow> (crypt_error, bytes) res" where
  "alg4 L ekey = rc4 L ekey padding"

text \<open>The first 16 bytes; 16 random bytes follow.\<close>

definition alg5 :: "primitives \<Rightarrow> handler_R4 \<Rightarrow> bytes \<Rightarrow> bytes \<Rightarrow> (crypt_error, bytes \<times> bytes) res" where
  "alg5 L sh ekey rnd =
    (let hash = md5 L (padding @ ID0 sh)
     in if length hash \<noteq> 16 then Err HashLength
        else rbind (rc4 L ekey hash) (\<lambda>encrypted.
          rbind (rc4_rounds L ekey [1..<20] encrypted) (\<lambda>encrypted.
            rbind (ReadFull 16 rnd) (\<lambda>(b, rnd). Ok (encrypted @ b, rnd)))))"

section \<open>Passwords\<close>

text \<open>The check of the user password; the key, or \<open>None\<close> for a wrong password.\<close>

definition alg6 :: "primitives \<Rightarrow> handler_R4 \<Rightarrow> std_encrypt \<Rightarrow> bytes \<Rightarrow> bytes \<Rightarrow> (crypt_error, bytes option \<times> bytes) res" where
  "alg6 L sh d upass rnd =
    rbind (alg2 L sh d upass) (\<lambda>ekey.
      if sR d = 2 then rbind (alg4 L ekey) (\<lambda>uo. Ok (if uo = sU d then Some ekey else None, rnd))
      else if 3 \<le> sR d then
        rbind (alg5 L sh ekey rnd) (\<lambda>(uo, rnd). Ok (if take 16 uo = take 16 (sU d) then Some ekey else None, rnd))
      else Err InvalidR)"

text \<open>The check of the owner password. An error of the check of the user password is not passed on.\<close>

definition alg7 :: "primitives \<Rightarrow> handler_R4 \<Rightarrow> std_encrypt \<Rightarrow> bytes \<Rightarrow> bytes \<Rightarrow> (crypt_error, bytes option \<times> bytes) res" where
  "alg7 L sh d opass rnd =
    rbind (alg3Key L sh (sR d) opass) (\<lambda>encKey.
      rbind (if sR d = 2 then rc4 L encKey (sO d)
             else if 3 \<le> sR d then rc4_rounds L encKey (rev [0..<20]) (sO d)
             else Err InvalidR) (\<lambda>decrypted.
        case alg6 L sh d decrypted rnd of Err e \<Rightarrow> Ok (None, rnd) | r \<Rightarrow> r))"

section \<open>The interface\<close>

definition R4_GenerateParams ::
  "primitives \<Rightarrow> handler_R4 \<Rightarrow> std_encrypt \<Rightarrow> bytes \<Rightarrow> bytes \<Rightarrow> bytes \<Rightarrow> (crypt_error, bytes \<times> std_encrypt \<times> bytes) res" where
  "R4_GenerateParams L sh d opass upass rnd =
    rbind (alg3 L sh (sR d) upass opass) (\<lambda>ov.
      let d = d\<lparr>sO := ov\<rparr>
      in rbind (alg2 L sh d upass) (\<lambda>ekey.
           rbind (alg5 L sh ekey rnd) (\<lambda>(uv, rnd). Ok (ekey, d\<lparr>sU := uv\<rparr>, rnd))))"

definition R4_Authenticate ::
  "primitives \<Rightarrow> handler_R4 \<Rightarrow> std_encrypt \<Rightarrow> bytes \<Rightarrow> bytes \<Rightarrow> (crypt_error, bytes option \<times> u32 \<times> bytes) res" where
  "R4_Authenticate L sh d pass rnd =
    rbind (alg7 L sh d pass rnd) (\<lambda>(ekey, rnd).
      if ekey \<noteq> None then Ok (ekey, PermOwner, rnd)
      else rbind (alg6 L sh d pass rnd) (\<lambda>(ekey, rnd).
        if ekey \<noteq> None then Ok (ekey, sP d, rnd) else Ok (None, 0, rnd)))"

section \<open>Lemmas\<close>

lemma length_padding: "length padding = 32"
  by (simp add: padding_def)

lemma paddedPass_eq: "paddedPass pass = take 32 (pass @ padding)"
  by (rule nth_equalityI) (auto simp: paddedPass_def nth_append length_padding)

lemma length_paddedPass: "length (paddedPass pass) = 32"
  by (simp add: paddedPass_eq length_padding)

lemma paddedPass_idem: "paddedPass (paddedPass pass) = paddedPass pass"
  by (simp add: paddedPass_eq [of "paddedPass pass"] length_paddedPass)

lemma rc4_key_xor [simp]: "rc4_key (xor_key key i) \<longleftrightarrow> rc4_key key"
  by (simp add: rc4_key_def xor_key_def)

lemma xor_key_0 [simp]: "xor_key key 0 = key"
  by (simp add: xor_key_def)

lemma rc4_rounds_append:
  "rc4_rounds L key (xs @ ys) s = rbind (rc4_rounds L key xs s) (rc4_rounds L key ys)"
proof (induction xs arbitrary: s)
  case (Cons i xs)
  then show ?case by (cases "rc4 L (xor_key key i) s") simp_all
qed simp

lemma rc4_rounds_returns: "rc4_key key \<Longrightarrow> \<exists>c. rc4_rounds L key rounds s = Ok c \<and> length c = length s"
proof (induction rounds arbitrary: s)
  case (Cons i rounds)
  then obtain t where t: "rc4 L (xor_key key i) s = Ok t" by (simp add: rc4_Ok)
  with Cons.IH [OF Cons.prems, of t] rc4_key_of_Ok [OF t] show ?case by simp
qed simp

text \<open>The rounds in reverse order undo the rounds.\<close>

lemma rc4_rounds_rev: "rc4_rounds L key rounds s = Ok c \<Longrightarrow> rc4_rounds L key (rev rounds) c = Ok s"
proof (induction rounds arbitrary: s)
  case (Cons i rounds)
  then obtain t where t: "rc4 L (xor_key key i) s = Ok t" "rc4_rounds L key rounds t = Ok c" by (auto simp: rbind_eq_Ok)
  from Cons.IH [OF t(2)] rc4_involution [OF t(1)] show ?case by (simp add: rc4_rounds_append)
qed simp

lemma rounds_0: "[0..<20] = 0 # [1..<20]"
  by (simp add: upt_conv_Cons)

lemma slice_to_Ok: "slice_to xs n = Ok b \<longleftrightarrow> 0 \<le> n \<and> n \<le> int (length xs) \<and> b = take (nat n) xs"
  by (auto simp: slice_to_def)

text \<open>A handler whose key length is 1 to 16 bytes.\<close>

definition R4_length_ok :: "handler_R4 \<Rightarrow> bool" where
  "R4_length_ok sh \<longleftrightarrow> 8 \<le> Length sh \<and> Length sh \<le> 128"

lemma Length_quot: "R4_length_ok sh \<Longrightarrow> 1 \<le> Length sh sdiv 8 \<and> Length sh sdiv 8 \<le> 16"
  by (auto simp: R4_length_ok_def signed_divide_int_def sgn_if)

lemma slice_key:
  "1 \<le> n \<and> n \<le> 16 \<Longrightarrow> length xs = 16 \<Longrightarrow> \<exists>k. slice_to xs n = Ok k \<and> rc4_key k \<and> length k \<le> 16"
  by (auto simp: slice_to_def rc4_key_def)

lemma md5_rounds_returns:
  "primitives_ok L \<Longrightarrow> 0 \<le> n \<Longrightarrow> n \<le> 16 \<Longrightarrow> length h = 16 \<Longrightarrow> \<exists>b. md5_rounds L n k h = Ok b \<and> length b = 16"
  by (induction k arbitrary: h) (simp_all add: slice_to_def digest_lengths)

lemma alg2_returns:
  assumes "primitives_ok L" "R4_length_ok sh"
  shows "\<exists>k. alg2 L sh d pass = Ok k \<and> rc4_key k \<and> length k \<le> 16"
proof (cases "3 \<le> sR d")
  case True
  define h where "h = md5 L (paddedPass pass @ sO d @ little_endian 4 (sP d) @ ID0 sh @
           (if 4 \<le> sR d \<and> \<not> sEncryptMetadata d then [0xff, 0xff, 0xff, 0xff] else []))"
  have "length h = 16" by (simp add: h_def digest_lengths assms(1))
  from md5_rounds_returns [OF assms(1) _ _ this, of "Length sh sdiv 8" 50] Length_quot [OF assms(2)]
  obtain b where "md5_rounds L (Length sh sdiv 8) 50 h = Ok b" "length b = 16" by auto
  with True slice_key [OF Length_quot [OF assms(2)], of b] show ?thesis by (simp add: alg2_def h_def [symmetric] Let_def)
qed (simp add: alg2_def Let_def slice_to_def digest_lengths assms(1) rc4_key_def)

lemma length_md5_power: "primitives_ok L \<Longrightarrow> 0 < n \<Longrightarrow> length ((md5 L ^^ n) x) = 16"
  by (cases n) (simp_all add: digest_lengths)

lemma alg3Key_returns:
  "primitives_ok L \<Longrightarrow> R4_length_ok sh \<Longrightarrow> \<exists>k. alg3Key L sh R pass = Ok k \<and> rc4_key k"
  using slice_key [OF Length_quot [of sh] length_md5_power [of L "if 3 \<le> R then 51 else 1" "paddedPass pass"]]
    slice_key [of 5, OF _ length_md5_power [of L 1 "paddedPass pass"]]
  by (auto simp: alg3Key_def Let_def)

lemma alg5_returns:
  assumes "primitives_ok L" "rc4_key k"
  shows "\<exists>e. length e = 16 \<and> (\<forall>rnd. alg5 L sh k rnd = rbind (ReadFull 16 rnd) (\<lambda>(b, rnd). Ok (e @ b, rnd)))"
proof -
  have len: "length (md5 L (padding @ ID0 sh)) = 16" by (simp add: digest_lengths assms(1))
  from assms(2) obtain t where t: "rc4 L k (md5 L (padding @ ID0 sh)) = Ok t" by (simp add: rc4_Ok)
  from rc4_rounds_returns [OF assms(2), of L "[1..<20]" t] obtain e where
    "rc4_rounds L k [1..<20] t = Ok e" "length e = length t" by blast
  with t len rc4_key_of_Ok [OF t] show ?thesis by (auto simp: alg5_def Let_def)
qed

end
