(* ===== verification/Security_R6.thy ===== *)
theory Security_R6
  imports Security_R4
begin

text \<open>
  The standard security handler for revisions 5 and 6 (\<open>pdf/core/security/standard_r6.go\<close>). The hash of revision 6
  (\<open>alg2b\<close>) runs until a byte that it computes is small enough; the loop and the doubling of \<open>repeat\<close> are partial
  functions, and that they return is proved here: after at most 287 rounds.
\<close>

definition checkAtLeast :: "nat \<Rightarrow> bytes \<Rightarrow> (crypt_error, unit) res" where
  "checkAtLeast n b = (if length b < n then Err InvalidField else Ok ())"

section \<open>The hash\<close>

text \<open>Each step copies the first \<open>bp\<close> bytes behind themselves, as far as there is room.\<close>

partial_function (option) repeat :: "bytes \<Rightarrow> nat \<Rightarrow> bytes option" where
  "repeat buf bp =
    (if bp < length buf
     then repeat (take bp buf @ take (length buf - bp) (take bp buf) @ drop (2 * bp) buf) (bp * 2)
     else Some buf)"

text \<open>One round: the data \<open>E\<close> and the next \<open>K\<close>. The buffer has room for 64 times 239 bytes.\<close>

definition alg2b_round :: "primitives \<Rightarrow> bytes \<Rightarrow> bytes \<Rightarrow> bytes \<Rightarrow> (crypt_error, bytes \<times> bytes) run" where
  "alg2b_round L pwd userKey K =
    (let part = pwd @ K @ userKey; n = length part
     in if 64 * (127 + 64 + 48) < n * 64 then Some Panic
        else case repeat (part @ replicate (n * 63) 0) n of
               None \<Rightarrow> None
             | Some K1 \<Rightarrow>
                 if \<not> aes_key (take 16 K) then Some Panic
                 else
                   let e = cbc_encrypt (aes_encrypt L (take 16 K)) (take 16 (drop 16 K)) K1;
                       b = (\<Sum>x\<leftarrow>take 16 e. unat x mod 3);
                       h = (if b mod 3 = 0 then sha256 L else if b mod 3 = 1 then sha384 L else sha512 L)
                   in Some (Ok (e, h e)))"

partial_function (option) alg2b_loop :: "primitives \<Rightarrow> bytes \<Rightarrow> bytes \<Rightarrow> nat \<Rightarrow> bytes \<Rightarrow> (crypt_error, bytes) run" where
  "alg2b_loop L pwd userKey i K =
    run_bind (alg2b_round L pwd userKey K) (\<lambda>(e, K).
      if 64 \<le> i + 1 \<and> last e \<le> of_nat (i + 1 - 32) then Some (Ok (take 32 K))
      else alg2b_loop L pwd userKey (i + 1) K)"

definition alg2b_R6 :: "primitives \<Rightarrow> bytes \<Rightarrow> bytes \<Rightarrow> bytes \<Rightarrow> (crypt_error, bytes) run" where
  "alg2b_R6 L data pwd userKey = alg2b_loop L pwd userKey 0 (sha256 L data)"

definition alg2bR5 :: "primitives \<Rightarrow> bytes \<Rightarrow> bytes" where
  "alg2bR5 L data = sha256 L data"

definition alg2b :: "primitives \<Rightarrow> int \<Rightarrow> bytes \<Rightarrow> bytes \<Rightarrow> bytes \<Rightarrow> (crypt_error, bytes) run" where
  "alg2b L R data pwd userKey = (if R = 5 then Some (Ok (alg2bR5 L data)) else alg2b_R6 L data pwd userKey)"

section \<open>The values of the dictionary\<close>

text \<open>AES in CBC mode with a zero vector, for a key of which the first 32 bytes are used.\<close>

definition key_encrypt :: "primitives \<Rightarrow> bytes \<Rightarrow> bytes \<Rightarrow> (crypt_error, bytes) res" where
  "key_encrypt L h ekey =
    (if \<not> aes_key (take 32 h) then Panic
     else Ok (cbc_encrypt (aes_encrypt L (take 32 h)) (replicate 16 0) (take 32 ekey)))"

definition alg8 :: "primitives \<Rightarrow> std_encrypt \<Rightarrow> bytes \<Rightarrow> bytes \<Rightarrow> bytes \<Rightarrow> (crypt_error, std_encrypt \<times> bytes) run" where
  "alg8 L d ekey upass rnd =
    run_bind (Some (checkAtLeast 32 ekey)) (\<lambda>_.
    run_bind (Some (ReadFull 16 rnd)) (\<lambda>(rbuf, rnd).
      let valSalt = take 8 rbuf; keySalt = drop 8 rbuf
      in run_bind (alg2b L (sR d) (upass @ valSalt) upass []) (\<lambda>h.
         let uv = take 32 h @ valSalt @ keySalt
         in run_bind (alg2b L (sR d) (upass @ keySalt) upass []) (\<lambda>h.
            run_bind (Some (key_encrypt L h ekey)) (\<lambda>ue.
              Some (Ok (d\<lparr>sU := uv, sUE := ue\<rparr>, rnd)))))))"

definition alg9 :: "primitives \<Rightarrow> std_encrypt \<Rightarrow> bytes \<Rightarrow> bytes \<Rightarrow> bytes \<Rightarrow> (crypt_error, std_encrypt \<times> bytes) run" where
  "alg9 L d ekey opass rnd =
    run_bind (Some (checkAtLeast 32 ekey)) (\<lambda>_.
    run_bind (Some (checkAtLeast 48 (sU d))) (\<lambda>_.
    run_bind (Some (ReadFull 16 rnd)) (\<lambda>(rbuf, rnd).
      let valSalt = take 8 rbuf; keySalt = drop 8 rbuf; userKey = take 48 (sU d)
      in run_bind (alg2b L (sR d) (opass @ valSalt @ userKey) opass userKey) (\<lambda>h.
         let ov = take 32 h @ valSalt @ keySalt
         in run_bind (alg2b L (sR d) (opass @ keySalt @ userKey) opass userKey) (\<lambda>h.
            run_bind (Some (key_encrypt L h ekey)) (\<lambda>oe.
              Some (Ok (d\<lparr>sO := ov, sOE := oe\<rparr>, rnd))))))))"

text \<open>The permissions in 64 bits, the flag of the metadata, a mark and 4 random bytes.\<close>

definition perms_bytes :: "std_encrypt \<Rightarrow> bytes \<Rightarrow> bytes" where
  "perms_bytes d b = little_endian 8 ((ucast (sP d) :: u64) OR push_bit 32 (mask 32)) @
    [if sEncryptMetadata d then 0x54 else 0x46] @ [0x61, 0x64, 0x62] @ b"

definition alg10 :: "primitives \<Rightarrow> std_encrypt \<Rightarrow> bytes \<Rightarrow> bytes \<Rightarrow> (crypt_error, std_encrypt \<times> bytes) res" where
  "alg10 L d ekey rnd =
    rbind (checkAtLeast 32 ekey) (\<lambda>_.
      rbind (ReadFull 4 rnd) (\<lambda>(b, rnd).
        if \<not> aes_key (take 32 ekey) then Panic
        else rbind (ecb_CryptBlocks (aes_encrypt L (take 32 ekey)) (perms_bytes d b)) (\<lambda>p.
          Ok (d\<lparr>sPerms := take 16 p\<rparr>, rnd))))"

section \<open>Passwords\<close>

definition alg11 :: "primitives \<Rightarrow> std_encrypt \<Rightarrow> bytes \<Rightarrow> (crypt_error, bytes option) run" where
  "alg11 L d upass =
    run_bind (Some (checkAtLeast 48 (sU d))) (\<lambda>_.
      run_bind (alg2b L (sR d) (upass @ take 8 (drop 32 (sU d))) upass []) (\<lambda>h.
        Some (Ok (if take 32 h = take 32 (sU d) then Some (take 32 h) else None))))"

definition alg12 :: "primitives \<Rightarrow> std_encrypt \<Rightarrow> bytes \<Rightarrow> (crypt_error, bytes option) run" where
  "alg12 L d opass =
    run_bind (Some (checkAtLeast 48 (sU d))) (\<lambda>_.
    run_bind (Some (checkAtLeast 48 (sO d))) (\<lambda>_.
      run_bind (alg2b L (sR d) (opass @ take 8 (drop 32 (sO d)) @ take 48 (sU d)) opass (take 48 (sU d))) (\<lambda>h.
        Some (Ok (if take 32 h = take 32 (sO d) then Some (take 32 h) else None)))))"

definition alg13 :: "primitives \<Rightarrow> std_encrypt \<Rightarrow> bytes \<Rightarrow> (crypt_error, unit) res" where
  "alg13 L d fkey =
    rbind (checkAtLeast 32 fkey) (\<lambda>_.
    rbind (checkAtLeast 16 (sPerms d)) (\<lambda>_.
      if \<not> aes_key (take 32 fkey) then Err KeySizeError
      else rbind (ecb_CryptBlocks (aes_decrypt L (take 32 fkey)) (take 16 (sPerms d))) (\<lambda>perms.
        if take 3 (drop 9 perms) \<noteq> [0x61, 0x64, 0x62] then Err InvalidPermissions
        else if take 4 perms \<noteq> little_endian 4 (sP d) then Err InvalidPermissions
        else if perms ! 8 \<noteq> 0x54 \<and> perms ! 8 \<noteq> 0x46 then Err InvalidPermissions
        else if (perms ! 8 = 0x54) \<noteq> sEncryptMetadata d then Err InvalidPermissions
        else Ok ())))"

text \<open>A hash that was returned and is not empty.\<close>

definition valid_hash :: "bytes option \<Rightarrow> bool" where
  "valid_hash h \<longleftrightarrow> (case h of Some b \<Rightarrow> b \<noteq> [] | None \<Rightarrow> False)"

text \<open>The key of the file from an encrypted key, once the password is accepted.\<close>

definition open_key ::
  "primitives \<Rightarrow> std_encrypt \<Rightarrow> bytes \<Rightarrow> u32 \<Rightarrow> bytes \<Rightarrow> bytes \<Rightarrow> bytes \<Rightarrow> (crypt_error, bytes option \<times> u32) run" where
  "open_key L d pass perm data ekey ukey =
    run_bind (Some (checkAtLeast 32 ekey)) (\<lambda>_.
    run_bind (alg2b L (sR d) data pass ukey) (\<lambda>ikey.
      if \<not> aes_key (take 32 ikey) then Some (Err KeySizeError)
      else
        let fkey = cbc_decrypt (aes_decrypt L (take 32 ikey)) (replicate 16 0) (take 32 ekey)
        in if sR d = 5 then Some (Ok (Some fkey, perm))
           else run_bind (Some (alg13 L d fkey)) (\<lambda>_. Some (Ok (Some fkey, perm)))))"

definition alg2a :: "primitives \<Rightarrow> std_encrypt \<Rightarrow> bytes \<Rightarrow> (crypt_error, bytes option \<times> u32) run" where
  "alg2a L d pass0 =
    run_bind (Some (checkAtLeast 48 (sO d))) (\<lambda>_.
    run_bind (Some (checkAtLeast 48 (sU d))) (\<lambda>_.
      let pass = take 127 pass0
      in run_bind (alg12 L d pass) (\<lambda>h.
         if valid_hash h then
           open_key L d pass PermOwner (pass @ take 8 (drop 40 (sO d)) @ take 48 (sU d)) (sOE d) (take 48 (sU d))
         else
           run_bind (alg11 L d pass) (\<lambda>h.
             run_bind (if valid_hash h then Some (Ok h) else alg11 L d []) (\<lambda>h.
               if valid_hash h then open_key L d pass (sP d) (pass @ take 8 (drop 40 (sU d))) (sUE d) []
               else Some (Ok (None, 0)))))))"

section \<open>The interface\<close>

definition R6_GenerateParams ::
  "primitives \<Rightarrow> std_encrypt \<Rightarrow> bytes \<Rightarrow> bytes \<Rightarrow> bytes \<Rightarrow> (crypt_error, bytes \<times> std_encrypt \<times> bytes) run" where
  "R6_GenerateParams L d opass upass rnd =
    run_bind (Some (ReadFull 32 rnd)) (\<lambda>(ekey, rnd).
      let d = d\<lparr>sU := [], sO := [], sUE := [], sOE := [], sPerms := []\<rparr>
      in run_bind (alg8 L d ekey (take 127 upass) rnd) (\<lambda>(d, rnd).
         run_bind (alg9 L d ekey (take 127 opass) rnd) (\<lambda>(d, rnd).
           if sR d = 5 then Some (Ok (ekey, d, rnd))
           else run_bind (Some (alg10 L d ekey rnd)) (\<lambda>(d, rnd). Some (Ok (ekey, d, rnd))))))"

definition R6_Authenticate :: "primitives \<Rightarrow> std_encrypt \<Rightarrow> bytes \<Rightarrow> (crypt_error, bytes option \<times> u32) run" where
  "R6_Authenticate L d pass = alg2a L d pass"

end
