(* ===== verification/Crypt_Document.thy ===== *)
theory Crypt_Document
  imports Core_Access Crypt_Filters Security_R6
begin

text \<open>
  The encryption of documents (\<open>pdf/core/crypt.go\<close>): the encryption dictionary, the choice of filters, authentication,
  and the encryption and decryption of objects. Objects are values: \<open>Encrypt\<close> and \<open>Decrypt\<close> return the changed object,
  every object is reached once, so the sets of the objects that are done are left out. The entries of a dictionary are
  visited in the order of its map, which is the order of its keys (\<open>dict_ok\<close> of \<open>Core_Dict\<close>, kept by every operation). \<open>resolve\<close> and \<open>lookup\<close> stand for the file behind references, \<open>now\<close> for the text of the time.
\<close>

section \<open>State\<close>

record pdf_crypt =
  cFilter :: string
  cSubFilter :: string
  cV :: int
  cLength :: int
  encryptStd :: std_encrypt
  id0 :: bytes
  encryptionKey :: bytes
  authenticated :: bool
  cryptFilters :: "(string \<times> crypt_filter_type) list"
  streamFilter :: string
  stringFilter :: string
  decryptedObjNum :: "u64 list"

type_synonym 'f lookup = "u64 \<Rightarrow> u64 \<Rightarrow> (crypt_error, 'f PdfObject) res"

definition stdCryptFilter :: string where
  "stdCryptFilter = ''StdCF''"

definition empty_std :: std_encrypt where
  "empty_std = \<lparr>sR = 0, sP = 0, sEncryptMetadata = False, sO = [], sU = [], sOE = [], sUE = [], sPerms = []\<rparr>"

text \<open>The bytes of a Go string and back.\<close>

definition string_bytes :: "string \<Rightarrow> bytes" where
  "string_bytes s = map (\<lambda>c. of_nat (of_char c)) s"

definition bytes_string :: "bytes \<Rightarrow> string" where
  "bytes_string b = map (\<lambda>x. char_of (unat x)) b"

definition name_of :: "'f PdfObject \<Rightarrow> string option" where
  "name_of obj = (case obj of PdfObjectName s \<Rightarrow> Some s | _ \<Rightarrow> None)"

definition get_name :: "string \<Rightarrow> 'f PdfObject pdf_dict \<Rightarrow> string option" where
  "get_name key d = Option.bind (dict_Get key d) name_of"

definition get_integer :: "string \<Rightarrow> 'f PdfObject pdf_dict \<Rightarrow> u64 option" where
  "get_integer key d = (case dict_Get key d of Some (PdfObjectInteger i) \<Rightarrow> Some i | _ \<Rightarrow> None)"

definition MakeStringFromBytes :: "bytes \<Rightarrow> 'f PdfObject" where
  "MakeStringFromBytes b = PdfObjectString (bytes_string b) False"

section \<open>The encryption dictionary\<close>

definition encodeEncryptStd :: "std_encrypt \<Rightarrow> 'f PdfObject pdf_dict \<Rightarrow> 'f PdfObject pdf_dict" where
  "encodeEncryptStd d ed =
    (let ed = dict_Set ''R'' (MakeInteger (sR d)) ed;
         ed = dict_Set ''P'' (PdfObjectInteger (ucast (sP d))) ed;
         ed = dict_Set ''O'' (MakeStringFromBytes (sO d)) ed;
         ed = dict_Set ''U'' (MakeStringFromBytes (sU d)) ed
     in if 5 \<le> sR d then
          let ed = dict_Set ''OE'' (MakeStringFromBytes (sOE d)) ed;
              ed = dict_Set ''UE'' (MakeStringFromBytes (sUE d)) ed;
              ed = dict_Set ''EncryptMetadata'' (PdfObjectBool (sEncryptMetadata d)) ed
          in if 5 < sR d then dict_Set ''Perms'' (MakeStringFromBytes (sPerms d)) ed else ed
        else ed)"

text \<open>A string of the dictionary whose length is right.\<close>

definition get_bytes :: "string \<Rightarrow> (nat \<Rightarrow> bool) \<Rightarrow> 'f PdfObject pdf_dict \<Rightarrow> (crypt_error, bytes) res" where
  "get_bytes key fits ed =
    (case GetString key ed of
       (_, False) \<Rightarrow> Err (MissingField key)
     | (s, True) \<Rightarrow> if fits (length s) then Ok (string_bytes s) else Err (InvalidEncryptField key))"

definition decodeEncryptStd :: "'f PdfObject pdf_dict \<Rightarrow> std_encrypt \<Rightarrow> (crypt_error, std_encrypt) res" where
  "decodeEncryptStd ed d =
    (case get_integer ''R'' ed of
       None \<Rightarrow> Err (MissingField ''R'')
     | Some r \<Rightarrow>
         let R = sint r; aes = (R = 5 \<or> R = 6)
         in if R < 2 \<or> 6 < R then Err (InvalidEncryptField ''R'')
            else
              rbind (get_bytes ''O'' (\<lambda>n. if aes then 48 \<le> n else n = 32) ed) (\<lambda>ov.
              rbind (get_bytes ''U'' (\<lambda>n. aes \<longrightarrow> 48 \<le> n) ed) (\<lambda>uv.
              rbind (if 5 \<le> R then
                       rbind (get_bytes ''OE'' (\<lambda>n. n = 32) ed) (\<lambda>oe.
                       rbind (get_bytes ''UE'' (\<lambda>n. n = 32) ed) (\<lambda>ue. Ok (oe, ue)))
                     else Ok (sOE d, sUE d)) (\<lambda>(oe, ue).
                case get_integer ''P'' ed of
                  None \<Rightarrow> Err (MissingField ''P'')
                | Some p \<Rightarrow>
                    rbind (if R = 6 then get_bytes ''Perms'' (\<lambda>n. n = 16) ed else Ok (sPerms d)) (\<lambda>perms.
                      Ok \<lparr>sR = R, sP = ucast p,
                        sEncryptMetadata = (case dict_Get ''EncryptMetadata'' ed of Some (PdfObjectBool b) \<Rightarrow> b | _ \<Rightarrow> True),
                        sO = ov, sU = uv, sOE = oe, sUE = ue, sPerms = perms\<rparr>)))))"

definition decodeCryptFilter :: "'f PdfObject pdf_dict \<Rightarrow> (crypt_error, filter_spec) res" where
  "decodeCryptFilter d =
    (if get_name ''Type'' d \<notin> {None, Some ''CryptFilter''} then Err InvalidCF
     else case get_name ''CFM'' d of
            None \<Rightarrow> Err UnsupportedFilter
          | Some name \<Rightarrow> Ok \<lparr>CFM = name,
              AuthEvent = (case get_name ''AuthEvent'' d of Some event \<Rightarrow> event | None \<Rightarrow> ''DocOpen''),
              cf_Length = (case get_integer ''Length'' d of Some n \<Rightarrow> sint n | None \<Rightarrow> 0)\<rparr>)"

definition encodeCryptFilter :: "crypt_filter_type \<Rightarrow> string \<Rightarrow> 'f PdfObject pdf_dict" where
  "encodeCryptFilter cf event =
    dict_Set ''Length'' (MakeInteger (KeyLength cf))
      (dict_Set ''CFM'' (PdfObjectName (filter_Name cf))
        (dict_Set ''AuthEvent'' (PdfObjectName (if event = [] then ''DocOpen'' else event))
          (dict_Set ''Type'' (PdfObjectName ''CryptFilter'') MakeDict)))"

definition newEncryptDict :: "pdf_crypt \<Rightarrow> 'f PdfObject pdf_dict" where
  "newEncryptDict c =
    dict_Set ''Length'' (MakeInteger (cLength c))
      (dict_Set ''V'' (MakeInteger (cV c)) (dict_Set ''Filter'' (PdfObjectName ''Standard'') MakeDict))"

section \<open>Crypt filters\<close>

definition newCryptFiltersV2 :: "int \<Rightarrow> (crypt_error, (string \<times> crypt_filter_type) list) res" where
  "newCryptFiltersV2 n = rbind (NewFilterV2 n) (\<lambda>f. Ok [(stdCryptFilter, f)])"

text \<open>An object of the dictionary \<open>CF\<close>, looked up when it is a reference.\<close>

definition look_up :: "'f resolver \<Rightarrow> 'f lookup \<Rightarrow> 'f PdfObject option \<Rightarrow> (crypt_error, 'f PdfObject option) res" where
  "look_up resolve lookup obj =
    (case obj of
       Some (PdfObjectReference n g) \<Rightarrow> rbind (lookup n g) (\<lambda>obj. Ok (TraceToDirectObject resolve (Some obj)))
     | _ \<Rightarrow> Ok obj)"

fun load_filters :: "'f resolver \<Rightarrow> 'f lookup \<Rightarrow> 'f PdfObject pdf_dict \<Rightarrow> string list \<Rightarrow> (string \<times> crypt_filter_type) list \<Rightarrow>
    (crypt_error, (string \<times> crypt_filter_type) list) res" where
  "load_filters resolve lookup cf [] fs = Ok fs"
| "load_filters resolve lookup cf (name # names) fs =
    rbind (look_up resolve lookup (dict_Get name cf)) (\<lambda>v.
      case v of
        Some (PdfObjectDictionary d) \<Rightarrow>
          if name = ''Identity'' then load_filters resolve lookup cf names fs
          else rbind (decodeCryptFilter d) (\<lambda>cfd. rbind (NewFilter cfd) (\<lambda>f.
            load_filters resolve lookup cf names (AList.update name f fs)))
      | _ \<Rightarrow> Err InvalidCF)"

text \<open>The name of the filter that an entry selects.\<close>

definition select_filter :: "string \<Rightarrow> 'f PdfObject pdf_dict \<Rightarrow> (string \<times> crypt_filter_type) list \<Rightarrow> (crypt_error, string) res" where
  "select_filter key ed fs =
    (case get_name key ed of
       None \<Rightarrow> Ok ''Identity''
     | Some name \<Rightarrow> if map_of fs name = None then Err UnknownFilter else Ok name)"

definition loadCryptFilters :: "'f resolver \<Rightarrow> 'f lookup \<Rightarrow> 'f PdfObject pdf_dict \<Rightarrow> pdf_crypt \<Rightarrow> (crypt_error, pdf_crypt) res" where
  "loadCryptFilters resolve lookup ed c =
    rbind (look_up resolve lookup (TraceToDirectObject resolve (dict_Get ''CF'' ed))) (\<lambda>obj.
      case obj of
        Some (PdfObjectDictionary cf) \<Rightarrow>
          rbind (load_filters resolve lookup cf (dict_Keys cf) []) (\<lambda>fs.
            let fs = AList.update ''Identity'' filterIdentity fs
            in rbind (select_filter ''StrF'' ed fs) (\<lambda>strf. rbind (select_filter ''StmF'' ed fs) (\<lambda>stmf.
                 Ok (c\<lparr>cryptFilters := fs, stringFilter := strf, streamFilter := stmf\<rparr>))))
      | _ \<Rightarrow> Err InvalidCF)"

definition saveCryptFilters :: "pdf_crypt \<Rightarrow> 'f PdfObject pdf_dict \<Rightarrow> (crypt_error, 'f PdfObject pdf_dict) res" where
  "saveCryptFilters c ed =
    (if cV c < 4 then Err InvalidCF
     else
       let cf = fold (\<lambda>(name, f) cf. if name = ''Identity'' then cf else dict_Set name (PdfObjectDictionary (encodeCryptFilter f [])) cf)
                  (cryptFilters c) MakeDict
       in Ok (dict_Set ''StmF'' (PdfObjectName (streamFilter c))
               (dict_Set ''StrF'' (PdfObjectName (stringFilter c))
                 (dict_Set ''CF'' (PdfObjectDictionary cf) ed))))"

section \<open>Passwords\<close>

text \<open>The two security handlers behind their interface, chosen by the revision.\<close>

definition std_GenerateParams ::
  "primitives \<Rightarrow> pdf_crypt \<Rightarrow> bytes \<Rightarrow> bytes \<Rightarrow> bytes \<Rightarrow> (crypt_error, bytes \<times> std_encrypt \<times> bytes) run" where
  "std_GenerateParams L c opass upass rnd =
    (if 5 \<le> sR (encryptStd c) then R6_GenerateParams L (encryptStd c) opass upass rnd
     else Some (R4_GenerateParams L \<lparr>Length = cLength c, ID0 = id0 c\<rparr> (encryptStd c) opass upass rnd))"

definition std_Authenticate :: "primitives \<Rightarrow> pdf_crypt \<Rightarrow> bytes \<Rightarrow> bytes \<Rightarrow> (crypt_error, bytes option \<times> u32 \<times> bytes) run" where
  "std_Authenticate L c pass rnd =
    (if 5 \<le> sR (encryptStd c) then run_bind (R6_Authenticate L (encryptStd c) pass) (\<lambda>(k, perm). Some (Ok (k, perm, rnd)))
     else Some (R4_Authenticate L \<lparr>Length = cLength c, ID0 = id0 c\<rparr> (encryptStd c) pass rnd))"

definition generateParams :: "primitives \<Rightarrow> pdf_crypt \<Rightarrow> bytes \<Rightarrow> bytes \<Rightarrow> bytes \<Rightarrow> (crypt_error, pdf_crypt \<times> bytes) run" where
  "generateParams L c upass opass rnd =
    run_bind (std_GenerateParams L c opass upass rnd) (\<lambda>(ekey, d, rnd).
      Some (Ok (c\<lparr>encryptStd := d, encryptionKey := ekey\<rparr>, rnd)))"

text \<open>A key that is empty or permissions that are zero are taken for a wrong password.\<close>

definition authenticate :: "primitives \<Rightarrow> pdf_crypt \<Rightarrow> bytes \<Rightarrow> bytes \<Rightarrow> (crypt_error, bool \<times> pdf_crypt \<times> bytes) run" where
  "authenticate L c password rnd =
    (let c = c\<lparr>authenticated := False\<rparr>
     in run_bind (std_Authenticate L c password rnd) (\<lambda>(fkey, perm, rnd).
          case fkey of
            Some k \<Rightarrow> if perm = 0 \<or> k = [] then Some (Ok (False, c, rnd))
                      else Some (Ok (True, c\<lparr>authenticated := True, encryptionKey := k\<rparr>, rnd))
          | None \<Rightarrow> Some (Ok (False, c, rnd))))"

definition checkAccessRights :: "primitives \<Rightarrow> pdf_crypt \<Rightarrow> bytes \<Rightarrow> bytes \<Rightarrow> (crypt_error, bool \<times> u32) run" where
  "checkAccessRights L c password rnd =
    run_bind (std_Authenticate L c password rnd) (\<lambda>(fkey, perm, rnd).
      case fkey of
        Some k \<Rightarrow> if perm = 0 \<or> k = [] then Some (Ok (False, 0)) else Some (Ok (True, perm))
      | None \<Rightarrow> Some (Ok (False, 0)))"

text \<open>\<open>Decrypt\<close> of \<open>pdf/core/parser.go\<close>: the empty password is tried after another one.\<close>

definition parser_Decrypt :: "primitives \<Rightarrow> pdf_crypt \<Rightarrow> bytes \<Rightarrow> bytes \<Rightarrow> (crypt_error, bool \<times> pdf_crypt \<times> bytes) run" where
  "parser_Decrypt L c password rnd =
    run_bind (authenticate L c password rnd) (\<lambda>(ok, c, rnd).
      if ok then Some (Ok (True, c, rnd)) else authenticate L c [] rnd)"

section \<open>New handlers\<close>

record 'f encrypt_info =
  Major :: int
  Minor :: int
  info_Encrypt :: "'f PdfObject pdf_dict"
  info_ID0 :: bytes
  info_ID1 :: bytes

text \<open>The handler before it has a dictionary.\<close>

definition new_crypter :: "crypt_filter_type \<Rightarrow> u32 \<Rightarrow> pdf_crypt" where
  "new_crypter cf perm =
    (let (V, R) = HandlerVersion cf; f = (if 4 \<le> V then stdCryptFilter else [])
     in \<lparr>cFilter = [], cSubFilter = [], cV = V, cLength = KeyLength cf * 8,
         encryptStd = empty_std\<lparr>sR := R, sP := perm, sEncryptMetadata := True\<rparr>, id0 = [], encryptionKey = [],
         authenticated = False, cryptFilters = [(stdCryptFilter, cf)], streamFilter = f, stringFilter = f,
         decryptedObjNum = []\<rparr>)"

definition PdfCryptNewEncrypt :: "primitives \<Rightarrow> bytes \<Rightarrow> crypt_filter_type \<Rightarrow> bytes \<Rightarrow> bytes \<Rightarrow> u32 \<Rightarrow> bytes \<Rightarrow>
    (crypt_error, pdf_crypt \<times> 'f encrypt_info \<times> bytes) run" where
  "PdfCryptNewEncrypt L now cf userPass ownerPass perm rnd =
    (let c = new_crypter cf perm;
         ed = newEncryptDict c;
         i0 = md5 L now;
         i1 = md5 L (take 100 (rnd @ replicate 100 0));
         rnd = drop 100 rnd
     in run_bind (generateParams L (c\<lparr>id0 := i0\<rparr>) userPass ownerPass rnd) (\<lambda>(c, rnd).
          let ed = encodeEncryptStd (encryptStd c) ed
          in run_bind (Some (if 4 \<le> cV c then saveCryptFilters c ed else Ok ed)) (\<lambda>ed.
               Some (Ok (c, \<lparr>Major = fst (PDFVersion cf), Minor = snd (PDFVersion cf), info_Encrypt = ed,
                 info_ID0 = i0, info_ID1 = i1\<rparr>, rnd)))))"

text \<open>The first ID of the trailer.\<close>

definition trailer_id :: "'f resolver \<Rightarrow> 'f PdfObject pdf_dict \<Rightarrow> (crypt_error, bytes) res" where
  "trailer_id resolve trailer =
    (case dict_Get ''ID'' trailer of
       Some (PdfObjectArray vec) \<Rightarrow>
         if vec = [] then Ok []
         else (case TraceToDirectObject resolve (array_Get vec 0) of
                 Some (PdfObjectString val _) \<Rightarrow> Ok (string_bytes val)
               | _ \<Rightarrow> Err (InvalidEncryptField ''ID''))
     | _ \<Rightarrow> Ok [])"

definition PdfCryptNewDecrypt ::
  "'f resolver \<Rightarrow> 'f lookup \<Rightarrow> 'f PdfObject pdf_dict \<Rightarrow> 'f PdfObject pdf_dict \<Rightarrow> (crypt_error, pdf_crypt) res" where
  "PdfCryptNewDecrypt resolve lookup ed trailer =
    (case get_name ''Filter'' ed of
       None \<Rightarrow> Err (MissingField ''Filter'')
     | Some filter_name \<Rightarrow>
         if filter_name \<noteq> ''Standard'' then Err UnsupportedFilter
         else
           let sub = (case dict_Get ''SubFilter'' ed of Some (PdfObjectString s _) \<Rightarrow> s | _ \<Rightarrow> []);
               len = (case get_integer ''Length'' ed of Some n \<Rightarrow> sint n | None \<Rightarrow> 40);
               c = \<lparr>cFilter = filter_name, cSubFilter = sub, cV = 0, cLength = len, encryptStd = empty_std, id0 = [],
                    encryptionKey = [], authenticated = False, cryptFilters = [], streamFilter = [], stringFilter = [],
                    decryptedObjNum = []\<rparr>
           in if len mod 8 \<noteq> 0 then Err (InvalidEncryptField ''Length'')
              else
                rbind (case get_integer ''V'' ed of
                         None \<Rightarrow> Ok c
                       | Some v \<Rightarrow>
                           let V = sint v; c = c\<lparr>cV := V\<rparr>
                           in if 1 \<le> V \<and> V \<le> 2 then rbind (newCryptFiltersV2 len) (\<lambda>fs. Ok (c\<lparr>cryptFilters := fs\<rparr>))
                              else if 4 \<le> V \<and> V \<le> 5 then loadCryptFilters resolve lookup ed c
                              else Err (InvalidEncryptField ''V'')) (\<lambda>c.
                rbind (decodeEncryptStd ed (encryptStd c)) (\<lambda>d.
                rbind (trailer_id resolve trailer) (\<lambda>i. Ok (c\<lparr>encryptStd := d, id0 := i\<rparr>)))))"

section \<open>Objects\<close>

definition makeKey :: "primitives \<Rightarrow> pdf_crypt \<Rightarrow> string \<Rightarrow> u64 \<Rightarrow> u64 \<Rightarrow> (crypt_error, bytes) res" where
  "makeKey L c name objNum genNum =
    (case map_of (cryptFilters c) name of
       None \<Rightarrow> Err UnknownFilter
     | Some f \<Rightarrow> Ok (MakeKey L f (ucast objNum) (ucast genNum) (encryptionKey c)))"

definition encryptBytes :: "primitives \<Rightarrow> pdf_crypt \<Rightarrow> bytes \<Rightarrow> string \<Rightarrow> bytes \<Rightarrow> bytes \<Rightarrow> (crypt_error, bytes \<times> bytes) res" where
  "encryptBytes L c buf name okey rnd =
    (case map_of (cryptFilters c) name of None \<Rightarrow> Err UnknownFilter | Some f \<Rightarrow> EncryptBytes L f buf okey rnd)"

definition decryptBytes :: "primitives \<Rightarrow> pdf_crypt \<Rightarrow> bytes \<Rightarrow> string \<Rightarrow> bytes \<Rightarrow> (crypt_error, bytes) res" where
  "decryptBytes L c buf name okey =
    (case map_of (cryptFilters c) name of None \<Rightarrow> Err UnknownFilter | Some f \<Rightarrow> DecryptBytes L f buf okey)"

text \<open>What is looked at in a stream dictionary: the first of an array of filters, and the name in the parameters.\<close>

definition first_filter :: "'f resolver \<Rightarrow> 'f PdfObject \<Rightarrow> string option" where
  "first_filter resolve obj = (case obj of PdfObjectArray vec \<Rightarrow> GetNameVal resolve (array_Get vec 0) | _ \<Rightarrow> None)"

definition param_name :: "'f PdfObject \<Rightarrow> string option" where
  "param_name obj = (case obj of PdfObjectDictionary d \<Rightarrow> get_name ''Name'' d | _ \<Rightarrow> None)"

definition stream_filter :: "pdf_crypt \<Rightarrow> 'f resolver \<Rightarrow> 'f PdfObject pdf_dict \<Rightarrow> string" where
  "stream_filter c resolve d =
    (if cV c < 4 then stdCryptFilter
     else if Option.bind (dict_Get ''Filter'' d) (first_filter resolve) = Some ''Crypt''
     then (case Option.bind (dict_Get ''DecodeParms'' d) param_name of
             None \<Rightarrow> ''Identity''
           | Some name \<Rightarrow> if map_of (cryptFilters c) name = None then ''Identity'' else name)
     else streamFilter c)"

definition string_filter :: "pdf_crypt \<Rightarrow> string" where
  "string_filter c = (if cV c < 4 then stdCryptFilter else stringFilter c)"

text \<open>The entries of a dictionary that are left alone.\<close>

definition skipped_entry :: "bool \<Rightarrow> string \<Rightarrow> bool" where
  "skipped_entry isSig k \<longleftrightarrow> isSig \<and> k = ''Contents'' \<or> k = ''Parent'' \<or> k = ''Prev'' \<or> k = ''Last''"

definition is_sig :: "'f PdfObject pdf_dict \<Rightarrow> bool" where
  "is_sig d \<longleftrightarrow> get_name ''Type'' d = Some ''Sig''"

definition set_Length :: "bytes \<Rightarrow> 'f PdfObject pdf_dict \<Rightarrow> 'f PdfObject pdf_dict" where
  "set_Length stream d = dict_Set ''Length'' (MakeInteger (int (length stream))) d"

definition encrypt_string :: "primitives \<Rightarrow> pdf_crypt \<Rightarrow> string \<Rightarrow> u64 \<Rightarrow> u64 \<Rightarrow> bytes \<Rightarrow> (crypt_error, string \<times> bytes) res" where
  "encrypt_string L c val n g rnd =
    (if 4 \<le> cV c \<and> stringFilter c = ''Identity'' then Ok (val, rnd)
     else rbind (makeKey L c (string_filter c) n g) (\<lambda>key.
       rbind (encryptBytes L c (string_bytes val) (string_filter c) key rnd) (\<lambda>(b, rnd). Ok (bytes_string b, rnd))))"

definition decrypt_string :: "primitives \<Rightarrow> pdf_crypt \<Rightarrow> string \<Rightarrow> u64 \<Rightarrow> u64 \<Rightarrow> (crypt_error, string) res" where
  "decrypt_string L c val n g =
    (if 4 \<le> cV c \<and> stringFilter c = ''Identity'' then Ok val
     else rbind (makeKey L c (string_filter c) n g) (\<lambda>key.
       rbind (decryptBytes L c (string_bytes val) (string_filter c) key) (\<lambda>b. Ok (bytes_string b))))"

end
