(* ===== verification/Crypt_Objects.thy ===== *)
theory Crypt_Objects
  imports Crypt_Document
begin

text \<open>
  \<open>Encrypt\<close> and \<open>Decrypt\<close> of \<open>pdf/core/crypt.go\<close>: the walk through an object. Each is one function with the
  loops over arrays and dictionaries. The numbers are those of the surrounding indirect object. The source of random
  bytes is passed along.
\<close>

lemma size_entries [simp]: "size_list (size_prod (\<lambda>x. 0) f) (dict d) < Suc (size_pdf_dict f d)"
  by (cases d) simp

section \<open>Encryption\<close>

function Encrypt :: "primitives \<Rightarrow> pdf_crypt \<Rightarrow> 'f resolver \<Rightarrow> 'f PdfObject \<Rightarrow> u64 \<Rightarrow> u64 \<Rightarrow> bytes \<Rightarrow>
      (crypt_error, 'f PdfObject \<times> bytes) res"
  and encrypt_list :: "primitives \<Rightarrow> pdf_crypt \<Rightarrow> 'f resolver \<Rightarrow> 'f PdfObject list \<Rightarrow> u64 \<Rightarrow> u64 \<Rightarrow> bytes \<Rightarrow>
      (crypt_error, 'f PdfObject list \<times> bytes) res"
  and encrypt_entries :: "primitives \<Rightarrow> pdf_crypt \<Rightarrow> 'f resolver \<Rightarrow> bool \<Rightarrow> (string \<times> 'f PdfObject) list \<Rightarrow> u64 \<Rightarrow> u64 \<Rightarrow> bytes \<Rightarrow>
      (crypt_error, (string \<times> 'f PdfObject) list \<times> bytes) res"
where
  "Encrypt L c resolve (PdfIndirectObject objNum genNum obj) n g rnd =
    rbind (Encrypt L c resolve obj objNum genNum rnd) (\<lambda>(obj, rnd). Ok (PdfIndirectObject objNum genNum obj, rnd))"
| "Encrypt L c resolve (PdfObjectStream objNum genNum d stream) n g rnd =
    (if get_name ''Type'' d = Some ''XRef'' then Ok (PdfObjectStream objNum genNum d stream, rnd)
     else
       let f = stream_filter c resolve d
       in if 4 \<le> cV c \<and> f = ''Identity'' then Ok (PdfObjectStream objNum genNum d stream, rnd)
          else
            rbind (encrypt_entries L c resolve (is_sig d) (dict d) objNum genNum rnd) (\<lambda>(al, rnd).
            rbind (makeKey L c f objNum genNum) (\<lambda>okey.
            rbind (encryptBytes L c stream f okey rnd) (\<lambda>(stream, rnd).
              Ok (PdfObjectStream objNum genNum (set_Length stream (PdfDict al (keys d))) stream, rnd)))))"
| "Encrypt L c resolve (PdfObjectString val isHex) n g rnd =
    rbind (encrypt_string L c val n g rnd) (\<lambda>(val, rnd). Ok (PdfObjectString val isHex, rnd))"
| "Encrypt L c resolve (PdfObjectArray vec) n g rnd =
    rbind (encrypt_list L c resolve vec n g rnd) (\<lambda>(vec, rnd). Ok (PdfObjectArray vec, rnd))"
| "Encrypt L c resolve (PdfObjectDictionary d) n g rnd =
    rbind (encrypt_entries L c resolve (is_sig d) (dict d) n g rnd) (\<lambda>(al, rnd).
      Ok (PdfObjectDictionary (PdfDict al (keys d)), rnd))"
| "Encrypt L c resolve (PdfObjectBool b) n g rnd = Ok (PdfObjectBool b, rnd)"
| "Encrypt L c resolve (PdfObjectInteger i) n g rnd = Ok (PdfObjectInteger i, rnd)"
| "Encrypt L c resolve (PdfObjectFloat x) n g rnd = Ok (PdfObjectFloat x, rnd)"
| "Encrypt L c resolve (PdfObjectName s) n g rnd = Ok (PdfObjectName s, rnd)"
| "Encrypt L c resolve PdfObjectNull n g rnd = Ok (PdfObjectNull, rnd)"
| "Encrypt L c resolve (PdfObjectReference a b) n g rnd = Ok (PdfObjectReference a b, rnd)"
| "Encrypt L c resolve (PdfObjectStreams a b vec) n g rnd = Ok (PdfObjectStreams a b vec, rnd)"
| "encrypt_list L c resolve [] n g rnd = Ok ([], rnd)"
| "encrypt_list L c resolve (obj # vec) n g rnd =
    rbind (Encrypt L c resolve obj n g rnd) (\<lambda>(obj, rnd).
    rbind (encrypt_list L c resolve vec n g rnd) (\<lambda>(vec, rnd). Ok (obj # vec, rnd)))"
| "encrypt_entries L c resolve isSig [] n g rnd = Ok ([], rnd)"
| "encrypt_entries L c resolve isSig ((k, obj) # al) n g rnd =
    rbind (if skipped_entry isSig k then Ok (obj, rnd) else Encrypt L c resolve obj n g rnd) (\<lambda>(obj, rnd).
    rbind (encrypt_entries L c resolve isSig al n g rnd) (\<lambda>(al, rnd). Ok ((k, obj) # al, rnd)))"
  by pat_completeness auto
termination
  by (relation "measure (case_sum (\<lambda>(L, c, resolve, obj, _). size obj)
    (case_sum (\<lambda>(L, c, resolve, vec, _). size_list size vec)
      (\<lambda>(L, c, resolve, isSig, al, _). size_list (size_prod (\<lambda>x. 0) size) al)))") simp_all

section \<open>Decryption\<close>

definition encryptDictKeys :: "string list" where
  "encryptDictKeys = [''V'', ''R'', ''O'', ''U'', ''P'']"

text \<open>A copy of an encryption dictionary, by its keys.\<close>

definition is_encrypt_dict :: "'f PdfObject \<Rightarrow> bool" where
  "is_encrypt_dict obj \<longleftrightarrow>
    (case obj of PdfObjectDictionary d \<Rightarrow> list_all (\<lambda>key. dict_Get key d \<noteq> None) encryptDictKeys | _ \<Rightarrow> False)"

definition xref_stream :: "pdf_crypt \<Rightarrow> 'f PdfObject pdf_dict \<Rightarrow> bool" where
  "xref_stream c d \<longleftrightarrow> sR (encryptStd c) \<noteq> 5 \<and> get_name ''Type'' d = Some ''XRef''"

definition isDecrypted :: "pdf_crypt \<Rightarrow> 'f PdfObject \<Rightarrow> bool" where
  "isDecrypted c obj \<longleftrightarrow>
    (case obj of
       PdfObjectStream _ _ d _ \<Rightarrow> xref_stream c d
     | PdfIndirectObject n _ inner \<Rightarrow> n \<in> set (decryptedObjNum c) \<or> is_encrypt_dict inner
     | _ \<Rightarrow> False)"

function Decrypt :: "primitives \<Rightarrow> pdf_crypt \<Rightarrow> 'f resolver \<Rightarrow> 'f PdfObject \<Rightarrow> u64 \<Rightarrow> u64 \<Rightarrow> (crypt_error, 'f PdfObject) res"
  and decrypt_list :: "primitives \<Rightarrow> pdf_crypt \<Rightarrow> 'f resolver \<Rightarrow> 'f PdfObject list \<Rightarrow> u64 \<Rightarrow> u64 \<Rightarrow> (crypt_error, 'f PdfObject list) res"
  and decrypt_entries :: "primitives \<Rightarrow> pdf_crypt \<Rightarrow> 'f resolver \<Rightarrow> bool \<Rightarrow> (string \<times> 'f PdfObject) list \<Rightarrow> u64 \<Rightarrow> u64 \<Rightarrow>
      (crypt_error, (string \<times> 'f PdfObject) list) res"
where
  "Decrypt L c resolve (PdfIndirectObject objNum genNum obj) n g =
    (if isDecrypted c (PdfIndirectObject objNum genNum obj) then Ok (PdfIndirectObject objNum genNum obj)
     else rbind (Decrypt L c resolve obj objNum genNum) (\<lambda>obj. Ok (PdfIndirectObject objNum genNum obj)))"
| "Decrypt L c resolve (PdfObjectStream objNum genNum d stream) n g =
    (if isDecrypted c (PdfObjectStream objNum genNum d stream) \<or> xref_stream c d then Ok (PdfObjectStream objNum genNum d stream)
     else
       let f = stream_filter c resolve d
       in if 4 \<le> cV c \<and> f = ''Identity'' then Ok (PdfObjectStream objNum genNum d stream)
          else
            rbind (decrypt_entries L c resolve (is_sig d) (dict d) objNum genNum) (\<lambda>al.
            rbind (makeKey L c f objNum genNum) (\<lambda>okey.
            rbind (decryptBytes L c stream f okey) (\<lambda>stream.
              Ok (PdfObjectStream objNum genNum (set_Length stream (PdfDict al (keys d))) stream)))))"
| "Decrypt L c resolve (PdfObjectString val isHex) n g =
    rbind (decrypt_string L c val n g) (\<lambda>val. Ok (PdfObjectString val isHex))"
| "Decrypt L c resolve (PdfObjectArray vec) n g =
    rbind (decrypt_list L c resolve vec n g) (\<lambda>vec. Ok (PdfObjectArray vec))"
| "Decrypt L c resolve (PdfObjectDictionary d) n g =
    rbind (decrypt_entries L c resolve (is_sig d) (dict d) n g) (\<lambda>al. Ok (PdfObjectDictionary (PdfDict al (keys d))))"
| "Decrypt L c resolve (PdfObjectBool b) n g = Ok (PdfObjectBool b)"
| "Decrypt L c resolve (PdfObjectInteger i) n g = Ok (PdfObjectInteger i)"
| "Decrypt L c resolve (PdfObjectFloat x) n g = Ok (PdfObjectFloat x)"
| "Decrypt L c resolve (PdfObjectName s) n g = Ok (PdfObjectName s)"
| "Decrypt L c resolve PdfObjectNull n g = Ok PdfObjectNull"
| "Decrypt L c resolve (PdfObjectReference a b) n g = Ok (PdfObjectReference a b)"
| "Decrypt L c resolve (PdfObjectStreams a b vec) n g = Ok (PdfObjectStreams a b vec)"
| "decrypt_list L c resolve [] n g = Ok []"
| "decrypt_list L c resolve (obj # vec) n g =
    rbind (Decrypt L c resolve obj n g) (\<lambda>obj. rbind (decrypt_list L c resolve vec n g) (\<lambda>vec. Ok (obj # vec)))"
| "decrypt_entries L c resolve isSig [] n g = Ok []"
| "decrypt_entries L c resolve isSig ((k, obj) # al) n g =
    rbind (if skipped_entry isSig k then Ok obj else Decrypt L c resolve obj n g) (\<lambda>obj.
    rbind (decrypt_entries L c resolve isSig al n g) (\<lambda>al. Ok ((k, obj) # al)))"
  by pat_completeness auto
termination
  by (relation "measure (case_sum (\<lambda>(L, c, resolve, obj, _). size obj)
    (case_sum (\<lambda>(L, c, resolve, vec, _). size_list size vec)
      (\<lambda>(L, c, resolve, isSig, al, _). size_list (size_prod (\<lambda>x. 0) size) al)))") simp_all

end
