(* ===== verification/Crypt_Laws.thy ===== *)
theory Crypt_Laws
  imports Crypt_Filters
begin

text \<open>
  What the encryption of documents relies on of a crypt filter, as a locale: what is encrypted with the key of an
  object is decrypted with that key, and encryption succeeds while the source has random bytes left. The four filters
  of the code provide it, each for the file keys that it accepts.
\<close>

section \<open>The interface\<close>

locale object_filter =
  fixes ok :: "primitives \<Rightarrow> bytes \<Rightarrow> bool"
    and make :: "primitives \<Rightarrow> u32 \<Rightarrow> u32 \<Rightarrow> bytes \<Rightarrow> bytes"
    and enc :: "primitives \<Rightarrow> bytes \<Rightarrow> bytes \<Rightarrow> bytes \<Rightarrow> (crypt_error, bytes \<times> bytes) res"
    and dec :: "primitives \<Rightarrow> bytes \<Rightarrow> bytes \<Rightarrow> (crypt_error, bytes) res"
  assumes enc_returns: "ok L fkey \<Longrightarrow> 16 \<le> length rnd \<Longrightarrow>
      \<exists>c rnd'. enc L buf (make L n g fkey) rnd = Ok (c, rnd') \<and> length rnd \<le> length rnd' + 16"
    and dec_enc: "ok L fkey \<Longrightarrow> enc L buf (make L n g fkey) rnd = Ok (c, rnd') \<Longrightarrow> dec L c (make L n g fkey) = Ok buf"
begin

lemma enc_injective:
  "ok L fkey \<Longrightarrow> enc L a (make L n g fkey) r = Ok (c, r1) \<Longrightarrow> enc L b (make L n g fkey) s = Ok (c, s1) \<Longrightarrow> a = b"
  using dec_enc [of L fkey a n g r c r1] dec_enc [of L fkey b n g s c s1] by simp

text \<open>Several buffers of one object, one after the other.\<close>

fun enc_all :: "primitives \<Rightarrow> bytes list \<Rightarrow> bytes \<Rightarrow> bytes \<Rightarrow> (crypt_error, bytes list \<times> bytes) res" where
  "enc_all L [] k rnd = Ok ([], rnd)"
| "enc_all L (b # bs) k rnd = rbind (enc L b k rnd) (\<lambda>(c, rnd). rbind (enc_all L bs k rnd) (\<lambda>(cs, rnd). Ok (c # cs, rnd)))"

lemma enc_all_returns:
  "ok L fkey \<Longrightarrow> 16 * length bs \<le> length rnd \<Longrightarrow> \<exists>cs rnd'. enc_all L bs (make L n g fkey) rnd = Ok (cs, rnd')"
proof (induction bs arbitrary: rnd)
  case (Cons b bs)
  from Cons.prems have "16 \<le> length rnd" by simp
  from enc_returns [OF Cons.prems(1) this, of b n g] obtain c r where
    r: "enc L b (make L n g fkey) rnd = Ok (c, r)" "length rnd \<le> length r + 16" by blast
  with Cons.prems have "16 * length bs \<le> length r" by simp
  from Cons.IH [OF Cons.prems(1) this] r show ?case by auto
qed simp

lemma dec_enc_all:
  "ok L fkey \<Longrightarrow> enc_all L bs (make L n g fkey) rnd = Ok (cs, rnd') \<Longrightarrow> map (\<lambda>c. dec L c (make L n g fkey)) cs = map Ok bs"
  by (induction bs arbitrary: rnd cs) (auto simp: rbind_eq_Ok dec_enc)

end

section \<open>The filters of the code\<close>

definition V2_ok :: "primitives \<Rightarrow> bytes \<Rightarrow> bool" where
  "V2_ok L fkey \<longleftrightarrow> primitives_ok L"

definition AESV2_ok :: "primitives \<Rightarrow> bytes \<Rightarrow> bool" where
  "AESV2_ok L fkey \<longleftrightarrow> primitives_ok L \<and> 11 \<le> length fkey"

definition AESV3_ok :: "primitives \<Rightarrow> bytes \<Rightarrow> bool" where
  "AESV3_ok L fkey \<longleftrightarrow> primitives_ok L \<and> aes_key fkey"

definition Identity_ok :: "primitives \<Rightarrow> bytes \<Rightarrow> bool" where
  "Identity_ok L fkey \<longleftrightarrow> True"

lemma length_makeKeyV2: "primitives_ok L \<Longrightarrow> length (makeKeyV2 L n g fkey aes) = min 16 (length fkey + 5)"
  by (simp add: makeKeyV2_def Let_def digest_lengths)

interpretation rc4_filter: object_filter V2_ok "\<lambda>L n g k. makeKeyV2 L n g k False" V2_EncryptBytes V2_DecryptBytes
proof unfold_locales
  fix L fkey buf n g and rnd :: bytes
  assume "V2_ok L fkey"
  then have "rc4_key (makeKeyV2 L n g fkey False)" by (simp add: V2_ok_def rc4_key_def length_makeKeyV2)
  then show "\<exists>c rnd'. V2_EncryptBytes L buf (makeKeyV2 L n g fkey False) rnd = Ok (c, rnd') \<and> length rnd \<le> length rnd' + 16"
    by (simp add: V2_EncryptBytes_def rc4_Ok)
qed (auto simp: V2_EncryptBytes_def V2_DecryptBytes_def rbind_eq_Ok intro: rc4_involution)

lemma AES_returns:
  "aes_key k \<Longrightarrow> 16 \<le> length rnd \<Longrightarrow> \<exists>c rnd'. AES_EncryptBytes L buf k rnd = Ok (c, rnd') \<and> length rnd \<le> length rnd' + 16"
  by (auto simp: AES_EncryptBytes_def Let_def ReadFull_def)

lemma AES_roundtrip:
  assumes "primitives_ok L" "AES_EncryptBytes L buf k rnd = Ok (c, rnd')"
  shows "AES_DecryptBytes L c k = Ok buf"
proof -
  have key: "aes_key k" using assms(2) by (auto simp: AES_EncryptBytes_def split: if_splits)
  define pad where "pad = 16 - length buf mod 16"
  define padded where "padded = buf @ replicate pad (of_nat pad)"
  have pad: "1 \<le> pad" "pad \<le> 16" by (simp_all add: pad_def Suc_leI)
  have full: "length padded mod 16 = 0" by (simp add: padded_def pad_def) presburger
  obtain iv where iv: "length iv = 16" "c = iv @ cbc_encrypt (aes_encrypt L k) iv padded"
    using assms(2) key by (auto simp: AES_EncryptBytes_def Let_def rbind_eq_Ok ReadFull_Ok padded_def pad_def)
  have nonempty: "padded \<noteq> []" and last: "last padded = of_nat pad" using pad(1) by (auto simp: padded_def last_replicate)
  from pad(2) have "unat (of_nat pad :: u8) = pad" by (simp add: unat_of_nat)
  with aes_cbc [OF assms(1) key full iv(1)] key iv nonempty last show ?thesis
    using full by (simp add: AES_DecryptBytes_def Let_def) (simp add: padded_def)
qed

interpretation aesv2_filter: object_filter AESV2_ok "\<lambda>L n g k. makeKeyV2 L n g k True" AES_EncryptBytes AES_DecryptBytes
proof unfold_locales
  fix L fkey buf n g and rnd :: bytes
  assume "AESV2_ok L fkey" "16 \<le> length rnd"
  moreover from this have "aes_key (makeKeyV2 L n g fkey True)" by (simp add: AESV2_ok_def aes_key_def length_makeKeyV2)
  ultimately show "\<exists>c rnd'. AES_EncryptBytes L buf (makeKeyV2 L n g fkey True) rnd = Ok (c, rnd') \<and>
      length rnd \<le> length rnd' + 16"
    by (intro AES_returns)
qed (auto simp: AESV2_ok_def intro: AES_roundtrip)

interpretation aesv3_filter: object_filter AESV3_ok "\<lambda>L n g k. k" AES_EncryptBytes AES_DecryptBytes
  by unfold_locales (auto simp: AESV3_ok_def intro: AES_returns AES_roundtrip)

interpretation identity_filter: object_filter Identity_ok "\<lambda>L n g k. k" Identity_EncryptBytes Identity_DecryptBytes
  by unfold_locales (simp_all add: Identity_EncryptBytes_def Identity_DecryptBytes_def)

section \<open>All filters\<close>

fun filter_ok :: "primitives \<Rightarrow> crypt_filter_type \<Rightarrow> bytes \<Rightarrow> bool" where
  "filter_ok L (filterV2 n) = V2_ok L"
| "filter_ok L filterAESV2 = AESV2_ok L"
| "filter_ok L filterAESV3 = AESV3_ok L"
| "filter_ok L filterIdentity = Identity_ok L"

lemma filter_returns:
  "filter_ok L f fkey \<Longrightarrow> 16 \<le> length rnd \<Longrightarrow>
    \<exists>c rnd'. EncryptBytes L f buf (MakeKey L f n g fkey) rnd = Ok (c, rnd') \<and> length rnd \<le> length rnd' + 16"
  by (cases f) (simp_all add: rc4_filter.enc_returns aesv2_filter.enc_returns aesv3_filter.enc_returns identity_filter.enc_returns)

lemma filter_roundtrip:
  "filter_ok L f fkey \<Longrightarrow> EncryptBytes L f buf (MakeKey L f n g fkey) rnd = Ok (c, rnd') \<Longrightarrow>
    DecryptBytes L f c (MakeKey L f n g fkey) = Ok buf"
  by (cases f)
    (auto intro: rc4_filter.dec_enc aesv2_filter.dec_enc [of L fkey buf n g] aesv3_filter.dec_enc identity_filter.dec_enc)

text \<open>A key length in bytes that is not a multiple of 8 is refused, though the lengths from 5 to 16 are said to
  be allowed; the constructor panics.\<close>

lemma NewFilterV2_lengths: "NewFilterV2 n \<noteq> Panic \<longleftrightarrow> n \<in> {8, 16, 40, 64, 128}"
proof -
  have "n mod 8 = 0 \<Longrightarrow> \<not> (n < 5 \<or> 16 < n) \<Longrightarrow> n = 8 \<or> n = 16" by presburger
  then show ?thesis by (auto simp: NewFilterV2_def newFilterV2_def Let_def split: if_splits)
qed

end
