(* ===== verification/Security_Hash.thy ===== *)
theory Security_Hash
  imports Security_R6
begin

text \<open>
  The hash of revision 6 returns: \<open>repeat\<close> fills the buffer with copies of its first part, and the loop of the rounds
  ends at the latest in round 287, where the bound for the last byte is 255.
\<close>

section \<open>Filling the buffer\<close>

lemma concat_replicate_add: "concat (replicate (m + n) xs) = concat (replicate m xs) @ concat (replicate n xs)"
  by (simp add: replicate_add)

lemma length_concat_replicate: "length (concat (replicate n xs)) = n * length xs"
  by (induction n) simp_all

lemma repeat_step:
  assumes "0 < length part" "m < k" "length rest = (k - m) * length part" "2 * m \<le> k" "0 < m"
  shows "repeat (concat (replicate m part) @ rest) (m * length part) =
    repeat (concat (replicate (2 * m) part) @ drop (m * length part) rest) (2 * m * length part)"
proof -
  have "m * length part \<le> length rest" using assms by simp
  moreover from this assms have "0 < length rest" by (cases "length rest") simp_all
  moreover have "concat (replicate (m * 2) part) = concat (replicate m part) @ concat (replicate m part)"
    by (simp add: mult_2_right concat_replicate_add)
  ultimately show ?thesis
    by (subst repeat.simps) (simp add: length_concat_replicate algebra_simps)
qed

lemma repeat_doubles:
  assumes "0 < length part"
  shows "length rest = (2 ^ (j + i) - 2 ^ j) * length part \<Longrightarrow>
    repeat (concat (replicate (2 ^ j) part) @ rest) (2 ^ j * length part) = Some (concat (replicate (2 ^ (j + i)) part))"
proof (induction i arbitrary: j rest)
  case 0
  then show ?case by (subst repeat.simps) (simp add: length_concat_replicate)
next
  case (Suc i)
  have less: "(2 :: nat) ^ j < 2 ^ (j + Suc i)" "2 * 2 ^ j \<le> (2 :: nat) ^ (j + Suc i)"
    by (rule power_strict_increasing) (simp_all add: power_add)
  have "length (drop (2 ^ j * length part) rest) = (2 ^ (Suc j + i) - 2 ^ Suc j) * length part"
    using Suc.prems by (simp add: algebra_simps diff_mult_distrib)
  from Suc.IH [OF this] repeat_step [OF assms less(1) Suc.prems less(2)]  show ?case by simp
qed

lemma repeat_fills:
  "0 < length part \<Longrightarrow> repeat (part @ replicate (length part * 63) 0) (length part) = Some (concat (replicate 64 part))"
  using repeat_doubles [of part "replicate (length part * 63) 0" 0 6] by simp

section \<open>The rounds\<close>

lemma alg2b_round_returns:
  assumes "primitives_ok L" "length pwd \<le> 127" "length userKey \<le> 48" "32 \<le> length K" "length K \<le> 64"
  shows "\<exists>e K'. alg2b_round L pwd userKey K = Some (Ok (e, K')) \<and> 32 \<le> length K' \<and> length K' \<le> 64"
proof -
  let ?part = "pwd @ K @ userKey"
  have part: "0 < length ?part" "\<not> 64 * (127 + 64 + 48) < length ?part * 64" using assms by auto
  have "aes_key (take 16 K)" using assms by (simp add: aes_key_def)
  with part show ?thesis
    by (simp add: alg2b_round_def Let_def repeat_fills [OF part(1), simplified] digest_lengths assms(1))
qed

lemma unat_le_255: "unat (b :: u8) \<le> 255"
proof -
  have "unat b < 2 ^ LENGTH(8)" by (rule unsigned_less)
  then show ?thesis by simp
qed

theorem alg2b_loop_returns:
  assumes "primitives_ok L" "length pwd \<le> 127" "length userKey \<le> 48"
  shows "32 \<le> length K \<Longrightarrow> length K \<le> 64 \<Longrightarrow> i < 287 \<Longrightarrow> \<exists>h. alg2b_loop L pwd userKey i K = Some (Ok h) \<and> length h = 32"
proof (induction "287 - i" arbitrary: i K)
  case (Suc n)
  from alg2b_round_returns [OF assms Suc.prems(1,2)] obtain e K' where
    round: "alg2b_round L pwd userKey K = Some (Ok (e, K'))" and K': "32 \<le> length K'" "length K' \<le> 64" by blast
  show ?case
  proof (cases "64 \<le> i + 1 \<and> last e \<le> of_nat (i + 1 - 32)")
    case True
    with round K' show ?thesis by (subst alg2b_loop.simps) (simp del: of_nat_diff)
  next
    case False
    have "i \<noteq> 286"
    proof
      assume "i = 286"
      moreover have "last e \<le> (255 :: u8)" by (simp add: word_le_nat_alt unat_le_255)
      ultimately show False using False by simp
    qed
    with Suc.prems Suc.hyps(2) have "n = 287 - (i + 1)" "i + 1 < 287" by simp_all
    from Suc.hyps(1) [OF this(1) K' this(2)] False round show ?thesis by (subst alg2b_loop.simps) (auto simp del: of_nat_Suc of_nat_diff)
  qed
qed simp

lemma alg2b_returns:
  assumes "primitives_ok L" "length pwd \<le> 127" "length userKey \<le> 48"
  shows "\<exists>h. alg2b L R data pwd userKey = Some (Ok h) \<and> length h = 32"
  using alg2b_loop_returns [OF assms, of "sha256 L data" 0] digest_lengths(2) [OF assms(1)]
  by (auto simp: alg2b_def alg2bR5_def alg2b_R6_def)

end
