(* ===== verification/Security_Handler.thy ===== *)
theory Security_Handler
  imports Security_Hash
begin

text \<open>
  What documents rely on of a standard security handler (the interface \<open>StdHandler\<close> of \<open>pdf/core/security/handlers.go\<close>),
  as a locale: the owner password and the user password of the generated parameters give the generated key back. Both
  handlers provide it. A password that opens the document as the owner's is tried as the owner's first, so the law for the
  user password speaks of the passwords that do not.
\<close>

section \<open>The interface\<close>

locale std_handler =
  fixes ok :: "primitives \<Rightarrow> 'h \<Rightarrow> std_encrypt \<Rightarrow> bool"
    and gen :: "primitives \<Rightarrow> 'h \<Rightarrow> std_encrypt \<Rightarrow> bytes \<Rightarrow> bytes \<Rightarrow> bytes \<Rightarrow> (crypt_error, bytes \<times> std_encrypt \<times> bytes) run"
    and auth :: "primitives \<Rightarrow> 'h \<Rightarrow> std_encrypt \<Rightarrow> bytes \<Rightarrow> bytes \<Rightarrow> (crypt_error, bytes option \<times> u32 \<times> bytes) run"
    and is_owner :: "primitives \<Rightarrow> 'h \<Rightarrow> std_encrypt \<Rightarrow> bytes \<Rightarrow> bytes \<Rightarrow> bool"
    and owner_pass :: "bytes \<Rightarrow> bytes \<Rightarrow> bytes"
    and need :: nat
  assumes gen_returns: "ok L h d \<Longrightarrow> need \<le> length rnd \<Longrightarrow>
      \<exists>k d' rnd'. gen L h d op up rnd = Some (Ok (k, d', rnd')) \<and> length rnd \<le> length rnd' + need"
    and gen_key: "ok L h d \<Longrightarrow> need \<le> length rnd \<Longrightarrow> gen L h d op up rnd = Some (Ok (k, d', rnd')) \<Longrightarrow> k \<noteq> []"
    and gen_keeps: "ok L h d \<Longrightarrow> need \<le> length rnd \<Longrightarrow> gen L h d op up rnd = Some (Ok (k, d', rnd')) \<Longrightarrow> sP d' = sP d \<and> sR d' = sR d \<and> sEncryptMetadata d' = sEncryptMetadata d"
    and auth_owner: "ok L h d \<Longrightarrow> need \<le> length rnd \<Longrightarrow> gen L h d op up rnd = Some (Ok (k, d', rnd')) \<Longrightarrow> need \<le> length rnd2 \<Longrightarrow>
      \<exists>rnd3. auth L h d' (owner_pass op up) rnd2 = Some (Ok (Some k, PermOwner, rnd3))"
    and auth_user: "ok L h d \<Longrightarrow> need \<le> length rnd \<Longrightarrow> gen L h d op up rnd = Some (Ok (k, d', rnd')) \<Longrightarrow> need \<le> length rnd2 \<Longrightarrow>
      \<not> is_owner L h d' up rnd2 \<Longrightarrow> \<exists>rnd3. auth L h d' up rnd2 = Some (Ok (Some k, sP d, rnd3))"
begin

text \<open>What a caller takes for success: a key that is not empty, and permissions.\<close>

definition opens :: "primitives \<Rightarrow> 'h \<Rightarrow> std_encrypt \<Rightarrow> bytes \<Rightarrow> bytes \<Rightarrow> bytes option" where
  "opens L h d pass rnd =
    (case auth L h d pass rnd of
       Some (Ok (Some k, perm, _)) \<Rightarrow> if perm = 0 \<or> k = [] then None else Some k
     | _ \<Rightarrow> None)"

lemma owner_opens:
  "ok L h d \<Longrightarrow> need \<le> length rnd \<Longrightarrow> gen L h d op up rnd = Some (Ok (k, d', rnd')) \<Longrightarrow> need \<le> length rnd2 \<Longrightarrow>
    opens L h d' (owner_pass op up) rnd2 = Some k"
  using auth_owner [of L h d rnd op up k d' rnd' rnd2] gen_key [of L h d rnd op up k d' rnd']
  by (auto simp: opens_def PermOwner_def)

lemma user_opens:
  "ok L h d \<Longrightarrow> need \<le> length rnd \<Longrightarrow> gen L h d op up rnd = Some (Ok (k, d', rnd')) \<Longrightarrow> need \<le> length rnd2 \<Longrightarrow>
    \<not> is_owner L h d' up rnd2 \<Longrightarrow> sP d \<noteq> 0 \<Longrightarrow> opens L h d' up rnd2 = Some k"
  using auth_user [of L h d rnd op up k d' rnd' rnd2] gen_key [of L h d rnd op up k d' rnd']
  by (auto simp: opens_def)

lemma user_without_permissions:
  "ok L h d \<Longrightarrow> need \<le> length rnd \<Longrightarrow> gen L h d op up rnd = Some (Ok (k, d', rnd')) \<Longrightarrow> need \<le> length rnd2 \<Longrightarrow>
    \<not> is_owner L h d' up rnd2 \<Longrightarrow> sP d = 0 \<Longrightarrow> opens L h d' up rnd2 = None"
  using auth_user [of L h d rnd op up k d' rnd' rnd2] by (auto simp: opens_def)

end

section \<open>Revisions 3 and 4\<close>

definition R4_ok :: "primitives \<Rightarrow> handler_R4 \<Rightarrow> std_encrypt \<Rightarrow> bool" where
  "R4_ok L sh d \<longleftrightarrow> primitives_ok L \<and> R4_length_ok sh \<and> 3 \<le> sR d"

definition R4_gen where
  "R4_gen L sh d op up rnd = Some (R4_GenerateParams L sh d op up rnd)"

definition R4_auth where
  "R4_auth L sh d pass rnd = Some (R4_Authenticate L sh d pass rnd)"

definition R4_is_owner :: "primitives \<Rightarrow> handler_R4 \<Rightarrow> std_encrypt \<Rightarrow> bytes \<Rightarrow> bytes \<Rightarrow> bool" where
  "R4_is_owner L sh d pass rnd \<longleftrightarrow> (\<forall>rnd'. alg7 L sh d pass rnd \<noteq> Ok (None, rnd'))"

definition R4_owner_pass :: "bytes \<Rightarrow> bytes \<Rightarrow> bytes" where
  "R4_owner_pass op up = (if op \<noteq> [] then op else up)"

lemma alg2_paddedPass: "alg2 L sh d (paddedPass pass) = alg2 L sh d pass"
  by (simp add: alg2_def paddedPass_idem)

lemma alg2_other_U: "alg2 L sh (d\<lparr>sU := u\<rparr>) pass = alg2 L sh d pass"
  by (simp add: alg2_def)

lemma alg3_Ok:
  assumes "R4_ok L sh d"
  obtains encKey ov where "alg3Key L sh (sR d) (R4_owner_pass op up) = Ok encKey" "rc4_key encKey"
    "rc4_rounds L encKey [0..<20] (paddedPass up) = Ok ov" "alg3 L sh (sR d) up op = Ok ov" "length ov = 32"
proof -
  from assms have L: "primitives_ok L" "R4_length_ok sh" and R: "3 \<le> sR d" by (simp_all add: R4_ok_def)
  from alg3Key_returns [OF L] obtain encKey where
    encKey: "alg3Key L sh (sR d) (R4_owner_pass op up) = Ok encKey" "rc4_key encKey" by blast
  from rc4_rounds_returns [OF encKey(2)] obtain ov where
    ov: "rc4_rounds L encKey [0..<20] (paddedPass up) = Ok ov" "length ov = 32" by (metis length_paddedPass)
  from encKey ov R have "alg3 L sh (sR d) up op = Ok ov"
    by (simp add: alg3_def R4_owner_pass_def rounds_0 del: upt_rec_numeral)
  with encKey ov show ?thesis by (intro that)
qed

lemma R4_generated:
  assumes "R4_ok L sh d" "R4_GenerateParams L sh d op up rnd = Ok (k, d', rnd')"
  obtains encKey ov e b where "alg3Key L sh (sR d) (R4_owner_pass op up) = Ok encKey"
    "rc4_rounds L encKey [0..<20] (paddedPass up) = Ok ov" "d' = d\<lparr>sO := ov, sU := e @ b\<rparr>" "length e = 16"
    "alg2 L sh (d\<lparr>sO := ov\<rparr>) up = Ok k" "rc4_key k"
    "\<And>rnd. alg5 L sh k rnd = rbind (ReadFull 16 rnd) (\<lambda>(b, rnd). Ok (e @ b, rnd))" "rnd' = drop 16 rnd"
proof -
  from assms(1) have L: "primitives_ok L" "R4_length_ok sh" by (simp_all add: R4_ok_def)
  from alg3_Ok [OF assms(1), of op up] obtain encKey ov where
    o: "alg3Key L sh (sR d) (R4_owner_pass op up) = Ok encKey" "rc4_key encKey"
    "rc4_rounds L encKey [0..<20] (paddedPass up) = Ok ov" "alg3 L sh (sR d) up op = Ok ov" .
  from alg2_returns [OF L] obtain k' where k': "alg2 L sh (d\<lparr>sO := ov\<rparr>) up = Ok k'" "rc4_key k'" by blast
  from alg5_returns [OF L(1) k'(2)] obtain e where
    e: "length e = 16" "\<And>rnd. alg5 L sh k' rnd = rbind (ReadFull 16 rnd) (\<lambda>(b, rnd). Ok (e @ b, rnd))" by blast
  from assms(2) o k' e have "k = k'" "d' = d\<lparr>sO := ov, sU := e @ take 16 rnd\<rparr>" "rnd' = drop 16 rnd"
    by (auto simp: R4_GenerateParams_def Let_def rbind_eq_Ok ReadFull_Ok)
  with o k' e show ?thesis by (intro that) auto
qed

lemma R4_alg6_generated:
  assumes "R4_ok L sh d" "R4_GenerateParams L sh d op up rnd = Ok (k, d', rnd')" "16 \<le> length rnd2" "paddedPass pass = paddedPass up"
  shows "alg6 L sh d' pass rnd2 = Ok (Some k, drop 16 rnd2)"
proof -
  obtain encKey ov e b where d': "d' = d\<lparr>sO := ov, sU := e @ b\<rparr>" "length e = 16"
    and k: "alg2 L sh (d\<lparr>sO := ov\<rparr>) up = Ok k"
    and alg5: "\<And>rnd. alg5 L sh k rnd = rbind (ReadFull 16 rnd) (\<lambda>(b, rnd). Ok (e @ b, rnd))"
    by (rule R4_generated [OF assms(1,2)]) blast
  have "alg2 L sh d' pass = alg2 L sh (d\<lparr>sO := ov\<rparr>) up" using assms(4) by (simp add: alg2_def d')
  then have key: "alg2 L sh d' pass = Ok k" using k by simp
  have "3 \<le> sR d'" "take 16 (sU d') = e" using assms(1) d'(2) by (simp_all add: R4_ok_def d'(1))
  with key alg5 [of rnd2] assms(3) d'(2) show ?thesis by (simp add: alg6_def ReadFull_def)
qed

lemma alg7_random:
  assumes "alg7 L sh d pass rnd = Ok (r, rnd')"
  shows "length rnd \<le> length rnd' + 16"
proof -
  have "length rnd \<le> length rnd' + 16" if "alg6 L sh d p rnd = Ok (r, rnd')" for p
    using that by (auto simp: alg6_def alg5_def Let_def rbind_eq_Ok ReadFull_Ok split: if_splits)
  moreover from assms obtain p where "(case alg6 L sh d p rnd of Err e \<Rightarrow> Ok (None, rnd) | r \<Rightarrow> r) = Ok (r, rnd')"
    unfolding alg7_def rbind_eq_Ok by blast
  ultimately show ?thesis by (cases "alg6 L sh d p rnd") auto
qed

interpretation r4_handler: std_handler R4_ok R4_gen R4_auth R4_is_owner R4_owner_pass 32
proof unfold_locales
  fix L sh d op up and rnd :: bytes
  assume ok: "R4_ok L sh d" and rnd: "32 \<le> length rnd"
  then have L: "primitives_ok L" "R4_length_ok sh" by (simp_all add: R4_ok_def)
  from alg3_Ok [OF ok, of op up] obtain ov where ov: "alg3 L sh (sR d) up op = Ok ov" .
  from alg2_returns [OF L] obtain k where k: "alg2 L sh (d\<lparr>sO := ov\<rparr>) up = Ok k" "rc4_key k" by blast
  from alg5_returns [OF L(1) k(2), of sh] obtain e where
    e: "\<And>rnd. alg5 L sh k rnd = rbind (ReadFull 16 rnd) (\<lambda>(b, rnd). Ok (e @ b, rnd))" by blast
  from rnd ov k e [of rnd] show "\<exists>k d' rnd'. R4_gen L sh d op up rnd = Some (Ok (k, d', rnd')) \<and> length rnd \<le> length rnd' + 32"
    by (simp add: R4_gen_def R4_GenerateParams_def Let_def ReadFull_def)
next
  fix L sh d op up k d' and rnd rnd' :: bytes
  assume "R4_ok L sh d" "32 \<le> length rnd" "R4_gen L sh d op up rnd = Some (Ok (k, d', rnd'))"
  then have gen: "R4_ok L sh d" "R4_GenerateParams L sh d op up rnd = Ok (k, d', rnd')" by (simp_all add: R4_gen_def)
  show "k \<noteq> []" by (rule R4_generated [OF gen]) (auto simp: rc4_key_def)
  show "sP d' = sP d \<and> sR d' = sR d \<and> sEncryptMetadata d' = sEncryptMetadata d"
    by (rule R4_generated [OF gen]) simp
next
  fix L sh d op up k d' and rnd rnd' rnd2 :: bytes
  assume "R4_ok L sh d" "32 \<le> length rnd" "R4_gen L sh d op up rnd = Some (Ok (k, d', rnd'))" and rnd2: "32 \<le> length rnd2"
  then have gen: "R4_ok L sh d" "R4_GenerateParams L sh d op up rnd = Ok (k, d', rnd')" by (simp_all add: R4_gen_def)
  obtain encKey ov e b where
    o: "alg3Key L sh (sR d) (R4_owner_pass op up) = Ok encKey" "rc4_rounds L encKey [0..<20] (paddedPass up) = Ok ov"
    and d': "d' = d\<lparr>sO := ov, sU := e @ b\<rparr>"
    by (rule R4_generated [OF gen]) blast
  from rnd2 have "alg6 L sh d' (paddedPass up) rnd2 = Ok (Some k, drop 16 rnd2)"
    by (intro R4_alg6_generated [OF gen _ paddedPass_idem]) simp
  moreover have fields: "sR d' = sR d" "sO d' = ov" by (simp_all add: d')
  moreover have "sR d \<noteq> 2" "3 \<le> sR d" using gen(1) by (simp_all add: R4_ok_def)
  ultimately have "alg7 L sh d' (R4_owner_pass op up) rnd2 = Ok (Some k, drop 16 rnd2)"
    by (simp only: alg7_def o(1) rc4_rounds_rev [OF o(2)] rbind.simps if_True if_False res.case)
  then show "\<exists>rnd3. R4_auth L sh d' (R4_owner_pass op up) rnd2 = Some (Ok (Some k, PermOwner, rnd3))"
    by (simp add: R4_auth_def R4_Authenticate_def)
next
  fix L sh d op up k d' and rnd rnd' rnd2 :: bytes
  assume "R4_ok L sh d" "32 \<le> length rnd" "R4_gen L sh d op up rnd = Some (Ok (k, d', rnd'))" and rnd2: "32 \<le> length rnd2"
    and user: "\<not> R4_is_owner L sh d' up rnd2"
  then have gen: "R4_ok L sh d" "R4_GenerateParams L sh d op up rnd = Ok (k, d', rnd')" by (simp_all add: R4_gen_def)
  then have "sP d' = sP d" by (rule R4_generated) simp
  from user obtain r where "alg7 L sh d' up rnd2 = Ok (None, r)" by (auto simp: R4_is_owner_def)
  moreover from alg7_random [OF this] rnd2 have "16 \<le> length r" by simp
  then have "alg6 L sh d' up r = Ok (Some k, drop 16 r)" by (rule R4_alg6_generated [OF gen _ refl])
  ultimately show "\<exists>rnd3. R4_auth L sh d' up rnd2 = Some (Ok (Some k, sP d, rnd3))"
    using \<open>sP d' = sP d\<close> by (simp add: R4_auth_def R4_Authenticate_def)
qed

section \<open>Revisions 5 and 6\<close>

definition R6_ok :: "primitives \<Rightarrow> unit \<Rightarrow> std_encrypt \<Rightarrow> bool" where
  "R6_ok L h d \<longleftrightarrow> primitives_ok L"

definition R6_gen where
  "R6_gen L h d op up rnd = R6_GenerateParams L d op up rnd"

definition R6_auth :: "primitives \<Rightarrow> unit \<Rightarrow> std_encrypt \<Rightarrow> bytes \<Rightarrow> bytes \<Rightarrow> (crypt_error, bytes option \<times> u32 \<times> bytes) run" where
  "R6_auth L h d pass rnd = run_bind (R6_Authenticate L d pass) (\<lambda>(k, perm). Some (Ok (k, perm, rnd)))"

definition R6_is_owner :: "primitives \<Rightarrow> unit \<Rightarrow> std_encrypt \<Rightarrow> bytes \<Rightarrow> bytes \<Rightarrow> bool" where
  "R6_is_owner L h d pass rnd \<longleftrightarrow> alg12 L d (take 127 pass) \<noteq> Some (Ok None)"

text \<open>The hashes of a dictionary: each is the hash of a password with a salt.\<close>

definition hash_of :: "primitives \<Rightarrow> int \<Rightarrow> bytes \<Rightarrow> bytes \<Rightarrow> bytes \<Rightarrow> bytes" where
  "hash_of L R data pwd userKey = (case alg2b L R data pwd userKey of Some (Ok h) \<Rightarrow> h | _ \<Rightarrow> [])"

lemma alg2b_hash_of:
  "primitives_ok L \<Longrightarrow> length pwd \<le> 127 \<Longrightarrow> length userKey \<le> 48 \<Longrightarrow>
    alg2b L R data pwd userKey = Some (Ok (hash_of L R data pwd userKey)) \<and> length (hash_of L R data pwd userKey) = 32"
  using alg2b_returns [of L pwd userKey R data] by (auto simp: hash_of_def)

lemma key_encrypt_32:
  "length h = 32 \<Longrightarrow> key_encrypt L h ekey = Ok (cbc_encrypt (aes_encrypt L h) (replicate 16 0) (take 32 ekey))"
  by (simp add: key_encrypt_def aes_key_def)

text \<open>What \<open>alg8\<close> and \<open>alg9\<close> put into a dictionary.\<close>

lemma alg8_eq:
  assumes "primitives_ok L" "length up \<le> 127" "length ekey = 32" "16 \<le> length rnd"
  shows "alg8 L d ekey up rnd = Some (Ok
    (d\<lparr>sU := hash_of L (sR d) (up @ take 8 rnd) up [] @ take 16 rnd,
       sUE := cbc_encrypt (aes_encrypt L (hash_of L (sR d) (up @ take 8 (drop 8 rnd)) up [])) (replicate 16 0) ekey\<rparr>,
     drop 16 rnd))"
proof -
  note hash = alg2b_hash_of [OF assms(1,2), of "[]"]
  have salts: "take 8 (take 16 rnd) = take 8 rnd" "drop 8 (take 16 rnd) = take 8 (drop 8 rnd)" "take 16 rnd = take 8 rnd @ take 8 (drop 8 rnd)"
    by (simp_all add: drop_take flip: take_add)
  show ?thesis using assms(3,4) hash
    by (simp add: alg8_def checkAtLeast_def ReadFull_def Let_def salts(1,2) key_encrypt_32 salts(3))
qed

lemma alg9_eq:
  assumes "primitives_ok L" "length op \<le> 127" "length ekey = 32" "16 \<le> length rnd" "length (sU d) = 48"
  shows "alg9 L d ekey op rnd = Some (Ok
    (d\<lparr>sO := hash_of L (sR d) (op @ take 8 rnd @ sU d) op (sU d) @ take 16 rnd,
       sOE := cbc_encrypt (aes_encrypt L (hash_of L (sR d) (op @ take 8 (drop 8 rnd) @ sU d) op (sU d))) (replicate 16 0) ekey\<rparr>,
     drop 16 rnd))"
proof -
  have "length (sU d) \<le> 48" using assms(5) by simp
  note hash = alg2b_hash_of [OF assms(1,2) this]
  have salts: "take 8 (take 16 rnd) = take 8 rnd" "drop 8 (take 16 rnd) = take 8 (drop 8 rnd)" "take 16 rnd = take 8 rnd @ take 8 (drop 8 rnd)"
    by (simp_all add: drop_take flip: take_add)
  show ?thesis using assms(3-5) hash
    by (simp add: alg9_def checkAtLeast_def ReadFull_def Let_def salts(1,2) key_encrypt_32 salts(3))
qed

lemma little_endian_perms: "take 4 (little_endian 8 ((ucast p :: u64) OR push_bit 32 (mask 32))) = little_endian 4 (p :: u32)"
proof (rule nth_equalityI)
  fix i assume "i < length (take 4 (little_endian 8 ((ucast p :: u64) OR push_bit 32 (mask 32))))"
  then have "i < 4" by (simp add: little_endian_def)
  moreover from this have "(ucast (drop_bit (8 * i) ((ucast p :: u64) OR push_bit 32 (mask 32))) :: u8) = ucast (drop_bit (8 * i) p)"
    by (intro bit_word_eqI) (auto simp: bit_simps)
  ultimately show "take 4 (little_endian 8 ((ucast p :: u64) OR push_bit 32 (mask 32))) ! i = little_endian 4 p ! i"
    by (simp add: little_endian_def)
qed (simp add: little_endian_def)

lemma alg10_eq:
  assumes "length ekey = 32" "4 \<le> length rnd" "primitives_ok L"
  shows "alg10 L d ekey rnd = Ok (d\<lparr>sPerms := ecb_loop (aes_encrypt L ekey) (perms_bytes d (take 4 rnd))\<rparr>, drop 4 rnd) \<and>
    length (ecb_loop (aes_encrypt L ekey) (perms_bytes d (take 4 rnd))) = 16"
proof -
  have key: "aes_key ekey" and len: "length (perms_bytes d (take 4 rnd)) = 16"
    using assms by (simp_all add: aes_key_def perms_bytes_def little_endian_def)
  with aes_ecb [OF assms(3) key, of "perms_bytes d (take 4 rnd)"]
  have "length (ecb_loop (aes_encrypt L ekey) (perms_bytes d (take 4 rnd))) = 16" by simp
  with key len assms show ?thesis
    by (simp add: alg10_def checkAtLeast_def ReadFull_def ecb_CryptBlocks_def)
qed

lemma alg13_accepts:
  assumes "primitives_ok L" "length k = 32" "length b = 4"
    and "sPerms d = ecb_loop (aes_encrypt L k) (perms_bytes d b)"
  shows "alg13 L d k = Ok ()"
proof -
  have key: "aes_key k" using assms(2) by (simp add: aes_key_def)
  have len8: "length (little_endian 8 ((ucast (sP d) :: u64) OR push_bit 32 (mask 32))) = 8" by (simp add: little_endian_def)
  then have len: "length (perms_bytes d b) = 16" using assms(3) by (simp add: perms_bytes_def)
  with aes_ecb [OF assms(1) key, of "perms_bytes d b"] have
    "length (sPerms d) = 16" "ecb_loop (aes_decrypt L k) (sPerms d) = perms_bytes d b" by (simp_all add: assms(4))
  moreover have "take 3 (drop 9 (perms_bytes d b)) = [0x61, 0x64, 0x62]" "take 4 (perms_bytes d b) = little_endian 4 (sP d)"
    "perms_bytes d b ! 8 = (if sEncryptMetadata d then 0x54 else 0x46)"
    using len8 little_endian_perms [of "sP d"] by (simp_all add: perms_bytes_def nth_append)
  ultimately show ?thesis using assms(2) key by (simp add: alg13_def checkAtLeast_def ecb_CryptBlocks_def)
qed

text \<open>The generated dictionary, with its salts.\<close>

definition R6_generated :: "primitives \<Rightarrow> std_encrypt \<Rightarrow> bytes \<Rightarrow> bytes \<Rightarrow> bytes \<Rightarrow> std_encrypt \<Rightarrow> bool" where
  "R6_generated L d op up k d' \<longleftrightarrow> length k = 32 \<and> sP d' = sP d \<and> sR d' = sR d \<and> sEncryptMetadata d' = sEncryptMetadata d \<and>
    (\<exists>vs ks. length vs = 8 \<and> length ks = 8 \<and> sU d' = hash_of L (sR d) (up @ vs) up [] @ vs @ ks \<and>
      sUE d' = cbc_encrypt (aes_encrypt L (hash_of L (sR d) (up @ ks) up [])) (replicate 16 0) k) \<and>
    (\<exists>vs ks. length vs = 8 \<and> length ks = 8 \<and> sO d' = hash_of L (sR d) (op @ vs @ sU d') op (sU d') @ vs @ ks \<and>
      sOE d' = cbc_encrypt (aes_encrypt L (hash_of L (sR d) (op @ ks @ sU d') op (sU d'))) (replicate 16 0) k) \<and>
    (sR d \<noteq> 5 \<longrightarrow> (\<exists>b. length b = 4 \<and> sPerms d' = ecb_loop (aes_encrypt L k) (perms_bytes d' b)))"

lemma salts:
  "16 \<le> length rnd \<Longrightarrow> take 16 rnd = take 8 rnd @ take 8 (drop 8 rnd) \<and> length (take 8 rnd) = 8 \<and> length (take 8 (drop 8 rnd)) = 8"
  by (simp flip: take_add)

lemma R6_generate:
  assumes "primitives_ok L" "68 \<le> length rnd"
  shows "\<exists>d'. R6_GenerateParams L d op up rnd = Some (Ok (take 32 rnd, d', drop (if sR d = 5 then 64 else 68) rnd)) \<and>
    R6_generated L d (take 127 op) (take 127 up) (take 32 rnd) d'"
proof -
  let ?k = "take 32 rnd" and ?op = "take 127 op" and ?up = "take 127 up"
  let ?r1 = "drop 32 rnd" and ?r2 = "drop 48 rnd" and ?r3 = "drop 64 rnd"
  define d0 where "d0 = d\<lparr>sU := [], sO := [], sUE := [], sOE := [], sPerms := []\<rparr>"
  define U where "U = hash_of L (sR d) (?up @ take 8 ?r1) ?up [] @ take 16 ?r1"
  define d1 where "d1 = d0\<lparr>sU := U, sUE := cbc_encrypt (aes_encrypt L (hash_of L (sR d) (?up @ take 8 (drop 8 ?r1)) ?up [])) (replicate 16 0) ?k\<rparr>"
  define d2 where "d2 = d1\<lparr>sO := hash_of L (sR d) (?op @ take 8 ?r2 @ U) ?op U @ take 16 ?r2,
    sOE := cbc_encrypt (aes_encrypt L (hash_of L (sR d) (?op @ take 8 (drop 8 ?r2) @ U) ?op U)) (replicate 16 0) ?k\<rparr>"
  define d3 where "d3 = d2\<lparr>sPerms := ecb_loop (aes_encrypt L ?k) (perms_bytes d2 (take 4 ?r3))\<rparr>"
  have R: "sR d0 = sR d" "sR d1 = sR d" "sR d2 = sR d" by (simp_all add: d0_def d1_def d2_def)
  have k: "length ?k = 32" using assms(2) by simp
  have U: "length U = 48" "sU d1 = U" using alg2b_hash_of [OF assms(1), of ?up "[]"] assms(2) by (simp_all add: U_def d1_def)
  have a8: "alg8 L d0 ?k ?up ?r1 = Some (Ok (d1, ?r2))"
    using alg8_eq [OF assms(1) _ k, of ?up ?r1 d0] assms(2) by (simp add: R d1_def U_def)
  have a9: "alg9 L d1 ?k ?op ?r2 = Some (Ok (d2, ?r3))"
    using alg9_eq [OF assms(1) _ k, of ?op ?r2 d1] assms(2) U by (simp add: R d2_def)
  have a10: "alg10 L d2 ?k ?r3 = Ok (d3, drop 68 rnd)"
    using alg10_eq [OF k _ assms(1), of ?r3 d2] assms(2) by (simp add: d3_def)
  let ?d = "if sR d = 5 then d2 else d3"
  have "R6_GenerateParams L d op up rnd = Some (Ok (?k, ?d, drop (if sR d = 5 then 64 else 68) rnd))"
    using assms(2) a8 a9 a10 R by (simp add: R6_GenerateParams_def ReadFull_def d0_def [symmetric])
  moreover have "R6_generated L d ?op ?up ?k ?d"
    unfolding R6_generated_def
  proof (intro conjI)
    show "\<exists>vs ks. length vs = 8 \<and> length ks = 8 \<and> sU ?d = hash_of L (sR d) (?up @ vs) ?up [] @ vs @ ks \<and>
      sUE ?d = cbc_encrypt (aes_encrypt L (hash_of L (sR d) (?up @ ks) ?up [])) (replicate 16 0) ?k"
      using salts [of ?r1] assms(2) by (intro exI [of _ "take 8 ?r1"] exI [of _ "take 8 (drop 8 ?r1)"]) (simp add: d3_def d2_def d1_def U_def)
    show "\<exists>vs ks. length vs = 8 \<and> length ks = 8 \<and> sO ?d = hash_of L (sR d) (?op @ vs @ sU ?d) ?op (sU ?d) @ vs @ ks \<and>
      sOE ?d = cbc_encrypt (aes_encrypt L (hash_of L (sR d) (?op @ ks @ sU ?d) ?op (sU ?d))) (replicate 16 0) ?k"
      using salts [of ?r2] assms(2) by (intro exI [of _ "take 8 ?r2"] exI [of _ "take 8 (drop 8 ?r2)"]) (simp add: d3_def d2_def d1_def)
    show "sR d \<noteq> 5 \<longrightarrow> (\<exists>b. length b = 4 \<and> sPerms ?d = ecb_loop (aes_encrypt L ?k) (perms_bytes ?d b))"
      using assms(2) by (intro impI exI [of _ "take 4 ?r3"]) (simp add: d3_def perms_bytes_def)
  qed (use k in \<open>simp_all add: d3_def d2_def d1_def d0_def\<close>)
  ultimately show ?thesis by blast
qed

lemma open_key_eq:
  assumes "primitives_ok L" "length pass \<le> 127" "length ukey \<le> 48" "length k = 32"
    and "ekey = cbc_encrypt (aes_encrypt L (hash_of L (sR d) data pass ukey)) (replicate 16 0) k"
    and "sR d \<noteq> 5 \<longrightarrow> (\<exists>b. length b = 4 \<and> sPerms d = ecb_loop (aes_encrypt L k) (perms_bytes d b))"
  shows "open_key L d pass perm data ekey ukey = Some (Ok (Some k, perm))"
proof -
  note hash = alg2b_hash_of [OF assms(1,2,3), of "sR d" data]
  then have key: "aes_key (hash_of L (sR d) data pass ukey)" by (simp add: aes_key_def)
  from aes_cbc [OF assms(1) key, of k "replicate 16 0"] assms(4,5) have
    "length ekey = 32" "cbc_decrypt (aes_decrypt L (hash_of L (sR d) data pass ukey)) (replicate 16 0) ekey = k" by simp_all
  moreover have "sR d \<noteq> 5 \<Longrightarrow> alg13 L d k = Ok ()" using assms(6) alg13_accepts [OF assms(1,4)] by blast
  ultimately show ?thesis using hash key by (simp add: open_key_def checkAtLeast_def)
qed

lemma alg12_hash:
  assumes "primitives_ok L" "length pass \<le> 127" "length (sU d) = 48" "sO d = h @ vs @ ks" "length h = 32" "length vs = 8" "length ks = 8"
  shows "alg12 L d pass = Some (Ok (if hash_of L (sR d) (pass @ vs @ sU d) pass (sU d) = h then Some h else None))"
  using alg2b_hash_of [OF assms(1,2), of "sU d"] assms(3-7) by (simp add: alg12_def checkAtLeast_def)

lemma alg11_hash:
  assumes "primitives_ok L" "length pass \<le> 127" "sU d = h @ vs @ ks" "length h = 32" "length vs = 8" "length ks = 8"
  shows "alg11 L d pass = Some (Ok (if hash_of L (sR d) (pass @ vs) pass [] = h then Some h else None))"
  using alg2b_hash_of [OF assms(1,2), of "[]"] assms(3-6) by (simp add: alg11_def checkAtLeast_def)

lemma hash_of_valid: "length h = 32 \<Longrightarrow> valid_hash (Some h)"
  by (auto simp: valid_hash_def)

lemma R6_authenticated:
  assumes L: "primitives_ok L" and gen: "R6_generated L d (take 127 op) (take 127 up) k d'"
  shows "R6_Authenticate L d' op = Some (Ok (Some k, PermOwner))"
    and "alg12 L d' (take 127 up) = Some (Ok None) \<Longrightarrow> R6_Authenticate L d' up = Some (Ok (Some k, sP d))"
proof -
  let ?op = "take 127 op" and ?up = "take 127 up"
  from gen have k: "length k = 32" and same: "sP d' = sP d" "sR d' = sR d"
    and perms: "sR d' \<noteq> 5 \<longrightarrow> (\<exists>b. length b = 4 \<and> sPerms d' = ecb_loop (aes_encrypt L k) (perms_bytes d' b))"
    by (simp_all add: R6_generated_def)
  from gen obtain vs ks where u: "length vs = 8" "length ks = 8" "sU d' = hash_of L (sR d) (?up @ vs) ?up [] @ vs @ ks"
    "sUE d' = cbc_encrypt (aes_encrypt L (hash_of L (sR d) (?up @ ks) ?up [])) (replicate 16 0) k"
    unfolding R6_generated_def by blast
  from gen obtain vs' ks' where o: "length vs' = 8" "length ks' = 8" "sO d' = hash_of L (sR d) (?op @ vs' @ sU d') ?op (sU d') @ vs' @ ks'"
    "sOE d' = cbc_encrypt (aes_encrypt L (hash_of L (sR d) (?op @ ks' @ sU d') ?op (sU d'))) (replicate 16 0) k"
    unfolding R6_generated_def by blast
  have hu: "length (hash_of L (sR d) (?up @ vs) ?up []) = 32" using alg2b_hash_of [OF L, of ?up "[]"] by simp
  have U: "length (sU d') = 48" by (simp add: u(3) hu u(1,2))
  have ho: "length (hash_of L (sR d) (?op @ vs' @ sU d') ?op (sU d')) = 32" using alg2b_hash_of [OF L, of ?op "sU d'"] U by simp
  have O: "length (sO d') = 48" by (simp add: o(3) ho o(1,2))
  have checks: "checkAtLeast 48 (sO d') = Ok ()" "checkAtLeast 48 (sU d') = Ok ()" using U O by (simp_all add: checkAtLeast_def)
  have "alg12 L d' ?op = Some (Ok (Some (hash_of L (sR d) (?op @ vs' @ sU d') ?op (sU d'))))"
    using alg12_hash [OF L _ U o(3) ho o(1,2), of ?op] by (simp add: same)
  moreover have "take 8 (drop 40 (sO d')) = ks'" by (simp add: o(3) ho o(1,2))
  moreover have "open_key L d' ?op PermOwner (?op @ ks' @ sU d') (sOE d') (sU d') = Some (Ok (Some k, PermOwner))"
    using open_key_eq [OF L _ _ k _ perms, of ?op "sU d'"] U o(4) by (simp add: same)
  ultimately show "R6_Authenticate L d' op = Some (Ok (Some k, PermOwner))"
    using hash_of_valid [OF ho] U by (simp add: R6_Authenticate_def alg2a_def checks)
  assume not_owner: "alg12 L d' ?up = Some (Ok None)"
  have "alg11 L d' ?up = Some (Ok (Some (hash_of L (sR d) (?up @ vs) ?up [])))"
    using alg11_hash [OF L _ u(3) hu u(1,2), of ?up] by (simp add: same)
  moreover have "take 8 (drop 40 (sU d')) = ks" by (simp add: u(3) hu u(1,2))
  moreover have "open_key L d' ?up (sP d) (?up @ ks) (sUE d') [] = Some (Ok (Some k, sP d))"
    using open_key_eq [OF L _ _ k _ perms, of ?up "[]"] u(4) by (simp add: same)
  ultimately show "R6_Authenticate L d' up = Some (Ok (Some k, sP d))"
    using hash_of_valid [OF hu] not_owner by (simp add: R6_Authenticate_def alg2a_def checks valid_hash_def Let_def same(1))
qed

lemma R6_generated_by:
  assumes "R6_ok L h d" "68 \<le> length rnd" "R6_gen L h d op up rnd = Some (Ok (k, d', rnd'))"
  shows "R6_generated L d (take 127 op) (take 127 up) k d'"
  using R6_generate [of L rnd d op up] assms by (auto simp: R6_ok_def R6_gen_def)

interpretation r6_handler: std_handler R6_ok R6_gen R6_auth R6_is_owner "\<lambda>op up. op" 68
proof unfold_locales
  fix L h d op up and rnd :: bytes
  assume "R6_ok L h d" "68 \<le> length rnd"
  with R6_generate [of L rnd d op up] show "\<exists>k d' rnd'. R6_gen L h d op up rnd = Some (Ok (k, d', rnd')) \<and> length rnd \<le> length rnd' + 68"
    by (auto simp: R6_ok_def R6_gen_def)
next
  fix L h d op up k d' and rnd rnd' :: bytes
  assume "R6_ok L h d" "68 \<le> length rnd" "R6_gen L h d op up rnd = Some (Ok (k, d', rnd'))"
  then have "R6_generated L d (take 127 op) (take 127 up) k d'" by (rule R6_generated_by)
  then show "k \<noteq> []" "sP d' = sP d \<and> sR d' = sR d \<and> sEncryptMetadata d' = sEncryptMetadata d"
    by (auto simp: R6_generated_def)
next
  fix L h d op up k d' and rnd rnd' rnd2 :: bytes
  assume *: "R6_ok L h d" "68 \<le> length rnd" "R6_gen L h d op up rnd = Some (Ok (k, d', rnd'))"
  from *(1) have L: "primitives_ok L" by (simp add: R6_ok_def)
  from * have gen: "R6_generated L d (take 127 op) (take 127 up) k d'" by (rule R6_generated_by)
  from R6_authenticated [OF L gen] show "\<exists>rnd3. R6_auth L h d' op rnd2 = Some (Ok (Some k, PermOwner, rnd3))"
    "\<not> R6_is_owner L h d' up rnd2 \<Longrightarrow> \<exists>rnd3. R6_auth L h d' up rnd2 = Some (Ok (Some k, sP d, rnd3))"
    by (simp_all add: R6_auth_def R6_is_owner_def)
qed

end
