(* ===== verification/Crypt_Roundtrip.thy ===== *)
theory Crypt_Roundtrip
  imports Crypt_Objects Crypt_Laws Security_Handler
begin

text \<open>
  What is encrypted is decrypted. The handler that decrypts need not be the one that encrypts: it has the same key
  and filters, and may have the identity filter besides. The walk keeps what the choice of a filter looks at.
\<close>

section \<open>Strings of bytes\<close>

lemma string_bytes_string [simp]: "string_bytes (bytes_string b) = b"
proof -
  have "(of_nat (of_char (char_of (unat x) :: char)) :: u8) = x" for x :: u8
  proof -
    have "unat x < 2 ^ LENGTH(8)" by (rule unsigned_less)
    then show ?thesis by simp
  qed
  then show ?thesis by (simp add: string_bytes_def bytes_string_def comp_def)
qed

lemma bytes_string_bytes [simp]: "bytes_string (string_bytes s) = s"
proof -
  have "char_of (unat (of_nat (of_char c) :: u8)) = c" for c :: char
    by (simp add: unat_of_nat)
  then show ?thesis by (simp add: string_bytes_def bytes_string_def comp_def)
qed

lemma length_string_bytes [simp]: "length (string_bytes s) = length s" "length (bytes_string b) = length b"
  by (simp_all add: string_bytes_def bytes_string_def)

section \<open>Handlers that fit\<close>

definition crypt_ok :: "primitives \<Rightarrow> pdf_crypt \<Rightarrow> bool" where
  "crypt_ok L c \<longleftrightarrow>
    (\<forall>name f. map_of (cryptFilters c) name = Some f \<longrightarrow> filter_ok L f (encryptionKey c)) \<and>
    (4 \<le> cV c \<and> stringFilter c = ''Identity'' \<or> map_of (cryptFilters c) (string_filter c) \<noteq> None) \<and>
    (4 \<le> cV c \<and> streamFilter c = ''Identity'' \<or>
      map_of (cryptFilters c) (if cV c < 4 then stdCryptFilter else streamFilter c) \<noteq> None)"

definition same_crypt :: "pdf_crypt \<Rightarrow> pdf_crypt \<Rightarrow> bool" where
  "same_crypt c c' \<longleftrightarrow> cV c' = cV c \<and> encryptionKey c' = encryptionKey c \<and>
    streamFilter c' = streamFilter c \<and> stringFilter c' = stringFilter c \<and>
    (\<forall>name. name \<noteq> ''Identity'' \<longrightarrow> map_of (cryptFilters c') name = map_of (cryptFilters c) name)"

definition unused_filter :: "pdf_crypt \<Rightarrow> string \<Rightarrow> bool" where
  "unused_filter c f \<longleftrightarrow> 4 \<le> cV c \<and> f = ''Identity''"

lemma buffer_roundtrip:
  assumes "crypt_ok L c" "map_of (cryptFilters c) f \<noteq> None" "map_of (cryptFilters c') f = map_of (cryptFilters c) f"
    and "encryptionKey c' = encryptionKey c" "16 \<le> length rnd"
  obtains key b rnd' where "makeKey L c f n g = Ok key" "makeKey L c' f n g = Ok key"
    "encryptBytes L c buf f key rnd = Ok (b, rnd')" "length rnd \<le> length rnd' + 16" "decryptBytes L c' b f key = Ok buf"
proof -
  from assms(2) obtain t where t: "map_of (cryptFilters c) f = Some t" by auto
  with assms(1) have ok: "filter_ok L t (encryptionKey c)" by (auto simp: crypt_ok_def)
  let ?key = "MakeKey L t (ucast n) (ucast g) (encryptionKey c)"
  from filter_returns [OF ok assms(5)] obtain b rnd' where
    b: "EncryptBytes L t buf ?key rnd = Ok (b, rnd')" "length rnd \<le> length rnd' + 16" by blast
  from that [of ?key b rnd'] b filter_roundtrip [OF ok b(1)] t assms(3,4) show ?thesis
    by (simp add: makeKey_def encryptBytes_def decryptBytes_def)
qed

lemma string_filter_same: "same_crypt c c' \<Longrightarrow> string_filter c' = string_filter c"
  by (simp add: same_crypt_def string_filter_def)

lemma std_not_identity: "stdCryptFilter \<noteq> ''Identity''"
  by (simp add: stdCryptFilter_def)

lemma encrypt_string_roundtrip:
  assumes "crypt_ok L c" "same_crypt c c'" "16 \<le> length rnd"
  obtains val' rnd' where "encrypt_string L c val n g rnd = Ok (val', rnd')" "length rnd \<le> length rnd' + 16"
    "decrypt_string L c' val' n g = Ok val"
proof (cases "4 \<le> cV c \<and> stringFilter c = ''Identity''")
  case True
  with that [of val rnd] assms show ?thesis by (simp add: encrypt_string_def decrypt_string_def same_crypt_def)
next
  case False
  with assms(1) have found: "map_of (cryptFilters c) (string_filter c) \<noteq> None" by (simp add: crypt_ok_def)
  from False have "string_filter c \<noteq> ''Identity''" using std_not_identity by (auto simp: string_filter_def)
  with assms(2) have same: "map_of (cryptFilters c') (string_filter c) = map_of (cryptFilters c) (string_filter c)"
    "encryptionKey c' = encryptionKey c" "cV c' = cV c" "stringFilter c' = stringFilter c" by (simp_all add: same_crypt_def)
  obtain key b rnd' where "makeKey L c (string_filter c) n g = Ok key" "makeKey L c' (string_filter c) n g = Ok key"
    "encryptBytes L c (string_bytes val) (string_filter c) key rnd = Ok (b, rnd')" "length rnd \<le> length rnd' + 16"
    "decryptBytes L c' b (string_filter c) key = Ok (string_bytes val)"
    by (rule buffer_roundtrip [OF assms(1) found same(1,2) assms(3), of n g "string_bytes val"])
  with that [of "bytes_string b" rnd'] False same(3,4) show ?thesis
    by (simp add: encrypt_string_def decrypt_string_def string_filter_same [OF assms(2)])
qed

section \<open>What the walk keeps\<close>

definition same_view :: "'f resolver \<Rightarrow> 'f PdfObject \<Rightarrow> 'f PdfObject \<Rightarrow> bool" where
  "same_view resolve obj obj' \<longleftrightarrow>
    name_of obj' = name_of obj \<and> first_filter resolve obj' = first_filter resolve obj \<and> param_name obj' = param_name obj \<and>
    is_encrypt_dict obj' = is_encrypt_dict obj \<and> GetNameVal resolve (Some obj') = GetNameVal resolve (Some obj) \<and>
    (\<forall>depth. Option.bind (trace_loop resolve depth obj') name_of = Option.bind (trace_loop resolve depth obj) name_of)"

lemma same_view_refl [simp]: "same_view resolve obj obj"
  by (simp add: same_view_def)

definition same_entries :: "'f resolver \<Rightarrow> (string \<times> 'f PdfObject) list \<Rightarrow> (string \<times> 'f PdfObject) list \<Rightarrow> bool" where
  "same_entries resolve = list_all2 (\<lambda>(k, v) (k', v'). k' = k \<and> same_view resolve v v')"

lemma same_entries_map_of: "same_entries resolve al al' \<Longrightarrow> rel_option (same_view resolve) (map_of al k) (map_of al' k)"
  unfolding same_entries_def by (induction rule: list_all2_induct) auto

lemma same_entries_bind:
  assumes "same_entries resolve al al'" "\<And>v v'. same_view resolve v v' \<Longrightarrow> f v' = f v"
  shows "Option.bind (map_of al' k) f = Option.bind (map_of al k) f"
  using same_entries_map_of [OF assms(1), of k] assms(2) by (cases rule: option.rel_cases) auto

lemma same_entries_None: "same_entries resolve al al' \<Longrightarrow> map_of al' k = None \<longleftrightarrow> map_of al k = None"
  using same_entries_map_of [of resolve al al' k] by (cases rule: option.rel_cases) auto

lemma GetNameVal_bind: "GetNameVal resolve obj = Option.bind (TraceToDirectObject resolve obj) name_of"
  by (simp add: GetNameVal_def name_of_def split: option.split)

text \<open>Arrays, dictionaries, strings and streams are seen when traced as they are.\<close>

lemma direct_trace: "is_direct obj \<Longrightarrow> Option.bind (trace_loop resolve depth obj) name_of = (if depth = 0 then None else name_of obj)"
  by (cases depth; cases obj) (simp_all add: GetIndirect_def ResolveReference_def)

lemma same_view_direct:
  "is_direct obj \<Longrightarrow> is_direct obj' \<Longrightarrow> name_of obj' = name_of obj \<Longrightarrow> first_filter resolve obj' = first_filter resolve obj \<Longrightarrow>
    param_name obj' = param_name obj \<Longrightarrow> is_encrypt_dict obj' = is_encrypt_dict obj \<Longrightarrow> same_view resolve obj obj'"
  by (simp add: same_view_def direct_trace GetNameVal_bind)

lemma same_view_indirect:
  assumes "same_view resolve obj obj'"
  shows "same_view resolve (PdfIndirectObject n g obj) (PdfIndirectObject n g obj')"
proof -
  have trace: "Option.bind (trace_loop resolve depth (PdfIndirectObject n g obj')) name_of =
      Option.bind (trace_loop resolve depth (PdfIndirectObject n g obj)) name_of" for depth
    using assms by (cases depth) (simp_all add: same_view_def GetIndirect_def ResolveReference_def)
  have "GetNameVal resolve (Some (PdfIndirectObject n g obj')) = GetNameVal resolve (Some (PdfIndirectObject n g obj))"
    using assms by (simp add: GetNameVal_bind TraceToDirectObject_def ResolveReference_def same_view_def)
  with trace show ?thesis by (simp add: same_view_def name_of_def first_filter_def param_name_def is_encrypt_dict_def)
qed

lemma same_view_array:
  assumes "list_all2 (same_view resolve) vec vec'"
  shows "same_view resolve (PdfObjectArray vec) (PdfObjectArray vec')"
proof (rule same_view_direct)
  from assms have "GetNameVal resolve (array_Get vec' 0) = GetNameVal resolve (array_Get vec 0)"
    by (cases rule: list.rel_cases) (auto simp: array_Get_def same_view_def)
  then show "first_filter resolve (PdfObjectArray vec') = first_filter resolve (PdfObjectArray vec)" by (simp add: first_filter_def)
qed (simp_all add: name_of_def param_name_def is_encrypt_dict_def)

lemma get_name_entries: "same_entries resolve al al' \<Longrightarrow> get_name k (PdfDict al' ks') = get_name k (PdfDict al ks)"
  using same_entries_bind [of resolve al al' name_of k] by (simp add: get_name_def dict_Get_def same_view_def)

lemma same_view_dict:
  assumes "same_entries resolve (dict d) al'"
  shows "same_view resolve (PdfObjectDictionary d) (PdfObjectDictionary (PdfDict al' ks))"
proof (rule same_view_direct)
  show "param_name (PdfObjectDictionary (PdfDict al' ks)) = param_name (PdfObjectDictionary d)"
    using get_name_entries [OF assms, of "''Name''" ks "keys d"] by (cases d) (simp add: param_name_def)
  show "is_encrypt_dict (PdfObjectDictionary (PdfDict al' ks)) = is_encrypt_dict (PdfObjectDictionary d)"
    using same_entries_None [OF assms] by (simp add: is_encrypt_dict_def dict_Get_def)
qed (simp_all add: name_of_def first_filter_def)

section \<open>Stream dictionaries\<close>

text \<open>The choice of the filter does not look at the length, and sees the same in the changed entries.\<close>

lemma bind_other: "k \<noteq> k' \<Longrightarrow> dict_Get k (dict_Set k' v d) = dict_Get k d"
  by (simp add: dict_Get_def dict_Set_def Let_def update_conv')

lemma stream_filter_kept:
  assumes "same_entries resolve (dict d) al'" "same_crypt c c'"
  shows "stream_filter c' resolve (set_Length s (PdfDict al' ks)) = stream_filter c resolve d"
proof -
  let ?d' = "set_Length s (PdfDict al' ks)"
  have "Option.bind (dict_Get ''Filter'' ?d') (first_filter resolve) = Option.bind (dict_Get ''Filter'' d) (first_filter resolve)"
    using same_entries_bind [OF assms(1), of "first_filter resolve" "''Filter''"]
    by (simp add: set_Length_def bind_other same_view_def) (simp add: dict_Get_def)
  moreover have "Option.bind (dict_Get ''DecodeParms'' ?d') param_name = Option.bind (dict_Get ''DecodeParms'' d) param_name"
    using same_entries_bind [OF assms(1), of param_name "''DecodeParms''"]
    by (simp add: set_Length_def bind_other same_view_def) (simp add: dict_Get_def)
  ultimately show ?thesis using assms(2)
    by (auto simp: stream_filter_def same_crypt_def split: option.split) (metis option.distinct(1))+
qed

lemma get_name_kept:
  assumes "same_entries resolve (dict d) al'" "k \<noteq> ''Length''"
  shows "get_name k (set_Length s (PdfDict al' ks)) = get_name k d"
  using get_name_entries [OF assms(1), of k ks "keys d"] assms(2) by (cases d) (simp add: get_name_def set_Length_def bind_other)

lemma update_update: "AList.update k v (AList.update k w al) = AList.update k v al"
  by (induction al) auto

lemma update_same: "map_of al k = Some v \<Longrightarrow> AList.update k v al = al"
  by (induction al) (auto split: if_splits)

lemma set_Length_back:
  assumes "same_entries resolve (dict d) al'" "dict_Get ''Length'' d = Some (MakeInteger (int (length s)))"
    and "dict (set_Length t (PdfDict al' (keys d))) = AList.update ''Length'' v al'"
  shows "set_Length s (PdfDict (AList.update ''Length'' v (dict d)) (keys (set_Length t (PdfDict al' (keys d))))) = d"
proof -
  have "map_of (dict d) ''Length'' = Some (MakeInteger (int (length s)))" using assms(2) by (simp add: dict_Get_def)
  moreover from this have "map_of al' ''Length'' \<noteq> None" using same_entries_None [OF assms(1)] by simp
  ultimately show ?thesis
    by (cases d) (auto simp: set_Length_def dict_Set_def Let_def update_conv' update_update update_same)
qed

section \<open>Objects\<close>

text \<open>The strings and streams of an object: each takes at most 16 random bytes.\<close>

fun crypt_count :: "'f PdfObject \<Rightarrow> nat" where
  "crypt_count (PdfIndirectObject n g obj) = crypt_count obj"
| "crypt_count (PdfObjectStream n g d s) = Suc (sum_list (map (\<lambda>(k, v). crypt_count v) (dict d)))"
| "crypt_count (PdfObjectString val isHex) = 1"
| "crypt_count (PdfObjectArray vec) = sum_list (map crypt_count vec)"
| "crypt_count (PdfObjectDictionary d) = sum_list (map (\<lambda>(k, v). crypt_count v) (dict d))"
| "crypt_count _ = 0"

text \<open>Objects whose stream dictionaries have the length of their streams, and that the decrypting handler does not
  take for decrypted already, or for encrypted though they are not.\<close>

fun crypt_wf :: "pdf_crypt \<Rightarrow> 'f PdfObject \<Rightarrow> bool" where
  "crypt_wf c (PdfIndirectObject n g obj) \<longleftrightarrow> n \<notin> set (decryptedObjNum c) \<and> \<not> is_encrypt_dict obj \<and> crypt_wf c obj"
| "crypt_wf c (PdfObjectStream n g d s) \<longleftrightarrow> dict_Get ''Length'' d = Some (MakeInteger (int (length s))) \<and>
    (get_name ''Type'' d = Some ''XRef'' \<longrightarrow> sR (encryptStd c) \<noteq> 5) \<and> list_all (\<lambda>(k, v). crypt_wf c v) (dict d)"
| "crypt_wf c (PdfObjectArray vec) \<longleftrightarrow> list_all (crypt_wf c) vec"
| "crypt_wf c (PdfObjectDictionary d) \<longleftrightarrow> list_all (\<lambda>(k, v). crypt_wf c v) (dict d)"
| "crypt_wf c _ \<longleftrightarrow> True"

lemma decrypt_entries_update:
  "decrypt_entries L c resolve isSig al' n g = Ok al \<Longrightarrow>
    decrypt_entries L c resolve isSig (AList.update k (PdfObjectInteger i) al') n g = Ok (AList.update k (PdfObjectInteger i) al)"
  by (induction al' arbitrary: al) (auto simp: rbind_eq_Ok split: if_splits)

lemma stream_filter_found:
  assumes "crypt_ok L c" "\<not> (4 \<le> cV c \<and> stream_filter c resolve d = ''Identity'')"
  shows "map_of (cryptFilters c) (stream_filter c resolve d) \<noteq> None" "stream_filter c resolve d \<noteq> ''Identity''"
  using assms std_not_identity by (auto simp: stream_filter_def crypt_ok_def split: option.splits if_splits)

text \<open>The result of encrypting: there is one, it looks the same, and decrypting gives the object back.\<close>

definition sealed :: "primitives \<Rightarrow> pdf_crypt \<Rightarrow> 'f resolver \<Rightarrow> 'f PdfObject \<Rightarrow> u64 \<Rightarrow> u64 \<Rightarrow> bytes \<Rightarrow> nat \<Rightarrow>
    (crypt_error, 'f PdfObject \<times> bytes) res \<Rightarrow> bool" where
  "sealed L c' resolve obj n g rnd count r \<longleftrightarrow> (\<exists>obj' rnd'. r = Ok (obj', rnd') \<and> length rnd \<le> length rnd' + 16 * count \<and>
    same_view resolve obj obj' \<and> Decrypt L c' resolve obj' n g = Ok obj)"

lemma sealed_unchanged:
  "Decrypt L c' resolve obj n g = Ok obj \<Longrightarrow> sealed L c' resolve obj n g rnd count (Ok (obj, rnd))"
  by (simp add: sealed_def)

lemma sealed_stream:
  assumes ok: "crypt_ok L c" "same_crypt c c'"
    and wf: "dict_Get ''Length'' d = Some (MakeInteger (int (length s)))" "get_name ''Type'' d \<noteq> Some ''XRef''"
    and used: "\<not> (4 \<le> cV c \<and> stream_filter c resolve d = ''Identity'')"
    and entries: "encrypt_entries L c resolve (is_sig d) (dict d) m g rnd = Ok (al', rnd1)" "same_entries resolve (dict d) al'"
      "decrypt_entries L c' resolve (is_sig d) al' m g = Ok (dict d)" "length rnd \<le> length rnd1 + 16 * count" "16 \<le> length rnd1"
  shows "sealed L c' resolve (PdfObjectStream m g d s) n0 g0 rnd (Suc count) (Encrypt L c resolve (PdfObjectStream m g d s) n0 g0 rnd)"
proof -
  let ?f = "stream_filter c resolve d"
  note found = stream_filter_found [OF ok(1) used]
  have same: "map_of (cryptFilters c') ?f = map_of (cryptFilters c) ?f" "encryptionKey c' = encryptionKey c" "cV c' = cV c"
    using ok(2) found(2) by (simp_all add: same_crypt_def)
  obtain key b rnd2 where b: "makeKey L c ?f m g = Ok key" "makeKey L c' ?f m g = Ok key"
    "encryptBytes L c s ?f key rnd1 = Ok (b, rnd2)" "length rnd1 \<le> length rnd2 + 16" "decryptBytes L c' b ?f key = Ok s"
    by (rule buffer_roundtrip [OF ok(1) found(1) same(1,2) entries(5), of m g s])
  let ?d' = "set_Length b (PdfDict al' (keys d))"
  have enc: "Encrypt L c resolve (PdfObjectStream m g d s) n0 g0 rnd = Ok (PdfObjectStream m g ?d' b, rnd2)"
    using wf(2) used entries(1) b(1,3) by (auto simp: Let_def)
  have upd: "dict ?d' = AList.update ''Length'' (PdfObjectInteger (of_nat (length b))) al'"
    by (simp add: set_Length_def dict_Set_def Let_def MakeInteger_def)
  have kept: "get_name ''Type'' ?d' = get_name ''Type'' d" by (rule get_name_kept [OF entries(2)]) simp
  have filt: "stream_filter c' resolve ?d' = ?f" by (rule stream_filter_kept [OF entries(2) ok(2)])
  have "decrypt_entries L c' resolve (is_sig ?d') (dict ?d') m g = Ok (AList.update ''Length'' (PdfObjectInteger (of_nat (length b))) (dict d))"
    unfolding upd using decrypt_entries_update [OF entries(3)] kept by (simp add: is_sig_def)
  moreover have "\<not> xref_stream c' ?d'" using kept wf(2) by (simp add: xref_stream_def)
  ultimately have "Decrypt L c' resolve (PdfObjectStream m g ?d' b) n0 g0 = Ok (PdfObjectStream m g d s)"
    using b(2,5) used same(3) set_Length_back [OF entries(2) wf(1) upd]
    by (auto simp: isDecrypted_def filt Let_def)
  moreover have "same_view resolve (PdfObjectStream m g d s) (PdfObjectStream m g ?d' b)"
    by (rule same_view_direct) (simp_all add: name_of_def first_filter_def param_name_def is_encrypt_dict_def)
  ultimately show ?thesis using enc entries(4) b(4) by (simp add: sealed_def)
qed

lemma same_crypt_Identity: "same_crypt c c' \<Longrightarrow> cV c' = cV c"
  by (simp add: same_crypt_def)

text \<open>A stream that is left alone.\<close>

lemma Decrypt_skipped:
  assumes "same_crypt c c'" "crypt_wf c' (PdfObjectStream m g d s)"
    and "get_name ''Type'' d = Some ''XRef'' \<or> 4 \<le> cV c \<and> stream_filter c resolve d = ''Identity''"
  shows "Decrypt L c' resolve (PdfObjectStream m g d s) n0 g0 = Ok (PdfObjectStream m g d s)"
proof -
  have "stream_filter c' resolve d = stream_filter c resolve d"
    using assms(1) by (auto simp: stream_filter_def same_crypt_def split: option.split) (metis option.distinct(1))+
  with assms show ?thesis by (auto simp: isDecrypted_def xref_stream_def same_crypt_def Let_def)
qed

lemma Encrypt_sealed:
  fixes resolve :: "'f resolver"
  shows "crypt_ok L c \<Longrightarrow> same_crypt c c' \<Longrightarrow> crypt_wf c' obj \<Longrightarrow> 16 * crypt_count obj \<le> length rnd \<Longrightarrow>
      sealed L c' resolve obj n g rnd (crypt_count obj) (Encrypt L c resolve obj n g rnd)"
    and "crypt_ok L c \<Longrightarrow> same_crypt c c' \<Longrightarrow> list_all (crypt_wf c') vec \<Longrightarrow> 16 * sum_list (map crypt_count vec) \<le> length rnd \<Longrightarrow>
      \<exists>vec' rnd'. encrypt_list L c resolve vec n g rnd = Ok (vec', rnd') \<and>
        length rnd \<le> length rnd' + 16 * sum_list (map crypt_count vec) \<and>
        list_all2 (same_view resolve) vec vec' \<and> decrypt_list L c' resolve vec' n g = Ok vec"
    and "crypt_ok L c \<Longrightarrow> same_crypt c c' \<Longrightarrow> list_all (\<lambda>(k, v). crypt_wf c' v) al \<Longrightarrow>
      16 * sum_list (map (\<lambda>(k, v). crypt_count v) al) \<le> length rnd \<Longrightarrow>
      \<exists>al' rnd'. encrypt_entries L c resolve isSig al n g rnd = Ok (al', rnd') \<and>
        length rnd \<le> length rnd' + 16 * sum_list (map (\<lambda>(k, v). crypt_count v) al) \<and>
        same_entries resolve al al' \<and> decrypt_entries L c' resolve isSig al' n g = Ok al"
proof (induction L c resolve obj n g rnd and L c resolve vec n g rnd and L c resolve isSig al n g rnd
    rule: Encrypt_encrypt_list_encrypt_entries.induct)
  case (1 L c resolve objNum genNum obj n g rnd)
  then obtain obj' rnd' where obj': "Encrypt L c resolve obj objNum genNum rnd = Ok (obj', rnd')"
    "length rnd \<le> length rnd' + 16 * crypt_count obj" "same_view resolve obj obj'" "Decrypt L c' resolve obj' objNum genNum = Ok obj"
    by (auto simp: sealed_def)
  moreover have "\<not> isDecrypted c' (PdfIndirectObject objNum genNum obj')"
    using 1(4) obj'(3) by (simp add: isDecrypted_def same_view_def)
  ultimately show ?case by (auto simp: sealed_def intro: same_view_indirect)
next
  case (2 L c resolve objNum genNum d stream n g rnd)
  show ?case
  proof (cases "get_name ''Type'' d = Some ''XRef'' \<or> 4 \<le> cV c \<and> stream_filter c resolve d = ''Identity''")
    case True
    then have "Encrypt L c resolve (PdfObjectStream objNum genNum d stream) n g rnd = Ok (PdfObjectStream objNum genNum d stream, rnd)"
      by (auto simp: Let_def)
    with Decrypt_skipped [OF 2(3,4) True] show ?thesis by (simp add: sealed_unchanged)
  next
    case False
    let ?n = "sum_list (map (\<lambda>(k, v). crypt_count v) (dict d))"
    from False 2 obtain al' rnd' where al': "encrypt_entries L c resolve (is_sig d) (dict d) objNum genNum rnd = Ok (al', rnd')"
      "length rnd \<le> length rnd' + 16 * ?n" "same_entries resolve (dict d) al'"
      "decrypt_entries L c' resolve (is_sig d) al' objNum genNum = Ok (dict d)" by auto
    have "16 \<le> length rnd'" using 2(5) al'(2) by simp
    from sealed_stream [OF 2(2,3) _ _ _ al'(1,3,4,2) this] False 2(4) show ?thesis by simp
  qed
next
  case (3 L c resolve val isHex n g rnd)
  then have "16 \<le> length rnd" by simp
  obtain val' rnd' where "encrypt_string L c val n g rnd = Ok (val', rnd')" "length rnd \<le> length rnd' + 16"
    "decrypt_string L c' val' n g = Ok val"
    by (rule encrypt_string_roundtrip [OF 3(1,2) \<open>16 \<le> length rnd\<close>, of val n g])
  moreover have "same_view resolve (PdfObjectString val isHex) (PdfObjectString val' isHex)"
    by (rule same_view_direct) (simp_all add: name_of_def first_filter_def param_name_def is_encrypt_dict_def)
  ultimately show ?case by (simp add: sealed_def)
next
  case (4 L c resolve vec n g rnd)
  then show ?case by (auto simp: sealed_def intro: same_view_array)
next
  case (5 L c resolve d n g rnd)
  then obtain al' rnd' where al': "encrypt_entries L c resolve (is_sig d) (dict d) n g rnd = Ok (al', rnd')"
      "length rnd \<le> length rnd' + 16 * sum_list (map (\<lambda>(k, v). crypt_count v) (dict d))" "same_entries resolve (dict d) al'"
      "decrypt_entries L c' resolve (is_sig d) al' n g = Ok (dict d)" by auto
  have "is_sig (PdfDict al' (keys d)) = is_sig d"
    using get_name_entries [OF al'(3), of "''Type''" "keys d" "keys d"] by (cases d) (simp add: is_sig_def)
  with al' same_view_dict [OF al'(3)] show ?case by (cases d) (simp add: sealed_def)
next
  case (14 L c resolve obj vec n g rnd)
  then obtain obj' rnd1 where obj': "Encrypt L c resolve obj n g rnd = Ok (obj', rnd1)"
    "length rnd \<le> length rnd1 + 16 * crypt_count obj" "same_view resolve obj obj'" "Decrypt L c' resolve obj' n g = Ok obj"
    by (auto simp: sealed_def)
  moreover from this(2) 14(6) have "16 * sum_list (map crypt_count vec) \<le> length rnd1" by simp
  from 14(2) [OF 14(3,4) _ this] 14(5) obtain vec' rnd2 where "encrypt_list L c resolve vec n g rnd1 = Ok (vec', rnd2)"
    "length rnd1 \<le> length rnd2 + 16 * sum_list (map crypt_count vec)" "list_all2 (same_view resolve) vec vec'"
    "decrypt_list L c' resolve vec' n g = Ok vec" by auto
  ultimately show ?case by simp
next
  case (16 L c resolve isSig k obj al n g rnd)
  obtain obj' rnd1 where obj': "(if skipped_entry isSig k then Ok (obj, rnd) else Encrypt L c resolve obj n g rnd) = Ok (obj', rnd1)"
    "length rnd \<le> length rnd1 + 16 * crypt_count obj" "same_view resolve obj obj'"
    "(if skipped_entry isSig k then Ok obj' else Decrypt L c' resolve obj' n g) = Ok obj"
    using 16(1) 16(3-) by (cases "skipped_entry isSig k") (auto simp: sealed_def)
  moreover from this(2) 16(6) have "16 * sum_list (map (\<lambda>(k, v). crypt_count v) al) \<le> length rnd1" by simp
  from 16(2) [OF 16(3,4) _ this] 16(5) obtain al' rnd2 where "encrypt_entries L c resolve isSig al n g rnd1 = Ok (al', rnd2)"
    "length rnd1 \<le> length rnd2 + 16 * sum_list (map (\<lambda>(k, v). crypt_count v) al)" "same_entries resolve al al'"
    "decrypt_entries L c' resolve isSig al' n g = Ok al" by auto
  ultimately show ?case by (simp add: same_entries_def)
qed (simp_all add: sealed_unchanged same_entries_def)

end
