(* ===== verification/Crypt_Session.thy ===== *)
theory Crypt_Session
  imports Crypt_Roundtrip
begin

text \<open>
  A document from its encryption to its decryption: the dictionary that the encrypting handler writes is read by the
  decrypting one as it was meant, and the passwords give it the key.
\<close>

section \<open>Generated parameters\<close>

definition R4_of :: "pdf_crypt \<Rightarrow> handler_R4" where
  "R4_of c = \<lparr>Length = cLength c, ID0 = id0 c\<rparr>"

definition std_ok :: "primitives \<Rightarrow> pdf_crypt \<Rightarrow> bool" where
  "std_ok L c \<longleftrightarrow> primitives_ok L \<and> 3 \<le> sR (encryptStd c) \<and> (sR (encryptStd c) < 5 \<longrightarrow> R4_length_ok (R4_of c))"

text \<open>The password that opens as the owner's: without one, revisions 3 and 4 take the user's.\<close>

definition owner_password :: "pdf_crypt \<Rightarrow> bytes \<Rightarrow> bytes \<Rightarrow> bytes" where
  "owner_password c op up = (if 5 \<le> sR (encryptStd c) then op else R4_owner_pass op up)"

definition is_owner :: "primitives \<Rightarrow> pdf_crypt \<Rightarrow> bytes \<Rightarrow> bytes \<Rightarrow> bool" where
  "is_owner L c pass rnd =
    (if 5 \<le> sR (encryptStd c) then R6_is_owner L () (encryptStd c) pass rnd else R4_is_owner L (R4_of c) (encryptStd c) pass rnd)"

lemma alg2_length: "3 \<le> sR d \<Longrightarrow> primitives_ok L \<Longrightarrow> alg2 L sh d pass = Ok k \<Longrightarrow> length k = nat (Length sh sdiv 8)"
  by (auto simp: alg2_def Let_def rbind_eq_Ok slice_to_Ok)

lemma R4_lengths:
  assumes "R4_ok L sh d" "R4_GenerateParams L sh d op up rnd = Ok (k, d', rnd')" "16 \<le> length rnd"
  shows "length (sO d') = 32 \<and> length k = nat (Length sh sdiv 8) \<and> sOE d' = sOE d \<and> sUE d' = sUE d \<and> sPerms d' = sPerms d"
proof -
  obtain encKey ov e b where o: "alg3Key L sh (sR d) (R4_owner_pass op up) = Ok encKey"
    "rc4_rounds L encKey [0..<20] (paddedPass up) = Ok ov" "d' = d\<lparr>sO := ov, sU := e @ b\<rparr>" "alg2 L sh (d\<lparr>sO := ov\<rparr>) up = Ok k"
    by (rule R4_generated [OF assms(1,2)]) blast
  from assms(1) have "primitives_ok L" "R4_length_ok sh" "3 \<le> sR d" by (simp_all add: R4_ok_def)
  from alg3Key_returns [OF this(1,2), of "sR d" "R4_owner_pass op up"] o(1) have "rc4_key encKey" by simp
  from rc4_rounds_returns [OF this, of L "[0..<20]" "paddedPass up"] o(2) have "length ov = 32"
    by (simp add: length_paddedPass del: upt_rec_numeral)
  moreover have "length k = nat (Length sh sdiv 8)"
    using alg2_length [OF _ \<open>primitives_ok L\<close> o(4)] \<open>3 \<le> sR d\<close> by simp
  ultimately show ?thesis by (simp add: o(3))
qed

lemma R6_lengths:
  assumes L: "primitives_ok L" and gen: "R6_generated L d (take 127 op) (take 127 up) k d'"
  shows "length (sO d') = 48 \<and> length (sU d') = 48 \<and> length (sOE d') = 32 \<and> length (sUE d') = 32 \<and>
    (sR d \<noteq> 5 \<longrightarrow> length (sPerms d') = 16) \<and> length k = 32"
proof -
  let ?op = "take 127 op" and ?up = "take 127 up"
  from gen have k: "length k = 32" by (simp add: R6_generated_def)
  have enc: "length (cbc_encrypt (aes_encrypt L h) (replicate 16 0) k) = 32" if "length h = 32" for h
    using aes_cbc [OF L, of h k "replicate 16 0"] that k by (simp add: aes_key_def)
  have hash: "length (hash_of L (sR d) data p u) = 32" if "length p \<le> 127" "length u \<le> 48" for data p u
    using alg2b_hash_of [OF L that] by simp
  have U: "length (sU d') = 48" "length (sUE d') = 32" using gen enc hash [of ?up "[]"] by (auto simp: R6_generated_def)
  then have "length (sO d') = 48" "length (sOE d') = 32" using gen enc hash [of ?op "sU d'"] by (auto simp: R6_generated_def)
  moreover have "sR d \<noteq> 5 \<longrightarrow> length (sPerms d') = 16"
  proof
    assume "sR d \<noteq> 5"
    with gen obtain b where b: "length b = 4" "sPerms d' = ecb_loop (aes_encrypt L k) (perms_bytes d' b)" by (auto simp: R6_generated_def)
    have "length (perms_bytes d' b) = 16" using b(1) by (simp add: perms_bytes_def little_endian_def)
    with aes_ecb [OF L, of k "perms_bytes d' b"] k b(2) show "length (sPerms d') = 16" by (simp add: aes_key_def)
  qed
  ultimately show ?thesis using U k by simp
qed

text \<open>What the generated dictionary is: its fields have their lengths, and the passwords give the key.\<close>

definition passwords_open :: "primitives \<Rightarrow> pdf_crypt \<Rightarrow> bytes \<Rightarrow> bytes \<Rightarrow> bytes \<Rightarrow> std_encrypt \<Rightarrow> bool" where
  "passwords_open L c op up k d \<longleftrightarrow>
    (\<forall>c' rnd. encryptStd c' = d \<longrightarrow> cLength c' = cLength c \<longrightarrow> id0 c' = id0 c \<longrightarrow> 68 \<le> length rnd \<longrightarrow>
      (\<exists>rnd'. std_Authenticate L c' (owner_password c op up) rnd = Some (Ok (Some k, PermOwner, rnd'))) \<and>
      (\<not> is_owner L c' up rnd \<longrightarrow> (\<exists>rnd'. std_Authenticate L c' up rnd = Some (Ok (Some k, sP d, rnd')))))"

definition std_generated :: "primitives \<Rightarrow> pdf_crypt \<Rightarrow> bytes \<Rightarrow> bytes \<Rightarrow> bytes \<Rightarrow> std_encrypt \<Rightarrow> bool" where
  "std_generated L c op up k d \<longleftrightarrow>
    k \<noteq> [] \<and> sP d = sP (encryptStd c) \<and> sR d = sR (encryptStd c) \<and> sEncryptMetadata d = sEncryptMetadata (encryptStd c) \<and>
    (sR d < 5 \<longrightarrow> length (sO d) = 32 \<and> length k = nat (cLength c sdiv 8) \<and> sOE d = sOE (encryptStd c) \<and> sUE d = sUE (encryptStd c) \<and> sPerms d = sPerms (encryptStd c)) \<and>
    (5 \<le> sR d \<longrightarrow> length (sO d) = 48 \<and> length (sU d) = 48 \<and> length (sOE d) = 32 \<and> length (sUE d) = 32 \<and>
      (sR d \<noteq> 5 \<longrightarrow> length (sPerms d) = 16) \<and> length k = 32) \<and>
    passwords_open L c op up k d"

lemma std_generates:
  assumes ok: "std_ok L c" and rnd: "68 \<le> length rnd"
  obtains k d rnd' where "std_GenerateParams L c op up rnd = Some (Ok (k, d, rnd'))" "std_generated L c op up k d"
proof (cases "5 \<le> sR (encryptStd c)")
  case True
  let ?d = "encryptStd c"
  from ok have R6: "R6_ok L () ?d" and L: "primitives_ok L" by (simp_all add: R6_ok_def std_ok_def)
  from r6_handler.gen_returns [OF R6 rnd, of op up] obtain k d rnd' where
    gen: "R6_gen L () ?d op up rnd = Some (Ok (k, d, rnd'))" by blast
  note g = R6_generated_by [OF R6 rnd gen]
  have keeps: "sP d = sP ?d" "sR d = sR ?d" "sEncryptMetadata d = sEncryptMetadata ?d" using g by (simp_all add: R6_generated_def)
  have auth: "std_Authenticate L c' pass r = R6_auth L () d pass r" if "encryptStd c' = d" for c' pass r
    using that keeps True by (simp add: std_Authenticate_def R6_auth_def)
  have "passwords_open L c op up k d"
    unfolding passwords_open_def
  proof (intro allI impI conjI)
    fix c' :: pdf_crypt and r :: bytes
    assume c': "encryptStd c' = d" and r: "68 \<le> length r"
    from r6_handler.auth_owner [OF R6 rnd gen r] show "\<exists>rnd'. std_Authenticate L c' (owner_password c op up) r = Some (Ok (Some k, PermOwner, rnd'))"
      unfolding auth [OF c'] by (simp add: owner_password_def True)
    assume "\<not> is_owner L c' up r"
    then have "\<not> R6_is_owner L () d up r" using True keeps by (simp add: is_owner_def c')
    from r6_handler.auth_user [OF R6 rnd gen r this] keeps show "\<exists>rnd'. std_Authenticate L c' up r = Some (Ok (Some k, sP d, rnd'))"
      unfolding auth [OF c'] by simp
  qed
  with R6_lengths [OF L g] keeps True r6_handler.gen_key [OF R6 rnd gen] have "std_generated L c op up k d"
    by (simp add: std_generated_def)
  with gen True show ?thesis by (intro that [of k d rnd']) (simp_all add: std_GenerateParams_def R6_gen_def)
next
  case False
  let ?d = "encryptStd c"
  from ok False have R4: "R4_ok L (R4_of c) ?d" by (simp add: R4_ok_def std_ok_def)
  from rnd have rnd32: "32 \<le> length rnd" "16 \<le> length rnd" by simp_all
  from r4_handler.gen_returns [OF R4 rnd32(1), of op up] obtain k d rnd' where
    gen: "R4_gen L (R4_of c) ?d op up rnd = Some (Ok (k, d, rnd'))" by blast
  then have gen': "R4_GenerateParams L (R4_of c) ?d op up rnd = Ok (k, d, rnd')" by (simp add: R4_gen_def)
  note keeps = r4_handler.gen_keeps [OF R4 rnd32(1) gen]
  have auth: "std_Authenticate L c' pass r = R4_auth L (R4_of c) d pass r"
    if "encryptStd c' = d" "cLength c' = cLength c" "id0 c' = id0 c" for c' pass r
    using that keeps False by (simp add: std_Authenticate_def R4_auth_def R4_of_def)
  have "passwords_open L c op up k d"
    unfolding passwords_open_def
  proof (intro allI impI conjI)
    fix c' :: pdf_crypt and r :: bytes
    assume c': "encryptStd c' = d" "cLength c' = cLength c" "id0 c' = id0 c" and "68 \<le> length r"
    then have r: "32 \<le> length r" by simp
    from r4_handler.auth_owner [OF R4 rnd32(1) gen r] show "\<exists>rnd'. std_Authenticate L c' (owner_password c op up) r = Some (Ok (Some k, PermOwner, rnd'))"
      unfolding auth [OF c'] by (simp add: owner_password_def False)
    assume "\<not> is_owner L c' up r"
    then have "\<not> R4_is_owner L (R4_of c) d up r" using False keeps by (simp add: is_owner_def c' R4_of_def)
    from r4_handler.auth_user [OF R4 rnd32(1) gen r this] keeps show "\<exists>rnd'. std_Authenticate L c' up r = Some (Ok (Some k, sP d, rnd'))"
      unfolding auth [OF c'] by simp
  qed
  with R4_lengths [OF R4 gen' rnd32(2)] keeps False r4_handler.gen_key [OF R4 rnd32(1) gen] have "std_generated L c op up k d"
    by (simp add: std_generated_def R4_of_def)
  with gen' False show ?thesis by (intro that [of k d rnd']) (simp_all add: std_GenerateParams_def R4_of_def)
qed

end
