(* ===== verification/Crypt_Properties.thy ===== *)
theory Crypt_Properties
  imports Crypt_Session
begin

text \<open>
  Properties of encryption: a crypt filter decrypts what it encrypted; the passwords of generated parameters give the
  key back; the hash of revision 6 returns; and a document that was encrypted is opened with its passwords and
  decrypted to what it was.
\<close>

section \<open>The encryption dictionary\<close>

lemma Get_Set: "dict_Get k (dict_Set k' v d) = (if k = k' then Some v else dict_Get k d)"
  by (rule dictionary.get_put)

lemma Get_empty: "dict_Get k MakeDict = None"
  by (simp add: dict_Get_def MakeDict_def)

lemma GetString_Get: "GetString key d = (case dict_Get key d of Some (PdfObjectString val _) \<Rightarrow> (val, True) | _ \<Rightarrow> ('''', False))"
  by (simp add: GetString_def dict_Get_def)

lemma get_bytes_same: "get_bytes k fits (dict_Set k (MakeStringFromBytes b) d) = (if fits (length b) then Ok b else Err (InvalidEncryptField k))"
  by (simp add: get_bytes_def GetString_Get Get_Set MakeStringFromBytes_def)

lemma get_bytes_other: "k \<noteq> k' \<Longrightarrow> get_bytes k fits (dict_Set k' v d) = get_bytes k fits d"
  by (simp add: get_bytes_def GetString_Get Get_Set)

lemma get_integer_Set: "get_integer k (dict_Set k' v d) = (if k = k' then (case v of PdfObjectInteger i \<Rightarrow> Some i | _ \<Rightarrow> None) else get_integer k d)"
  by (simp add: get_integer_def Get_Set split: PdfObject.split)

lemma get_name_Set: "get_name k (dict_Set k' v d) = (if k = k' then name_of v else get_name k d)"
  by (simp add: get_name_def Get_Set)

lemma small_int: "\<bar>x\<bar> < 1000 \<Longrightarrow> sint (of_int x :: u64) = x"
  by (rule sint_of_int64) (simp add: in_int64_def abs_less_iff)

text \<open>What decoding needs of the entries that are not those of the handler.\<close>

definition no_metadata_entry :: "'f PdfObject pdf_dict \<Rightarrow> bool" where
  "no_metadata_entry ed \<longleftrightarrow> dict_Get ''EncryptMetadata'' ed = None"

lemma decode_encode_R4:
  assumes "2 \<le> sR d" "sR d < 5" "length (sO d) = 32" "sEncryptMetadata d" "no_metadata_entry ed"
    and "sOE d = sOE d0" "sUE d = sUE d0" "sPerms d = sPerms d0"
  shows "decodeEncryptStd (encodeEncryptStd d ed) d0 = Ok d"
proof -
  have "sint (of_int (sR d) :: u64) = sR d" using assms(1,2) by (intro small_int) simp
  moreover have "(ucast (ucast (sP d) :: u64) :: u32) = sP d" by (rule bit_word_eqI) (simp add: bit_simps)
  ultimately show ?thesis using assms
    by (cases d) (simp add: decodeEncryptStd_def encodeEncryptStd_def Let_def get_integer_Set get_bytes_same get_bytes_other
      Get_Set MakeInteger_def no_metadata_entry_def)
qed

lemma decode_encode_R6:
  assumes "sR d = 5 \<or> sR d = 6" "length (sO d) = 48" "length (sU d) = 48" "length (sOE d) = 32" "length (sUE d) = 32"
    and "if sR d = 6 then length (sPerms d) = 16 else sPerms d = sPerms d0"
  shows "decodeEncryptStd (encodeEncryptStd d ed) d0 = Ok d"
proof -
  have "sint (of_int (sR d) :: u64) = sR d" using assms(1) by (intro small_int) auto
  moreover have "(ucast (ucast (sP d) :: u64) :: u32) = sP d" by (rule bit_word_eqI) (simp add: bit_simps)
  ultimately show ?thesis using assms
    by (cases d) (auto simp: decodeEncryptStd_def encodeEncryptStd_def Let_def get_integer_Set get_bytes_same get_bytes_other
      Get_Set MakeInteger_def)
qed

definition std_keys :: "string set" where
  "std_keys = {''R'', ''P'', ''O'', ''U'', ''OE'', ''UE'', ''EncryptMetadata'', ''Perms''}"

lemma decode_other:
  assumes "k \<notin> std_keys"
  shows "decodeEncryptStd (dict_Set k v ed) d0 = decodeEncryptStd ed d0"
proof -
  from assms have
    "get_integer ''R'' (dict_Set k v ed) = get_integer ''R'' ed" "get_integer ''P'' (dict_Set k v ed) = get_integer ''P'' ed"
    "dict_Get ''EncryptMetadata'' (dict_Set k v ed) = dict_Get ''EncryptMetadata'' ed"
    "get_bytes ''O'' fits (dict_Set k v ed) = get_bytes ''O'' fits ed" "get_bytes ''U'' fits (dict_Set k v ed) = get_bytes ''U'' fits ed"
    "get_bytes ''OE'' fits (dict_Set k v ed) = get_bytes ''OE'' fits ed" "get_bytes ''UE'' fits (dict_Set k v ed) = get_bytes ''UE'' fits ed"
    "get_bytes ''Perms'' fits (dict_Set k v ed) = get_bytes ''Perms'' fits ed" for fits
    by (auto simp: std_keys_def get_integer_Set Get_Set get_bytes_def GetString_Get)
  then show ?thesis by (simp only: decodeEncryptStd_def)
qed

lemma encode_other:
  "k \<notin> std_keys \<Longrightarrow> dict_Get k (encodeEncryptStd d ed) = dict_Get k ed"
  by (simp add: std_keys_def encodeEncryptStd_def Let_def Get_Set)

lemma get_encode_other:
  "k \<notin> std_keys \<Longrightarrow> get_name k (encodeEncryptStd d ed) = get_name k ed"
  "k \<notin> std_keys \<Longrightarrow> get_integer k (encodeEncryptStd d ed) = get_integer k ed"
  by (simp_all add: get_name_def get_integer_def encode_other)

section \<open>Documents\<close>

text \<open>The filters that a writer can choose; the lengths of \<open>filterV2\<close> are in bytes.\<close>

fun writable :: "crypt_filter_type \<Rightarrow> bool" where
  "writable (filterV2 n) \<longleftrightarrow> n = 5 \<or> n = 8 \<or> n = 16"
| "writable filterAESV2 \<longleftrightarrow> True"
| "writable filterAESV3 \<longleftrightarrow> True"
| "writable filterIdentity \<longleftrightarrow> False"

lemma saved_filters:
  assumes "cryptFilters c = [(stdCryptFilter, cf)]" "4 \<le> cV c"
  shows "saveCryptFilters c ed = Ok (dict_Set ''StmF'' (PdfObjectName (streamFilter c))
    (dict_Set ''StrF'' (PdfObjectName (stringFilter c))
      (dict_Set ''CF'' (PdfObjectDictionary (dict_Set stdCryptFilter (PdfObjectDictionary (encodeCryptFilter cf [])) MakeDict)) ed)))"
  using assms by (simp add: saveCryptFilters_def stdCryptFilter_def)

lemma decode_saved_filter: "cf = filterAESV2 \<or> cf = filterAESV3 \<Longrightarrow>
    rbind (decodeCryptFilter (encodeCryptFilter cf [])) NewFilter = Ok cf"
  by (auto simp: decodeCryptFilter_def encodeCryptFilter_def get_name_Set get_integer_Set name_of_def MakeInteger_def
      small_int NewFilter_def newFilterAESV2_def newFilterAESV3_def)

lemma loaded_filters:
  fixes resolve :: "'f resolver"
  assumes "cf = filterAESV2 \<or> cf = filterAESV3"
  shows "loadCryptFilters resolve lookup (dict_Set ''StmF'' (PdfObjectName stdCryptFilter)
    (dict_Set ''StrF'' (PdfObjectName stdCryptFilter)
      (dict_Set ''CF'' (PdfObjectDictionary (dict_Set stdCryptFilter (PdfObjectDictionary (encodeCryptFilter cf [])) MakeDict)) ed))) c =
    Ok (c\<lparr>cryptFilters := [(stdCryptFilter, cf), (''Identity'', filterIdentity)],
      stringFilter := stdCryptFilter, streamFilter := stdCryptFilter\<rparr>)"
proof -
  have keys: "dict_Keys (dict_Set k v MakeDict) = [k]" for k and v :: "'f PdfObject"
    by (simp add: dict_Keys_def dict_Set_def MakeDict_def)
  obtain cfd where cfd: "decodeCryptFilter (encodeCryptFilter cf [] :: 'f PdfObject pdf_dict) = Ok cfd" "NewFilter cfd = Ok cf"
    using decode_saved_filter [OF assms] by (auto simp: rbind_eq_Ok)
  then show ?thesis
    by (simp add: loadCryptFilters_def look_up_def Get_Set keys select_filter_def get_name_Set name_of_def stdCryptFilter_def)
qed

text \<open>The handler that encrypts, once its parameters are generated, and the one that reads the dictionary.\<close>

definition enc_crypter :: "crypt_filter_type \<Rightarrow> u32 \<Rightarrow> bytes \<Rightarrow> std_encrypt \<Rightarrow> bytes \<Rightarrow> pdf_crypt" where
  "enc_crypter cf perm i0 d k = (new_crypter cf perm)\<lparr>id0 := i0, encryptStd := d, encryptionKey := k\<rparr>"

definition dec_crypter :: "crypt_filter_type \<Rightarrow> bytes \<Rightarrow> std_encrypt \<Rightarrow> pdf_crypt" where
  "dec_crypter cf i0 d =
    (let V = fst (HandlerVersion cf); f = (if 4 \<le> V then stdCryptFilter else [])
     in \<lparr>cFilter = ''Standard'', cSubFilter = [], cV = V, cLength = KeyLength cf * 8, encryptStd = d, id0 = i0,
         encryptionKey = [], authenticated = False,
         cryptFilters = (stdCryptFilter, cf) # (if 4 \<le> V then [(''Identity'', filterIdentity)] else []),
         streamFilter = f, stringFilter = f, decryptedObjNum = []\<rparr>)"

lemma new_crypter_ok: "primitives_ok L \<Longrightarrow> writable cf \<Longrightarrow> std_ok L ((new_crypter cf perm)\<lparr>id0 := i0\<rparr>)"
  by (cases cf) (auto simp: std_ok_def new_crypter_def R4_of_def R4_length_ok_def)

lemma written_dict_read:
  assumes cf: "writable cf" and L: "primitives_ok L"
    and gen: "std_generated L ((new_crypter cf perm)\<lparr>id0 := i0\<rparr>) op up k d"
    and trailer: "dict_Get ''ID'' trailer = Some (PdfObjectArray (PdfObjectString (bytes_string i0) h # ids))"
  obtains ed where "(if 4 \<le> cV (enc_crypter cf perm i0 d k)
      then saveCryptFilters (enc_crypter cf perm i0 d k) (encodeEncryptStd d (newEncryptDict (new_crypter cf perm)))
      else Ok (encodeEncryptStd d (newEncryptDict (new_crypter cf perm)))) = Ok (ed :: 'f PdfObject pdf_dict)"
    "PdfCryptNewDecrypt resolve lookup ed trailer = Ok (dec_crypter cf i0 d)"
proof -
  let ?ed0 = "newEncryptDict (new_crypter cf perm) :: 'f PdfObject pdf_dict"
  let ?ed1 = "encodeEncryptStd d ?ed0"
  let ?c = "enc_crypter cf perm i0 d k"
  define ed where "ed = (if 4 \<le> cV ?c then dict_Set ''StmF'' (PdfObjectName stdCryptFilter)
    (dict_Set ''StrF'' (PdfObjectName stdCryptFilter)
      (dict_Set ''CF'' (PdfObjectDictionary (dict_Set stdCryptFilter (PdfObjectDictionary (encodeCryptFilter cf [])) MakeDict)) ?ed1))
    else ?ed1)"
  have V: "cV ?c = fst (HandlerVersion cf)" by (simp add: enc_crypter_def new_crypter_def split_beta Let_def)
  have saved: "(if 4 \<le> cV ?c then saveCryptFilters ?c ?ed1 else Ok ?ed1) = Ok ed"
    using cf by (cases cf) (simp_all add: ed_def enc_crypter_def new_crypter_def saved_filters)
  have fields: "sR d = snd (HandlerVersion cf)" "sEncryptMetadata d"
    using gen by (simp_all add: std_generated_def new_crypter_def split_beta Let_def)
  have "decodeEncryptStd ?ed1 empty_std = Ok d"
  proof (cases "5 \<le> sR d")
    case True
    with cf fields have "cf = filterAESV3" by (cases cf) auto
    with gen fields show ?thesis by (intro decode_encode_R6) (simp_all add: std_generated_def)
  next
    case False
    have "no_metadata_entry ?ed0" by (simp add: no_metadata_entry_def newEncryptDict_def Get_Set Get_empty)
    with False cf fields gen show ?thesis
      by (intro decode_encode_R4) (auto simp: std_generated_def new_crypter_def split_beta Let_def elim: writable.elims)
  qed
  then have decoded: "decodeEncryptStd ed empty_std = Ok d"
    by (simp add: ed_def decode_other std_keys_def)
  have names: "get_name ''Filter'' ed = Some ''Standard''" "dict_Get ''SubFilter'' ed = None"
    "get_integer ''Length'' ed = Some (of_int (KeyLength cf * 8))" "get_integer ''V'' ed = Some (of_int (fst (HandlerVersion cf)))"
    by (simp_all add: ed_def get_name_Set get_integer_Set Get_Set get_encode_other encode_other std_keys_def newEncryptDict_def
        name_of_def MakeInteger_def new_crypter_def split_beta Let_def Get_empty)
  have key: "trailer_id resolve trailer = Ok i0"
    using trailer by (simp add: trailer_id_def array_Get_def)
  have "PdfCryptNewDecrypt resolve lookup ed trailer = Ok (dec_crypter cf i0 d)"
    using cf
  proof (cases cf)
    case (filterV2 n)
    with cf have n: "n = 5 \<or> n = 8 \<or> n = 16" by simp
    then have "NewFilterV2 (n * 8) = Ok (filterV2 n)" "sint (of_int (n * 8) :: u64) = n * 8" "(n * 8) mod 8 = 0"
      by (auto simp: NewFilterV2_def newFilterV2_def small_int)
    then show ?thesis using names decoded key filterV2
      by (simp add: PdfCryptNewDecrypt_def newCryptFiltersV2_def dec_crypter_def)
  next
    case filterAESV2
    then have "4 \<le> cV ?c" using V by simp
    then show ?thesis using names decoded key filterAESV2 loaded_filters [of cf resolve lookup ?ed1]
      by (simp add: PdfCryptNewDecrypt_def dec_crypter_def ed_def)
  next
    case filterAESV3
    then have "4 \<le> cV ?c" using V by simp
    then show ?thesis using names decoded key filterAESV3 loaded_filters [of cf resolve lookup ?ed1]
      by (simp add: PdfCryptNewDecrypt_def dec_crypter_def ed_def)
  qed (use cf in simp)
  with saved show ?thesis by (rule that)
qed

lemma enc_crypter_ok:
  assumes "primitives_ok L" "writable cf" "std_generated L ((new_crypter cf perm)\<lparr>id0 := i0\<rparr>) op up k d"
  shows "crypt_ok L (enc_crypter cf perm i0 d k)"
proof -
  have "filter_ok L cf k"
    using assms by (cases cf) (simp_all add: V2_ok_def AESV2_ok_def AESV3_ok_def aes_key_def std_generated_def new_crypter_def)
  then show ?thesis
    by (simp add: crypt_ok_def enc_crypter_def new_crypter_def string_filter_def split_beta Let_def)
qed

lemma enc_dec_same:
  "same_crypt (enc_crypter cf perm i0 d k) ((dec_crypter cf i0 d)\<lparr>authenticated := True, encryptionKey := k\<rparr>)"
  by (simp add: same_crypt_def enc_crypter_def dec_crypter_def new_crypter_def split_beta Let_def)

lemma authenticate_key:
  assumes "std_Authenticate L (c\<lparr>authenticated := False\<rparr>) pass rnd = Some (Ok (Some k, perm, rnd'))" "perm \<noteq> 0" "k \<noteq> []"
  shows "authenticate L c pass rnd = Some (Ok (True, c\<lparr>authenticated := True, encryptionKey := k\<rparr>, rnd'))"
  using assms by (simp add: authenticate_def Let_def)

lemma dec_crypter_opens:
  assumes gen: "std_generated L ((new_crypter cf perm)\<lparr>id0 := i0\<rparr>) op up k d" and rnd: "68 \<le> length rnd"
    and pass: "pass = owner_password (enc_crypter cf perm i0 d k) op up \<or> pass = up \<and> perm \<noteq> 0 \<and> \<not> is_owner L (dec_crypter cf i0 d) up rnd"
  shows "\<exists>rnd'. authenticate L (dec_crypter cf i0 d) pass rnd =
    Some (Ok (True, (dec_crypter cf i0 d)\<lparr>authenticated := True, encryptionKey := k\<rparr>, rnd'))"
proof -
  let ?new = "(new_crypter cf perm)\<lparr>id0 := i0\<rparr>" and ?c1 = "(dec_crypter cf i0 d)\<lparr>authenticated := False\<rparr>"
  from gen have fields: "sR d = sR (encryptStd ?new)" "sP d = perm" "k \<noteq> []" and open_all: "passwords_open L ?new op up k d"
    by (simp_all add: std_generated_def new_crypter_def split_beta Let_def)
  have c1: "encryptStd ?c1 = d" "cLength ?c1 = cLength ?new" "id0 ?c1 = id0 ?new"
    by (simp_all add: dec_crypter_def new_crypter_def split_beta Let_def)
  note auth = open_all [unfolded passwords_open_def, rule_format, OF c1 rnd]
  have owner: "owner_password (enc_crypter cf perm i0 d k) op up = owner_password ?new op up"
    using fields(1) by (simp add: owner_password_def enc_crypter_def)
  have "is_owner L ?c1 up rnd = is_owner L (dec_crypter cf i0 d) up rnd" by (simp add: is_owner_def R4_of_def)
  with pass auth owner fields(2) have "\<exists>p rnd'. p \<noteq> 0 \<and> std_Authenticate L ?c1 pass rnd = Some (Ok (Some k, p, rnd'))"
    by (auto simp: PermOwner_def)
  then show ?thesis using authenticate_key fields(3) by blast
qed

text \<open>A handler \<open>c'\<close> that decrypts what \<open>c\<close> encrypts: every object whose stream dictionaries have the right lengths
  is encrypted, given 16 random bytes for each string and stream, and decrypted to itself.\<close>

definition reads_back :: "primitives \<Rightarrow> 'f resolver \<Rightarrow> pdf_crypt \<Rightarrow> pdf_crypt \<Rightarrow> bool" where
  "reads_back L resolve c c' \<longleftrightarrow> (\<forall>obj n g rnd. crypt_wf c' obj \<longrightarrow> 16 * crypt_count obj \<le> length rnd \<longrightarrow>
    (\<exists>obj' rnd'. Encrypt L c resolve obj n g rnd = Ok (obj', rnd') \<and> Decrypt L c' resolve obj' n g = Ok obj))"

lemma reads_backD:
  "reads_back L resolve c c' \<Longrightarrow> crypt_wf c' obj \<Longrightarrow> 16 * crypt_count obj \<le> length rnd \<Longrightarrow>
    \<exists>obj' rnd'. Encrypt L c resolve obj n g rnd = Ok (obj', rnd') \<and> Decrypt L c' resolve obj' n g = Ok obj"
  unfolding reads_back_def by blast

lemma reads_backI:
  fixes resolve :: "'f resolver"
  assumes "crypt_ok L c" "same_crypt c c'"
  shows "reads_back L resolve c c'"
  unfolding reads_back_def
proof (intro allI impI)
  fix obj :: "'f PdfObject" and n g and rnd :: bytes
  assume "crypt_wf c' obj" "16 * crypt_count obj \<le> length rnd"
  from Encrypt_sealed(1) [OF assms this, of resolve n g]
  show "\<exists>obj' rnd'. Encrypt L c resolve obj n g rnd = Ok (obj', rnd') \<and> Decrypt L c' resolve obj' n g = Ok obj"
    by (auto simp: sealed_def)
qed

text \<open>C4: A document that is encrypted with one of the filters of the writer is opened by the dictionary that is written and
  the ID of the trailer: the owner password, and the user password unless the permissions are zero, give the
  reader the key, and then every object whose stream dictionaries have the right lengths is encrypted by the writer,
  given 16 random bytes for each string and stream, and decrypted by the reader to itself.\<close>

theorem document_roundtrip:
  fixes resolve :: "'f resolver"
  assumes "primitives_ok L" "writable cf" "168 \<le> length rnd"
    and "dict_Get ''ID'' trailer = Some (PdfObjectArray (PdfObjectString (bytes_string (md5 L now)) h # ids))"
  shows "\<exists>c info rnd1 c1. PdfCryptNewEncrypt L now cf up op perm rnd = Some (Ok (c, info, rnd1)) \<and>
    PdfCryptNewDecrypt resolve lookup (info_Encrypt info) trailer = Ok c1 \<and>
    (\<forall>pass rnd2. 68 \<le> length rnd2 \<longrightarrow>
      pass = owner_password c op up \<or> pass = up \<and> perm \<noteq> 0 \<and> \<not> is_owner L c1 up rnd2 \<longrightarrow>
      (\<exists>c2 rnd3. authenticate L c1 pass rnd2 = Some (Ok (True, c2, rnd3)) \<and> reads_back L resolve c c2))"
proof -
  let ?i0 = "md5 L now"
  let ?new = "(new_crypter cf perm)\<lparr>id0 := ?i0\<rparr>"
  have "68 \<le> length (drop 100 rnd)" using assms(3) by simp
  from std_generates [OF new_crypter_ok [OF assms(1,2)] this] obtain k d rnd1 where
    gen: "std_GenerateParams L ?new op up (drop 100 rnd) = Some (Ok (k, d, rnd1))" "std_generated L ?new op up k d" .
  let ?c = "enc_crypter cf perm ?i0 d k" and ?c1 = "dec_crypter cf ?i0 d"
  obtain ed :: "'f PdfObject pdf_dict" where ed: "(if 4 \<le> cV ?c
      then saveCryptFilters ?c (encodeEncryptStd d (newEncryptDict (new_crypter cf perm)))
      else Ok (encodeEncryptStd d (newEncryptDict (new_crypter cf perm)))) = Ok ed"
    "PdfCryptNewDecrypt resolve lookup ed trailer = Ok ?c1"
    by (rule written_dict_read [OF assms(2,1) gen(2) assms(4)])
  have step: "generateParams L ?new up op (drop 100 rnd) = Some (Ok (?c, rnd1))" "encryptStd ?c = d"
    using gen(1) by (simp_all add: generateParams_def enc_crypter_def)
  obtain info :: "'f encrypt_info" where
    new: "PdfCryptNewEncrypt L now cf up op perm rnd = Some (Ok (?c, info, rnd1))" and info: "info_Encrypt info = ed"
    by (rule that [of "\<lparr>Major = fst (PDFVersion cf), Minor = snd (PDFVersion cf), info_Encrypt = ed,
        info_ID0 = ?i0, info_ID1 = md5 L (take 100 (rnd @ replicate 100 0))\<rparr>"])
      (simp_all only: PdfCryptNewEncrypt_def Let_def step run_bind_simps prod.case ed(1) encrypt_info.simps)
  have opened: "\<exists>rnd3. authenticate L ?c1 pass rnd2 = Some (Ok (True, ?c1\<lparr>authenticated := True, encryptionKey := k\<rparr>, rnd3))"
    if "68 \<le> length rnd2" "pass = owner_password ?c op up \<or> pass = up \<and> perm \<noteq> 0 \<and> \<not> is_owner L ?c1 up rnd2" for pass rnd2
    by (rule dec_crypter_opens [OF gen(2) that])
  have reads: "reads_back L resolve ?c (?c1\<lparr>authenticated := True, encryptionKey := k\<rparr>)"
    by (rule reads_backI [OF enc_crypter_ok [OF assms(1,2) gen(2)] enc_dec_same])
  have "PdfCryptNewDecrypt resolve lookup (info_Encrypt info) trailer = Ok ?c1" using ed(2) info by simp
  moreover have "\<forall>pass rnd2. 68 \<le> length rnd2 \<longrightarrow>
      pass = owner_password ?c op up \<or> pass = up \<and> perm \<noteq> 0 \<and> \<not> is_owner L ?c1 up rnd2 \<longrightarrow>
      (\<exists>c2 rnd3. authenticate L ?c1 pass rnd2 = Some (Ok (True, c2, rnd3)) \<and> reads_back L resolve ?c c2)"
  proof (intro allI impI)
    fix pass and rnd2 :: bytes
    assume "68 \<le> length rnd2" "pass = owner_password ?c op up \<or> pass = up \<and> perm \<noteq> 0 \<and> \<not> is_owner L ?c1 up rnd2"
    from opened [OF this] obtain rnd3 where
      "authenticate L ?c1 pass rnd2 = Some (Ok (True, ?c1\<lparr>authenticated := True, encryptionKey := k\<rparr>, rnd3))" ..
    with reads show "\<exists>c2 rnd3. authenticate L ?c1 pass rnd2 = Some (Ok (True, c2, rnd3)) \<and> reads_back L resolve ?c c2"
      by (intro exI conjI)
  qed
  ultimately show ?thesis using new by (intro exI conjI)
qed

text \<open>Primitives that are right about their lengths, for examples.\<close>

definition sample :: primitives where
  "sample = \<lparr>md5 = \<lambda>x. take 16 (x @ replicate 16 1), sha256 = \<lambda>x. take 32 (x @ replicate 32 2),
    sha384 = \<lambda>x. take 48 (x @ replicate 48 3), sha512 = \<lambda>x. take 64 (x @ replicate 64 4),
    rc4_stream = \<lambda>key n. of_nat (n + length key), aes_encrypt = \<lambda>key b. rev b, aes_decrypt = \<lambda>key b. rev b\<rparr>"

lemma sample_ok: "primitives_ok sample"
  by (auto simp: primitives_ok_def sample_def min_def)

definition sample_trailer :: "unit PdfObject pdf_dict" where
  "sample_trailer = dict_Set ''ID'' (PdfObjectArray [PdfObjectString (bytes_string (md5 sample [])) True]) MakeDict"

lemma document_roundtrip_witness:
  "\<exists>c info rnd1 c1 c2 rnd3 obj' rnd5.
    PdfCryptNewEncrypt sample [] filterAESV2 [1] [2] 0xFFFFFFFF (replicate 168 7) = Some (Ok (c, info, rnd1)) \<and>
    PdfCryptNewDecrypt (\<lambda>n g. PdfObjectNull :: unit PdfObject) (\<lambda>n g. Err LookupError) (info_Encrypt info) sample_trailer = Ok c1 \<and>
    authenticate sample c1 [2] (replicate 68 8) = Some (Ok (True, c2, rnd3)) \<and>
    Encrypt sample c (\<lambda>n g. PdfObjectNull :: unit PdfObject) (PdfObjectString ''text'' False) 5 0 (replicate 16 9) = Ok (obj', rnd5) \<and>
    Decrypt sample c2 (\<lambda>n g. PdfObjectNull :: unit PdfObject) obj' 5 0 = Ok (PdfObjectString ''text'' False)"
proof -
  have "dict_Get ''ID'' sample_trailer = Some (PdfObjectArray (PdfObjectString (bytes_string (md5 sample [])) True # []))"
    by (simp add: sample_trailer_def Get_Set)
  moreover have "writable filterAESV2" "168 \<le> length (replicate 168 (7 :: u8))" by simp_all
  ultimately have "\<exists>c info rnd1 c1. PdfCryptNewEncrypt sample [] filterAESV2 [1] [2] 0xFFFFFFFF (replicate 168 7) = Some (Ok (c, info, rnd1)) \<and>
    PdfCryptNewDecrypt (\<lambda>n g. PdfObjectNull :: unit PdfObject) (\<lambda>n g. Err LookupError) (info_Encrypt info) sample_trailer = Ok c1 \<and>
    (\<forall>pass rnd2. 68 \<le> length rnd2 \<longrightarrow>
      pass = owner_password c [2] [1] \<or> pass = [1] \<and> (0xFFFFFFFF :: u32) \<noteq> 0 \<and> \<not> is_owner sample c1 [1] rnd2 \<longrightarrow>
      (\<exists>c2 rnd3. authenticate sample c1 pass rnd2 = Some (Ok (True, c2, rnd3)) \<and> reads_back sample (\<lambda>n g. PdfObjectNull :: unit PdfObject) c c2))"
    by (intro document_roundtrip [OF sample_ok])
  then obtain c info rnd1 c1 where
    c: "PdfCryptNewEncrypt sample [] filterAESV2 [1] [2] 0xFFFFFFFF (replicate 168 7) = Some (Ok (c, info, rnd1))"
    "PdfCryptNewDecrypt (\<lambda>n g. PdfObjectNull :: unit PdfObject) (\<lambda>n g. Err LookupError) (info_Encrypt info) sample_trailer = Ok c1"
    and opens: "\<forall>pass rnd2. 68 \<le> length rnd2 \<longrightarrow>
      pass = owner_password c [2] [1] \<or> pass = [1] \<and> (0xFFFFFFFF :: u32) \<noteq> 0 \<and> \<not> is_owner sample c1 [1] rnd2 \<longrightarrow>
      (\<exists>c2 rnd3. authenticate sample c1 pass rnd2 = Some (Ok (True, c2, rnd3)) \<and> reads_back sample (\<lambda>n g. PdfObjectNull :: unit PdfObject) c c2)"
    by blast
  have "[2] = owner_password c [2] [1]" by (simp add: owner_password_def R4_owner_pass_def)
  with opens [rule_format, of "replicate 68 8" "[2]"] obtain c2 rnd3 where
    c2: "authenticate sample c1 [2] (replicate 68 8) = Some (Ok (True, c2, rnd3))" "reads_back sample (\<lambda>n g. PdfObjectNull :: unit PdfObject) c c2"
    by auto
  from reads_backD [OF c2(2), of "PdfObjectString ''text'' False" "replicate 16 9" 5 0] obtain obj' rnd5 where
    "Encrypt sample c (\<lambda>n g. PdfObjectNull :: unit PdfObject) (PdfObjectString ''text'' False) 5 0 (replicate 16 9) = Ok (obj', rnd5)"
    "Decrypt sample c2 (\<lambda>n g. PdfObjectNull :: unit PdfObject) obj' 5 0 = Ok (PdfObjectString ''text'' False)" by auto
  with c c2(1) show ?thesis by (intro exI conjI)
qed

section \<open>Filters and hashes\<close>

text \<open>C39: With the key of an object, every crypt filter encrypts every buffer, given 16 random bytes, and decrypts the
  result to the buffer: RC4 and the identity for every file key, AES with the key of 16 bytes for file keys of at least
  11 bytes, AES with the file key for those of 16, 24 and 32 bytes.\<close>

theorem crypt_filter_roundtrip:
  assumes "primitives_ok L" "16 \<le> length rnd"
    and "f = filterAESV2 \<longrightarrow> 11 \<le> length fkey" "f = filterAESV3 \<longrightarrow> aes_key fkey"
  shows "\<exists>c rnd'. EncryptBytes L f buf (MakeKey L f n g fkey) rnd = Ok (c, rnd') \<and>
    DecryptBytes L f c (MakeKey L f n g fkey) = Ok buf"
proof -
  have "filter_ok L f fkey" using assms by (cases f) (simp_all add: V2_ok_def AESV2_ok_def AESV3_ok_def Identity_ok_def)
  from filter_returns [OF this assms(2)] filter_roundtrip [OF this] show ?thesis by blast
qed

lemma crypt_filter_roundtrip_witness:
  "\<exists>c rnd'. EncryptBytes sample filterAESV2 [1, 2, 3] (MakeKey sample filterAESV2 7 0 (replicate 16 5)) (replicate 16 9) = Ok (c, rnd') \<and>
    DecryptBytes sample filterAESV2 c (MakeKey sample filterAESV2 7 0 (replicate 16 5)) = Ok [1, 2, 3]"
  by (rule crypt_filter_roundtrip [OF sample_ok]) simp_all

text \<open>C40: The hash of revision 6 returns 32 bytes for every password of at most 127 bytes and user key of at most 48
  bytes: its loop without a bound ends.\<close>

theorem hash_R6_returns:
  assumes "primitives_ok L" "length pwd \<le> 127" "length userKey \<le> 48"
  shows "\<exists>h. alg2b_R6 L data pwd userKey = Some (Ok h) \<and> length h = 32"
  using alg2b_loop_returns [OF assms, of "sha256 L data" 0] digest_lengths(2) [OF assms(1)]
  by (simp add: alg2b_R6_def)

lemma hash_R6_returns_witness: "\<exists>h. alg2b_R6 sample [1, 2] [3] [] = Some (Ok h) \<and> length h = 32"
  by (rule hash_R6_returns [OF sample_ok]) simp_all

section \<open>Behaviour that was not meant\<close>

text \<open>A dictionary whose key length is one that the standard allows, but neither 40, 64 nor 128 bits, makes the reader
  panic.\<close>

lemma decrypt_panics:
  assumes "get_name ''Filter'' ed = Some ''Standard''" "get_integer ''V'' ed = Some 2" "get_integer ''Length'' ed = Some 48"
  shows "PdfCryptNewDecrypt resolve lookup ed trailer = Panic"
proof -
  have "NewFilterV2 48 = Panic" using NewFilterV2_lengths [of 48] by auto
  with assms show ?thesis by (simp add: PdfCryptNewDecrypt_def newCryptFiltersV2_def)
qed

text \<open>Without an owner password, a document of revision 6 opens for the owner with the empty password.\<close>

lemma no_owner_password:
  assumes "primitives_ok L" "68 \<le> length rnd" "R6_GenerateParams L d [] up rnd = Some (Ok (k, d', rnd'))"
  shows "R6_Authenticate L d' [] = Some (Ok (Some k, PermOwner))"
proof -
  have "R6_generated L d (take 127 []) (take 127 up) k d'"
    using R6_generated_by [of L "()" d rnd "[]" up k d' rnd'] assms by (simp add: R6_ok_def R6_gen_def)
  from R6_authenticated(1) [OF assms(1) this] show ?thesis .
qed

text \<open>With an empty user password, revision 5 accepts every password of a user, but a wrong one gives a wrong key: the one
  that the hash of the wrong password decrypts.\<close>

lemma wrong_password_accepted:
  assumes L: "primitives_ok L" and gen: "R6_generated L d (take 127 op) (take 127 []) k d'" and R: "sR d = 5"
    and wrong: "alg12 L d' (take 127 pass) = Some (Ok None)" "alg11 L d' (take 127 pass) = Some (Ok None)"
    and O: "48 \<le> length (sO d')"
  shows "R6_Authenticate L d' pass = Some (Ok
    (Some (cbc_decrypt (aes_decrypt L (sha256 L (take 127 pass @ take 8 (drop 40 (sU d'))))) (replicate 16 0) (sUE d')), sP d'))"
proof -
  let ?p = "take 127 pass"
  from gen obtain vs ks where u: "length vs = 8" "length ks = 8" "sU d' = hash_of L (sR d) vs [] [] @ vs @ ks"
    unfolding R6_generated_def by auto
  have hu: "length (hash_of L (sR d) vs [] []) = 32" using alg2b_hash_of [OF L, of "[]" "[]"] by simp
  have "alg11 L d' [] = Some (Ok (Some (hash_of L (sR d) vs [] [])))"
    using alg11_hash [OF L _ u(3) hu u(1,2), of "[]"] gen by (simp add: R6_generated_def)
  moreover have "length (sU d') = 48" by (simp add: u hu)
  moreover have "length (sUE d') = 32" "sR d' = 5" using R6_lengths [OF L gen] gen R
    by (simp_all add: R6_generated_def)
  ultimately show ?thesis using wrong O hash_of_valid [OF hu] digest_lengths(2) [OF L]
    by (simp add: R6_Authenticate_def alg2a_def checkAtLeast_def valid_hash_def open_key_def alg2b_def alg2bR5_def aes_key_def Let_def)
qed

end
