(* ===== verification/Filter_Bytes.thy ===== *)
theory Filter_Bytes
  imports Go_Numbers
begin

text \<open>
  The stream filters of \<open>pdf/core/encoding.go\<close> that need no other package: run length,
  ASCII hex, ASCII 85 and the raw filter, each with its encoder and its decoder. A byte slice
  is a list of bytes; a \<open>bytes.Reader\<close> is the list of the bytes that are left.
\<close>

section \<open>Shared\<close>

datatype filter_error =
    UnexpectedEOF
  | InvalidHexCharacter u8
  | InvalidCode
  | InvalidRowLength int int
  | InvalidRowLengthForColors int int
  | RangeCheck
  | UnsupportedPredictor int
  | InvalidFilterByte u8
  | InvalidBitsPerComponent int
  | UnsupportedEncodingPredictor
  | UnsupportedEarlyChange
  | InvalidDecodeParms
  | InvalidParameter string
  | MissingDCTHeight
  | CodecError
  | NoEncoding

text \<open>The character of a byte, for the character classes.\<close>

definition byte_char :: "u8 \<Rightarrow> char" where
  "byte_char b = char_of (unat b)"

lemma of_char_byte_char [simp]: "(of_char (byte_char b) :: nat) = unat b"
proof -
  have "unat b < 2 ^ LENGTH(8)" by (rule unsigned_less)
  then show ?thesis by (simp add: byte_char_def)
qed

lemma IsWhiteSpace_byte: "IsWhiteSpace (byte_char b) \<longleftrightarrow> b \<in> {0, 9, 10, 12, 13, 32}"
  by (simp add: IsWhiteSpace_def word_unat_eq_iff)

section \<open>Run length\<close>

text \<open>Reading \<open>n\<close> bytes, one after the other; the error is that of a \<open>ReadByte\<close> at the end.\<close>

fun read_bytes :: "nat \<Rightarrow> u8 list \<Rightarrow> (filter_error, u8 list \<times> u8 list) res" where
  "read_bytes 0 s = Ok ([], s)"
| "read_bytes (Suc n) [] = Err UnexpectedEOF"
| "read_bytes (Suc n) (v # s) = rbind (read_bytes n s) (\<lambda>(vs, s). Ok (v # vs, s))"

lemma read_bytes_append [simp]: "read_bytes (length xs) (xs @ s) = Ok (xs, s)"
  by (induction xs) simp_all

lemma read_bytes_shorter: "read_bytes n s = Ok (vs, s') \<Longrightarrow> length s' \<le> length s"
  by (induction n s arbitrary: vs s' rule: read_bytes.induct) (force simp: rbind_eq_Ok)+

function RunLength_loop :: "u8 list \<Rightarrow> u8 list \<Rightarrow> (filter_error, u8 list) res" where
  "RunLength_loop inb [] = Err UnexpectedEOF"
| "RunLength_loop inb (b # s) =
    (if b > 128 then
       (case s of
          [] \<Rightarrow> Err UnexpectedEOF
        | v # s \<Rightarrow> RunLength_loop (inb @ replicate (nat (257 - uint b)) v) s)
     else if b < 128 then
       (case read_bytes (nat (uint b + 1)) s of
          Ok (vs, s) \<Rightarrow> RunLength_loop (inb @ vs) s
        | Err e \<Rightarrow> Err e
        | Panic \<Rightarrow> Panic)
     else Ok inb)"
  by pat_completeness auto

termination
  by (relation "measure (length \<circ> snd)") (auto dest: read_bytes_shorter)

definition RunLength_DecodeBytes :: "u8 list \<Rightarrow> (filter_error, u8 list) res" where
  "RunLength_DecodeBytes encoded = RunLength_loop [] encoded"

text \<open>The variables of the loop of the encoder.\<close>

record run_state =
  rl_inb :: "u8 list"
  rl_literal :: "u8 list"
  runLen :: int
  rl_b0 :: u8

definition write_literal :: "run_state \<Rightarrow> run_state" where
  "write_literal st = st\<lparr>rl_inb := rl_inb st @ [of_int (int (length (rl_literal st)) - 1)] @ rl_literal st\<rparr>"

definition write_run :: "run_state \<Rightarrow> run_state" where
  "write_run st = st\<lparr>rl_inb := rl_inb st @ [of_int (257 - runLen st), rl_b0 st]\<rparr>"

text \<open>One round of the loop for the next byte \<open>b\<close>.\<close>

definition RunLength_step :: "u8 \<Rightarrow> run_state \<Rightarrow> run_state" where
  "RunLength_step b st =
    (let st =
      (if b = rl_b0 st then
         let st = (if rl_literal st \<noteq> [] then
                     let st = st\<lparr>rl_literal := butlast (rl_literal st)\<rparr>;
                         st = (if rl_literal st \<noteq> [] then write_literal st else st)
                     in st\<lparr>runLen := 1, rl_literal := []\<rparr>
                   else st);
             st = st\<lparr>runLen := runLen st + 1\<rparr>
         in if runLen st \<ge> 127 then (write_run st)\<lparr>runLen := 0\<rparr> else st
       else
         let st = (if runLen st > 0 then
                     (if runLen st = 1 then st\<lparr>rl_literal := [rl_b0 st]\<rparr> else write_run st)\<lparr>runLen := 0\<rparr>
                   else st);
             st = st\<lparr>rl_literal := rl_literal st @ [b]\<rparr>
         in if int (length (rl_literal st)) \<ge> 127 then (write_literal st)\<lparr>rl_literal := []\<rparr> else st)
     in st\<lparr>rl_b0 := b\<rparr>)"

definition RunLength_finish :: "run_state \<Rightarrow> u8 list" where
  "RunLength_finish st =
    rl_inb (if rl_literal st \<noteq> [] then write_literal st else if runLen st > 0 then write_run st else st) @ [128]"

definition RunLength_EncodeBytes :: "u8 list \<Rightarrow> (filter_error, u8 list) res" where
  "RunLength_EncodeBytes data =
    (case data of
       [] \<Rightarrow> Ok []
     | b # s \<Rightarrow> Ok (RunLength_finish (fold RunLength_step s \<lparr>rl_inb = [], rl_literal = [], runLen = 1, rl_b0 = b\<rparr>)))"

section \<open>ASCII hex\<close>

text \<open>The loop of the decoder, which collects the digits up to the end mark.\<close>

definition is_hex_byte :: "u8 \<Rightarrow> bool" where
  "is_hex_byte b \<longleftrightarrow> b \<ge> 97 \<and> b \<le> 102 \<or> b \<ge> 65 \<and> b \<le> 70 \<or> b \<ge> 48 \<and> b \<le> 57"

fun ASCIIHex_loop :: "u8 list \<Rightarrow> u8 list \<Rightarrow> (filter_error, u8 list) res" where
  "ASCIIHex_loop inb [] = Err UnexpectedEOF"
| "ASCIIHex_loop inb (b # s) =
    (if b = 62 then Ok inb
     else if IsWhiteSpace (byte_char b) then ASCIIHex_loop inb s
     else if is_hex_byte b then ASCIIHex_loop (inb @ [b]) s
     else Err (InvalidHexCharacter b))"

text \<open>\<open>hex.Decode\<close>, on digits only.\<close>

definition fromHexChar :: "u8 \<Rightarrow> u8" where
  "fromHexChar c = (if 48 \<le> c \<and> c \<le> 57 then c - 48 else if 97 \<le> c \<and> c \<le> 102 then c - 97 + 10 else c - 65 + 10)"

fun hex_Decode :: "u8 list \<Rightarrow> u8 list" where
  "hex_Decode (a # b # s) = (push_bit 4 (fromHexChar a) OR fromHexChar b) # hex_Decode s"
| "hex_Decode _ = []"

definition ASCIIHex_DecodeBytes :: "u8 list \<Rightarrow> (filter_error, u8 list) res" where
  "ASCIIHex_DecodeBytes encoded =
    rbind (ASCIIHex_loop [] encoded) (\<lambda>inb.
      Ok (hex_Decode (if length inb mod 2 = 1 then inb @ [48] else inb)))"

text \<open>A digit as \<open>%X\<close> prints it.\<close>

definition upper_hex :: "u8 \<Rightarrow> u8" where
  "upper_hex d = (if d < 10 then d + 48 else d - 10 + 65)"

definition ASCIIHex_EncodeBytes :: "u8 list \<Rightarrow> (filter_error, u8 list) res" where
  "ASCIIHex_EncodeBytes data =
    Ok (concat (map (\<lambda>b. [upper_hex (drop_bit 4 b), upper_hex (b AND 15), 32]) data) @ [62])"

section \<open>ASCII 85\<close>

text \<open>
  The inner loop of the decoder reads a group. \<open>n\<close> is the \<open>j - spaces\<close> of the code, the number
  of codes that have been read, and the list is what is left from \<open>encoded[i+j]\<close> on. The result has
  the codes, the rest, \<open>toWrite\<close> and \<open>eod\<close>.
\<close>

function ASCII85_group :: "u8 list \<Rightarrow> nat \<Rightarrow> u8 list \<Rightarrow> (filter_error, u8 list \<times> u8 list \<times> nat \<times> bool) res" where
  "ASCII85_group codes n s =
    (if n < 5 then
       (case s of
          [] \<Rightarrow> Ok (codes, [], 4, False)
        | code # s' \<Rightarrow>
            if IsWhiteSpace (byte_char code) then ASCII85_group codes n s'
            else if code = 126 \<and> s' \<noteq> [] \<and> hd s' = 62 then Ok (codes, s, n - 1, True)
            else if code \<ge> 33 \<and> code \<le> 117 then ASCII85_group (codes[n := code - 33]) (n + 1) s'
            else if code = 122 \<and> n = 0 then Ok (codes, s', 4, False)
            else Err InvalidCode)
     else Ok (codes, s, 4, False))"
  by pat_completeness auto

termination
  by (relation "measure (\<lambda>(codes, n, s). length s)") auto

declare ASCII85_group.simps [simp del]

definition ASCII85_value :: "u8 list \<Rightarrow> u32" where
  "ASCII85_value codes =
    ucast (codes ! 0) * 85 * 85 * 85 * 85 + ucast (codes ! 1) * 85 * 85 * 85 + ucast (codes ! 2) * 85 * 85 +
    ucast (codes ! 3) * 85 + ucast (codes ! 4)"

definition ASCII85_bytes :: "u32 \<Rightarrow> u8 list" where
  "ASCII85_bytes value =
    [ucast (drop_bit 24 value AND 0xff), ucast (drop_bit 16 value AND 0xff), ucast (drop_bit 8 value AND 0xff),
     ucast (value AND 0xff)]"

text \<open>A group takes at least one byte, or it is the last one.\<close>

lemma ASCII85_group_shorter:
  "ASCII85_group codes n s = Ok (codes', s', toWrite, eod) \<Longrightarrow> length s' \<le> length s"
  by (induction codes n s rule: ASCII85_group.induct, subst (asm) (3) ASCII85_group.simps)
    (fastforce split: if_splits list.splits)

lemma ASCII85_group_progress:
  assumes "ASCII85_group codes 0 s = Ok (codes', s', toWrite, False)" "s \<noteq> []"
  shows "length s' < length s"
proof -
  from assms(2) obtain c t where s: "s = c # t" by (auto simp: neq_Nil_conv)
  with assms(1) show ?thesis
    by (subst (asm) ASCII85_group.simps) (auto split: if_splits dest: ASCII85_group_shorter)
qed

function ASCII85_loop :: "u8 list \<Rightarrow> u8 list \<Rightarrow> (filter_error, u8 list) res" where
  "ASCII85_loop decoded s =
    (if s = [] then Ok decoded
     else
       case ASCII85_group [0, 0, 0, 0, 0] 0 s of
         Ok (codes, s', toWrite, eod) \<Rightarrow>
           let codes = take (toWrite + 1) codes @ replicate (4 - toWrite) 84;
               decoded = decoded @ take toWrite (ASCII85_bytes (ASCII85_value codes))
           in if eod then Ok decoded else ASCII85_loop decoded s'
       | Err e \<Rightarrow> Err e
       | Panic \<Rightarrow> Panic)"
  by pat_completeness auto

termination
  by (relation "measure (length \<circ> snd)") (auto intro: ASCII85_group_progress)

declare ASCII85_loop.simps [simp del]

definition ASCII85_DecodeBytes :: "u8 list \<Rightarrow> (filter_error, u8 list) res" where
  "ASCII85_DecodeBytes encoded = ASCII85_loop [] encoded"

text \<open>The loop over the five digits: \<open>k\<close> is \<open>4 - i\<close>.\<close>

fun base256Tobase85_loop :: "nat \<Rightarrow> u32 \<Rightarrow> u8 list" where
  "base256Tobase85_loop 0 remainder = [ucast (remainder div 1)]"
| "base256Tobase85_loop (Suc k) remainder =
    (let divider = 85 ^ Suc k in ucast (remainder div divider) # base256Tobase85_loop k (remainder mod divider))"

definition base256Tobase85 :: "u32 \<Rightarrow> u8 list" where
  "base256Tobase85 base256val = base256Tobase85_loop 4 base256val"

definition ASCII85_word :: "u8 \<Rightarrow> u8 \<Rightarrow> u8 \<Rightarrow> u8 \<Rightarrow> u32" where
  "ASCII85_word b1 b2 b3 b4 =
    push_bit 24 (ucast b1) OR push_bit 16 (ucast b2) OR push_bit 8 (ucast b3) OR ucast b4"

definition ASCII85_write :: "nat \<Rightarrow> u32 \<Rightarrow> u8 list" where
  "ASCII85_write n base256 =
    (if base256 = 0 then [122] else map (\<lambda>val. val + 33) (take (n + 1) (base256Tobase85 base256)))"

fun ASCII85_groups :: "u8 list \<Rightarrow> u8 list" where
  "ASCII85_groups [] = []"
| "ASCII85_groups [b1] = ASCII85_write 1 (ASCII85_word b1 0 0 0)"
| "ASCII85_groups [b1, b2] = ASCII85_write 2 (ASCII85_word b1 b2 0 0)"
| "ASCII85_groups [b1, b2, b3] = ASCII85_write 3 (ASCII85_word b1 b2 b3 0)"
| "ASCII85_groups (b1 # b2 # b3 # b4 # data) = ASCII85_write 4 (ASCII85_word b1 b2 b3 b4) @ ASCII85_groups data"

definition ASCII85_EncodeBytes :: "u8 list \<Rightarrow> (filter_error, u8 list) res" where
  "ASCII85_EncodeBytes data = Ok (ASCII85_groups data @ [126, 62])"

section \<open>Raw\<close>

definition Raw_DecodeBytes :: "u8 list \<Rightarrow> (filter_error, u8 list) res" where
  "Raw_DecodeBytes encoded = Ok encoded"

definition Raw_EncodeBytes :: "u8 list \<Rightarrow> (filter_error, u8 list) res" where
  "Raw_EncodeBytes data = Ok data"

end
