(* ===== verification/Filter_Predictors.thy ===== *)
theory Filter_Predictors
  imports Filter_Bytes
begin

text \<open>
  The predictors of the Flate and LZW filters (\<open>postDecodePredict\<close> of \<open>pdf/core/encoding.go\<close>
  and \<open>pdf/core/paeth.go\<close>), and the filters of the PNG specification that they have to undo.
  The fields of an encoder are integers, \<open>go_int\<close> is the wrap-around of an \<open>int\<close> of 64 bits.
  A row is changed in place, so a loop over it passes the row on.
\<close>

section \<open>The code\<close>

definition go_int :: "int \<Rightarrow> int" where
  "go_int x = signed_take_bit 63 x"

lemma go_int_id [simp]: "- (2 ^ 63) \<le> x \<Longrightarrow> x < 2 ^ 63 \<Longrightarrow> go_int x = x"
  by (simp add: go_int_def signed_take_bit_int_eq_self)

text \<open>The absolute value without a branch: \<open>x >> (intSize - 1)\<close> is the sign.\<close>

definition go_abs :: "u64 \<Rightarrow> u64" where
  "go_abs x = (let m = signed_drop_bit 63 x in (x XOR m) - m)"

definition paeth :: "u8 \<Rightarrow> u8 \<Rightarrow> u8 \<Rightarrow> u8" where
  "paeth a b c =
    (let pc = ucast c :: u64;
         pa = ucast b - pc;
         pb = ucast a - pc;
         pc = go_abs (pa + pb);
         pa = go_abs pa;
         pb = go_abs pb
     in if sint pa \<le> sint pb \<and> sint pa \<le> sint pc then a
        else if sint pb \<le> sint pc then b
        else c)"

text \<open>The loop \<open>rowData[j] += p\<close> over the indices \<open>js\<close>, \<open>p\<close> a value read from the row.\<close>

type_synonym prediction = "int \<Rightarrow> u8 list \<Rightarrow> (filter_error, u8) res"

fun row_loop :: "prediction \<Rightarrow> int list \<Rightarrow> u8 list \<Rightarrow> (filter_error, u8 list) res" where
  "row_loop p [] rowData = Ok rowData"
| "row_loop p (j # js) rowData =
    rbind (p j rowData) (\<lambda>v. rbind (index_at rowData j) (\<lambda>x.
      rbind (set_at rowData j (x + v)) (row_loop p js)))"

text \<open>The loop over the rows. The state is the previous row; the result is the output.\<close>

fun rows_loop :: "(u8 list \<Rightarrow> u8 list \<Rightarrow> (filter_error, u8 list \<times> u8 list) res) \<Rightarrow> nat \<Rightarrow> nat \<Rightarrow>
    u8 list \<Rightarrow> u8 list \<Rightarrow> (filter_error, u8 list) res" where
  "rows_loop step 0 rowLength prev outData = Ok []"
| "rows_loop step (Suc rows) rowLength prev outData =
    rbind (step prev (take rowLength outData)) (\<lambda>(row, out).
      rbind (rows_loop step rows rowLength row (drop rowLength outData)) (\<lambda>rest. Ok (out @ rest)))"

definition tiff_row :: "int \<Rightarrow> int \<Rightarrow> u8 list \<Rightarrow> u8 list \<Rightarrow> (filter_error, u8 list \<times> u8 list) res" where
  "tiff_row colors rowLength prev rowData =
    rbind (row_loop (\<lambda>j r. index_at r (j - colors)) [colors..rowLength - 1] rowData) (\<lambda>row. Ok (row, row))"

definition png_row :: "int \<Rightarrow> int \<Rightarrow> u8 list \<Rightarrow> u8 list \<Rightarrow> (filter_error, u8 list \<times> u8 list) res" where
  "png_row bytesPerPixel rowLength prevRowData rowData =
    rbind (index_at rowData 0) (\<lambda>fb.
    rbind (if fb = 0 then Ok rowData
           else if fb = 1 then
             row_loop (\<lambda>j r. index_at r (j - bytesPerPixel)) [1 + bytesPerPixel..rowLength - 1] rowData
           else if fb = 2 then
             row_loop (\<lambda>j r. index_at prevRowData j) [1..rowLength - 1] rowData
           else if fb = 3 then
             rbind (row_loop (\<lambda>j r. rbind (index_at prevRowData j) (\<lambda>b. Ok (b div 2)))
                      [1..bytesPerPixel + 1 - 1] rowData)
               (row_loop (\<lambda>j r. rbind (index_at r (j - bytesPerPixel)) (\<lambda>a.
                      rbind (index_at prevRowData j) (\<lambda>b. Ok (of_int ((uint a + uint b) div 2)))))
                  [bytesPerPixel + 1..rowLength - 1])
           else if fb = 4 then
             row_loop (\<lambda>j r. rbind (index_at prevRowData j) (\<lambda>b.
                 if j \<ge> bytesPerPixel + 1 then
                   rbind (index_at r (j - bytesPerPixel)) (\<lambda>a.
                   rbind (index_at prevRowData (j - bytesPerPixel)) (\<lambda>c. Ok (paeth a b c)))
                 else Ok (paeth 0 b 0))) [1..rowLength - 1] rowData
           else Err (InvalidFilterByte fb))
      (\<lambda>row. Ok (row, tl row)))"

text \<open>
  The checks before the loops. The remainder of a division by 0 and a slice of negative length panic.
\<close>

definition tiff_predict :: "int \<Rightarrow> int \<Rightarrow> u8 list \<Rightarrow> (filter_error, u8 list) res" where
  "tiff_predict columns colors outData =
    (let rowLength = go_int (columns * colors); n = int (length outData)
     in if rowLength < 1 then Ok []
        else if n mod rowLength \<noteq> 0 then Err (InvalidRowLength n rowLength)
        else if rowLength mod colors \<noteq> 0 then Err (InvalidRowLengthForColors rowLength colors)
        else if rowLength > n then Err RangeCheck
        else rows_loop (tiff_row colors rowLength) (nat (n div rowLength)) (nat rowLength) [] outData)"

definition png_predict :: "int \<Rightarrow> int \<Rightarrow> u8 list \<Rightarrow> (filter_error, u8 list) res" where
  "png_predict columns colors outData =
    (let rowLength = go_int (columns * colors + 1); n = int (length outData)
     in if rowLength = 0 then Panic
        else if n mod rowLength \<noteq> 0 then Err (InvalidRowLength n rowLength)
        else if rowLength > n then Err RangeCheck
        else if rowLength < 0 then Panic
        else rows_loop (png_row colors rowLength) (nat (n div rowLength)) (nat rowLength)
               (replicate (nat rowLength) 0) outData)"

section \<open>The filters of the PNG specification\<close>

text \<open>The byte of a row that is one pixel to the left, 0 outside.\<close>

definition left :: "nat \<Rightarrow> u8 list \<Rightarrow> nat \<Rightarrow> u8" where
  "left bpp row j = (if j < bpp then 0 else row ! (j - bpp))"

text \<open>The Paeth predictor takes the neighbour that is nearest to \<open>a + b - c\<close>, the first one of a tie.\<close>

definition paeth_spec :: "u8 \<Rightarrow> u8 \<Rightarrow> u8 \<Rightarrow> u8" where
  "paeth_spec a b c =
    (let p = uint a + uint b - uint c;
         d = (\<lambda>x. \<bar>p - uint x\<bar>)
     in if d a \<le> d b \<and> d a \<le> d c then a else if d b \<le> d c then b else c)"

datatype png_filter = PngNone | PngSub | PngUp | PngAverage | PngPaeth

fun filter_byte :: "png_filter \<Rightarrow> u8" where
  "filter_byte PngNone = 0"
| "filter_byte PngSub = 1"
| "filter_byte PngUp = 2"
| "filter_byte PngAverage = 3"
| "filter_byte PngPaeth = 4"

fun png_prediction :: "png_filter \<Rightarrow> nat \<Rightarrow> u8 list \<Rightarrow> u8 list \<Rightarrow> nat \<Rightarrow> u8" where
  "png_prediction PngNone bpp prev row j = 0"
| "png_prediction PngSub bpp prev row j = left bpp row j"
| "png_prediction PngUp bpp prev row j = prev ! j"
| "png_prediction PngAverage bpp prev row j = of_int ((uint (left bpp row j) + uint (prev ! j)) div 2)"
| "png_prediction PngPaeth bpp prev row j = paeth_spec (left bpp row j) (prev ! j) (left bpp prev j)"

definition png_filtered :: "png_filter \<Rightarrow> nat \<Rightarrow> u8 list \<Rightarrow> u8 list \<Rightarrow> u8 list" where
  "png_filtered f bpp prev row = filter_byte f # map (\<lambda>j. row ! j - png_prediction f bpp prev row j) [0..<length row]"

fun png_encode :: "nat \<Rightarrow> u8 list \<Rightarrow> (png_filter \<times> u8 list) list \<Rightarrow> u8 list" where
  "png_encode bpp prev [] = []"
| "png_encode bpp prev ((f, row) # rows) = png_filtered f bpp prev row @ png_encode bpp row rows"

section \<open>The Paeth function\<close>

lemma sint_small:
  assumes "- 1024 < k" "k < 1024"
  shows "sint (of_int k :: u64) = k"
  using assms by (simp add: signed_of_int signed_take_bit_int_eq_self)

lemma go_abs_eq: "go_abs x = of_int \<bar>sint x\<bar>"
proof -
  have sign: "bit x 63 \<longleftrightarrow> sint x < 0" using bit_last_iff [of x] by simp
  have drop: "signed_drop_bit 63 x = (if sint x < 0 then - 1 else 0)"
    by (rule bit_word_eqI) (auto simp: bit_signed_drop_bit_iff sign Suc_le_eq)
  show ?thesis
  proof (cases "sint x < 0")
    case True
    then have "go_abs x = - x" by (simp add: go_abs_def drop not_eq_complement)
    with True show ?thesis by simp
  next
    case False
    then show ?thesis by (simp add: go_abs_def drop)
  qed
qed

lemma paeth_eq: "paeth a b c = paeth_spec a b c"
proof -
  have bound: "0 \<le> uint x" "uint x < 256" for x :: u8
    using unsigned_greater_eq [of x] unsigned_less [of x] by simp_all
  have diff: "ucast x - ucast y = (of_int (uint x - uint y) :: u64)" for x y :: u8 by simp
  have s1: "sint (of_int (uint x - uint y) :: u64) = uint x - uint y" for x y :: u8
    using bound [of x] bound [of y] by (intro sint_small; linarith)
  have s2: "sint (of_int (uint b - uint c) + of_int (uint a - uint c) :: u64) = uint b - uint c + (uint a - uint c)"
    using bound [of a] bound [of b] bound [of c] unfolding of_int_add [symmetric] by (intro sint_small; linarith)
  have s3: "sint (of_int \<bar>k\<bar> :: u64) = \<bar>k\<bar>" if "\<bar>k\<bar> < 1024" for k
    using that by (intro sint_small; linarith)
  have abs: "\<bar>uint b - uint c\<bar> < 1024" "\<bar>uint a - uint c\<bar> < 1024" "\<bar>uint b - uint c + (uint a - uint c)\<bar> < 1024"
    using bound [of a] bound [of b] bound [of c] by linarith+
  have "uint a + uint b - uint c - uint a = uint b - uint c" "uint a + uint b - uint c - uint b = uint a - uint c"
    "uint a + uint b - uint c - uint c = uint b - uint c + (uint a - uint c)" by simp_all
  then show ?thesis
    unfolding paeth_def paeth_spec_def Let_def diff go_abs_eq s1 s2
    by (simp only: abs [THEN s3])
qed

end
