(* ===== verification/Filter_Png.thy ===== *)
theory Filter_Png
  imports Filter_Predictors
begin

text \<open>
  \<open>png_predict\<close> undoes the filters of the PNG specification, row by row, whatever filter the
  writer chose for a row; \<open>tiff_predict\<close> undoes the differences of the TIFF predictor.
\<close>

section \<open>Loops over a row\<close>

text \<open>A loop that has the bytes before \<open>j\<close> restored when it comes to \<open>j\<close>.\<close>

lemma row_loop_range:
  assumes "length full = n" "length filt = n" "a \<le> b" "b \<le> n"
    and "\<And>j. a \<le> j \<Longrightarrow> j < b \<Longrightarrow> p (int j) (take j full @ drop j filt) = Ok (full ! j - filt ! j)"
  shows "row_loop p [int a..int b - 1] (take a full @ drop a filt) = Ok (take b full @ drop b filt)"
  using assms(3-5)
proof (induction "b - a" arbitrary: a)
  case 0
  then show ?case by simp
next
  case (Suc k)
  then have ab: "a < b" by simp
  then have upto: "[int a..int b - 1] = int a # [int (Suc a)..int b - 1]"
    by (subst upto.simps) (simp add: add.commute)
  have drop: "drop a filt = filt ! a # drop (Suc a) filt"
    using ab Suc.prems(2) assms(2) by (simp add: Cons_nth_drop_Suc)
  have take: "take (Suc a) full = take a full @ [full ! a]"
    using ab Suc.prems(2) assms(1) by (simp add: take_Suc_conv_app_nth)
  have "row_loop p [int (Suc a)..int b - 1] (take (Suc a) full @ drop (Suc a) filt) = Ok (take b full @ drop b filt)"
    using Suc ab by (intro Suc.hyps) auto
  moreover have "p (int a) (take a full @ drop a filt) = Ok (full ! a - filt ! a)"
    using Suc.prems ab by simp
  moreover have "length (take a full) = a" using ab Suc.prems(2) assms(1) by simp
  ultimately show ?case
    using ab assms Suc.prems(2)
    by (simp add: upto index_at_def set_at_def drop take nth_append list_update_append)
qed

text \<open>A loop that starts where the row is still as it was and runs to its end.\<close>

lemma row_loop_row:
  assumes "length full = n" "length filt = n" "a \<le> n" "take a full = take a filt"
    and "\<And>j. a \<le> j \<Longrightarrow> j < n \<Longrightarrow> p (int j) (take j full @ drop j filt) = Ok (full ! j - filt ! j)"
  shows "row_loop p [int a..int n - 1] filt = Ok full"
  using row_loop_range [OF assms(1,2,3) order_refl assms(5)] assms(1,2,4) by simp

section \<open>PNG rows\<close>

lemma length_png_filtered [simp]: "length (png_filtered f bpp prev row) = Suc (length row)"
  by (simp add: png_filtered_def)

text \<open>A restored row, with its filter byte in front, as the code keeps it.\<close>

lemma png_row_filtered:
  assumes "0 < bpp" "bpp \<le> length row" "length prev = length row"
  shows "png_row (int bpp) (int (length row) + 1) (z # prev) (png_filtered f bpp prev row) =
    Ok (filter_byte f # row, row)"
proof -
  define n where "n = Suc (length row)"
  define filt where "filt = png_filtered f bpp prev row"
  define full where "full = filter_byte f # row"
  have len: "length full = n" "length filt = n" by (simp_all add: full_def filt_def n_def)
  have hd: "filt ! 0 = filter_byte f" by (simp add: filt_def png_filtered_def)
  have fb: "index_at filt 0 = Ok (filter_byte f)" using hd len(2) by (simp add: index_at_def n_def)
  have nth: "filt ! Suc i = row ! i - png_prediction f bpp prev row i" if "i < length row" for i
    using that by (simp add: filt_def png_filtered_def)
  have n: "int (length row) + 1 - 1 = int n - 1" by (simp add: n_def)
  have done_before: "take j full @ drop j filt = full" if "\<And>i. i < length row \<Longrightarrow> Suc i \<ge> j \<Longrightarrow> png_prediction f bpp prev row i = 0"
    for j
  proof (rule nth_equalityI)
    show "length (take j full @ drop j filt) = length full" using len by simp
    fix i assume "i < length (take j full @ drop j filt)"
    then have "i < n" using len by simp
    then show "(take j full @ drop j filt) ! i = full ! i"
      using that hd len by (cases i) (auto simp: nth_append full_def nth n_def min_def)
  qed
  have same: "take a full = take a filt" if "\<And>i. Suc i < a \<Longrightarrow> i < length row \<Longrightarrow> png_prediction f bpp prev row i = 0" for a
  proof (rule nth_equalityI)
    show "length (take a full) = length (take a filt)" using len by simp
    fix i assume "i < length (take a full)"
    then have "i < a" "i < n" using len by auto
    then show "take a full ! i = take a filt ! i"
      using that hd by (cases i) (auto simp: full_def nth n_def)
  qed
  have step: "full ! j - filt ! j = png_prediction f bpp prev row (j - 1)" if "1 \<le> j" "j < n" for j
    using that nth by (cases j) (auto simp: full_def n_def)
  have at: "(take j full @ drop j filt) ! i = full ! i" if "i < j" "j < n" for i j
    using that len by (simp add: nth_append)
  have leftj: "left bpp row (j - 1) = full ! (j - bpp)" "index_at (take j full @ drop j filt) (int j - int bpp) = (Ok (full ! (j - bpp)) :: (filter_error, u8) res)"
    if "1 + bpp \<le> j" "j < n" for j
    using that assms(1) len at [of "j - bpp" j]
    by (auto simp: left_def full_def index_at_def nat_diff_distrib' nth_Cons' of_nat_diff [symmetric] simp del: of_nat_diff)
  have prevj: "index_at (z # prev) (int j) = (Ok (prev ! (j - 1)) :: (filter_error, u8) res)" if "1 \<le> j" "j < n" for j
    using that assms(3) by (cases j) (auto simp: index_at_def n_def nat_add_distrib)
  have prevl: "index_at (z # prev) (int j - int bpp) = (Ok (left bpp prev (j - 1)) :: (filter_error, u8) res)" if "1 + bpp \<le> j" "j < n" for j
    using that assms(1,3)
    by (auto simp: left_def index_at_def n_def nth_Cons' nat_diff_distrib' of_nat_diff [symmetric] simp del: of_nat_diff)
  show ?thesis
  proof (cases f)
    case PngNone
    then have "filt = full" using done_before [of 0] by simp
    then show ?thesis unfolding png_row_def filt_def [symmetric] by (simp add: index_at_def full_def PngNone)
  next
    case PngSub
    have "row_loop (\<lambda>j r. index_at r (j - int bpp)) [int (1 + bpp)..int n - 1] filt = Ok full"
      using assms(2) leftj step same [of "1 + bpp"]
      by (intro row_loop_row [OF len]) (auto simp: n_def PngSub left_def)
    then show ?thesis unfolding png_row_def filt_def [symmetric]
      by (simp add: fb full_def PngSub n n_def)
  next
    case PngUp
    have "row_loop (\<lambda>j r. index_at (z # prev) j) [int 1..int n - 1] filt = Ok full"
      using prevj step same [of 1] by (intro row_loop_row [OF len]) (auto simp: n_def PngUp)
    then show ?thesis unfolding png_row_def filt_def [symmetric]
      by (simp add: fb full_def PngUp n n_def)
  next
    case PngAverage
    have early: "index_at (z # prev) (int j) = (Ok (prev ! (j - 1)) :: (filter_error, u8) res)" "left bpp row (j - 1) = 0"
        "full ! j - filt ! j = of_int ((uint (left bpp row (j - 1)) + uint (prev ! (j - 1))) div 2)"
      if "1 \<le> j" "j < 1 + bpp" for j
    proof -
      have "j < n" using that(2) assms(2) by (simp add: n_def)
      then show "index_at (z # prev) (int j) = (Ok (prev ! (j - 1)) :: (filter_error, u8) res)" "left bpp row (j - 1) = 0"
        "full ! j - filt ! j = of_int ((uint (left bpp row (j - 1)) + uint (prev ! (j - 1))) div 2)"
        using prevj step that by (auto simp: PngAverage left_def)
    qed
    have "row_loop (\<lambda>j r. rbind (index_at (z # prev) j) (\<lambda>b. Ok (b div 2))) [int 1..int (1 + bpp) - 1]
        (take 1 full @ drop 1 filt) = Ok (take (1 + bpp) full @ drop (1 + bpp) filt)"
      using assms(2) early
      by (intro row_loop_range [OF len]) (auto simp: n_def word_div_def)
    moreover have "row_loop (\<lambda>j r. rbind (index_at r (j - int bpp)) (\<lambda>a.
        rbind (index_at (z # prev) j) (\<lambda>b. Ok (of_int ((uint a + uint b) div 2))))) [int (1 + bpp)..int n - 1]
        (take (1 + bpp) full @ drop (1 + bpp) filt) = Ok (take n full @ drop n filt)"
      using assms(2) prevj leftj step
      by (intro row_loop_range [OF len]) (auto simp: n_def PngAverage)
    moreover have "take 1 full @ drop 1 filt = filt" using same [of 1] by simp
    ultimately show ?thesis using len unfolding png_row_def filt_def [symmetric]
      by (simp add: fb full_def PngAverage n n_def add.commute [of _ 1] del: One_nat_def)
  next
    case PngPaeth
    have "row_loop (\<lambda>j r. rbind (index_at (z # prev) j) (\<lambda>b.
        if j \<ge> int bpp + 1 then
          rbind (index_at r (j - int bpp)) (\<lambda>a.
          rbind (index_at (z # prev) (j - int bpp)) (\<lambda>c. Ok (paeth a b c)))
        else Ok (paeth 0 b 0))) [int 1..int n - 1] filt = Ok full"
    proof (rule row_loop_row [OF len])
      fix j assume j: "1 \<le> j" "j < n"
      show "rbind (index_at (z # prev) (int j)) (\<lambda>b.
        if int j \<ge> int bpp + 1 then
          rbind (index_at (take j full @ drop j filt) (int j - int bpp)) (\<lambda>a.
          rbind (index_at (z # prev) (int j - int bpp)) (\<lambda>c. Ok (paeth a b c)))
        else Ok (paeth 0 b 0)) = (Ok (full ! j - filt ! j) :: (filter_error, u8) res)"
      proof (cases "1 + bpp \<le> j")
        case True
        then have "1 \<le> j" by simp
        with True j show ?thesis using prevj [of j] leftj [of j] prevl [of j] step [of j]
          by (simp add: PngPaeth paeth_eq)
      next
        case False
        then have "j - 1 < bpp" using j by simp
        then show ?thesis using j False prevj [of j] step [of j] by (simp add: PngPaeth paeth_eq left_def)
      qed
    qed (use same [of 1] in \<open>simp_all add: n_def\<close>)
    then show ?thesis unfolding png_row_def filt_def [symmetric]
      by (simp add: fb full_def PngPaeth n n_def)
  qed
qed

section \<open>PNG images\<close>

lemma length_png_encode: "list_all (\<lambda>(f, row). length row = n) rows \<Longrightarrow> length (png_encode bpp prev rows) = length rows * Suc n"
  by (induction bpp prev rows rule: png_encode.induct) auto

lemma png_rows_loop:
  assumes "0 < bpp" "bpp \<le> n" "length prev = n" "list_all (\<lambda>(f, row). length row = n) rows"
  shows "rows_loop (png_row (int bpp) (int n + 1)) (length rows) (Suc n) (z # prev) (png_encode bpp prev rows) =
    Ok (concat (map snd rows))"
  using assms(3,4)
proof (induction rows arbitrary: prev z)
  case (Cons fr rows)
  obtain f row where fr: "fr = (f, row)" by fastforce
  with Cons.prems have row: "length row = n" "length prev = length row" "list_all (\<lambda>(f, row). length row = n) rows"
    by simp_all
  then have "png_row (int bpp) (int n + 1) (z # prev) (png_filtered f bpp prev row) = Ok (filter_byte f # row, row)"
    using png_row_filtered [OF assms(1), of row prev z f] assms(2) by simp
  then show ?case using Cons.IH [of row "filter_byte f"] row by (simp add: fr)
qed simp

text \<open>The image comes back, whichever filter each of its rows has.\<close>

lemma png_predict_encode:
  assumes "0 < columns" "0 < colors" "int columns * int colors < 2 ^ 63 - 1" "rows \<noteq> []"
    and "list_all (\<lambda>(f, row). length row = columns * colors) rows"
  shows "png_predict (int columns) (int colors) (png_encode colors (replicate (columns * colors) 0) rows) =
    Ok (concat (map snd rows))"
proof -
  define n where "n = columns * colors"
  have n: "int columns * int colors = int n" by (simp add: n_def)
  have go: "go_int (int columns * int colors + 1) = int n + 1" using assms(3) n by simp
  have len: "length (png_encode colors (replicate n 0) rows) = length rows * Suc n"
    using assms(5) by (intro length_png_encode) (simp add: n_def)
  have int: "int (length rows * Suc n) = int (length rows) * (int n + 1)" by (simp add: algebra_simps)
  have rows: "1 \<le> int (length rows)" using assms(4) by (cases rows) auto
  have "(int n + 1) * 1 \<le> (int n + 1) * int (length rows)" using rows by (intro mult_left_mono) auto
  then have le: "int n + 1 \<le> int (length rows) * (int n + 1)" by (simp add: mult.commute)
  have rep: "replicate (nat (int n + 1)) (0 :: u8) = 0 # replicate n 0" "nat (int n + 1) = Suc n"
    by (simp_all add: nat_add_distrib)
  have checks: "int n + 1 \<noteq> 0" "\<not> int (length rows) * (int n + 1) mod (int n + 1) \<noteq> 0"
    "\<not> int n + 1 > int (length rows) * (int n + 1)" "\<not> int n + 1 < 0"
    "nat (int (length rows) * (int n + 1) div (int n + 1)) = length rows"
    by simp_all (use le in linarith)
  have "colors \<le> n" using assms(1,2) by (simp add: n_def)
  from png_rows_loop [OF assms(2) this, of "replicate n 0" rows 0] assms(5)
  have "rows_loop (png_row (int colors) (int n + 1)) (length rows) (Suc n) (0 # replicate n 0)
      (png_encode colors (replicate n 0) rows) = Ok (concat (map snd rows))"
    unfolding n_def [symmetric] by simp
  then show ?thesis unfolding png_predict_def Let_def n_def [symmetric] go len int
    by (simp only: checks rep replicate_Suc if_False)
qed

section \<open>TIFF rows\<close>

definition tiff_filtered :: "nat \<Rightarrow> u8 list \<Rightarrow> u8 list" where
  "tiff_filtered colors row = map (\<lambda>j. row ! j - left colors row j) [0..<length row]"

lemma tiff_row_filtered:
  assumes "0 < colors" "colors \<le> length row"
  shows "tiff_row (int colors) (int (length row)) prev (tiff_filtered colors row) = Ok (row, row)"
proof -
  have len: "length row = length row" "length (tiff_filtered colors row) = length row"
    by (simp_all add: tiff_filtered_def)
  have "row_loop (\<lambda>j r. index_at r (j - int colors)) [int colors..int (length row) - 1] (tiff_filtered colors row) = Ok row"
  proof (rule row_loop_row [OF len assms(2)])
    show "take colors row = take colors (tiff_filtered colors row)"
      using assms(2) by (intro nth_equalityI) (auto simp: tiff_filtered_def left_def)
    fix j assume j: "colors \<le> j" "j < length row"
    have "int j - int colors = int (j - colors)" using j by simp
    then show "index_at (take j row @ drop j (tiff_filtered colors row)) (int j - int colors) =
        Ok (row ! j - tiff_filtered colors row ! j)"
      using j assms(1) by (simp add: index_at_def tiff_filtered_def left_def nth_append nat_diff_distrib')
  qed
  then show ?thesis by (simp add: tiff_row_def)
qed

lemma tiff_rows_loop:
  assumes "0 < colors" "colors \<le> n" "list_all (\<lambda>row. length row = n) rows"
  shows "rows_loop (tiff_row (int colors) (int n)) (length rows) n prev (concat (map (tiff_filtered colors) rows)) =
    Ok (concat rows)"
  using assms(3)
proof (induction rows arbitrary: prev)
  case (Cons row rows)
  then show ?case
    using tiff_row_filtered [OF assms(1), of row prev] assms(2) by (auto simp: tiff_filtered_def)
qed simp

lemma tiff_predict_encode:
  assumes "0 < columns" "0 < colors" "int columns * int colors < 2 ^ 63" "rows \<noteq> []"
    and "list_all (\<lambda>row. length row = columns * colors) rows"
  shows "tiff_predict (int columns) (int colors) (concat (map (tiff_filtered colors) rows)) = Ok (concat rows)"
proof -
  define n where "n = columns * colors"
  have n: "int columns * int colors = int n" by (simp add: n_def)
  have go: "go_int (int columns * int colors) = int n" using assms(3) n by simp
  have len: "length (concat (map (tiff_filtered colors) rows)) = length rows * n"
    using assms(5) by (induction rows) (auto simp: tiff_filtered_def n_def)
  have int: "int (length rows * n) = int (length rows) * int n" by simp
  have npos: "0 < n" "colors \<le> n" "int n mod int colors = 0" using assms(1,2) by (simp_all add: n_def)
  have "1 \<le> int (length rows)" using assms(4) by (cases rows) auto
  then have "int n * 1 \<le> int n * int (length rows)" by (intro mult_left_mono) auto
  then have le: "int n \<le> int (length rows) * int n" by (simp add: mult.commute)
  have checks: "\<not> int n < 1" "\<not> int (length rows) * int n mod int n \<noteq> 0" "\<not> int n mod int colors \<noteq> 0"
    "\<not> int n > int (length rows) * int n" "nat (int (length rows) * int n div int n) = length rows" "nat (int n) = n"
    using npos le assms(4) by simp_all
  have "rows_loop (tiff_row (int colors) (int n)) (length rows) n [] (concat (map (tiff_filtered colors) rows)) = Ok (concat rows)"
    using assms(5) npos by (intro tiff_rows_loop assms(2)) (simp_all add: n_def)
  then show ?thesis unfolding tiff_predict_def Let_def n_def [symmetric] go len int
    by (simp only: checks if_False)
qed

end
