(* ===== verification/Filter_Flate.thy ===== *)
theory Filter_Flate
  imports Filter_Png Core_Access
begin

text \<open>
  The Flate and the LZW filter of \<open>pdf/core/encoding.go\<close>: their parameters, the dictionaries
  they write, how they are made from a stream dictionary, and encoding and decoding with predictors.
  The compressors are not in the repository (\<open>compress/zlib\<close>, \<open>compress/lzw\<close> and the LZW of
  \<open>golang.org/x/image\<close>): they are the fields of \<open>codecs\<close>, a parameter.
\<close>

section \<open>Parameters\<close>

text \<open>
  \<open>zlib_read\<close> has no value where \<open>zlib.NewReader\<close> fails; otherwise it is what \<open>ReadFrom\<close> collects before
  the end or an error, which \<open>DecodeBytes\<close> does not look at. The readers of LZW have no value on an error.
\<close>

record codecs =
  zlib_read :: "u8 list \<Rightarrow> u8 list option"
  zlib_write :: "u8 list \<Rightarrow> u8 list"
  lzw1_read :: "u8 list \<Rightarrow> u8 list option"
  lzw0_read :: "u8 list \<Rightarrow> u8 list option"
  lzw0_write :: "u8 list \<Rightarrow> u8 list"

record FlateEncoder =
  Predictor :: int
  BitsPerComponent :: int
  Columns :: int
  Colors :: int

record LZWEncoder = FlateEncoder +
  EarlyChange :: int

definition NewFlateEncoder :: FlateEncoder where
  "NewFlateEncoder = \<lparr>Predictor = 1, BitsPerComponent = 8, Columns = 1, Colors = 1\<rparr>"

definition NewLZWEncoder :: LZWEncoder where
  "NewLZWEncoder = \<lparr>Predictor = 1, BitsPerComponent = 8, Columns = 1, Colors = 1, EarlyChange = 1\<rparr>"

definition SetPredictor :: "int \<Rightarrow> FlateEncoder \<Rightarrow> FlateEncoder" where
  "SetPredictor columns enc = enc\<lparr>Predictor := 11, Columns := columns\<rparr>"

text \<open>The two \<open>MakeDecodeParams\<close> are the same code.\<close>

definition set_unless :: "bool \<Rightarrow> string \<Rightarrow> int \<Rightarrow> 'f PdfObject pdf_dict \<Rightarrow> 'f PdfObject pdf_dict" where
  "set_unless skip key val d = (if skip then d else dict_Set key (MakeInteger val) d)"

definition Flate_MakeDecodeParams :: "'a FlateEncoder_scheme \<Rightarrow> 'f PdfObject pdf_dict option" where
  "Flate_MakeDecodeParams enc =
    (if Predictor enc > 1 then
       let decodeParams = dict_Set ''Predictor'' (MakeInteger (Predictor enc)) MakeDict;
           decodeParams = set_unless (BitsPerComponent enc = 8) ''BitsPerComponent'' (BitsPerComponent enc) decodeParams;
           decodeParams = set_unless (Columns enc = 1) ''Columns'' (Columns enc) decodeParams;
           decodeParams = set_unless (Colors enc = 1) ''Colors'' (Colors enc) decodeParams
       in Some decodeParams
     else None)"

definition set_params :: "'f PdfObject pdf_dict option \<Rightarrow> 'f PdfObject pdf_dict \<Rightarrow> 'f PdfObject pdf_dict" where
  "set_params decodeParams d =
    (case decodeParams of Some p \<Rightarrow> dict_Set ''DecodeParms'' (PdfObjectDictionary p) d | None \<Rightarrow> d)"

definition Flate_MakeStreamDict :: "FlateEncoder \<Rightarrow> 'f PdfObject pdf_dict" where
  "Flate_MakeStreamDict enc =
    set_params (Flate_MakeDecodeParams enc) (dict_Set ''Filter'' (PdfObjectName ''FlateDecode'') MakeDict)"

definition LZW_MakeStreamDict :: "LZWEncoder \<Rightarrow> 'f PdfObject pdf_dict" where
  "LZW_MakeStreamDict enc =
    dict_Set ''EarlyChange'' (MakeInteger (EarlyChange enc))
      (set_params (Flate_MakeDecodeParams enc) (dict_Set ''Filter'' (PdfObjectName ''LZWDecode'') MakeDict))"

section \<open>Updating the parameters\<close>

definition number_param :: "'f fops \<Rightarrow> string \<Rightarrow> 'f PdfObject pdf_dict \<Rightarrow> int option" where
  "number_param F key params =
    (case dict_Get key params of
       None \<Rightarrow> None
     | Some obj \<Rightarrow> (case GetNumberAsInt64 F obj of Inr v \<Rightarrow> Some (sint v) | Inl _ \<Rightarrow> None))"

definition Flate_UpdateParams :: "'f fops \<Rightarrow> 'f PdfObject pdf_dict \<Rightarrow> 'a FlateEncoder_scheme \<Rightarrow> 'a FlateEncoder_scheme" where
  "Flate_UpdateParams F params enc =
    (let enc = (case number_param F ''Predictor'' params of Some v \<Rightarrow> enc\<lparr>Predictor := v\<rparr> | None \<Rightarrow> enc);
         enc = (case number_param F ''BitsPerComponent'' params of Some v \<Rightarrow> enc\<lparr>BitsPerComponent := v\<rparr> | None \<Rightarrow> enc);
         enc = (case number_param F ''Width'' params of Some v \<Rightarrow> enc\<lparr>Columns := v\<rparr> | None \<Rightarrow> enc);
         enc = (case number_param F ''ColorComponents'' params of Some v \<Rightarrow> enc\<lparr>Colors := v\<rparr> | None \<Rightarrow> enc)
     in enc)"

definition LZW_UpdateParams :: "'f fops \<Rightarrow> 'f PdfObject pdf_dict \<Rightarrow> LZWEncoder \<Rightarrow> LZWEncoder" where
  "LZW_UpdateParams F params enc =
    (let enc = Flate_UpdateParams F params enc
     in case number_param F ''EarlyChange'' params of Some v \<Rightarrow> enc\<lparr>EarlyChange := v\<rparr> | None \<Rightarrow> enc)"

section \<open>Encoders from stream dictionaries\<close>

text \<open>An entry that may be absent, but is an integer where it is not.\<close>

definition integer_param :: "string \<Rightarrow> 'f PdfObject pdf_dict \<Rightarrow> (filter_error, int option) res" where
  "integer_param key d =
    (case dict_Get key d of
       None \<Rightarrow> Ok None
     | Some (PdfObjectInteger v) \<Rightarrow> Ok (Some (sint v))
     | Some _ \<Rightarrow> Err (InvalidParameter key))"

text \<open>The part that both filters share, from \<open>Predictor\<close> on.\<close>

definition read_params :: "'f PdfObject pdf_dict \<Rightarrow> 'a FlateEncoder_scheme \<Rightarrow> (filter_error, 'a FlateEncoder_scheme) res" where
  "read_params decodeParams encoder =
    rbind (integer_param ''Predictor'' decodeParams) (\<lambda>v.
      let encoder = (case v of Some v \<Rightarrow> encoder\<lparr>Predictor := v\<rparr> | None \<Rightarrow> encoder) in
    rbind (integer_param ''BitsPerComponent'' decodeParams) (\<lambda>v.
      let encoder = (case v of Some v \<Rightarrow> encoder\<lparr>BitsPerComponent := v\<rparr> | None \<Rightarrow> encoder) in
    if Predictor encoder > 1 then
      let encoder = encoder\<lparr>Columns := 1\<rparr> in
      rbind (integer_param ''Columns'' decodeParams) (\<lambda>v.
        let encoder = (case v of Some v \<Rightarrow> encoder\<lparr>Columns := v\<rparr> | None \<Rightarrow> encoder);
            encoder = encoder\<lparr>Colors := 1\<rparr> in
      rbind (integer_param ''Colors'' decodeParams) (\<lambda>v.
        Ok (case v of Some v \<Rightarrow> encoder\<lparr>Colors := v\<rparr> | None \<Rightarrow> encoder)))
    else Ok encoder))"

text \<open>
  The parameters of a Flate stream. The dictionary in an array of one element is looked up,
  but not used.
\<close>

definition newFlateEncoderFromStream ::
    "'f resolver \<Rightarrow> 'f PdfObject pdf_dict \<Rightarrow> 'f PdfObject pdf_dict option \<Rightarrow> (filter_error, FlateEncoder) res" where
  "newFlateEncoderFromStream resolve encDict decodeParams =
    rbind
      (case decodeParams of
         Some p \<Rightarrow> Ok (Some p)
       | None \<Rightarrow>
          (case TraceToDirectObject resolve (dict_Get ''DecodeParms'' encDict) of
             Some (PdfObjectArray arr) \<Rightarrow> if length arr \<noteq> 1 then Err RangeCheck else Ok None
           | Some (PdfObjectDictionary t) \<Rightarrow> Ok (Some t)
           | Some PdfObjectNull \<Rightarrow> Ok None
           | None \<Rightarrow> Ok None
           | Some _ \<Rightarrow> Err InvalidDecodeParms))
      (\<lambda>decodeParams. case decodeParams of None \<Rightarrow> Ok NewFlateEncoder | Some p \<Rightarrow> read_params p NewFlateEncoder)"

definition newLZWEncoderFromStream ::
    "'f resolver \<Rightarrow> 'f PdfObject pdf_dict \<Rightarrow> 'f PdfObject pdf_dict option \<Rightarrow> (filter_error, LZWEncoder) res" where
  "newLZWEncoderFromStream resolve encDict decodeParams =
    rbind
      (case decodeParams of
         Some p \<Rightarrow> Ok (Some p)
       | None \<Rightarrow>
          (case dict_Get ''DecodeParms'' encDict of
             None \<Rightarrow> Ok None
           | Some (PdfObjectDictionary dp) \<Rightarrow> Ok (Some dp)
           | Some (PdfObjectArray a) \<Rightarrow>
               if length a = 1 then
                 (case GetDict resolve (array_Get a 0) of Some dp \<Rightarrow> Ok (Some dp) | None \<Rightarrow> Err InvalidDecodeParms)
               else Err InvalidDecodeParms
           | Some _ \<Rightarrow> Err InvalidDecodeParms))
      (\<lambda>decodeParams.
        rbind
          (case dict_Get ''EarlyChange'' encDict of
             Some (PdfObjectInteger v) \<Rightarrow>
               if v \<noteq> 0 \<and> v \<noteq> 1 then Err (InvalidParameter ''EarlyChange'')
               else Ok (NewLZWEncoder\<lparr>EarlyChange := sint v\<rparr>)
           | Some _ \<Rightarrow> Err (InvalidParameter ''EarlyChange'')
           | None \<Rightarrow> Ok (NewLZWEncoder\<lparr>EarlyChange := 1\<rparr>))
          (\<lambda>encoder. case decodeParams of None \<Rightarrow> Ok encoder | Some p \<Rightarrow> read_params p encoder))"

section \<open>Flate: data\<close>

definition Flate_DecodeBytes :: "codecs \<Rightarrow> FlateEncoder \<Rightarrow> u8 list \<Rightarrow> (filter_error, u8 list) res" where
  "Flate_DecodeBytes C enc encoded = (case zlib_read C encoded of None \<Rightarrow> Err CodecError | Some out \<Rightarrow> Ok out)"

definition postDecodePredict :: "FlateEncoder \<Rightarrow> u8 list \<Rightarrow> (filter_error, u8 list) res" where
  "postDecodePredict enc outData =
    (if Predictor enc > 1 then
       if Predictor enc = 2 then tiff_predict (Columns enc) (Colors enc) outData
       else if Predictor enc \<ge> 10 \<and> Predictor enc \<le> 15 then png_predict (Columns enc) (Colors enc) outData
       else Err (UnsupportedPredictor (Predictor enc))
     else Ok outData)"

definition Flate_DecodeStream :: "codecs \<Rightarrow> FlateEncoder \<Rightarrow> u8 list \<Rightarrow> (filter_error, u8 list) res" where
  "Flate_DecodeStream C enc stream =
    (if BitsPerComponent enc \<noteq> 8 then Err (InvalidBitsPerComponent (BitsPerComponent enc))
     else rbind (Flate_DecodeBytes C enc stream) (postDecodePredict enc))"

text \<open>The rows of the encoder with the sub filter; \<open>rows\<close> counts the rows that are left.\<close>

definition sub_row :: "u8 list \<Rightarrow> u8 list" where
  "sub_row rowData = map (\<lambda>j. if j = 0 then rowData ! 0 else rowData ! j - rowData ! (j - 1)) [0..<length rowData]"

fun sub_rows :: "nat \<Rightarrow> nat \<Rightarrow> u8 list \<Rightarrow> u8 list" where
  "sub_rows 0 rowLength data = []"
| "sub_rows (Suc rows) rowLength data = 1 # sub_row (take rowLength data) @ sub_rows rows rowLength (drop rowLength data)"

definition Flate_EncodeBytes :: "codecs \<Rightarrow> FlateEncoder \<Rightarrow> u8 list \<Rightarrow> (filter_error, u8 list) res" where
  "Flate_EncodeBytes C enc data =
    (if Predictor enc \<noteq> 1 \<and> Predictor enc \<noteq> 11 then Err UnsupportedEncodingPredictor
     else
       rbind
         (if Predictor enc = 11 then
            let rowLength = Columns enc; n = int (length data)
            in if rowLength = 0 then Panic
               else if n mod rowLength \<noteq> 0 then Err (InvalidRowLength n rowLength)
               else if rowLength < 0 then Panic
               else Ok (sub_rows (nat (n div rowLength)) (nat rowLength) data)
          else Ok data)
         (\<lambda>data. Ok (zlib_write C data)))"

section \<open>LZW: data\<close>

definition LZW_DecodeBytes :: "codecs \<Rightarrow> LZWEncoder \<Rightarrow> u8 list \<Rightarrow> (filter_error, u8 list) res" where
  "LZW_DecodeBytes C enc encoded =
    (case (if EarlyChange enc = 1 then lzw1_read C else lzw0_read C) encoded of
       None \<Rightarrow> Err CodecError
     | Some out \<Rightarrow> Ok out)"

text \<open>The PNG filters of LZW: three of the five, and the sub filter takes the previous byte.\<close>

definition lzw_png_row :: "int \<Rightarrow> u8 list \<Rightarrow> u8 list \<Rightarrow> (filter_error, u8 list \<times> u8 list) res" where
  "lzw_png_row rowLength prevRowData rowData =
    rbind (index_at rowData 0) (\<lambda>fb.
    rbind (if fb = 0 then Ok rowData
           else if fb = 1 then row_loop (\<lambda>j r. index_at r (j - 1)) [2..rowLength - 1] rowData
           else if fb = 2 then row_loop (\<lambda>j r. index_at prevRowData j) [1..rowLength - 1] rowData
           else Err (InvalidFilterByte fb))
      (\<lambda>row. Ok (row, tl row)))"

definition lzw_png_predict :: "int \<Rightarrow> int \<Rightarrow> u8 list \<Rightarrow> (filter_error, u8 list) res" where
  "lzw_png_predict columns colors outData =
    (let rowLength = go_int (columns * colors + 1); n = int (length outData)
     in if rowLength < 1 then Ok []
        else if n mod rowLength \<noteq> 0 then Err (InvalidRowLength n rowLength)
        else if rowLength > n then Err RangeCheck
        else rows_loop (lzw_png_row rowLength) (nat (n div rowLength)) (nat rowLength)
               (replicate (nat rowLength) 0) outData)"

definition LZW_DecodeStream :: "codecs \<Rightarrow> LZWEncoder \<Rightarrow> u8 list \<Rightarrow> (filter_error, u8 list) res" where
  "LZW_DecodeStream C enc stream =
    rbind (LZW_DecodeBytes C enc stream) (\<lambda>outData.
      if Predictor enc > 1 then
        if Predictor enc = 2 then tiff_predict (Columns enc) (Colors enc) outData
        else if Predictor enc \<ge> 10 \<and> Predictor enc \<le> 15 then lzw_png_predict (Columns enc) (Colors enc) outData
        else Err (UnsupportedPredictor (Predictor enc))
      else Ok outData)"

definition LZW_EncodeBytes :: "codecs \<Rightarrow> LZWEncoder \<Rightarrow> u8 list \<Rightarrow> (filter_error, u8 list) res" where
  "LZW_EncodeBytes C enc data =
    (if Predictor enc \<noteq> 1 then Err UnsupportedEncodingPredictor
     else if EarlyChange enc = 1 then Err UnsupportedEarlyChange
     else Ok (lzw0_write C data))"

section \<open>Parameters that are written are read back\<close>

lemmas dict_defs = dict_Set_def dict_Get_def MakeDict_def

lemma dict_Get_Set: "dict_Get k (dict_Set k' v d) = (if k = k' then Some v else dict_Get k d)"
  by (simp add: dict_Get_def dict_Set_def update_conv')

lemma dict_Get_MakeDict [simp]: "dict_Get k MakeDict = None"
  by (simp add: dict_defs)

text \<open>Fields within the range of the integers of the file.\<close>

definition params_ok :: "'a FlateEncoder_scheme \<Rightarrow> bool" where
  "params_ok enc \<longleftrightarrow> in_int64 (Predictor enc) \<and> in_int64 (BitsPerComponent enc) \<and> in_int64 (Columns enc) \<and>
    in_int64 (Colors enc)"

text \<open>Without a predictor nothing is written, and the fields have to be the default ones.\<close>

definition params_written :: "'a FlateEncoder_scheme \<Rightarrow> bool" where
  "params_written enc \<longleftrightarrow> params_ok enc \<and>
    (Predictor enc > 1 \<or> Predictor enc = 1 \<and> BitsPerComponent enc = 8 \<and> Columns enc = 1 \<and> Colors enc = 1)"

lemma integer_param_Set:
  "in_int64 v \<Longrightarrow> integer_param k (dict_Set k' (MakeInteger v) d) = (if k = k' then Ok (Some v) else integer_param k d)"
  by (simp add: integer_param_def dict_Get_Set MakeInteger_def)

lemma integer_param_unless:
  "in_int64 v \<Longrightarrow> integer_param k (set_unless b k' v d) = (if k = k' \<and> \<not> b then Ok (Some v) else integer_param k d)"
  by (simp add: set_unless_def integer_param_Set)

lemma integer_param_MakeDict [simp]: "integer_param k MakeDict = Ok None"
  by (simp add: integer_param_def)

lemma read_params_written:
  assumes "Flate_MakeDecodeParams enc = Some p" "params_ok enc" "FlateEncoder.more enc = FlateEncoder.more enc0"
    "BitsPerComponent enc0 = 8"
  shows "read_params p enc0 = Ok enc"
proof -
  from assms(1) have "Predictor enc > 1" by (simp add: Flate_MakeDecodeParams_def split: if_splits)
  with assms show ?thesis
    by (cases enc; cases enc0)
      (auto simp: Flate_MakeDecodeParams_def Let_def params_ok_def read_params_def integer_param_unless integer_param_Set)
qed

lemma newFlate_MakeStreamDict:
  assumes "params_written enc"
  shows "newFlateEncoderFromStream resolve (Flate_MakeStreamDict enc) None = Ok enc"
proof (cases "Flate_MakeDecodeParams enc :: 'a PdfObject pdf_dict option")
  case None
  with assms show ?thesis
    by (cases enc) (auto simp: Flate_MakeDecodeParams_def Let_def newFlateEncoderFromStream_def Flate_MakeStreamDict_def
        set_params_def dict_Get_Set params_written_def NewFlateEncoder_def split: if_splits)
next
  case (Some p)
  from read_params_written [OF this, of NewFlateEncoder] assms
  show ?thesis
    by (simp add: newFlateEncoderFromStream_def Flate_MakeStreamDict_def Some set_params_def dict_Get_Set
        params_written_def NewFlateEncoder_def)
qed

lemma newLZW_MakeStreamDict:
  assumes "params_written enc" "EarlyChange enc = 0 \<or> EarlyChange enc = 1"
  shows "newLZWEncoderFromStream resolve (LZW_MakeStreamDict enc) None = Ok enc"
proof -
  define start where "start = NewLZWEncoder\<lparr>EarlyChange := EarlyChange enc\<rparr>"
  have early: "(of_int (EarlyChange enc) :: u64) = 0 \<or> (of_int (EarlyChange enc) :: u64) = 1"
    "sint (of_int (EarlyChange enc) :: u64) = EarlyChange enc"
    using assms(2) by auto
  show ?thesis
  proof (cases "Flate_MakeDecodeParams enc :: 'a PdfObject pdf_dict option")
    case None
    with assms early show ?thesis
      by (cases enc) (auto simp: Flate_MakeDecodeParams_def Let_def newLZWEncoderFromStream_def LZW_MakeStreamDict_def
        set_params_def dict_Get_Set params_written_def NewLZWEncoder_def MakeInteger_def split: if_splits)
  next
    case (Some p)
    have "FlateEncoder.more enc = FlateEncoder.more start" by (cases enc) (simp add: start_def NewLZWEncoder_def)
    with read_params_written [OF Some, of start] assms(1) have "read_params p start = Ok enc"
      by (simp add: params_written_def start_def NewLZWEncoder_def)
    with early show ?thesis
      by (auto simp: newLZWEncoderFromStream_def LZW_MakeStreamDict_def Some set_params_def dict_Get_Set
          MakeInteger_def start_def)
  qed
qed

section \<open>Data that is encoded is decoded\<close>

text \<open>The documented behaviour of the compressors: reading gives what was written.\<close>

definition zlib_ok :: "codecs \<Rightarrow> bool" where
  "zlib_ok C \<longleftrightarrow> (\<forall>data. zlib_read C (zlib_write C data) = Some data)"

definition lzw_ok :: "codecs \<Rightarrow> bool" where
  "lzw_ok C \<longleftrightarrow> (\<forall>data. lzw0_read C (lzw0_write C data) = Some data)"

text \<open>The rows of the encoder are PNG rows with the sub filter and one byte per pixel.\<close>

lemma sub_row_png: "1 # sub_row row = png_filtered PngSub 1 prev row"
  by (auto simp: sub_row_def png_filtered_def left_def)

fun chunks :: "nat \<Rightarrow> nat \<Rightarrow> u8 list \<Rightarrow> (png_filter \<times> u8 list) list" where
  "chunks 0 n data = []"
| "chunks (Suc rows) n data = (PngSub, take n data) # chunks rows n (drop n data)"

lemma sub_rows_png: "sub_rows rows n data = png_encode 1 prev (chunks rows n data)"
  by (induction rows arbitrary: data prev) (simp_all add: sub_row_png del: One_nat_def)

lemma chunks_rows: "length data = rows * n \<Longrightarrow> list_all (\<lambda>(f, row). length row = n) (chunks rows n data)"
  by (induction rows arbitrary: data) auto

lemma concat_chunks: "length data = rows * n \<Longrightarrow> concat (map snd (chunks rows n data)) = data"
  by (induction rows arbitrary: data) auto

lemma length_chunks [simp]: "length (chunks rows n data) = rows"
  by (induction rows arbitrary: data) auto

lemma length_sub_rows: "length data = rows * n \<Longrightarrow> length (sub_rows rows n data) = rows * Suc n"
  by (simp only: sub_rows_png [of rows n data "[]"] length_png_encode [OF chunks_rows] length_chunks)

definition flate_writable :: "FlateEncoder \<Rightarrow> u8 list \<Rightarrow> bool" where
  "flate_writable enc data \<longleftrightarrow> BitsPerComponent enc = 8 \<and>
    (Predictor enc = 1 \<or>
     Predictor enc = 11 \<and> Colors enc = 1 \<and> 0 < Columns enc \<and> Columns enc < 2 ^ 63 - 1 \<and> data \<noteq> [] \<and>
     int (length data) mod Columns enc = 0)"

text \<open>The bytes before compression, for a positive number of columns.\<close>

lemma Flate_EncodeBytes_sub:
  assumes "Predictor enc = 11" "0 < n" "Columns enc = int n" "length data = rows * n"
  shows "Flate_EncodeBytes C enc data = Ok (zlib_write C (sub_rows rows n data))"
proof -
  have "int (length data) mod int n = 0" "nat (int (length data) div int n) = rows"
    using assms(2,4) by simp_all
  with assms show ?thesis by (simp add: Flate_EncodeBytes_def Let_def)
qed

lemma Flate_roundtrip:
  assumes "zlib_ok C" "flate_writable enc data"
  shows "\<exists>e. Flate_EncodeBytes C enc data = Ok e \<and> Flate_DecodeStream C enc e = Ok data"
proof (cases "Predictor enc = 1")
  case True
  with assms show ?thesis
    by (simp add: flate_writable_def Flate_EncodeBytes_def Flate_DecodeStream_def Flate_DecodeBytes_def
        postDecodePredict_def zlib_ok_def)
next
  case False
  define n where "n = nat (Columns enc)"
  define rows where "rows = length data div n"
  from False assms(2) have p: "Predictor enc = 11" "Colors enc = 1" "Columns enc = int n" "0 < n" "int n < 2 ^ 63 - 1"
      "data \<noteq> []" "int (length data) mod int n = 0" "BitsPerComponent enc = 8"
    by (auto simp: flate_writable_def n_def)
  from p(7) have "length data mod n = 0" by (simp add: zmod_int [symmetric])
  then have len: "length data = rows * n" by (simp add: rows_def mod_0_imp_dvd)
  have "chunks rows n data \<noteq> []" using p(6) len by (cases rows) auto
  then have "png_predict (int n) (int 1) (png_encode 1 (replicate (n * 1) 0) (chunks rows n data)) = Ok data"
    using p(4,5) chunks_rows [OF len] concat_chunks [OF len]
    by (subst png_predict_encode) simp_all
  then have "postDecodePredict enc (sub_rows rows n data) = Ok data"
    using p by (simp add: postDecodePredict_def sub_rows_png [of rows n data "replicate (n * 1) 0"])
  with Flate_EncodeBytes_sub [OF p(1,4,3) len] assms(1) p(8) show ?thesis
    by (simp add: Flate_DecodeStream_def Flate_DecodeBytes_def zlib_ok_def)
qed

text \<open>The encoder leaves the colours out of its rows, the decoder does not.\<close>

lemma Flate_colors_mismatch:
  assumes "zlib_ok C" "BitsPerComponent enc = 8" "Predictor enc = 11" "0 < n" "1 < c" "int n * int c < 2 ^ 63 - 1"
    "Columns enc = int n" "Colors enc = int c" "length data = c * n"
  shows "rbind (Flate_EncodeBytes C enc data) (Flate_DecodeStream C enc) =
    Err (InvalidRowLength (int (c * Suc n)) (int (n * c + 1)))"
proof -
  have enc: "Flate_EncodeBytes C enc data = Ok (zlib_write C (sub_rows c n data))"
    using assms by (intro Flate_EncodeBytes_sub) auto
  have len: "length (sub_rows c n data) = c * Suc n" using assms(9) by (intro length_sub_rows) auto
  have "c * Suc n = (c - 1) + 1 * (n * c + 1)" using assms(5) by (simp add: algebra_simps)
  moreover have "c - 1 < n * c + 1" using assms(4) by (cases n) auto
  ultimately have "c * Suc n mod (n * c + 1) = c - 1" by (simp only: mod_mult_self1) simp
  then have "int (c * Suc n) mod int (n * c + 1) = int (c - 1)" by (simp only: zmod_int [symmetric])
  moreover have "int (c - 1) \<noteq> 0" using assms(5) by simp
  moreover have "go_int (int n * int c + 1) = int (n * c + 1)"
    using assms(6) by simp
  moreover have "int (n * c + 1) \<noteq> 0" by linarith
  ultimately have "png_predict (int n) (int c) (sub_rows c n data) = Err (InvalidRowLength (int (c * Suc n)) (int (n * c + 1)))"
    by (simp only: png_predict_def Let_def len if_False if_True not_False_eq_True)
  with enc assms show ?thesis
    by (simp add: Flate_DecodeStream_def Flate_DecodeBytes_def zlib_ok_def postDecodePredict_def)
qed

lemma LZW_roundtrip:
  assumes "lzw_ok C" "Predictor enc = 1" "EarlyChange enc = 0"
  shows "\<exists>e. LZW_EncodeBytes C enc data = Ok e \<and> LZW_DecodeStream C enc e = Ok data"
  using assms by (simp add: LZW_EncodeBytes_def LZW_DecodeStream_def LZW_DecodeBytes_def lzw_ok_def)

end
