(* ===== verification/Filter_Fax.thy ===== *)
theory Filter_Fax
  imports Ccitt_Inverse Filter_Flate
begin

text \<open>
  The CCITT fax filter of \<open>pdf/core/encoding.go\<close>, around the coder of \<open>pdf/internal/ccittfax\<close>. The
  fields of \<open>CCITTFaxEncoder\<close> are those of the coder's \<open>Encoder\<close>, so the record is the same.
\<close>

section \<open>Parameters\<close>

definition NewCCITTFaxEncoder :: Encoder where
  "NewCCITTFaxEncoder = \<lparr>K = 0, EndOfLine = False, EncodedByteAlign = False, Columns = 1728, Rows = 0,
    EndOfBlock = True, BlackIs1 = False, DamagedRowsBeforeError = 0\<rparr>"

definition set_if :: "bool \<Rightarrow> string \<Rightarrow> 'f PdfObject \<Rightarrow> 'f PdfObject pdf_dict \<Rightarrow> 'f PdfObject pdf_dict" where
  "set_if c key val d = (if c then dict_Set key val d else d)"

definition Fax_MakeDecodeParams :: "Encoder \<Rightarrow> 'f PdfObject pdf_dict" where
  "Fax_MakeDecodeParams enc =
    (let d = dict_Set ''K'' (MakeInteger (K enc)) MakeDict;
         d = dict_Set ''Columns'' (MakeInteger (Encoder.Columns enc)) d;
         d = set_if (BlackIs1 enc) ''BlackIs1'' (PdfObjectBool (BlackIs1 enc)) d;
         d = set_if (EncodedByteAlign enc) ''EncodedByteAlign'' (PdfObjectBool (EncodedByteAlign enc)) d;
         d = set_if (EndOfLine enc \<and> K enc \<ge> 0) ''EndOfLine'' (PdfObjectBool (EndOfLine enc)) d;
         d = set_if (Rows enc \<noteq> 0 \<and> \<not> EndOfBlock enc) ''Rows'' (MakeInteger (Rows enc)) d;
         d = set_if (\<not> EndOfBlock enc) ''EndOfBlock'' (PdfObjectBool (EndOfBlock enc)) d;
         d = set_if (DamagedRowsBeforeError enc \<noteq> 0) ''DamagedRowsBeforeError'' (MakeInteger (DamagedRowsBeforeError enc)) d
     in d)"

definition Fax_MakeStreamDict :: "Encoder \<Rightarrow> 'f PdfObject pdf_dict" where
  "Fax_MakeStreamDict enc =
    dict_Set ''DecodeParms'' (PdfObjectDictionary (Fax_MakeDecodeParams enc))
      (dict_Set ''Filter'' (PdfObjectName ''CCITTFaxDecode'') MakeDict)"

text \<open>A flag that is a number or a boolean.\<close>

definition flag_param :: "'f fops \<Rightarrow> 'f resolver \<Rightarrow> string \<Rightarrow> 'f PdfObject pdf_dict \<Rightarrow> bool option" where
  "flag_param F resolve key params =
    (case number_param F key params of
       Some v \<Rightarrow> Some (v > 0)
     | None \<Rightarrow> GetBoolVal resolve (dict_Get key params))"

text \<open>\<open>BlackIs1\<close> may also come from \<open>Decode\<close>; the elements of the array are read without a check.\<close>

definition black_param :: "'f fops \<Rightarrow> 'f resolver \<Rightarrow> 'f PdfObject pdf_dict \<Rightarrow> (filter_error, bool option) res" where
  "black_param F resolve params =
    (case flag_param F resolve ''BlackIs1'' params of
       Some b \<Rightarrow> Ok (Some b)
     | None \<Rightarrow>
        (case GetArray resolve (dict_Get ''Decode'' params) of
           None \<Rightarrow> Ok None
         | Some decodeArr \<Rightarrow>
            (case ToIntegerArray decodeArr of
               Inl _ \<Rightarrow> Ok None
             | Inr intArr \<Rightarrow>
                rbind (index_at intArr 0) (\<lambda>a.
                  if a = 1 then rbind (index_at intArr 1) (\<lambda>b. Ok (Some (b = 0))) else Ok (Some False)))))"

text \<open>
  \<open>DamagedRowsBeforeError\<close> is set only where the entry is not a number, to the 0 that comes
  with the error.
\<close>

definition damaged_param :: "'f fops \<Rightarrow> 'f PdfObject pdf_dict \<Rightarrow> Encoder \<Rightarrow> Encoder" where
  "damaged_param F params enc =
    (case number_param F ''DamagedRowsBeforeError'' params of
       None \<Rightarrow> enc\<lparr>DamagedRowsBeforeError := 0\<rparr>
     | Some _ \<Rightarrow> enc)"

definition Fax_UpdateParams ::
    "'f fops \<Rightarrow> 'f resolver \<Rightarrow> 'f PdfObject pdf_dict \<Rightarrow> Encoder \<Rightarrow> (filter_error, Encoder) res" where
  "Fax_UpdateParams F resolve params enc =
    (let enc = (case number_param F ''K'' params of Some v \<Rightarrow> enc\<lparr>K := v\<rparr> | None \<Rightarrow> enc);
         enc = (case number_param F ''Columns'' params of Some v \<Rightarrow> enc\<lparr>Encoder.Columns := v\<rparr> | None \<Rightarrow> enc)
     in rbind (black_param F resolve params) (\<lambda>black.
       let enc = (case black of Some b \<Rightarrow> enc\<lparr>BlackIs1 := b\<rparr> | None \<Rightarrow> enc);
           enc = (case flag_param F resolve ''EncodedByteAlign'' params of Some b \<Rightarrow> enc\<lparr>EncodedByteAlign := b\<rparr> | None \<Rightarrow> enc);
           enc = (case flag_param F resolve ''EndOfLine'' params of Some b \<Rightarrow> enc\<lparr>EndOfLine := b\<rparr> | None \<Rightarrow> enc);
           enc = (case number_param F ''Rows'' params of Some v \<Rightarrow> enc\<lparr>Rows := v\<rparr> | None \<Rightarrow> enc);
           enc = (case flag_param F resolve ''EndOfBlock'' params of Some b \<Rightarrow> enc\<lparr>EndOfBlock := b\<rparr> | None \<Rightarrow> enc)
       in Ok (damaged_param F params enc)))"

definition newCCITTFaxEncoderFromStream ::
    "'f fops \<Rightarrow> 'f resolver \<Rightarrow> 'f PdfObject pdf_dict \<Rightarrow> 'f PdfObject pdf_dict option \<Rightarrow> (filter_error, Encoder) res" where
  "newCCITTFaxEncoderFromStream F resolve encDict decodeParams =
    rbind
      (case decodeParams of
         Some p \<Rightarrow> Ok p
       | None \<Rightarrow>
          (case dict_Get ''DecodeParms'' encDict of
             Some (PdfObjectDictionary t) \<Rightarrow> Ok t
           | Some (PdfObjectArray t) \<Rightarrow>
               if length t = 1 then
                 (case GetDict resolve (array_Get t 0) of Some dp \<Rightarrow> Ok dp | None \<Rightarrow> Err InvalidDecodeParms)
               else Err InvalidDecodeParms
           | _ \<Rightarrow> Err InvalidDecodeParms))
      (\<lambda>params.
        let enc = NewCCITTFaxEncoder;
            enc = (case number_param F ''K'' params of Some v \<Rightarrow> enc\<lparr>K := v\<rparr> | None \<Rightarrow> enc);
            enc = (case number_param F ''Columns'' params of
                     Some v \<Rightarrow> enc\<lparr>Encoder.Columns := v\<rparr> | None \<Rightarrow> enc\<lparr>Encoder.Columns := 1728\<rparr>)
        in rbind (black_param F resolve params) (\<lambda>black.
          let enc = (case black of Some b \<Rightarrow> enc\<lparr>BlackIs1 := b\<rparr> | None \<Rightarrow> enc);
              enc = (case flag_param F resolve ''EncodedByteAlign'' params of Some b \<Rightarrow> enc\<lparr>EncodedByteAlign := b\<rparr> | None \<Rightarrow> enc);
              enc = (case flag_param F resolve ''EndOfLine'' params of Some b \<Rightarrow> enc\<lparr>EndOfLine := b\<rparr> | None \<Rightarrow> enc);
              enc = (case number_param F ''Rows'' params of Some v \<Rightarrow> enc\<lparr>Rows := v\<rparr> | None \<Rightarrow> enc);
              enc = enc\<lparr>EndOfBlock := True\<rparr>;
              enc = (case flag_param F resolve ''EndOfBlock'' params of Some b \<Rightarrow> enc\<lparr>EndOfBlock := b\<rparr> | None \<Rightarrow> enc)
          in Ok (damaged_param F params enc)))"

section \<open>Data\<close>

text \<open>
  The loop over the rows of the image; the list is \<open>data\<close> from \<open>i\<close> on. With no columns the loop
  does not come to an end.
\<close>

partial_function (option) fax_rows :: "int \<Rightarrow> u8 list \<Rightarrow> u8 list list crun" where
  "fax_rows columns data =
    (if data = [] then Some (Ok [])
     else if columns < 0 then Some Panic
     else if int (length data) < columns then Some Panic
     else run_bind (fax_rows columns (drop (nat columns) data)) (\<lambda>rows.
       Some (Ok (map (\<lambda>p. if p = 255 then 1 else 0) (take (nat columns) data) # rows))))"

definition Fax_EncodeBytes :: "Encoder \<Rightarrow> u8 list \<Rightarrow> u8 list crun" where
  "Fax_EncodeBytes enc data = run_bind (fax_rows (Encoder.Columns enc) data) (Encode enc)"

text \<open>The loop that packs the pixels. The state is \<open>decoded\<close>, \<open>currentByte\<close> and \<open>bitPos\<close>.\<close>

fun pack_step :: "u8 \<Rightarrow> u8 list \<times> u8 \<times> nat \<Rightarrow> u8 list \<times> u8 \<times> nat" where
  "pack_step p (decoded, currentByte, bitPos) =
    (let currentByte = currentByte OR push_bit (7 - bitPos) p;
         bitPos = bitPos + 1
     in if bitPos = 8 then (decoded @ [currentByte], 0, 0) else (decoded, currentByte, bitPos))"

definition pack_pixels :: "u8 list list \<Rightarrow> u8 list" where
  "pack_pixels pixels =
    (case fold (fold pack_step) pixels ([], 0, 0) of
       (decoded, currentByte, bitPos) \<Rightarrow> if bitPos > 0 then decoded @ [currentByte] else decoded)"

definition Fax_DecodeBytes :: "Encoder \<Rightarrow> u8 list \<Rightarrow> u8 list crun" where
  "Fax_DecodeBytes enc encoded = run_bind (Decode enc encoded) (\<lambda>pixels. Some (Ok (pack_pixels pixels)))"

section \<open>Parameters that are written are read back\<close>

lemma number_param_Set:
  "in_int64 v \<Longrightarrow> number_param F k (dict_Set k' (MakeInteger v) d) = (if k = k' then Some v else number_param F k d)"
  by (simp add: number_param_def dict_Get_Set MakeInteger_def GetNumberAsInt64_def)

lemma number_param_Set_bool:
  "number_param F k (dict_Set k' (PdfObjectBool b) d) = (if k = k' then None else number_param F k d)"
  by (simp add: number_param_def dict_Get_Set GetNumberAsInt64_def)

lemma number_param_MakeDict [simp]: "number_param F k MakeDict = None"
  by (simp add: number_param_def)

lemma GetBoolVal_Set:
  "GetBoolVal resolve (dict_Get k (dict_Set k' (PdfObjectBool b) d)) =
    (if k = k' then Some b else GetBoolVal resolve (dict_Get k d))"
  "GetBoolVal resolve (dict_Get k (dict_Set k' (MakeInteger v) d)) =
    (if k = k' then None else GetBoolVal resolve (dict_Get k d))"
  by (simp_all add: GetBoolVal_def dict_Get_Set MakeInteger_def)

lemmas fax_params = number_param_Set number_param_Set_bool GetBoolVal_Set dict_Get_Set

text \<open>What the dictionary cannot say: the fields that have to be the default ones.\<close>

definition fax_written :: "Encoder \<Rightarrow> bool" where
  "fax_written enc \<longleftrightarrow> in_int64 (K enc) \<and> in_int64 (Encoder.Columns enc) \<and> in_int64 (Rows enc) \<and>
    (EndOfLine enc \<longrightarrow> K enc \<ge> 0) \<and> (EndOfBlock enc \<longrightarrow> Rows enc = 0)"

lemma newFax_MakeStreamDict:
  assumes "fax_written enc" "in_int64 (DamagedRowsBeforeError enc)"
  shows "newCCITTFaxEncoderFromStream F resolve (Fax_MakeStreamDict enc) None =
    Ok (enc\<lparr>DamagedRowsBeforeError := 0\<rparr>)"
proof -
  define p :: "'a PdfObject pdf_dict" where "p = Fax_MakeDecodeParams enc"
  have num: "number_param F ''K'' p = Some (K enc)" "number_param F ''Columns'' p = Some (Encoder.Columns enc)"
      "number_param F ''Rows'' p = (if Rows enc \<noteq> 0 \<and> \<not> EndOfBlock enc then Some (Rows enc) else None)"
      "number_param F ''DamagedRowsBeforeError'' p =
        (if DamagedRowsBeforeError enc \<noteq> 0 then Some (DamagedRowsBeforeError enc) else None)"
    using assms by (simp_all add: p_def Fax_MakeDecodeParams_def Let_def set_if_def fax_params fax_written_def)
  have flag: "flag_param F resolve ''BlackIs1'' p = (if BlackIs1 enc then Some True else None)"
      "flag_param F resolve ''EncodedByteAlign'' p = (if EncodedByteAlign enc then Some True else None)"
      "flag_param F resolve ''EndOfLine'' p = (if EndOfLine enc \<and> K enc \<ge> 0 then Some True else None)"
      "flag_param F resolve ''EndOfBlock'' p = (if EndOfBlock enc then None else Some False)"
    using assms
    by (simp_all add: p_def Fax_MakeDecodeParams_def Let_def set_if_def fax_params fax_written_def flag_param_def GetBoolVal_def)
  have "dict_Get ''Decode'' p = None"
    by (simp add: p_def Fax_MakeDecodeParams_def Let_def set_if_def fax_params)
  then have "black_param F resolve p = Ok (if BlackIs1 enc then Some True else None)"
    by (simp add: black_param_def flag GetArray_def)
  moreover have "dict_Get ''DecodeParms'' (Fax_MakeStreamDict enc) = Some (PdfObjectDictionary p)"
    by (simp add: Fax_MakeStreamDict_def p_def dict_Get_Set)
  ultimately show ?thesis using assms(1)
    by (cases enc)
      (simp add: newCCITTFaxEncoderFromStream_def num flag damaged_param_def Let_def NewCCITTFaxEncoder_def fax_written_def)
qed

section \<open>Data that is encoded is decoded\<close>

text \<open>The rows of the image.\<close>

fun pixel_rows :: "nat \<Rightarrow> nat \<Rightarrow> u8 list \<Rightarrow> u8 list list" where
  "pixel_rows 0 n data = []"
| "pixel_rows (Suc rows) n data =
    map (\<lambda>p. if p = 255 then 1 else 0) (take n data) # pixel_rows rows n (drop n data)"

lemma fax_rows_eq:
  "0 < n \<Longrightarrow> length data = rows * n \<Longrightarrow> fax_rows (int n) data = Some (Ok (pixel_rows rows n data))"
proof (induction rows arbitrary: data)
  case 0
  then show ?case by (subst fax_rows.simps) simp
next
  case (Suc rows)
  then have "data \<noteq> []" "length (drop n data) = rows * n" "n \<le> length data" by auto
  with Suc.IH [of "drop n data"] Suc.prems(1) show ?case
    by (subst fax_rows.simps) (simp del: drop_eq_Nil length_drop)
qed

lemma fax_rows_diverges:
  assumes "data \<noteq> []"
  shows "fax_rows 0 data = None"
proof -
  have "\<not> (c = 0 \<and> data \<noteq> [])" if "fax_rows c data = Some r" for c data r
    using that
  proof (induction rule: fax_rows.raw_induct [rotated, consumes 1])
    case (1 f c data r)
    show ?case
    proof
      assume c: "c = 0 \<and> data \<noteq> []"
      with 1(2) have "run_bind (f 0 data) (\<lambda>rows. Some (Ok (map (\<lambda>p. if p = 255 then 1 else 0) [] # rows))) = Some r"
        by simp
      moreover have "f 0 data = None"
        using 1(1) c by (cases "f 0 data") blast+
      ultimately show False by simp
    qed
  qed
  with assms show ?thesis by (cases "fax_rows 0 data") auto
qed

lemma pixel_rows_ok:
  "length data = rows * n \<Longrightarrow>
    list_all (\<lambda>row. length row = n \<and> list_all (\<lambda>p. p = 0 \<or> p = 1) row) (pixel_rows rows n data)"
proof (induction rows arbitrary: data)
  case (Suc rows)
  then have "length (drop n data) = rows * n" "length (take n data) = n" by simp_all
  moreover have "list_all (\<lambda>p. p = 0 \<or> p = 1) (map (\<lambda>p. if p = 255 then 1 else 0) xs)" for xs :: "u8 list"
    by (induction xs) simp_all
  ultimately show ?case using Suc.IH [of "drop n data"] by simp
qed simp

lemma length_pixel_rows [simp]: "length (pixel_rows rows n data) = rows"
  by (induction rows arbitrary: data) simp_all

lemma take_pixel_rows: "m \<le> rows \<Longrightarrow> take m (pixel_rows rows n data) = pixel_rows m n data"
proof (induction m arbitrary: rows data)
  case (Suc m)
  then show ?case by (cases rows) simp_all
qed simp

lemma concat_pixel_rows:
  "rows * n \<le> length data \<Longrightarrow>
    concat (pixel_rows rows n data) = map (\<lambda>p. if p = 255 then 1 else 0) (take (rows * n) data)"
proof (induction rows arbitrary: data)
  case (Suc rows)
  then have "concat (pixel_rows rows n (drop n data)) = map (\<lambda>p. if p = 255 then 1 else 0) (take (rows * n) (drop n data))"
    by (intro Suc.IH) simp
  then show ?case by (simp add: take_add)
qed simp

subsection \<open>Packing\<close>

lemma pack_single: "ys \<noteq> [] \<Longrightarrow> length ys \<le> 8 \<Longrightarrow> pack ys = [byte_of ys]"
proof -
  assume ys: "ys \<noteq> []" "length ys \<le> 8"
  then have "0 < length ys" by simp
  with ys(2) have "(length ys + 7) div 8 = 1" by (intro div_nat_eqI) (simp_all add: Suc_le_eq)
  then show ?thesis by (simp add: pack_def)
qed

lemma byte_of_Nil [simp]: "byte_of [] = 0"
  by (rule bit_word_eqI) (simp add: bit_byte_of)

lemma byte_of_snoc:
  assumes "length ys < 8"
  shows "byte_of ys OR push_bit (7 - length ys) (of_bool b) = byte_of (ys @ [b])"
proof (rule bit_word_eqI)
  fix n assume "n < LENGTH(8)"
  then show "bit (byte_of ys OR push_bit (7 - length ys) (of_bool b)) n = bit (byte_of (ys @ [b])) n"
    using assms by (auto simp: bit_simps bit_byte_of nth_append)
qed

definition pack_inv :: "bool list \<Rightarrow> u8 list \<times> u8 \<times> nat \<Rightarrow> bool" where
  "pack_inv bs st \<longleftrightarrow> (\<exists>xs ys. bs = xs @ ys \<and> length xs mod 8 = 0 \<and> length ys < 8 \<and>
    st = (pack xs, byte_of ys, length ys))"

lemma pack_inv_step:
  assumes "pack_inv bs st"
  shows "pack_inv (bs @ [b]) (pack_step (of_bool b) st)"
proof -
  from assms obtain xs ys where xs: "bs = xs @ ys" "length xs mod 8 = 0" "length ys < 8"
      "st = (pack xs, byte_of ys, length ys)" by (auto simp: pack_inv_def)
  show ?thesis
  proof (cases "length ys = 7")
    case True
    then have "pack (xs @ ys @ [b]) = pack xs @ [byte_of (ys @ [b])]"
      using xs(2) by (simp add: pack_append_aligned pack_single)
    moreover have "length (xs @ ys @ [b]) mod 8 = 0"
    proof -
      have "length (xs @ ys @ [b]) = length xs + 8" using True by simp
      then show ?thesis using xs(2) by (simp only: mod_add_self2)
    qed
    moreover have "pack_step (of_bool b) st = (pack xs @ [byte_of (ys @ [b])], 0, 0)"
      using xs(4) True byte_of_snoc [OF xs(3), of b] by simp
    ultimately show ?thesis unfolding pack_inv_def
      by (intro exI [of _ "xs @ ys @ [b]"] exI [of _ "[]"] conjI) (simp_all add: xs(1))
  next
    case False
    then have "pack_step (of_bool b) st = (pack xs, byte_of (ys @ [b]), length (ys @ [b]))"
      using xs(3,4) byte_of_snoc [OF xs(3), of b] by simp
    with False xs show ?thesis unfolding pack_inv_def
      by (intro exI [of _ xs] exI [of _ "ys @ [b]"] conjI) simp_all
  qed
qed

lemma pack_inv_fold: "pack_inv bs st \<Longrightarrow> pack_inv (bs @ cs) (fold pack_step (map of_bool cs) st)"
proof (induction cs arbitrary: bs st)
  case (Cons c cs)
  from Cons.IH [OF pack_inv_step [OF Cons.prems, of c]] show ?case by simp
qed simp

lemma fold_fold: "fold (fold f) xss s = fold f (concat xss) s"
  by (induction xss arbitrary: s) simp_all

lemma pack_pixels_eq:
  assumes "concat px = map of_bool bs"
  shows "pack_pixels px = pack bs"
proof -
  have "pack_inv [] ([], 0, 0)" by (simp add: pack_inv_def)
  from pack_inv_fold [OF this, of bs] obtain xs ys where
    st: "bs = xs @ ys" "length xs mod 8 = 0" "length ys < 8"
      "fold pack_step (map of_bool bs) ([], 0, 0) = (pack xs, byte_of ys, length ys)"
    by (auto simp: pack_inv_def)
  have "pack (xs @ ys) = pack xs @ pack ys" using st(2) by (rule pack_append_aligned)
  with st pack_single [of ys] show ?thesis
    by (cases "ys = []") (simp_all add: pack_pixels_def fold_fold assms)
qed

subsection \<open>The round trip\<close>

text \<open>
  The conditions of the coder, for an image of \<open>rows\<close> rows with one byte per pixel.
\<close>

definition fax_image :: "Encoder \<Rightarrow> u8 list \<Rightarrow> nat \<Rightarrow> bool" where
  "fax_image enc data rows \<longleftrightarrow> 0 < Encoder.Columns enc \<and> int (length data) = int rows * Encoder.Columns enc \<and>
    (EndOfBlock enc \<or> EncodedByteAlign enc \<or> 0 < Rows enc \<and> Rows enc \<le> int rows) \<and>
    (K enc < 0 \<longrightarrow> 0 < rows) \<and> (K enc > 0 \<longrightarrow> EndOfBlock enc \<or> Rows enc \<le> 0 \<or> int rows \<le> Rows enc) \<and>
    (EndOfBlock enc \<or> Rows enc \<le> 0 \<or> int rows \<le> Rows enc)"

lemma Fax_roundtrip:
  assumes "fax_image enc data rows"
  shows "run_bind (Fax_EncodeBytes enc data) (Fax_DecodeBytes enc) = Some (Ok (pack (map (\<lambda>p. p = 255) data)))"
proof -
  define n where "n = nat (Encoder.Columns enc)"
  define px where "px = pixel_rows rows n data"
  from assms have n: "Encoder.Columns enc = int n" "0 < n" by (auto simp: fax_image_def n_def)
  with assms have len: "length data = rows * n" by (simp add: fax_image_def flip: of_nat_mult)
  have "valid_image enc px"
    using pixel_rows_ok [OF len] n by (simp add: valid_image_def px_def list_all_iff)
  moreover have "end_known enc px" using assms by (simp add: end_known_def fax_image_def px_def)
  moreover have "K enc < 0 \<Longrightarrow> px \<noteq> []"
    "K enc > 0 \<Longrightarrow> EndOfBlock enc \<or> Rows enc \<le> 0 \<or> int (length px) \<le> Rows enc"
    using assms by (auto simp: fax_image_def px_def dest: arg_cong [where f = length])
  ultimately obtain e Xs where e: "Encode enc px = Some (Ok e)" "written enc px Xs e" "valid_image enc px" "end_known enc px"
    by (metis Encode_written)
  have all: "encoded_rows enc px = rows" using assms by (auto simp: encoded_rows_def fax_image_def px_def)
  have "Decode enc e = Some (Ok px)" using Decode_written [OF e(2,3,4)] all by (simp add: px_def)
  moreover have "concat px = map of_bool (map (\<lambda>p. p = 255) data)"
    using concat_pixel_rows [of rows n data] len by (simp add: px_def)
  moreover have "fax_rows (int n) data = Some (Ok px)" using fax_rows_eq [OF n(2) len] by (simp add: px_def)
  ultimately show ?thesis using e(1) n(1)
    by (simp add: Fax_EncodeBytes_def Fax_DecodeBytes_def pack_pixels_eq)
qed

end
