(* ===== verification/Filter_Dct.thy ===== *)
theory Filter_Dct
  imports Filter_Flate
begin

text \<open>
  The DCT filter of \<open>pdf/core/encoding.go\<close>: how the bytes of an image become the pixels that
  \<open>image/jpeg\<close> writes, and the pixels that it reads become bytes. The JPEG coder and the colour
  conversion of \<open>image/color\<close> are the fields of \<open>jpeg_codec\<close>, a parameter.
\<close>

section \<open>Images\<close>

datatype color =
    Gray u8
  | Gray16 u16
  | RGBA u8 u8 u8 u8
  | RGBA64 u16 u16 u16 u16
  | CMYK u8 u8 u8 u8
  | YCbCr u8 u8 u8

datatype color_model = RGBAModel | RGBA64Model | GrayModel | Gray16Model | CMYKModel | YCbCrModel | OtherModel

text \<open>An image is its bounds and the colour at each point of them.\<close>

record image =
  MinX :: int
  MinY :: int
  MaxX :: int
  MaxY :: int
  At :: "int \<Rightarrow> int \<Rightarrow> color"

record jpeg_codec =
  jpeg_DecodeConfig :: "u8 list \<Rightarrow> (color_model \<times> int \<times> int) option"
  jpeg_Decode :: "u8 list \<Rightarrow> image option"
  jpeg_Encode :: "int \<Rightarrow> image \<Rightarrow> u8 list option"
  YCbCr_RGBA :: "u8 \<Rightarrow> u8 \<Rightarrow> u8 \<Rightarrow> u32 \<times> u32 \<times> u32"

record DCTEncoder =
  ColorComponents :: int
  DCTBitsPerComponent :: int
  Width :: int
  Height :: int
  Quality :: int

definition NewDCTEncoder :: DCTEncoder where
  "NewDCTEncoder = \<lparr>ColorComponents = 3, DCTBitsPerComponent = 8, Width = 0, Height = 0, Quality = 75\<rparr>"

definition DCT_MakeStreamDict :: "'f PdfObject pdf_dict" where
  "DCT_MakeStreamDict = dict_Set ''Filter'' (PdfObjectName ''DCTDecode'') MakeDict"

definition DCT_UpdateParams :: "'f fops \<Rightarrow> 'f PdfObject pdf_dict \<Rightarrow> DCTEncoder \<Rightarrow> DCTEncoder" where
  "DCT_UpdateParams F params enc =
    (let enc = (case number_param F ''ColorComponents'' params of Some v \<Rightarrow> enc\<lparr>ColorComponents := v\<rparr> | None \<Rightarrow> enc);
         enc = (case number_param F ''BitsPerComponent'' params of Some v \<Rightarrow> enc\<lparr>DCTBitsPerComponent := v\<rparr> | None \<Rightarrow> enc);
         enc = (case number_param F ''Width'' params of Some v \<Rightarrow> enc\<lparr>Width := v\<rparr> | None \<Rightarrow> enc);
         enc = (case number_param F ''Height'' params of Some v \<Rightarrow> enc\<lparr>Height := v\<rparr> | None \<Rightarrow> enc);
         enc = (case number_param F ''Quality'' params of Some v \<Rightarrow> enc\<lparr>Quality := v\<rparr> | None \<Rightarrow> enc)
     in enc)"

text \<open>The parameters that an encoded image gives, \<open>encoded\<close> after the other filters.\<close>

definition DCT_from_config :: "jpeg_codec \<Rightarrow> u8 list \<Rightarrow> (filter_error, DCTEncoder) res" where
  "DCT_from_config J encoded =
    (case jpeg_DecodeConfig J encoded of
       None \<Rightarrow> Err CodecError
     | Some (model, w, h) \<Rightarrow>
        (let done = (\<lambda>bits components. Ok \<lparr>ColorComponents = components, DCTBitsPerComponent = bits,
                       Width = w, Height = h, Quality = 75\<rparr>)
         in case model of
              RGBAModel \<Rightarrow> done 8 3
            | RGBA64Model \<Rightarrow> done 16 3
            | GrayModel \<Rightarrow> done 8 1
            | Gray16Model \<Rightarrow> done 16 1
            | CMYKModel \<Rightarrow> done 8 4
            | YCbCrModel \<Rightarrow> done 8 3
            | OtherModel \<Rightarrow> Err CodecError))"

section \<open>Pixels to bytes\<close>

definition bytes16 :: "u16 \<Rightarrow> u8 list" where
  "bytes16 v = [ucast (drop_bit 8 v AND 0xff), ucast (v AND 0xff)]"

text \<open>The bytes of one pixel; an image of another kind is an error.\<close>

definition DCT_pixel :: "jpeg_codec \<Rightarrow> DCTEncoder \<Rightarrow> color \<Rightarrow> (filter_error, u8 list) res" where
  "DCT_pixel J enc color =
    (if ColorComponents enc = 1 then
       if DCTBitsPerComponent enc = 16 then
         (case color of Gray16 y \<Rightarrow> Ok (bytes16 y) | _ \<Rightarrow> Err CodecError)
       else
         (case color of Gray y \<Rightarrow> Ok [y AND 0xff] | _ \<Rightarrow> Err CodecError)
     else if ColorComponents enc = 3 then
       if DCTBitsPerComponent enc = 16 then
         (case color of RGBA64 r g b a \<Rightarrow> Ok (bytes16 r @ bytes16 g @ bytes16 b) | _ \<Rightarrow> Err CodecError)
       else
         (case color of
            RGBA r g b a \<Rightarrow> Ok [r AND 0xff, g AND 0xff, b AND 0xff]
          | YCbCr y cb cr \<Rightarrow>
              (case YCbCr_RGBA J y cb cr of
                 (r, g, b) \<Rightarrow> Ok [ucast (drop_bit 8 r), ucast (drop_bit 8 g), ucast (drop_bit 8 b)])
          | _ \<Rightarrow> Err CodecError)
     else if ColorComponents enc = 4 then
       (case color of
          CMYK c m y k \<Rightarrow> Ok [255 - (c AND 0xff), 255 - (m AND 0xff), 255 - (y AND 0xff), 255 - (k AND 0xff)]
        | _ \<Rightarrow> Err CodecError)
     else Ok [])"

text \<open>
  The loop over the points. A byte beyond the slice of \<open>len\<close> bytes panics; the bytes of it
  that are not written stay 0.
\<close>

fun DCT_loop :: "jpeg_codec \<Rightarrow> DCTEncoder \<Rightarrow> nat \<Rightarrow> u8 list \<Rightarrow> color list \<Rightarrow> (filter_error, u8 list) res" where
  "DCT_loop J enc len decoded [] = Ok (decoded @ replicate (len - length decoded) 0)"
| "DCT_loop J enc len decoded (color # colors) =
    rbind (DCT_pixel J enc color) (\<lambda>bs.
      if length decoded + length bs > len then Panic
      else DCT_loop J enc len (decoded @ bs) colors)"

definition points :: "image \<Rightarrow> color list" where
  "points img = concat (map (\<lambda>j. map (\<lambda>i. At img i j) [MinX img..MaxX img - 1]) [MinY img..MaxY img - 1])"

definition DCT_bytes :: "jpeg_codec \<Rightarrow> DCTEncoder \<Rightarrow> image \<Rightarrow> (filter_error, u8 list) res" where
  "DCT_bytes J enc img =
    (let total = go_int ((MaxX img - MinX img) * (MaxY img - MinY img) * ColorComponents enc * DCTBitsPerComponent enc) sdiv 8
     in if total < 0 then Panic else DCT_loop J enc (nat total) [] (points img))"

definition DCT_DecodeBytes :: "jpeg_codec \<Rightarrow> DCTEncoder \<Rightarrow> u8 list \<Rightarrow> (filter_error, u8 list) res" where
  "DCT_DecodeBytes J enc encoded =
    (case jpeg_Decode J encoded of None \<Rightarrow> Err CodecError | Some img \<Rightarrow> DCT_bytes J enc img)"

section \<open>Bytes to pixels\<close>

text \<open>\<open>image.Rect\<close> orders its corners. A new image is black and transparent.\<close>

definition new_image :: "int \<Rightarrow> int \<Rightarrow> color \<Rightarrow> image" where
  "new_image w h c = \<lparr>MinX = min 0 w, MinY = min 0 h, MaxX = max 0 w, MaxY = max 0 h, At = (\<lambda>x y. c)\<rparr>"

text \<open>\<open>Set\<close> does nothing outside the bounds.\<close>

definition image_Set :: "int \<Rightarrow> int \<Rightarrow> color \<Rightarrow> image \<Rightarrow> image" where
  "image_Set x y c img =
    (if MinX img \<le> x \<and> x < MaxX img \<and> MinY img \<le> y \<and> y < MaxY img
     then img\<lparr>At := (At img)(x := (At img x)(y := c))\<rparr> else img)"

definition DCT_blank :: "DCTEncoder \<Rightarrow> (filter_error, image) res" where
  "DCT_blank enc =
    (let new = (\<lambda>c. Ok (new_image (Width enc) (Height enc) c))
     in if ColorComponents enc = 1 then
          if DCTBitsPerComponent enc = 16 then new (Gray16 0) else new (Gray 0)
        else if ColorComponents enc = 3 then
          if DCTBitsPerComponent enc = 16 then new (RGBA64 0 0 0 0) else new (RGBA 0 0 0 0)
        else if ColorComponents enc = 4 then new (CMYK 0 0 0 0)
        else Err CodecError)"

definition word16 :: "u8 \<Rightarrow> u8 \<Rightarrow> u16" where
  "word16 hi lo = push_bit 8 (ucast hi) OR ucast lo"

text \<open>The colour at the start of \<open>data\<close>; indices beyond the data panic.\<close>

definition DCT_color :: "DCTEncoder \<Rightarrow> u8 list \<Rightarrow> (filter_error, color) res" where
  "DCT_color enc data =
    (let byte = (\<lambda>k f. rbind (index_at data k) (\<lambda>b. f (b AND 0xff)));
         pair = (\<lambda>k f. rbind (index_at data k) (\<lambda>hi. rbind (index_at data (k + 1)) (\<lambda>lo. f (word16 hi lo))))
     in if ColorComponents enc = 1 then
          if DCTBitsPerComponent enc = 16 then pair 0 (\<lambda>v. Ok (Gray16 v)) else byte 0 (\<lambda>v. Ok (Gray v))
        else if ColorComponents enc = 3 then
          if DCTBitsPerComponent enc = 16 then
            pair 0 (\<lambda>r. pair 2 (\<lambda>g. pair 4 (\<lambda>b. Ok (RGBA64 r g b 0))))
          else byte 0 (\<lambda>r. byte 1 (\<lambda>g. byte 2 (\<lambda>b. Ok (RGBA r g b 0))))
        else byte 0 (\<lambda>c. byte 1 (\<lambda>m. byte 2 (\<lambda>y. byte 3 (\<lambda>k. Ok (CMYK c m y k))))))"

text \<open>The loop over the data from \<open>i\<close> on; \<open>bytesPerColor\<close> is at least 1.\<close>

function DCT_draw :: "DCTEncoder \<Rightarrow> nat \<Rightarrow> int \<Rightarrow> int \<Rightarrow> image \<Rightarrow> u8 list \<Rightarrow> (filter_error, image) res" where
  "DCT_draw enc bytesPerColor x y img data =
    (if bytesPerColor = 0 \<or> length data < bytesPerColor then Ok img
     else
       rbind (DCT_color enc data) (\<lambda>c.
         let img = image_Set x y c img;
             x = x + 1;
             (x, y) = (if x = Width enc then (0, y + 1) else (x, y))
         in DCT_draw enc bytesPerColor x y img (drop bytesPerColor data)))"
  by pat_completeness auto

termination
  by (relation "measure (\<lambda>(enc, n, x, y, img, data). length data)") auto

declare DCT_draw.simps [simp del]

text \<open>
  The image of the data. The field of less than 8 bits is raised to 8, which nothing else sees: the next
  call would do the same.
\<close>

definition DCT_image :: "DCTEncoder \<Rightarrow> u8 list \<Rightarrow> (filter_error, image) res" where
  "DCT_image enc data =
    rbind (DCT_blank enc) (\<lambda>img.
      let enc = (if DCTBitsPerComponent enc < 8 then enc\<lparr>DCTBitsPerComponent := 8\<rparr> else enc);
          bytesPerColor = go_int (ColorComponents enc * DCTBitsPerComponent enc) sdiv 8;
          bytesPerColor = (if bytesPerColor < 1 then 1 else bytesPerColor)
      in DCT_draw enc (nat bytesPerColor) 0 0 img data)"

definition DCT_EncodeBytes :: "jpeg_codec \<Rightarrow> DCTEncoder \<Rightarrow> u8 list \<Rightarrow> (filter_error, u8 list) res" where
  "DCT_EncodeBytes J enc data =
    rbind (DCT_image enc data) (\<lambda>img.
      case jpeg_Encode J (Quality enc) img of None \<Rightarrow> Err CodecError | Some out \<Rightarrow> Ok out)"

section \<open>The bytes of the image of some bytes\<close>

text \<open>The formats in which a pixel keeps its bytes.\<close>

definition pixel_format :: "DCTEncoder \<Rightarrow> nat \<Rightarrow> bool" where
  "pixel_format enc n \<longleftrightarrow>
    ColorComponents enc = 1 \<and> DCTBitsPerComponent enc = 8 \<and> n = 1 \<or>
    ColorComponents enc = 1 \<and> DCTBitsPerComponent enc = 16 \<and> n = 2 \<or>
    ColorComponents enc = 3 \<and> DCTBitsPerComponent enc = 8 \<and> n = 3 \<or>
    ColorComponents enc = 3 \<and> DCTBitsPerComponent enc = 16 \<and> n = 6"

lemma bytes16_word16 [simp]: "bytes16 (word16 hi lo) = [hi, lo]"
proof -
  have "255 = (mask 8 :: u16)" by (simp add: mask_eq_exp_minus_1)
  then have and8: "ucast (x AND 255) = (ucast x :: u8)" for x :: u16
    by (intro bit_word_eqI) (simp only: bit_simps, auto)
  have "ucast (drop_bit 8 (word16 hi lo)) = hi" "ucast (word16 hi lo) = lo"
    by (rule bit_word_eqI; auto simp: word16_def bit_simps dest: bit_imp_le_length)+
  then show ?thesis by (simp add: bytes16_def and8)
qed

lemma and_255 [simp]: "(b AND 255 :: u8) = b"
proof -
  have "255 = (mask 8 :: u8)" by (simp add: mask_eq_exp_minus_1)
  then show ?thesis by (intro bit_word_eqI) (simp only: bit_simps, auto)
qed

lemma DCT_pixel_color:
  assumes "pixel_format enc n" "n \<le> length data"
  shows "\<exists>c. DCT_color enc data = Ok c \<and> DCT_pixel J enc c = Ok (take n data)"
proof -
  have "\<exists>a b c d e f rest. data = [a] @ rest \<and> (n = 1 \<or> (\<exists>rest'. rest = b # rest' \<and> (n = 2 \<or>
      (\<exists>rest''. rest' = c # rest'' \<and> (n = 3 \<or> (\<exists>rest3. rest'' = d # e # f # rest3 \<and> n = 6))))))"
    using assms by (auto simp: pixel_format_def numeral_eq_Suc Suc_le_length_iff)
  then show ?thesis using assms(1)
    by (auto simp: pixel_format_def DCT_color_def DCT_pixel_def index_at_def Let_def)
qed

text \<open>The place of a pixel: \<open>x\<close> and \<open>y\<close> after \<open>k\<close> pixels are the remainder and the quotient by the width.\<close>

lemma image_Set_bounds [simp]:
  "MinX (image_Set x y c img) = MinX img" "MaxX (image_Set x y c img) = MaxX img"
  "MinY (image_Set x y c img) = MinY img" "MaxY (image_Set x y c img) = MaxY img"
  by (simp_all add: image_Set_def)

definition holds_pixels :: "jpeg_codec \<Rightarrow> DCTEncoder \<Rightarrow> nat \<Rightarrow> nat \<Rightarrow> image \<Rightarrow> u8 list \<Rightarrow> nat \<Rightarrow> bool" where
  "holds_pixels J enc n w img done k \<longleftrightarrow>
    (\<forall>i<k. DCT_pixel J enc (At img (int (i mod w)) (int (i div w))) = Ok (take n (drop (n * i) done)))"

lemma DCT_draw_holds:
  assumes "pixel_format enc n" "0 < w" "Width enc = int w"
    and "MinX img = 0" "MaxX img = int w" "MinY img = 0" "MaxY img = int h"
    and "holds_pixels J enc n w img all k" "length all = n * (w * h)" "k \<le> w * h"
  shows "\<exists>img'. DCT_draw enc n (int (k mod w)) (int (k div w)) img (drop (n * k) all) = Ok img' \<and>
    MinX img' = 0 \<and> MaxX img' = int w \<and> MinY img' = 0 \<and> MaxY img' = int h \<and> holds_pixels J enc n w img' all (w * h)"
  using assms(4-8,10)
proof (induction "w * h - k" arbitrary: k img)
  case 0
  then have k: "k = w * h" by simp
  have "0 < n" using assms(1) by (auto simp: pixel_format_def)
  with 0 k assms(9) show ?case by (subst DCT_draw.simps) simp
next
  case (Suc m)
  have n: "0 < n" using assms(1) by (auto simp: pixel_format_def)
  from Suc have kl: "k < w * h" by simp
  then have div: "k div w < h" by (simp add: less_mult_imp_div_less mult.commute)
  have "n * Suc k \<le> n * (w * h)" using kl by (intro mult_le_mono2) simp
  then have len: "n \<le> length (drop (n * k) all)" using assms(9) by simp
  from DCT_pixel_color [OF assms(1) len, of J] obtain c where
    c: "DCT_color enc (drop (n * k) all) = Ok c" "DCT_pixel J enc c = Ok (take n (drop (n * k) all))" by blast
  define img1 where "img1 = image_Set (int (k mod w)) (int (k div w)) c img"
  have in_img: "k mod w < w" using assms(2) by simp
  have at: "At img1 = (At img)(int (k mod w) := (At img (int (k mod w)))(int (k div w) := c))"
    using Suc.prems in_img div by (simp add: img1_def image_Set_def)
  have "holds_pixels J enc n w img1 all (Suc k)"
    unfolding holds_pixels_def
  proof (intro allI impI)
    fix i assume i: "i < Suc k"
    show "DCT_pixel J enc (At img1 (int (i mod w)) (int (i div w))) = Ok (take n (drop (n * i) all))"
    proof (cases "i = k")
      case True
      with c show ?thesis by (simp add: at)
    next
      case False
      then have "\<not> (i mod w = k mod w \<and> i div w = k div w)" by (metis div_mod_decomp)
      then have "At img1 (int (i mod w)) (int (i div w)) = At img (int (i mod w)) (int (i div w))"
        by (auto simp: at)
      moreover have "i < k" using False i by simp
      ultimately show ?thesis using Suc.prems(5) by (simp add: holds_pixels_def)
    qed
  qed
  moreover have "MinX img1 = 0" "MaxX img1 = int w" "MinY img1 = 0" "MaxY img1 = int h"
    using Suc.prems by (simp_all add: img1_def)
  moreover have "m = w * h - Suc k" "Suc k \<le> w * h" using Suc.hyps(2) kl by simp_all
  ultimately obtain img' where img': "DCT_draw enc n (int (Suc k mod w)) (int (Suc k div w)) img1 (drop (n * Suc k) all) = Ok img'"
      "MinX img' = 0 \<and> MaxX img' = int w \<and> MinY img' = 0 \<and> MaxY img' = int h \<and> holds_pixels J enc n w img' all (w * h)"
    using Suc.hyps(1) [of "Suc k" img1] by blast
  have step: "(if int (k mod w) + 1 = Width enc then (0, int (k div w) + 1) else (int (k mod w) + 1, int (k div w))) =
      (int (Suc k mod w), int (Suc k div w))"
    using assms(2,3) in_img by (auto simp: mod_Suc div_Suc)
  have "DCT_draw enc n (int (k mod w)) (int (k div w)) img (drop (n * k) all) =
      DCT_draw enc n (int (Suc k mod w)) (int (Suc k div w)) img1 (drop (n * Suc k) all)"
    using n len c(1) step by (subst DCT_draw.simps) (simp add: Let_def img1_def add.commute split: prod.splits if_splits)
  with img' show ?case by simp
qed

lemma DCT_loop_pixels:
  assumes "\<forall>i<length cs. DCT_pixel J enc (cs ! i) = Ok (take n (drop (n * i) all))" "length all = n * length cs"
  shows "DCT_loop J enc (length acc + length all) acc cs = Ok (acc @ all)"
  using assms
proof (induction cs arbitrary: acc all)
  case (Cons c cs)
  from Cons.prems(1) have c: "DCT_pixel J enc c = Ok (take n all)" by auto
  have n: "n \<le> length all" using Cons.prems(2) by simp
  have "\<forall>i<length cs. DCT_pixel J enc (cs ! i) = Ok (take n (drop (n * i) (drop n all)))"
  proof (intro allI impI)
    fix i assume "i < length cs"
    with Cons.prems(1) [rule_format, of "Suc i"] show "DCT_pixel J enc (cs ! i) = Ok (take n (drop (n * i) (drop n all)))"
      by (simp add: add.commute)
  qed
  moreover have "length (drop n all) = n * length cs" using Cons.prems(2) by simp
  ultimately have "DCT_loop J enc (length (acc @ take n all) + length (drop n all)) (acc @ take n all) cs =
      Ok ((acc @ take n all) @ drop n all)" by (rule Cons.IH)
  with c n show ?case by simp
qed simp

lemma points_nth:
  assumes "MinX img = 0" "MaxX img = int w" "MinY img = 0" "MaxY img = int h" "0 < w"
  shows "points img = map (\<lambda>i. At img (int (i mod w)) (int (i div w))) [0..<w * h]"
proof -
  have upto: "[0..int m - 1] = map int [0..<m]" for m by (rule nth_equalityI) auto
  have row: "map (\<lambda>i. At img (int i) (int j)) [0..<w] = map (\<lambda>i. At img (int (i mod w)) (int (i div w))) [w * j..<w * j + w]" for j
    using assms(5) by (intro nth_equalityI) auto
  have "concat (map (\<lambda>j. map (\<lambda>i. At img (int i) (int j)) [0..<w]) [0..<h]) =
      map (\<lambda>i. At img (int (i mod w)) (int (i div w))) [0..<w * h]"
  proof (induction h)
    case (Suc h)
    have "[0..<w * Suc h] = [0..<w * h] @ [w * h..<w * h + w]"
      using upt_add_eq_append [of 0 "w * h" w] by (simp add: add.commute)
    with Suc row [of h] show ?case by simp
  qed simp
  then show ?thesis using assms(1-4) by (simp add: points_def upto comp_def)
qed

lemma sdiv_8: "0 \<le> x \<Longrightarrow> x sdiv 8 = x div 8" for x :: int
  by (cases "x = 0") (auto simp: signed_divide_int_def sgn_if)

text \<open>The bytes of the image that is made of some bytes are those bytes.\<close>

lemma DCT_bytes_image:
  assumes "pixel_format enc n" "0 < w" "0 < h" "Width enc = int w" "Height enc = int h"
    "length data = n * (w * h)" "8 * int (length data) < 2 ^ 63"
  shows "rbind (DCT_image enc data) (DCT_bytes J enc) = Ok data"
proof -
  define z where "z = (if ColorComponents enc = 1 then if DCTBitsPerComponent enc = 16 then Gray16 0 else Gray 0
    else if DCTBitsPerComponent enc = 16 then RGBA64 0 0 0 0 else RGBA 0 0 0 0)"
  have blank: "DCT_blank enc = Ok (new_image (int w) (int h) z)"
    using assms by (auto simp: DCT_blank_def pixel_format_def z_def)
  have bpc: "\<not> DCTBitsPerComponent enc < 8" "go_int (ColorComponents enc * DCTBitsPerComponent enc) sdiv 8 = int n"
    "ColorComponents enc * DCTBitsPerComponent enc = 8 * int n" "\<not> int n < 1"
    using assms(1) by (auto simp: pixel_format_def signed_divide_int_def)
  have "holds_pixels J enc n w (new_image (int w) (int h) z) data 0" by (simp add: holds_pixels_def)
  with DCT_draw_holds [OF assms(1,2,4), of "new_image (int w) (int h) z" h J data 0] assms(6)
  obtain img where img: "DCT_draw enc n 0 0 (new_image (int w) (int h) z) data = Ok img"
      "MinX img = 0" "MaxX img = int w" "MinY img = 0" "MaxY img = int h" "holds_pixels J enc n w img data (w * h)"
    by (auto simp: new_image_def)
  have "DCT_image enc data = Ok img" using img(1) bpc by (simp add: DCT_image_def blank Let_def)
  moreover have "DCT_bytes J enc img = Ok data"
  proof -
    have size: "int w * int h * ColorComponents enc * DCTBitsPerComponent enc = 8 * int (length data)"
      using bpc(3) assms(6) by (simp add: mult.assoc)
    have "go_int (8 * int (length data)) sdiv 8 = int (length data)"
      using assms(7) by (simp add: sdiv_8)
    moreover have "DCT_loop J enc (length ([] :: u8 list) + length data) [] (points img) = Ok ([] @ data)"
      using img(6) assms(6)
      by (intro DCT_loop_pixels [where n = n]) (simp_all add: points_nth [OF img(2-5) assms(2)] holds_pixels_def)
    ultimately show ?thesis by (simp add: DCT_bytes_def img(2-5) size)
  qed
  ultimately show ?thesis by simp
qed

end
