(* ===== verification/Filter_Ascii.thy ===== *)
theory Filter_Ascii
  imports Filter_Bytes
begin

text \<open>
  The two ASCII decoders invert their encoders: ASCII hex on all data, with white space
  anywhere, ASCII 85 on all data but those whose last group is incomplete and zero.
\<close>

section \<open>ASCII hex\<close>

lemma hex_digit_cases:
  assumes "d < (16 :: u8)"
  shows "fromHexChar (upper_hex d) = d" "is_hex_byte (upper_hex d)" "upper_hex d \<noteq> 62"
    "\<not> IsWhiteSpace (byte_char (upper_hex d))"
proof -
  from assms have "unat d \<in> set [0..<16]" by (simp add: word_less_nat_alt)
  then obtain n where "n \<in> set [0..<16]" "d = of_nat n" using that [of "unat d"] by simp
  then show "fromHexChar (upper_hex d) = d" "is_hex_byte (upper_hex d)" "upper_hex d \<noteq> 62"
      "\<not> IsWhiteSpace (byte_char (upper_hex d))"
    by (auto simp: upt_rec upper_hex_def fromHexChar_def is_hex_byte_def IsWhiteSpace_byte)
qed

lemma nibbles: "drop_bit 4 b < 16" "b AND 15 < 16" "push_bit 4 (drop_bit 4 b) OR (b AND 15) = b" for b :: u8
proof -
  have mask: "15 = (mask 4 :: u8)" by (simp add: mask_eq_exp_minus_1)
  have "unat b < 2 ^ LENGTH(8)" by (rule unsigned_less)
  then show "drop_bit 4 b < 16"
    by (simp add: word_less_nat_alt drop_bit_eq_div unat_div)
  show "b AND 15 < 16"
    unfolding mask by (simp add: take_bit_eq_mask [symmetric] word_less_nat_alt take_bit_eq_mod unat_mod)
  show "push_bit 4 (drop_bit 4 b) OR (b AND 15) = b"
    unfolding mask by (rule bit_word_eqI) (auto simp: bit_simps)
qed

lemma ASCIIHex_loop_data:
  "ASCIIHex_loop acc (concat (map (\<lambda>b. [upper_hex (drop_bit 4 b), upper_hex (b AND 15), 32]) data) @ s) =
   ASCIIHex_loop (acc @ concat (map (\<lambda>b. [upper_hex (drop_bit 4 b), upper_hex (b AND 15)]) data)) s"
proof (induction data arbitrary: acc)
  case (Cons b data)
  moreover have "IsWhiteSpace (byte_char 32)" by (simp add: IsWhiteSpace_byte)
  ultimately show ?case by (simp add: hex_digit_cases nibbles)
qed simp

lemma hex_Decode_data:
  "hex_Decode (concat (map (\<lambda>b. [upper_hex (drop_bit 4 b), upper_hex (b AND 15)]) data)) = data"
  by (induction data) (simp_all add: hex_digit_cases nibbles)

lemma even_length_pairs: "even (length (concat (map (\<lambda>b. [f b, g b]) xs)))"
  by (induction xs) simp_all

lemma ASCIIHex_roundtrip: "rbind (ASCIIHex_EncodeBytes data) ASCIIHex_DecodeBytes = Ok data"
  by (simp add: ASCIIHex_EncodeBytes_def ASCIIHex_DecodeBytes_def ASCIIHex_loop_data hex_Decode_data
      even_length_pairs odd_iff_mod_2_eq_one [symmetric])

lemma ASCIIHex_loop_space:
  "ASCIIHex_loop acc (filter (\<lambda>b. \<not> IsWhiteSpace (byte_char b)) s) = ASCIIHex_loop acc s"
  by (induction acc s rule: ASCIIHex_loop.induct) (auto simp: IsWhiteSpace_byte)

lemma ASCIIHex_space:
  "ASCIIHex_DecodeBytes (filter (\<lambda>b. \<not> IsWhiteSpace (byte_char b)) s) = ASCIIHex_DecodeBytes s"
  by (simp add: ASCIIHex_DecodeBytes_def ASCIIHex_loop_space)

section \<open>ASCII 85: reading a group\<close>

lemma code_of_digit:
  assumes "v < (85 :: u8)"
  shows "v + 33 \<ge> 33" "v + 33 \<le> 117" "v + 33 \<noteq> 126" "\<not> IsWhiteSpace (byte_char (v + 33))" "v + 33 - 33 = v"
proof -
  from assms have v: "unat v < 85" by (simp add: word_less_nat_alt)
  then have n: "unat (v + 33) = unat v + 33" by (simp add: unat_word_ariths)
  show "v + 33 \<ge> 33" "v + 33 \<le> 117" "v + 33 \<noteq> 126" "\<not> IsWhiteSpace (byte_char (v + 33))" "v + 33 - 33 = v"
    using v n by (simp_all add: word_le_nat_alt IsWhiteSpace_def word_unat_eq_iff [of "v + 33"])
qed

lemma ASCII85_group_digits:
  assumes "list_all (\<lambda>v. v < 85) ds" "length xs + length ds \<le> 5" "length zs = 5 - length xs"
  shows "ASCII85_group (xs @ zs) (length xs) (map (\<lambda>v. v + 33) ds @ s) =
    ASCII85_group (xs @ ds @ drop (length ds) zs) (length xs + length ds) s"
  using assms
proof (induction ds arbitrary: xs zs)
  case (Cons d ds)
  from Cons.prems obtain z zs' where zs: "zs = z # zs'" by (cases zs) auto
  have "ASCII85_group (xs @ zs) (length xs) (map (\<lambda>v. v + 33) (d # ds) @ s) =
      ASCII85_group ((xs @ [d]) @ zs') (length (xs @ [d])) (map (\<lambda>v. v + 33) ds @ s)"
    using Cons.prems code_of_digit [of d]
    by (subst ASCII85_group.simps) (simp add: zs)
  also have "\<dots> = ASCII85_group ((xs @ [d]) @ ds @ drop (length ds) zs') (length (xs @ [d]) + length ds) s"
    using Cons.prems zs by (intro Cons.IH) auto
  finally show ?case by (simp add: zs)
qed simp

lemma ASCII85_group_full:
  assumes "list_all (\<lambda>v. v < 85) ds" "length ds = 5"
  shows "ASCII85_group [0, 0, 0, 0, 0] 0 (map (\<lambda>v. v + 33) ds @ s) = Ok (ds, s, 4, False)"
  using ASCII85_group_digits [OF assms(1), of "[]" "[0, 0, 0, 0, 0]" s] assms(2)
  by (simp add: ASCII85_group.simps [of _ 5])

lemma ASCII85_group_part:
  assumes "list_all (\<lambda>v. v < 85) ds" "length ds < 5"
  shows "ASCII85_group [0, 0, 0, 0, 0] 0 (map (\<lambda>v. v + 33) ds @ [126, 62]) =
    Ok (ds @ drop (length ds) [0, 0, 0, 0, 0], [126, 62], length ds - 1, True)"
  using ASCII85_group_digits [OF assms(1), of "[]" "[0, 0, 0, 0, 0]" "[126, 62]"] assms(2)
  by (simp add: ASCII85_group.simps [of _ "length ds"] IsWhiteSpace_byte)

section \<open>Base 85\<close>

definition horner85 :: "u8 list \<Rightarrow> nat" where
  "horner85 ds = foldl (\<lambda>a d. 85 * a + unat d) 0 ds"

lemma foldl_horner85: "foldl (\<lambda>a d. 85 * a + unat d) n ds = n * 85 ^ length ds + horner85 ds"
proof (induction ds arbitrary: n)
  case (Cons d ds)
  from Cons [of "85 * n + unat d"] Cons [of "unat d"] show ?case
    by (simp add: horner85_def algebra_simps)
qed (simp add: horner85_def)

lemma horner85_append: "horner85 (xs @ ys) = horner85 xs * 85 ^ length ys + horner85 ys"
  using foldl_horner85 [of "horner85 xs" ys] by (simp add: horner85_def)

lemma horner85_Cons: "horner85 (x # ys) = unat x * 85 ^ length ys + horner85 ys"
  using horner85_append [of "[x]" ys] by (simp add: horner85_def)

lemma horner85_Nil [simp]: "horner85 [] = 0"
  by (simp add: horner85_def)

lemma horner85_84: "horner85 (replicate k 84) = 85 ^ k - 1"
proof (induction k)
  case (Suc k)
  have "(1 :: nat) \<le> 85 ^ k" by simp
  with Suc show ?case by (simp add: horner85_Cons)
qed simp

lemma ASCII85_value_horner:
  assumes "length codes = 5"
  shows "ASCII85_value codes = of_nat (horner85 codes)"
proof -
  from assms obtain a b c d e where "codes = [a, b, c, d, e]"
    by (auto simp: length_Suc_conv eval_nat_numeral)
  then show ?thesis
    by (simp add: ASCII85_value_def horner85_Cons)
qed

text \<open>The encoder's digits are those of the value, all below 85.\<close>

lemma unat_ucast8: "unat w < 256 \<Longrightarrow> unat (ucast w :: u8) = unat w" for w :: u32
  by (simp add: unsigned_ucast_eq take_bit_nat_eq_self)

lemma base256Tobase85_loop_digits:
  assumes "unat v < 85 ^ Suc k" "k \<le> 4"
  shows "length (base256Tobase85_loop k v) = Suc k \<and> list_all (\<lambda>d. d < 85) (base256Tobase85_loop k v) \<and>
    horner85 (base256Tobase85_loop k v) = unat v"
  using assms
proof (induction k arbitrary: v)
  case 0
  then show ?case by (simp add: horner85_Cons unat_ucast8 word_less_nat_alt)
next
  case (Suc k)
  have "(85 :: nat) ^ Suc k \<le> 85 ^ 4" using Suc.prems(2) by (intro power_increasing) auto
  moreover have "(85 :: u32) ^ Suc k = of_nat (85 ^ Suc k)" by simp
  ultimately have u: "unat (85 ^ Suc k :: u32) = 85 ^ Suc k"
    by (simp only: unsigned_of_nat) (simp add: take_bit_nat_eq_self del: power_Suc)
  have div: "unat (v div 85 ^ Suc k) = unat v div 85 ^ Suc k" "unat (v mod 85 ^ Suc k) = unat v mod 85 ^ Suc k"
    by (simp_all add: unat_div unat_mod u del: power_Suc)
  have "unat v < 85 * 85 ^ Suc k" using Suc.prems(1) by simp
  then have "unat v div 85 ^ Suc k < 85" by (simp add: less_mult_imp_div_less del: power_Suc)
  with div have d: "unat (ucast (v div 85 ^ Suc k) :: u8) = unat v div 85 ^ Suc k" "unat v div 85 ^ Suc k < 85"
    by (simp_all add: unat_ucast8 del: power_Suc)
  from Suc.IH [of "v mod 85 ^ Suc k"] Suc.prems(2) div(2)
  have "length (base256Tobase85_loop k (v mod 85 ^ Suc k)) = Suc k"
    "list_all (\<lambda>d. d < 85) (base256Tobase85_loop k (v mod 85 ^ Suc k))"
    "horner85 (base256Tobase85_loop k (v mod 85 ^ Suc k)) = unat v mod 85 ^ Suc k"
    by (simp_all del: power_Suc)
  with d show ?case
    by (simp add: Let_def horner85_Cons word_less_nat_alt div_mult_mod_eq del: power_Suc)
qed

lemma base256Tobase85_digits:
  "length (base256Tobase85 v) = 5" "list_all (\<lambda>d. d < 85) (base256Tobase85 v)" "horner85 (base256Tobase85 v) = unat v"
proof -
  have "unat v < 2 ^ LENGTH(32)" by (rule unsigned_less)
  then have "unat v < 85 ^ Suc 4" by simp
  from base256Tobase85_loop_digits [OF this]
  show "length (base256Tobase85 v) = 5" "list_all (\<lambda>d. d < 85) (base256Tobase85 v)" "horner85 (base256Tobase85 v) = unat v"
    by (simp_all add: base256Tobase85_def)
qed

section \<open>The bytes of a value\<close>

lemma ASCII85_bytes_word [simp]: "ASCII85_bytes (ASCII85_word b1 b2 b3 b4) = [b1, b2, b3, b4]"
proof -
  have "255 = (mask 8 :: u32)" by (simp add: mask_eq_exp_minus_1)
  then have and8: "ucast (x AND 255) = (ucast x :: u8)" for x :: u32
    by (intro bit_word_eqI) (simp only: bit_simps, auto)
  have "ucast (drop_bit 24 (ASCII85_word b1 b2 b3 b4)) = b1" "ucast (drop_bit 16 (ASCII85_word b1 b2 b3 b4)) = b2"
    "ucast (drop_bit 8 (ASCII85_word b1 b2 b3 b4)) = b3" "ucast (ASCII85_word b1 b2 b3 b4) = b4"
    by (rule bit_word_eqI; auto simp: ASCII85_word_def bit_simps dest: bit_imp_le_length)+
  then show ?thesis
    by (simp add: ASCII85_bytes_def and8)
qed

lemma take_ASCII85_bytes:
  assumes "drop_bit (8 * (4 - n)) x = drop_bit (8 * (4 - n)) y" "n \<le> 4"
  shows "take n (ASCII85_bytes x) = take n (ASCII85_bytes y)"
proof -
  have shift: "drop_bit (m + 8 * (4 - n)) x = drop_bit (m + 8 * (4 - n)) y" for m
    using arg_cong [OF assms(1), of "drop_bit m"] by (simp only: drop_bit_drop_bit)
  consider "n = 0" | "n = 1" | "n = 2" | "n = 3" | "n = 4" using assms(2) by linarith
  then show ?thesis
  proof cases
    case 2
    with shift [of 0] show ?thesis by (simp add: ASCII85_bytes_def)
  next
    case 3
    with shift [of 0] shift [of 8] show ?thesis by (simp add: ASCII85_bytes_def)
  next
    case 4
    with shift [of 0] shift [of 8] shift [of 16] show ?thesis by (simp add: ASCII85_bytes_def)
  next
    case 5
    with shift [of 0] have "x = y" by simp
    then show ?thesis by simp
  qed simp
qed

text \<open>The digits that a short group leaves out are read as 84, which rounds the value up, but not
  beyond the bytes that are kept.\<close>

lemma ASCII85_round_up:
  assumes "k \<le> 3" "2 ^ (8 * k) dvd unat w" "take (5 - k) (base256Tobase85 w) = ds"
  shows "drop_bit (8 * k) (ASCII85_value (ds @ replicate k 84)) = drop_bit (8 * k) w"
proof -
  note dg = base256Tobase85_digits [of w]
  define D where "D = horner85 (ds @ replicate k 84)"
  define rest where "rest = drop (5 - k) (base256Tobase85 w)"
  have len: "length ds = 5 - k" "length rest = k" using assms(1,3) dg(1) by (auto simp: rest_def)
  have split: "base256Tobase85 w = ds @ rest" by (simp add: rest_def assms(3) [symmetric])
  then have w: "unat w = horner85 ds * 85 ^ k + horner85 rest" using dg(3) len by (simp add: horner85_append)
  have D: "D = horner85 ds * 85 ^ k + (85 ^ k - 1)" by (simp add: D_def horner85_append horner85_84)
  have "list_all (\<lambda>d. d < 85) rest" using dg(2) split by simp
  then have "horner85 rest \<le> 85 ^ length rest - 1"
  proof (induction rest)
    case (Cons x xs)
    then have "unat x \<le> 84" by (simp add: word_less_nat_alt)
    then have "unat x * 85 ^ length xs \<le> 84 * 85 ^ length xs" by simp
    moreover have "(1 :: nat) \<le> 85 ^ length xs" by simp
    moreover have "horner85 xs \<le> 85 ^ length xs - 1" using Cons by simp
    ultimately have "unat x * 85 ^ length xs + horner85 xs \<le> 85 * 85 ^ length xs - 1" by linarith
    then show ?case by (simp add: horner85_Cons)
  qed simp
  with len w D have "unat w \<le> D" by (simp only: add_le_cancel_left)
  moreover have "(85 :: nat) ^ k \<le> 2 ^ (8 * k)" by (simp add: power_mult power_mono)
  then have "D < unat w + 2 ^ (8 * k)" using w D zero_less_power [of "85 :: nat" k] by linarith
  moreover from assms(2) obtain q where q: "unat w = q * 2 ^ (8 * k)" by (auto simp: mult.commute)
  ultimately have divq: "D div 2 ^ (8 * k) = q" by (intro div_nat_eqI) (simp_all add: mult.commute)
  have "unat w < 2 ^ LENGTH(32)" by (rule unsigned_less)
  then have "q * 2 ^ (8 * k) < 2 ^ (32 - 8 * k) * 2 ^ (8 * k)"
    using q assms(1) by (simp add: power_add [symmetric])
  then have "q + 1 \<le> 2 ^ (32 - 8 * k)" by simp
  then have "(q + 1) * 2 ^ (8 * k) \<le> 2 ^ (32 - 8 * k) * 2 ^ (8 * k)" by (rule mult_le_mono1)
  then have "D < 2 ^ 32" using \<open>D < unat w + 2 ^ (8 * k)\<close> q assms(1) by (simp add: power_add [symmetric])
  then have "unat (of_nat D :: u32) = D" by (simp add: unsigned_of_nat take_bit_nat_eq_self)
  then have "unat (ASCII85_value (ds @ replicate k 84)) = D"
    using len assms(1) by (simp add: ASCII85_value_horner D_def [symmetric])
  moreover have "unat (2 ^ (8 * k) :: u32) = 2 ^ (8 * k)"
  proof -
    consider "k = 0" | "k = 1" | "k = 2" | "k = 3" using assms(1) by linarith
    then show ?thesis by cases simp_all
  qed
  ultimately show ?thesis using divq q
    by (simp add: word_unat_eq_iff drop_bit_eq_div unat_div)
qed

section \<open>ASCII 85: the round trip\<close>

lemma ASCII85_write_not_Nil [simp]: "ASCII85_write n w \<noteq> []"
  using base256Tobase85_digits(1) [of w] by (auto simp: ASCII85_write_def)

lemma ASCII85_loop_full:
  "ASCII85_loop acc (ASCII85_write 4 w @ s) = ASCII85_loop (acc @ ASCII85_bytes w) s"
proof (cases "w = 0")
  case True
  then show ?thesis
    by (subst ASCII85_loop.simps)
      (simp add: ASCII85_write_def ASCII85_group.simps IsWhiteSpace_byte ASCII85_value_def ASCII85_bytes_def)
next
  case False
  note dg = base256Tobase85_digits [of w]
  have "ASCII85_value (base256Tobase85 w) = w" using dg by (simp add: ASCII85_value_horner)
  moreover have "ASCII85_write 4 w = map (\<lambda>v. v + 33) (base256Tobase85 w)" using False dg(1) by (simp add: ASCII85_write_def)
  moreover from this have "map (\<lambda>v. v + 33) (base256Tobase85 w) \<noteq> []" by (metis ASCII85_write_not_Nil)
  moreover have "length (ASCII85_bytes w) = 4" by (simp add: ASCII85_bytes_def)
  ultimately show ?thesis
    using ASCII85_group_full [OF dg(2,1), of s] dg(1) by (subst ASCII85_loop.simps) simp
qed

text \<open>A short last group: its bytes come back, except that a group of zeros comes back as four.\<close>

lemma ASCII85_loop_part:
  assumes "1 \<le> n" "n \<le> 3" "2 ^ (8 * (4 - n)) dvd unat w"
  shows "ASCII85_loop acc (ASCII85_write n w @ [126, 62]) = Ok (acc @ take (if w = 0 then 4 else n) (ASCII85_bytes w))"
proof (cases "w = 0")
  case True
  then have "ASCII85_loop acc (ASCII85_write n w @ [126, 62]) = ASCII85_loop (acc @ ASCII85_bytes w) [126, 62]"
    using ASCII85_loop_full [of acc w "[126, 62]"] by (simp add: ASCII85_write_def)
  also have "\<dots> = Ok (acc @ ASCII85_bytes w)"
    by (subst ASCII85_loop.simps) (simp add: ASCII85_group.simps IsWhiteSpace_byte)
  finally show ?thesis using True by (simp add: ASCII85_bytes_def)
next
  case False
  define ds where "ds = take (n + 1) (base256Tobase85 w)"
  note dg = base256Tobase85_digits [of w]
  have ds: "length ds = n + 1" "list_all (\<lambda>v. v < 85) ds"
    using dg(1,2) assms(2) by (auto simp: ds_def list_all_iff dest: in_set_takeD)
  then have grp: "ASCII85_group [0, 0, 0, 0, 0] 0 (map (\<lambda>v. v + 33) ds @ [126, 62]) =
      Ok (ds @ drop (length ds) [0, 0, 0, 0, 0], [126, 62], n, True)"
    using ASCII85_group_part [of ds] assms(2) by simp
  have "drop_bit (8 * (4 - n)) (ASCII85_value (ds @ replicate (4 - n) 84)) = drop_bit (8 * (4 - n)) w"
    using assms by (intro ASCII85_round_up) (auto simp: ds_def Suc_diff_le)
  then have "take n (ASCII85_bytes (ASCII85_value (ds @ replicate (4 - n) 84))) = take n (ASCII85_bytes w)"
    using assms(2) by (intro take_ASCII85_bytes) auto
  moreover have "ASCII85_write n w = map (\<lambda>v. v + 33) ds" using False by (simp add: ASCII85_write_def ds_def)
  ultimately show ?thesis using False grp ds(1) by (subst ASCII85_loop.simps) simp
qed

text \<open>The zeros that the decoder adds to the data.\<close>

fun ASCII85_excess :: "u8 list \<Rightarrow> u8 list" where
  "ASCII85_excess [] = []"
| "ASCII85_excess [b1] = (if b1 = 0 then [0, 0, 0] else [])"
| "ASCII85_excess [b1, b2] = (if b1 = 0 \<and> b2 = 0 then [0, 0] else [])"
| "ASCII85_excess [b1, b2, b3] = (if b1 = 0 \<and> b2 = 0 \<and> b3 = 0 then [0] else [])"
| "ASCII85_excess (b1 # b2 # b3 # b4 # data) = ASCII85_excess data"

lemma ASCII85_word_eq_0: "ASCII85_word b1 b2 b3 b4 = 0 \<longleftrightarrow> b1 = 0 \<and> b2 = 0 \<and> b3 = 0 \<and> b4 = 0"
proof
  assume "ASCII85_word b1 b2 b3 b4 = 0"
  then have "ASCII85_bytes (ASCII85_word b1 b2 b3 b4) = ASCII85_bytes 0" by simp
  then show "b1 = 0 \<and> b2 = 0 \<and> b3 = 0 \<and> b4 = 0" by (simp only: ASCII85_bytes_word) (simp add: ASCII85_bytes_def)
qed (simp add: ASCII85_word_def)

lemma ASCII85_word_dvd:
  "2 ^ 24 dvd unat (ASCII85_word b1 0 0 0)" "2 ^ 16 dvd unat (ASCII85_word b1 b2 0 0)"
  "2 ^ 8 dvd unat (ASCII85_word b1 b2 b3 0)"
proof -
  have dvd: "2 ^ n dvd unat w" if "take_bit n w = 0" for n and w :: u32
  proof -
    from that have "unat (take_bit n w) = 0" by simp
    then show ?thesis by (simp add: unsigned_take_bit_eq take_bit_eq_0_iff)
  qed
  show "2 ^ 24 dvd unat (ASCII85_word b1 0 0 0)" "2 ^ 16 dvd unat (ASCII85_word b1 b2 0 0)"
    "2 ^ 8 dvd unat (ASCII85_word b1 b2 b3 0)"
    by (rule dvd, rule bit_word_eqI; auto simp: ASCII85_word_def bit_simps)+
qed

lemma ASCII85_loop_groups:
  "ASCII85_loop acc (ASCII85_groups data @ [126, 62]) = Ok (acc @ data @ ASCII85_excess data)"
proof (induction data arbitrary: acc rule: ASCII85_groups.induct)
  case 1
  show ?case by (subst ASCII85_loop.simps) (simp add: ASCII85_group.simps IsWhiteSpace_byte)
next
  case (2 b1)
  then show ?case using ASCII85_loop_part [of 1 "ASCII85_word b1 0 0 0" acc] ASCII85_word_dvd
    by (simp add: ASCII85_word_eq_0)
next
  case (3 b1 b2)
  then show ?case using ASCII85_loop_part [of 2 "ASCII85_word b1 b2 0 0" acc] ASCII85_word_dvd
    by (simp add: ASCII85_word_eq_0)
next
  case (4 b1 b2 b3)
  then show ?case using ASCII85_loop_part [of 3 "ASCII85_word b1 b2 b3 0" acc] ASCII85_word_dvd
    by (simp add: ASCII85_word_eq_0)
next
  case (5 b1 b2 b3 b4 data)
  then show ?case by (simp add: ASCII85_loop_full)
qed

lemma ASCII85_roundtrip:
  "rbind (ASCII85_EncodeBytes data) ASCII85_DecodeBytes = Ok (data @ ASCII85_excess data)"
  by (simp add: ASCII85_EncodeBytes_def ASCII85_DecodeBytes_def ASCII85_loop_groups)

lemma ASCII85_excess_aligned: "length data mod 4 = 0 \<Longrightarrow> ASCII85_excess data = []"
  by (induction data rule: ASCII85_excess.induct) simp_all

end
