(* ===== verification/Filter_Run_Length.thy ===== *)
theory Filter_Run_Length
  imports Filter_Bytes
begin

text \<open>
  The run length decoder inverts its encoder. A piece of encoded text \<open>stands for\<close> the data that
  the decoder appends when it reads the piece; the encoder's loop keeps the invariant that
  what it has written, and the literal or the run that it still holds, stand for the data so far.
\<close>

section \<open>What encoded pieces stand for\<close>

definition stands_for :: "u8 list \<Rightarrow> u8 list \<Rightarrow> bool" where
  "stands_for e d \<longleftrightarrow>
    (\<forall>acc s. RunLength_loop acc (e @ s) = RunLength_loop (acc @ d) s) \<and> length e \<le> 2 * length d"

lemma stands_for_Nil [simp, intro]: "stands_for [] []"
  by (simp add: stands_for_def)

lemma stands_for_append [intro]: "stands_for e d \<Longrightarrow> stands_for e' d' \<Longrightarrow> stands_for (e @ e') (d @ d')"
  by (simp add: stands_for_def)

lemma uint_of_int8: "0 \<le> k \<Longrightarrow> k < 256 \<Longrightarrow> uint (of_int k :: u8) = k"
  by (simp add: uint_word_of_int)

lemma stands_for_literal:
  assumes "d \<noteq> []" "length d \<le> 128"
  shows "stands_for (of_int (int (length d) - 1) # d) d"
proof -
  define b :: u8 where "b = of_int (int (length d) - 1)"
  have "uint b = int (length d) - 1"
    unfolding b_def using assms by (subst uint_of_int8) (auto simp: Suc_le_eq)
  then have "b < 128" "nat (uint b + 1) = length d"
    using assms(2) by (simp_all add: word_less_def)
  with assms(1) show ?thesis unfolding b_def [symmetric]
    by (cases d) (simp_all add: stands_for_def word_less_def)
qed

text \<open>A run of one byte is written with length byte 0: as a literal.\<close>

lemma stands_for_run:
  assumes "1 \<le> n" "n \<le> 127"
  shows "stands_for [of_int (257 - n), x] (replicate (nat n) x)"
proof (cases "n = 1")
  case True
  then have "of_int (257 - n) = (of_int (int (length [x]) - 1) :: u8)"
    by (simp add: word_uint_eq_iff uint_word_of_int)
  moreover have "replicate (nat n) x = [x]" using True by simp
  ultimately show ?thesis using stands_for_literal [of "[x]"] by (simp only:) simp
next
  case False
  define b :: u8 where "b = of_int (257 - n)"
  have "uint b = 257 - n"
    unfolding b_def using assms False by (subst uint_of_int8) auto
  with assms(2) False assms(1) have "b > 128" "nat (257 - uint b) = nat n"
    by (simp_all add: word_less_def)
  with assms show ?thesis unfolding b_def [symmetric] by (simp add: stands_for_def)
qed

section \<open>The invariant of the encoder\<close>

text \<open>What the state holds back, and the invariant for the data \<open>d\<close> read so far.\<close>

definition pending :: "run_state \<Rightarrow> u8 list" where
  "pending st = rl_literal st @ replicate (nat (runLen st)) (rl_b0 st)"

definition run_inv :: "u8 list \<Rightarrow> run_state \<Rightarrow> bool" where
  "run_inv d st \<longleftrightarrow>
    (\<exists>d'. stands_for (rl_inb st) d' \<and> d = d' @ pending st) \<and>
    (rl_literal st \<noteq> [] \<longrightarrow> runLen st = 0 \<and> last (rl_literal st) = rl_b0 st) \<and>
    length (rl_literal st) < 127 \<and> 0 \<le> runLen st \<and> runLen st < 127"

lemma run_inv_init: "run_inv [b] \<lparr>rl_inb = [], rl_literal = [], runLen = 1, rl_b0 = b\<rparr>"
  by (auto simp: run_inv_def pending_def)

lemma stands_for_write_literal:
  assumes "stands_for (rl_inb st) d'" "rl_literal st \<noteq> []" "length (rl_literal st) \<le> 128"
  shows "stands_for (rl_inb (write_literal st)) (d' @ rl_literal st)"
  using stands_for_append [OF assms(1) stands_for_literal [OF assms(2,3)]] by (simp add: write_literal_def)

lemma stands_for_write_run:
  assumes "stands_for (rl_inb st) d'" "1 \<le> runLen st" "runLen st \<le> 127"
  shows "stands_for (rl_inb (write_run st)) (d' @ replicate (nat (runLen st)) (rl_b0 st))"
  using stands_for_append [OF assms(1) stands_for_run [OF assms(2,3)]] by (simp add: write_run_def)

lemma write_fields [simp]:
  "rl_literal (write_literal st) = rl_literal st" "runLen (write_literal st) = runLen st"
  "rl_b0 (write_literal st) = rl_b0 st"
  "rl_literal (write_run st) = rl_literal st" "runLen (write_run st) = runLen st" "rl_b0 (write_run st) = rl_b0 st"
  by (simp_all add: write_literal_def write_run_def)

lemma replicate_nat_add1: "0 \<le> n \<Longrightarrow> replicate (nat (n + 1)) x = replicate (nat n) x @ [x]"
  by (simp add: nat_add_distrib replicate_append_same)

text \<open>The two halves of a round: the run or the literal is first brought into shape, then extended.\<close>

lemma run_inv_extend:
  assumes "run_inv d st" "rl_literal st = []" "b = rl_b0 st"
  shows "run_inv (d @ [b]) ((let st = st\<lparr>runLen := runLen st + 1\<rparr>
           in if runLen st \<ge> 127 then (write_run st)\<lparr>runLen := 0\<rparr> else st)\<lparr>rl_b0 := b\<rparr>)"
proof -
  from assms obtain d' where inv: "stands_for (rl_inb st) d'" "d = d' @ replicate (nat (runLen st)) b"
      "0 \<le> runLen st" "runLen st < 127"
    by (auto simp: run_inv_def pending_def)
  then have d: "d @ [b] = d' @ replicate (nat (runLen st + 1)) b" by (simp add: replicate_nat_add1)
  show ?thesis
  proof (cases "runLen st + 1 \<ge> 127")
    case True
    from stands_for_write_run [of "st\<lparr>runLen := runLen st + 1\<rparr>" d'] inv True assms(2,3) d show ?thesis
      by (simp add: run_inv_def pending_def)
  next
    case False
    with inv assms(2,3) d show ?thesis by (auto simp: run_inv_def pending_def)
  qed
qed

lemma run_inv_literal:
  assumes "stands_for (rl_inb st) d'" "d = d' @ rl_literal st" "runLen st = 0" "length (rl_literal st) < 127"
  shows "run_inv (d @ [b]) ((let st = st\<lparr>rl_literal := rl_literal st @ [b]\<rparr>
           in if int (length (rl_literal st)) \<ge> 127 then (write_literal st)\<lparr>rl_literal := []\<rparr> else st)\<lparr>rl_b0 := b\<rparr>)"
proof (cases "length (rl_literal st) + 1 \<ge> 127")
  case True
  from stands_for_write_literal [of "st\<lparr>rl_literal := rl_literal st @ [b]\<rparr>" d'] assms True show ?thesis
    by (simp add: run_inv_def pending_def)
next
  case False
  with assms show ?thesis by (auto simp: run_inv_def pending_def)
qed

text \<open>A literal that ends in the byte that comes again is written without it.\<close>

lemma run_inv_split:
  assumes "run_inv d st" "rl_literal st \<noteq> []"
  defines "st' \<equiv> st\<lparr>rl_literal := butlast (rl_literal st)\<rparr>"
  shows "run_inv d ((if rl_literal st' \<noteq> [] then write_literal st' else st')\<lparr>runLen := 1, rl_literal := []\<rparr>)"
proof -
  from assms(1,2) obtain d' where inv: "stands_for (rl_inb st) d'" "d = d' @ rl_literal st"
      "last (rl_literal st) = rl_b0 st" "length (rl_literal st) < 127"
    by (auto simp: run_inv_def pending_def)
  then have d: "d = d' @ butlast (rl_literal st) @ [rl_b0 st]" using assms(2) by (metis append_butlast_last_id)
  show ?thesis
  proof (cases "butlast (rl_literal st) = []")
    case True
    with inv d show ?thesis by (auto simp: run_inv_def pending_def st'_def)
  next
    case False
    with inv d stands_for_write_literal [of st' d'] show ?thesis
      by (auto simp: run_inv_def pending_def st'_def intro!: exI [of _ "d' @ butlast (rl_literal st)"])
  qed
qed

lemma run_inv_step:
  assumes "run_inv d st"
  shows "run_inv (d @ [b]) (RunLength_step b st)"
proof (cases "b = rl_b0 st")
  case True
  show ?thesis
  proof (cases "rl_literal st = []")
    case empty: True
    with run_inv_extend [OF assms empty True] True show ?thesis by (simp add: RunLength_step_def Let_def)
  next
    case False
    with run_inv_extend [OF run_inv_split [OF assms False], of b] True show ?thesis
      by (cases "butlast (rl_literal st) = []") (simp_all add: RunLength_step_def Let_def)
  qed
next
  case False
  define st1 where "st1 = (if runLen st > 0 then
      (if runLen st = 1 then st\<lparr>rl_literal := [rl_b0 st]\<rparr> else write_run st)\<lparr>runLen := 0\<rparr> else st)"
  from assms obtain d' where inv: "stands_for (rl_inb st) d'" "d = d' @ pending st"
      "rl_literal st \<noteq> [] \<longrightarrow> runLen st = 0" "length (rl_literal st) < 127" "0 \<le> runLen st" "runLen st < 127"
    by (auto simp: run_inv_def)
  have "\<exists>d1. stands_for (rl_inb st1) d1 \<and> d = d1 @ rl_literal st1"
    using inv stands_for_write_run [OF inv(1)] by (auto simp: st1_def pending_def)
  moreover have "runLen st1 = 0" "length (rl_literal st1) < 127" using inv by (auto simp: st1_def)
  ultimately show ?thesis
    using run_inv_literal [of st1 _ d b] False
    unfolding RunLength_step_def st1_def [symmetric] by (auto simp: st1_def Let_def)
qed

lemma run_inv_fold: "run_inv d st \<Longrightarrow> run_inv (d @ s) (fold RunLength_step s st)"
  by (induction s arbitrary: d st) (use run_inv_step in fastforce)+

lemma RunLength_finish_decodes:
  assumes "run_inv d st"
  shows "RunLength_DecodeBytes (RunLength_finish st) = Ok d" "length (RunLength_finish st) \<le> 2 * length d + 1"
proof -
  from assms obtain d' where inv: "stands_for (rl_inb st) d'" "d = d' @ pending st"
      "rl_literal st \<noteq> [] \<longrightarrow> runLen st = 0" "length (rl_literal st) < 127" "0 \<le> runLen st" "runLen st < 127"
    by (auto simp: run_inv_def)
  define e where "e = rl_inb (if rl_literal st \<noteq> [] then write_literal st else if runLen st > 0 then write_run st else st)"
  have "stands_for e d"
    using inv stands_for_write_run [OF inv(1)] stands_for_write_literal [OF inv(1)]
    by (auto simp: e_def pending_def)
  then show "RunLength_DecodeBytes (RunLength_finish st) = Ok d" "length (RunLength_finish st) \<le> 2 * length d + 1"
    by (simp_all add: RunLength_DecodeBytes_def RunLength_finish_def e_def [symmetric] stands_for_def)
qed

text \<open>The encoding is at most twice as long as the data, and one byte for the end mark.\<close>

lemma RunLength_roundtrip:
  assumes "data \<noteq> []"
  shows "\<exists>e. RunLength_EncodeBytes data = Ok e \<and> RunLength_DecodeBytes e = Ok data \<and> length e \<le> 2 * length data + 1"
proof -
  from assms obtain b s where data: "data = b # s" by (auto simp: neq_Nil_conv)
  from RunLength_finish_decodes [OF run_inv_fold [OF run_inv_init, of b s]] data
  show ?thesis by (simp add: RunLength_EncodeBytes_def)
qed

end
