(* ===== verification/Filter_Stream.thy ===== *)
theory Filter_Stream
  imports Filter_Fax Filter_Dct Filter_Ascii Filter_Run_Length
begin

text \<open>
  The encoders of \<open>pdf/core/encoding.go\<close> behind their interface \<open>StreamEncoder\<close>, chains of them
  (\<open>MultiEncoder\<close>), and the functions of \<open>pdf/core/stream.go\<close>. A stream object is its dictionary and
  its bytes; the dictionary is not nil. The result of an operation is a run: the loops of the CCITT fax
  coder need not end. The JBIG2 decoder is not modelled; it is a parameter.
\<close>

section \<open>Encoders\<close>

text \<open>
  \<open>jbig2_globals\<close> are the global segments of a document, \<open>jbig2_page\<close> the data of its first page, with the
  flag for the colour of the ones.
\<close>

record 'g library =
  codecs :: codecs
  jpeg :: jpeg_codec
  jbig2_globals :: "u8 list \<Rightarrow> 'g option"
  jbig2_page :: "'g option \<Rightarrow> bool \<Rightarrow> u8 list \<Rightarrow> (filter_error, u8 list) run"

datatype 'g StreamEncoder =
    Raw
  | RunLength
  | ASCIIHex
  | ASCII85
  | Flate FlateEncoder
  | LZW LZWEncoder
  | DCT DCTEncoder
  | CCITTFax Encoder
  | JBIG2 (Globals: "'g option") (IsChocolateData: bool)
  | JPX
  | Multi "'g StreamEncoder list"

section \<open>JBIG2 parameters\<close>

fun GetAsFloat64Slice :: "'f fops \<Rightarrow> 'f resolver \<Rightarrow> 'f PdfObject list \<Rightarrow> core_error + 'f list" where
  "GetAsFloat64Slice F resolve [] = Inr []"
| "GetAsFloat64Slice F resolve (obj # objs) =
    (case TraceToDirectObject resolve (Some obj) of
       None \<Rightarrow> Inl ErrNotANumber
     | Some obj \<Rightarrow>
        (case GetNumberAsFloat F obj of
           Inl err \<Rightarrow> Inl err
         | Inr number \<Rightarrow> map_sum id ((#) number) (GetAsFloat64Slice F resolve objs)))"

definition setChocolateData :: "'f fops \<Rightarrow> 'f resolver \<Rightarrow> 'f PdfObject \<Rightarrow> bool \<Rightarrow> (filter_error, bool) res" where
  "setChocolateData F resolve decode old =
    (case decode of
       PdfObjectArray arr \<Rightarrow>
        (case GetAsFloat64Slice F resolve arr of
           Inl _ \<Rightarrow>
            (case ToIntegerArray arr of
               Inl _ \<Rightarrow> Ok old
             | Inr iArr \<Rightarrow>
                rbind (index_at iArr 0) (\<lambda>a. rbind (index_at iArr 1) (\<lambda>b.
                  Ok (if a = 1 \<and> b = 0 then True else if b = 0 \<and> a = 1 then False else old))))
         | Inr fsl \<Rightarrow>
            Ok (if length fsl = 2 then
                  if feq F (fsl ! 0) (literal F 1) \<and> feq F (fsl ! 1) (literal F 0) then True
                  else if feq F (fsl ! 0) (literal F 0) \<and> feq F (fsl ! 1) (literal F 1) then False
                  else old
                else old))
     | _ \<Rightarrow> Ok old)"

definition newJBIG2EncoderFromStream ::
    "'g library \<Rightarrow> 'f fops \<Rightarrow> 'f resolver \<Rightarrow> 'f PdfObject pdf_dict \<Rightarrow> (filter_error, 'g StreamEncoder) res" where
  "newJBIG2EncoderFromStream L F resolve encDict =
    rbind
      (case dict_Get ''DecodeParms'' encDict of
         None \<Rightarrow> Ok None
       | Some (PdfObjectDictionary t) \<Rightarrow> Ok (Some t)
       | Some (PdfObjectArray t) \<Rightarrow> Ok (if length t = 1 then GetDict resolve (array_Get t 0) else None)
       | Some _ \<Rightarrow> Err InvalidDecodeParms)
      (\<lambda>decodeParams.
    rbind
      (case Option.bind decodeParams (dict_Get ''JBIG2Globals'') of
         None \<Rightarrow> Ok None
       | Some (PdfObjectStream _ _ _ stream) \<Rightarrow>
          (case jbig2_globals L stream of None \<Rightarrow> Err CodecError | Some g \<Rightarrow> Ok (Some g))
       | Some _ \<Rightarrow> Err (InvalidParameter ''JBIG2Globals''))
      (\<lambda>globals.
    rbind
      (case dict_Get ''Decode'' encDict of None \<Rightarrow> Ok False | Some decode \<Rightarrow> setChocolateData F resolve decode False)
      (\<lambda>chocolate. Ok (JBIG2 globals chocolate))))"

section \<open>Names and dictionaries\<close>

fun GetFilterName :: "'g StreamEncoder \<Rightarrow> string" where
  "GetFilterName Raw = ''Raw''"
| "GetFilterName RunLength = ''RunLengthDecode''"
| "GetFilterName ASCIIHex = ''ASCIIHexDecode''"
| "GetFilterName ASCII85 = ''ASCII85Decode''"
| "GetFilterName (Flate enc) = ''FlateDecode''"
| "GetFilterName (LZW enc) = ''LZWDecode''"
| "GetFilterName (DCT enc) = ''DCTDecode''"
| "GetFilterName (CCITTFax enc) = ''CCITTFaxDecode''"
| "GetFilterName (JBIG2 g c) = ''JBIG2Decode''"
| "GetFilterName JPX = ''JPXDecode''"
| "GetFilterName (Multi encs) = separated '' '' (map GetFilterName encs)"

fun MakeDecodeParams :: "'g StreamEncoder \<Rightarrow> 'f PdfObject option" where
  "MakeDecodeParams (Flate enc) = map_option PdfObjectDictionary (Flate_MakeDecodeParams enc)"
| "MakeDecodeParams (LZW enc) = map_option PdfObjectDictionary (Flate_MakeDecodeParams enc)"
| "MakeDecodeParams (CCITTFax enc) = Some (PdfObjectDictionary (Fax_MakeDecodeParams enc))"
| "MakeDecodeParams (JBIG2 g c) = Some (PdfObjectDictionary MakeDict)"
| "MakeDecodeParams (Multi encs) =
    (case encs of
       [] \<Rightarrow> None
     | [enc] \<Rightarrow> MakeDecodeParams enc
     | _ \<Rightarrow> Some (PdfObjectArray (map (\<lambda>enc. case MakeDecodeParams enc of None \<Rightarrow> PdfObjectNull | Some p \<Rightarrow> p) encs)))"
| "MakeDecodeParams _ = None"

definition filter_dict :: "string \<Rightarrow> 'f PdfObject pdf_dict" where
  "filter_dict name = dict_Set ''Filter'' (PdfObjectName name) MakeDict"

text \<open>The entries of another dictionary, except the two that a chain writes itself.\<close>

definition pass_values :: "'f PdfObject pdf_dict \<Rightarrow> 'f PdfObject pdf_dict \<Rightarrow> 'f PdfObject pdf_dict" where
  "pass_values encDict d =
    fold (\<lambda>key d. case dict_Get key encDict of
        Some val \<Rightarrow> if key \<noteq> ''Filter'' \<and> key \<noteq> ''DecodeParms'' then dict_Set key val d else d
      | None \<Rightarrow> d) (dict_Keys encDict) d"

fun MakeStreamDict :: "'f fops \<Rightarrow> 'g StreamEncoder \<Rightarrow> 'f PdfObject pdf_dict" where
  "MakeStreamDict F Raw = MakeDict"
| "MakeStreamDict F (Flate enc) = Flate_MakeStreamDict enc"
| "MakeStreamDict F (LZW enc) = LZW_MakeStreamDict enc"
| "MakeStreamDict F (CCITTFax enc) = Fax_MakeStreamDict enc"
| "MakeStreamDict F (JBIG2 g c) =
    dict_Set ''Filter'' (PdfObjectName ''JBIG2Decode'')
      (if c then dict_Set ''Decode'' (PdfObjectArray [PdfObjectFloat (literal F 1), PdfObjectFloat (literal F 0)]) MakeDict
       else MakeDict)"
| "MakeStreamDict F JPX = MakeDict"
| "MakeStreamDict F (Multi encs) =
    (let d = filter_dict (GetFilterName (Multi encs));
         d = fold (\<lambda>enc. pass_values (MakeStreamDict F enc)) encs d
     in case MakeDecodeParams (Multi encs) of Some p \<Rightarrow> dict_Set ''DecodeParms'' p d | None \<Rightarrow> d)"
| "MakeStreamDict F enc = filter_dict (GetFilterName enc)"

fun UpdateParams ::
    "'f fops \<Rightarrow> 'f resolver \<Rightarrow> 'f PdfObject pdf_dict \<Rightarrow> 'g StreamEncoder \<Rightarrow> (filter_error, 'g StreamEncoder) res" where
  "UpdateParams F resolve params (Flate enc) = Ok (Flate (Flate_UpdateParams F params enc))"
| "UpdateParams F resolve params (LZW enc) = Ok (LZW (LZW_UpdateParams F params enc))"
| "UpdateParams F resolve params (DCT enc) = Ok (DCT (DCT_UpdateParams F params enc))"
| "UpdateParams F resolve params (CCITTFax enc) =
    rbind (Fax_UpdateParams F resolve params enc) (\<lambda>enc. Ok (CCITTFax enc))"
| "UpdateParams F resolve params (JBIG2 g c) =
    rbind (case dict_Get ''Decode'' params of None \<Rightarrow> Ok c | Some decode \<Rightarrow> setChocolateData F resolve decode c)
      (\<lambda>c. Ok (JBIG2 g c))"
| "UpdateParams F resolve params (Multi encs) =
    rbind (foldr (\<lambda>enc r. rbind (UpdateParams F resolve params enc) (\<lambda>enc. rbind r (\<lambda>encs. Ok (enc # encs)))) encs (Ok []))
      (\<lambda>encs. Ok (Multi encs))"
| "UpdateParams F resolve params enc = Ok enc"

section \<open>Data\<close>

fun codec_error :: "('e, 'a) res \<Rightarrow> (filter_error, 'a) res" where
  "codec_error (Ok x) = Ok x"
| "codec_error (Err e) = Err CodecError"
| "codec_error Panic = Panic"

fun EncodeBytes :: "'g library \<Rightarrow> 'g StreamEncoder \<Rightarrow> u8 list \<Rightarrow> (filter_error, u8 list) run" where
  "EncodeBytes L Raw data = Some (Raw_EncodeBytes data)"
| "EncodeBytes L RunLength data = Some (RunLength_EncodeBytes data)"
| "EncodeBytes L ASCIIHex data = Some (ASCIIHex_EncodeBytes data)"
| "EncodeBytes L ASCII85 data = Some (ASCII85_EncodeBytes data)"
| "EncodeBytes L (Flate enc) data = Some (Flate_EncodeBytes (codecs L) enc data)"
| "EncodeBytes L (LZW enc) data = Some (LZW_EncodeBytes (codecs L) enc data)"
| "EncodeBytes L (DCT enc) data = Some (DCT_EncodeBytes (jpeg L) enc data)"
| "EncodeBytes L (CCITTFax enc) data = map_option codec_error (Fax_EncodeBytes enc data)"
| "EncodeBytes L (JBIG2 g c) data = Some (Err NoEncoding)"
| "EncodeBytes L JPX data = Some (Err NoEncoding)"
| "EncodeBytes L (Multi encs) data = foldr (\<lambda>enc r. run_bind r (\<lambda>d. EncodeBytes L enc d)) encs (Some (Ok data))"

fun DecodeBytes :: "'g library \<Rightarrow> 'g StreamEncoder \<Rightarrow> u8 list \<Rightarrow> (filter_error, u8 list) run" where
  "DecodeBytes L Raw encoded = Some (Raw_DecodeBytes encoded)"
| "DecodeBytes L RunLength encoded = Some (RunLength_DecodeBytes encoded)"
| "DecodeBytes L ASCIIHex encoded = Some (ASCIIHex_DecodeBytes encoded)"
| "DecodeBytes L ASCII85 encoded = Some (ASCII85_DecodeBytes encoded)"
| "DecodeBytes L (Flate enc) encoded = Some (Flate_DecodeBytes (codecs L) enc encoded)"
| "DecodeBytes L (LZW enc) encoded = Some (LZW_DecodeBytes (codecs L) enc encoded)"
| "DecodeBytes L (DCT enc) encoded = Some (DCT_DecodeBytes (jpeg L) enc encoded)"
| "DecodeBytes L (CCITTFax enc) encoded = map_option codec_error (Fax_DecodeBytes enc encoded)"
| "DecodeBytes L (JBIG2 g c) encoded = jbig2_page L g c encoded"
| "DecodeBytes L JPX encoded = Some (Err NoEncoding)"
| "DecodeBytes L (Multi encs) encoded = fold (\<lambda>enc r. run_bind r (\<lambda>d. DecodeBytes L enc d)) encs (Some (Ok encoded))"

text \<open>\<open>DecodeStream\<close> is \<open>DecodeBytes\<close> on the stream, except for the two filters with predictors.\<close>

definition encoder_DecodeStream :: "'g library \<Rightarrow> 'g StreamEncoder \<Rightarrow> u8 list \<Rightarrow> (filter_error, u8 list) run" where
  "encoder_DecodeStream L enc stream =
    (case enc of
       Flate enc \<Rightarrow> Some (Flate_DecodeStream (codecs L) enc stream)
     | LZW enc \<Rightarrow> Some (LZW_DecodeStream (codecs L) enc stream)
     | _ \<Rightarrow> DecodeBytes L enc stream)"

section \<open>Encoders of streams\<close>

text \<open>The parameters of the filters of a chain: one dictionary for all, or one for each.\<close>

definition multi_params :: "'f resolver \<Rightarrow> 'f PdfObject pdf_dict \<Rightarrow> 'f PdfObject pdf_dict option \<times> 'f PdfObject pdf_dict list" where
  "multi_params resolve encDict =
    (case dict_Get ''DecodeParms'' encDict of
       Some (PdfObjectDictionary d) \<Rightarrow> (Some d, [])
     | Some (PdfObjectArray arr) \<Rightarrow>
        (None, map (\<lambda>obj. case TraceToDirectObject resolve (Some obj) of
            Some (PdfObjectDictionary d) \<Rightarrow> d | _ \<Rightarrow> MakeDict) arr)
     | _ \<Rightarrow> (None, []))"

definition newDCTEncoderFromStream :: "'g library \<Rightarrow> u8 list \<Rightarrow> 'g StreamEncoder option \<Rightarrow> (filter_error, 'g StreamEncoder) run" where
  "newDCTEncoderFromStream L stream multiEnc =
    run_bind (case multiEnc of None \<Rightarrow> Some (Ok stream) | Some m \<Rightarrow> DecodeBytes L m stream)
      (\<lambda>encoded. Some (rbind (DCT_from_config (jpeg L) encoded) (\<lambda>enc. Ok (DCT enc))))"

text \<open>The parameters of the filter \<open>idx\<close>, and its encoder; \<open>encs\<close> are the encoders before it.\<close>

definition filter_params :: "'f PdfObject pdf_dict option \<Rightarrow> 'f PdfObject pdf_dict list \<Rightarrow> nat \<Rightarrow>
    (filter_error, 'f PdfObject pdf_dict option) run" where
  "filter_params dpDict dpArray idx =
    (case dpDict of
       Some d \<Rightarrow> Some (Ok (Some d))
     | None \<Rightarrow>
         if dpArray \<noteq> [] then
           if idx \<ge> length dpArray then Some (Err InvalidDecodeParms) else Some (Ok (Some (dpArray ! idx)))
         else Some (Ok None))"

definition multi_encoder :: "'g library \<Rightarrow> 'f resolver \<Rightarrow> 'f PdfObject pdf_dict \<Rightarrow> u8 list \<Rightarrow> 'g StreamEncoder list \<Rightarrow>
    string \<Rightarrow> 'f PdfObject pdf_dict option \<Rightarrow> (filter_error, 'g StreamEncoder) run" where
  "multi_encoder L resolve encDict stream encs name dParams =
    (if name = ''FlateDecode'' then
       Some (rbind (newFlateEncoderFromStream resolve encDict dParams) (\<lambda>enc. Ok (Flate enc)))
     else if name = ''LZWDecode'' then
       Some (rbind (newLZWEncoderFromStream resolve encDict dParams) (\<lambda>enc. Ok (LZW enc)))
     else if name = ''ASCIIHexDecode'' then Some (Ok ASCIIHex)
     else if name = ''ASCII85Decode'' then Some (Ok ASCII85)
     else if name = ''DCTDecode'' then newDCTEncoderFromStream L stream (Some (Multi encs))
     else Some (Err (InvalidParameter ''Filter'')))"

fun multi_loop :: "'g library \<Rightarrow> 'f resolver \<Rightarrow> 'f PdfObject pdf_dict \<Rightarrow> u8 list \<Rightarrow>
    'f PdfObject pdf_dict option \<Rightarrow> 'f PdfObject pdf_dict list \<Rightarrow> nat \<Rightarrow> 'g StreamEncoder list \<Rightarrow>
    'f PdfObject list \<Rightarrow> (filter_error, 'g StreamEncoder list) run" where
  "multi_loop L resolve encDict stream dpDict dpArray idx encs [] = Some (Ok encs)"
| "multi_loop L resolve encDict stream dpDict dpArray idx encs (obj # objs) =
    (case obj of
       PdfObjectName name \<Rightarrow>
        run_bind (filter_params dpDict dpArray idx) (\<lambda>dParams.
        run_bind (multi_encoder L resolve encDict stream encs name dParams) (\<lambda>enc.
          multi_loop L resolve encDict stream dpDict dpArray (idx + 1) (encs @ [enc]) objs))
     | _ \<Rightarrow> Some (Err (InvalidParameter ''Filter'')))"

definition newMultiEncoderFromStream :: "'g library \<Rightarrow> 'f resolver \<Rightarrow> 'f PdfObject pdf_dict \<Rightarrow> u8 list \<Rightarrow>
    (filter_error, 'g StreamEncoder) run" where
  "newMultiEncoderFromStream L resolve encDict stream =
    (case multi_params resolve encDict of
       (dpDict, dpArray) \<Rightarrow>
        (case dict_Get ''Filter'' encDict of
           Some (PdfObjectArray array) \<Rightarrow>
             run_bind (multi_loop L resolve encDict stream dpDict dpArray 0 [] array) (\<lambda>encs. Some (Ok (Multi encs)))
         | _ \<Rightarrow> Some (Err (InvalidParameter ''Filter''))))"

definition single_encoder :: "'g library \<Rightarrow> 'f fops \<Rightarrow> 'f resolver \<Rightarrow> 'f PdfObject pdf_dict \<Rightarrow> u8 list \<Rightarrow> string \<Rightarrow>
    (filter_error, 'g StreamEncoder) run" where
  "single_encoder L F resolve encDict stream name =
    (if name = ''FlateDecode'' then
       Some (rbind (newFlateEncoderFromStream resolve encDict None) (\<lambda>enc. Ok (Flate enc)))
     else if name = ''LZWDecode'' then
       Some (rbind (newLZWEncoderFromStream resolve encDict None) (\<lambda>enc. Ok (LZW enc)))
     else if name = ''DCTDecode'' then newDCTEncoderFromStream L stream None
     else if name = ''RunLengthDecode'' then Some (Ok RunLength)
     else if name = ''ASCIIHexDecode'' then Some (Ok ASCIIHex)
     else if name = ''ASCII85Decode'' \<or> name = ''A85'' then Some (Ok ASCII85)
     else if name = ''CCITTFaxDecode'' then
       Some (rbind (newCCITTFaxEncoderFromStream F resolve encDict None) (\<lambda>enc. Ok (CCITTFax enc)))
     else if name = ''JBIG2Decode'' then Some (newJBIG2EncoderFromStream L F resolve encDict)
     else if name = ''JPXDecode'' then Some (Ok JPX)
     else Some (Err (InvalidParameter ''Filter'')))"

definition NewEncoderFromStream :: "'g library \<Rightarrow> 'f fops \<Rightarrow> 'f resolver \<Rightarrow> 'f PdfObject pdf_dict \<Rightarrow> u8 list \<Rightarrow>
    (filter_error, 'g StreamEncoder) run" where
  "NewEncoderFromStream L F resolve encDict stream =
    (case TraceToDirectObject resolve (dict_Get ''Filter'' encDict) of
       None \<Rightarrow> Some (Ok Raw)
     | Some PdfObjectNull \<Rightarrow> Some (Ok Raw)
     | Some (PdfObjectName name) \<Rightarrow> single_encoder L F resolve encDict stream name
     | Some (PdfObjectArray array) \<Rightarrow>
        (if length array = 0 then Some (Ok Raw)
         else if length array \<noteq> 1 then newMultiEncoderFromStream L resolve encDict stream
         else
           (case array ! 0 of
              PdfObjectName name \<Rightarrow> single_encoder L F resolve encDict stream name
            | _ \<Rightarrow> Some (Err (InvalidParameter ''Filter''))))
     | Some _ \<Rightarrow> Some (Err (InvalidParameter ''Filter'')))"

definition DecodeStream :: "'g library \<Rightarrow> 'f fops \<Rightarrow> 'f resolver \<Rightarrow> 'f PdfObject pdf_dict \<Rightarrow> u8 list \<Rightarrow>
    (filter_error, u8 list) run" where
  "DecodeStream L F resolve encDict stream =
    run_bind (NewEncoderFromStream L F resolve encDict stream) (\<lambda>encoder. encoder_DecodeStream L encoder stream)"

text \<open>The stream object after the call: its dictionary and its bytes.\<close>

definition EncodeStream :: "'g library \<Rightarrow> 'f fops \<Rightarrow> 'f resolver \<Rightarrow> 'f PdfObject pdf_dict \<Rightarrow> u8 list \<Rightarrow>
    (filter_error, 'f PdfObject pdf_dict \<times> u8 list) run" where
  "EncodeStream L F resolve encDict stream =
    run_bind (NewEncoderFromStream L F resolve encDict stream) (\<lambda>encoder.
      let (encoder, encDict) =
            (case encoder of
               LZW lzwenc \<Rightarrow> (LZW (lzwenc\<lparr>EarlyChange := 0\<rparr>), dict_Set ''EarlyChange'' (MakeInteger 0) encDict)
             | _ \<Rightarrow> (encoder, encDict))
      in run_bind (EncodeBytes L encoder stream) (\<lambda>encoded.
           Some (Ok (dict_Set ''Length'' (MakeInteger (int (length encoded))) encDict, encoded))))"

end
