(* ===== verification/Filter_Chain.thy ===== *)
theory Filter_Chain
  imports Filter_Stream
begin

text \<open>
  The contract of the filters as a locale: on the data that an encoder accepts, decoding gives
  the data back. Chains keep it. The contract is discharged for the encoders of the code twice, for
  \<open>DecodeBytes\<close> and for \<open>DecodeStream\<close>.
\<close>

section \<open>The contract\<close>

locale stream_filters =
  fixes encode :: "'k \<Rightarrow> u8 list \<Rightarrow> (filter_error, u8 list) run"
    and decode :: "'k \<Rightarrow> u8 list \<Rightarrow> (filter_error, u8 list) run"
    and accepts :: "'k \<Rightarrow> u8 list \<Rightarrow> bool"
  assumes inverse: "accepts k data \<Longrightarrow> \<exists>e. encode k data = Some (Ok e) \<and> decode k e = Some (Ok data)"
begin

text \<open>A chain encodes with the last filter first. Each filter has to accept what it gets.\<close>

fun chain_encode :: "'k list \<Rightarrow> u8 list \<Rightarrow> (filter_error, u8 list) run" where
  "chain_encode [] data = Some (Ok data)"
| "chain_encode (k # ks) data = run_bind (chain_encode ks data) (encode k)"

fun chain_decode :: "'k list \<Rightarrow> u8 list \<Rightarrow> (filter_error, u8 list) run" where
  "chain_decode [] data = Some (Ok data)"
| "chain_decode (k # ks) data = run_bind (decode k data) (chain_decode ks)"

fun chain_accepts :: "'k list \<Rightarrow> u8 list \<Rightarrow> bool" where
  "chain_accepts [] data = True"
| "chain_accepts (k # ks) data =
    (chain_accepts ks data \<and> (case chain_encode ks data of Some (Ok e) \<Rightarrow> accepts k e | _ \<Rightarrow> False))"

lemma chain_inverse:
  "chain_accepts ks data \<Longrightarrow> \<exists>e. chain_encode ks data = Some (Ok e) \<and> chain_decode ks e = Some (Ok data)"
proof (induction ks)
  case (Cons k ks)
  then obtain e where e: "chain_encode ks data = Some (Ok e)" "chain_decode ks e = Some (Ok data)" by auto
  with Cons.prems have "accepts k e" by simp
  from inverse [OF this] e show ?case by auto
qed simp

lemma decode_encode: "accepts k data \<Longrightarrow> run_bind (encode k data) (decode k) = Some (Ok data)"
  using inverse [of k data] by auto

end

section \<open>The encoders of the code\<close>

text \<open>Where an encoder and the \<open>DecodeBytes\<close> of it are inverse.\<close>

fun bytes_accepted :: "'g library \<Rightarrow> 'g StreamEncoder \<Rightarrow> u8 list \<Rightarrow> bool" where
  "bytes_accepted L Raw data = True"
| "bytes_accepted L RunLength data = (data \<noteq> [])"
| "bytes_accepted L ASCIIHex data = True"
| "bytes_accepted L ASCII85 data = (ASCII85_excess data = [])"
| "bytes_accepted L (Flate enc) data = (zlib_ok (codecs L) \<and> Predictor enc = 1)"
| "bytes_accepted L (LZW enc) data = (lzw_ok (codecs L) \<and> Predictor enc = 1 \<and> EarlyChange enc = 0)"
| "bytes_accepted L _ data = False"

interpretation byte_filters: stream_filters "EncodeBytes L" "DecodeBytes L" "bytes_accepted L" for L
proof
  fix enc data
  assume "bytes_accepted L enc data"
  then show "\<exists>e. EncodeBytes L enc data = Some (Ok e) \<and> DecodeBytes L enc e = Some (Ok data)"
    using RunLength_roundtrip [of data] ASCIIHex_roundtrip [of data] ASCII85_roundtrip [of data]
    by (cases enc)
      (auto simp: Raw_EncodeBytes_def Raw_DecodeBytes_def ASCIIHex_EncodeBytes_def ASCII85_EncodeBytes_def
        Flate_EncodeBytes_def Flate_DecodeBytes_def LZW_EncodeBytes_def LZW_DecodeBytes_def zlib_ok_def lzw_ok_def)
qed

text \<open>With \<open>DecodeStream\<close> the predictor of Flate is undone.\<close>

fun stream_accepted :: "'g library \<Rightarrow> 'g StreamEncoder \<Rightarrow> u8 list \<Rightarrow> bool" where
  "stream_accepted L (Flate enc) data = (zlib_ok (codecs L) \<and> flate_writable enc data)"
| "stream_accepted L (Multi encs) data = byte_filters.chain_accepts L encs data"
| "stream_accepted L enc data = bytes_accepted L enc data"

text \<open>The loops over the encoders are chains.\<close>

lemma Multi_EncodeBytes: "EncodeBytes L (Multi encs) data = byte_filters.chain_encode L encs data"
  by (induction encs) simp_all

lemma fold_run_bind:
  "fold (\<lambda>enc r. run_bind r (f enc)) encs r = run_bind r (\<lambda>d. fold (\<lambda>enc r. run_bind r (f enc)) encs (Some (Ok d)))"
proof (induction encs arbitrary: r)
  case (Cons enc encs)
  have "fold (\<lambda>enc r. run_bind r (f enc)) (enc # encs) r = run_bind (run_bind r (f enc))
      (\<lambda>d. fold (\<lambda>enc r. run_bind r (f enc)) encs (Some (Ok d)))"
    using Cons [of "run_bind r (f enc)"] by simp
  also have "\<dots> = run_bind r (\<lambda>d. fold (\<lambda>enc r. run_bind r (f enc)) encs (f enc d))"
    by (simp only: run_bind_assoc Cons [of "f enc d" for d, symmetric])
  finally show ?case by simp
qed simp

lemma Multi_DecodeBytes: "DecodeBytes L (Multi encs) data = byte_filters.chain_decode L encs data"
proof (induction encs arbitrary: data)
  case (Cons enc encs)
  have "DecodeBytes L (Multi (enc # encs)) data =
      run_bind (DecodeBytes L enc data) (\<lambda>d. fold (\<lambda>enc r. run_bind r (DecodeBytes L enc)) encs (Some (Ok d)))"
    by (simp add: fold_run_bind [of _ encs "DecodeBytes L enc data"])
  with Cons show ?case by simp
qed simp

interpretation streams: stream_filters "EncodeBytes L" "encoder_DecodeStream L" "stream_accepted L" for L
proof
  fix enc data
  assume acc: "stream_accepted L enc data"
  show "\<exists>e. EncodeBytes L enc data = Some (Ok e) \<and> encoder_DecodeStream L enc e = Some (Ok data)"
  proof (cases enc)
    case (Flate fl)
    with acc Flate_roundtrip [of "codecs L" fl data] show ?thesis by (auto simp: encoder_DecodeStream_def)
  next
    case (LZW lzw)
    with acc LZW_roundtrip [of "codecs L" lzw data] show ?thesis by (auto simp: encoder_DecodeStream_def)
  next
    case (Multi encs)
    with acc byte_filters.chain_inverse [of L encs data] show ?thesis
      by (simp only: Multi_EncodeBytes Multi_DecodeBytes stream_accepted.simps encoder_DecodeStream_def StreamEncoder.case)
  qed (use acc byte_filters.inverse [of L enc data] in \<open>simp_all add: encoder_DecodeStream_def\<close>)
qed

section \<open>A chain does not undo predictors\<close>

lemma Multi_predictor:
  assumes "zlib_ok (codecs L)" "Predictor enc = 11" "0 < n" "FlateEncoder.Columns enc = int n" "length data = rows * n"
  shows "run_bind (EncodeBytes L (Multi [ASCIIHex, Flate enc]) data)
      (encoder_DecodeStream L (Multi [ASCIIHex, Flate enc])) = Some (Ok (sub_rows rows n data))"
proof -
  have "Flate_EncodeBytes (codecs L) enc data = Ok (zlib_write (codecs L) (sub_rows rows n data))"
    using assms(2-5) by (rule Flate_EncodeBytes_sub)
  then show ?thesis using assms(1) ASCIIHex_roundtrip [of "zlib_write (codecs L) (sub_rows rows n data)"]
    by (simp add: encoder_DecodeStream_def ASCIIHex_EncodeBytes_def Flate_DecodeBytes_def zlib_ok_def)
qed

section \<open>Streams\<close>

text \<open>The entries that the functions of streams set do not matter for reading the parameters.\<close>

lemma dict_Get_Length:
  "dict_Get ''DecodeParms'' (dict_Set ''Length'' v d) = dict_Get ''DecodeParms'' d"
  "dict_Get ''EarlyChange'' (dict_Set ''Length'' v d) = dict_Get ''EarlyChange'' d"
  "dict_Get ''Decode'' (dict_Set ''Length'' v d) = dict_Get ''Decode'' d"
  "dict_Get ''Filter'' (dict_Set ''Length'' v d) = dict_Get ''Filter'' d"
  by (simp_all add: dict_Get_Set)

lemma Length_params [simp]:
  "newFlateEncoderFromStream resolve (dict_Set ''Length'' v d) p = newFlateEncoderFromStream resolve d p"
  "newLZWEncoderFromStream resolve (dict_Set ''Length'' v d) p = newLZWEncoderFromStream resolve d p"
  "newCCITTFaxEncoderFromStream F resolve (dict_Set ''Length'' v d) p = newCCITTFaxEncoderFromStream F resolve d p"
  "newJBIG2EncoderFromStream L F resolve (dict_Set ''Length'' v d) = newJBIG2EncoderFromStream L F resolve d"
  "multi_params resolve (dict_Set ''Length'' v d) = multi_params resolve d"
  unfolding newFlateEncoderFromStream_def newLZWEncoderFromStream_def newCCITTFaxEncoderFromStream_def
    newJBIG2EncoderFromStream_def multi_params_def dict_Get_Length by (rule refl)+

lemma multi_encoder_Length [simp]:
  "multi_encoder L resolve (dict_Set ''Length'' v d) stream encs name p = multi_encoder L resolve d stream encs name p"
  by (simp add: multi_encoder_def)

lemma multi_loop_Length [simp]:
  "multi_loop L resolve (dict_Set ''Length'' v d) stream dpDict dpArray idx encs objs =
   multi_loop L resolve d stream dpDict dpArray idx encs objs"
proof (induction objs arbitrary: idx encs)
  case (Cons obj objs)
  then show ?case by (cases obj) simp_all
qed simp

lemma single_encoder_Length [simp]:
  "single_encoder L F resolve (dict_Set ''Length'' v d) stream name = single_encoder L F resolve d stream name"
  by (simp add: single_encoder_def)

lemma newMultiEncoderFromStream_Length [simp]:
  "newMultiEncoderFromStream L resolve (dict_Set ''Length'' v d) stream = newMultiEncoderFromStream L resolve d stream"
  unfolding newMultiEncoderFromStream_def dict_Get_Length multi_loop_Length Length_params by (rule refl)

lemma NewEncoderFromStream_Length [simp]:
  "NewEncoderFromStream L F resolve (dict_Set ''Length'' v d) stream = NewEncoderFromStream L F resolve d stream"
  unfolding NewEncoderFromStream_def dict_Get_Length single_encoder_Length newMultiEncoderFromStream_Length
  by (rule refl)

text \<open>The encoder of a stream depends on its data only for images.\<close>

fun no_images :: "'g StreamEncoder \<Rightarrow> bool" where
  "no_images (DCT enc) = False"
| "no_images (Multi encs) = list_all no_images encs"
| "no_images enc = True"

lemma multi_loop_prefix:
  "multi_loop L resolve d stream dpDict dpArray idx encs objs = Some (Ok encs') \<Longrightarrow> prefix encs encs'"
proof (induction objs arbitrary: idx encs)
  case (Cons obj objs)
  then show ?case
    by (auto simp: run_bind_eq_Ok split: PdfObject.splits dest!: Cons.IH intro: append_prefixD)
qed simp

lemma single_encoder_data:
  assumes "single_encoder L F resolve d stream name = Some (Ok enc)" "no_images enc"
  shows "single_encoder L F resolve d stream' name = Some (Ok enc)"
  using assms
  by (auto simp: single_encoder_def newDCTEncoderFromStream_def rbind_eq_Ok split: if_splits)

lemma multi_loop_data:
  assumes "multi_loop L resolve d stream dpDict dpArray idx encs objs = Some (Ok encs')" "list_all no_images encs'"
  shows "multi_loop L resolve d stream' dpDict dpArray idx encs objs = Some (Ok encs')"
  using assms(1)
proof (induction objs arbitrary: idx encs)
  case (Cons obj objs)
  then obtain name where name: "obj = PdfObjectName name" by (cases obj) auto
  from Cons.prems obtain dp enc where run: "filter_params dpDict dpArray idx = Some (Ok dp)"
    "multi_encoder L resolve d stream encs name dp = Some (Ok enc)"
    "multi_loop L resolve d stream dpDict dpArray (idx + 1) (encs @ [enc]) objs = Some (Ok encs')"
    by (auto simp: name run_bind_eq_Ok)
  have "prefix (encs @ [enc]) encs'" using multi_loop_prefix [OF run(3)] .
  then have "no_images enc" using assms(2) by (auto simp: prefix_def)
  with run(2) have "multi_encoder L resolve d stream' encs name dp = Some (Ok enc)"
    by (auto simp: multi_encoder_def newDCTEncoderFromStream_def run_bind_eq_Ok rbind_eq_Ok split: if_splits)
  with run(1) Cons.IH [OF run(3)] show ?case by (simp add: name)
qed simp

lemma NewEncoderFromStream_data:
  assumes "NewEncoderFromStream L F resolve d stream = Some (Ok enc)" "no_images enc"
  shows "NewEncoderFromStream L F resolve d stream' = Some (Ok enc)"
proof -
  have multi: "newMultiEncoderFromStream L resolve d stream' = Some (Ok enc)"
    if "newMultiEncoderFromStream L resolve d stream = Some (Ok enc)"
    using that assms(2) multi_loop_data [of L resolve d stream _ _ 0 "[]" _ _ stream']
    by (auto simp: newMultiEncoderFromStream_def run_bind_eq_Ok split: option.splits PdfObject.splits prod.splits)
  show ?thesis
    using assms single_encoder_data multi
    by (auto simp: NewEncoderFromStream_def split: option.splits PdfObject.splits if_splits)
qed

lemma chain_no_images: "byte_filters.chain_accepts L encs data \<Longrightarrow> list_all no_images encs"
proof (induction encs)
  case (Cons enc encs)
  then obtain e where "bytes_accepted L enc e" "list_all no_images encs"
    by (auto split: option.splits res.splits)
  then show ?case by (cases enc) auto
qed simp

lemma stream_accepted_no_images: "stream_accepted L enc data \<Longrightarrow> no_images enc"
  by (cases enc) (auto dest: chain_no_images)

section \<open>Encoding and decoding a stream object\<close>

text \<open>The encoder with which \<open>EncodeStream\<close> writes.\<close>

fun written_with :: "'g StreamEncoder \<Rightarrow> 'g StreamEncoder" where
  "written_with (LZW enc) = LZW (enc\<lparr>EarlyChange := 0\<rparr>)"
| "written_with enc = enc"

lemma read_params_EarlyChange:
  "read_params p (enc\<lparr>EarlyChange := x\<rparr>) = rbind (read_params p enc) (\<lambda>enc. Ok (enc\<lparr>EarlyChange := x\<rparr>))"
  for enc :: LZWEncoder
  by (cases enc; cases "integer_param ''Predictor'' p :: (filter_error, int option) res";
      cases "integer_param ''BitsPerComponent'' p :: (filter_error, int option) res";
      cases "integer_param ''Columns'' p :: (filter_error, int option) res";
      cases "integer_param ''Colors'' p :: (filter_error, int option) res")
    (simp_all add: read_params_def Let_def split: option.split)

lemma newLZW_EarlyChange:
  assumes "newLZWEncoderFromStream resolve d None = Ok enc"
  shows "newLZWEncoderFromStream resolve (dict_Set ''EarlyChange'' (MakeInteger 0) d) None = Ok (enc\<lparr>EarlyChange := 0\<rparr>)"
proof -
  define params where "params d = (case dict_Get ''DecodeParms'' d of
             None \<Rightarrow> Ok None
           | Some (PdfObjectDictionary dp) \<Rightarrow> Ok (Some dp)
           | Some (PdfObjectArray a) \<Rightarrow>
               if length a = 1 then
                 (case GetDict resolve (array_Get a 0) of Some dp \<Rightarrow> Ok (Some dp) | None \<Rightarrow> Err InvalidDecodeParms)
               else Err InvalidDecodeParms
           | Some _ \<Rightarrow> (Err InvalidDecodeParms :: (filter_error, 'a PdfObject pdf_dict option) res))" for d
  have params_Set: "params (dict_Set ''EarlyChange'' v d) = params d" for v by (simp add: params_def dict_Get_Set)
  define early :: "'a PdfObject pdf_dict \<Rightarrow> (filter_error, LZWEncoder) res" where "early d =
      (case dict_Get ''EarlyChange'' d of
             Some (PdfObjectInteger v) \<Rightarrow>
               if v \<noteq> 0 \<and> v \<noteq> 1 then Err (InvalidParameter ''EarlyChange'')
               else Ok (NewLZWEncoder\<lparr>EarlyChange := sint v\<rparr>)
           | Some _ \<Rightarrow> Err (InvalidParameter ''EarlyChange'')
           | None \<Rightarrow> Ok (NewLZWEncoder\<lparr>EarlyChange := 1\<rparr>))" for d
  have new: "newLZWEncoderFromStream resolve d None =
      rbind (params d) (\<lambda>p. rbind (early d) (\<lambda>enc. case p of None \<Rightarrow> Ok enc | Some p \<Rightarrow> read_params p enc))" for d
    by (simp add: newLZWEncoderFromStream_def params_def early_def)
  from assms obtain p start where p: "params d = Ok p" "early d = Ok start"
    "(case p of None \<Rightarrow> Ok start | Some p \<Rightarrow> read_params p start) = Ok enc"
    by (auto simp: new rbind_eq_Ok)
  then obtain x where x: "start = NewLZWEncoder\<lparr>EarlyChange := x\<rparr>"
    by (auto simp: early_def split: option.splits PdfObject.splits if_splits)
  have "(case p of None \<Rightarrow> Ok (NewLZWEncoder\<lparr>EarlyChange := 0\<rparr>) | Some p \<Rightarrow> read_params p (NewLZWEncoder\<lparr>EarlyChange := 0\<rparr>)) =
      Ok (enc\<lparr>EarlyChange := 0\<rparr>)"
    using p(3) x by (cases p) (auto simp: read_params_EarlyChange [where enc = NewLZWEncoder] rbind_eq_Ok)
  moreover have "early (dict_Set ''EarlyChange'' (MakeInteger 0) d) = Ok (NewLZWEncoder\<lparr>EarlyChange := 0\<rparr>)"
    by (simp add: early_def dict_Get_Set MakeInteger_def)
  ultimately show ?thesis using p(1) by (simp add: new params_Set)
qed

lemma single_encoder_LZW: "single_encoder L F resolve d s name = Some (Ok (LZW enc)) \<Longrightarrow> name = ''LZWDecode''"
  by (auto simp: single_encoder_def newDCTEncoderFromStream_def rbind_eq_Ok newJBIG2EncoderFromStream_def split: if_splits)

lemma NewEncoderFromStream_LZW:
  assumes "NewEncoderFromStream L F resolve d s = Some (Ok (LZW enc))"
  shows "NewEncoderFromStream L F resolve (dict_Set ''EarlyChange'' (MakeInteger 0) d) s = Some (Ok (LZW (enc\<lparr>EarlyChange := 0\<rparr>)))"
proof -
  have Filter: "dict_Get ''Filter'' (dict_Set ''EarlyChange'' v d) = dict_Get ''Filter'' d" for v
    by (simp add: dict_Get_Set)
  have single: "single_encoder L F resolve (dict_Set ''EarlyChange'' (MakeInteger 0) d) s name = Some (Ok (LZW (enc\<lparr>EarlyChange := 0\<rparr>)))"
    if "single_encoder L F resolve d s name = Some (Ok (LZW enc))" for name
  proof -
    have "newLZWEncoderFromStream resolve d None = Ok enc"
      using that single_encoder_LZW [OF that] by (simp add: single_encoder_def rbind_eq_Ok)
    from newLZW_EarlyChange [OF this] single_encoder_LZW [OF that] show ?thesis by (simp add: single_encoder_def)
  qed
  have "newMultiEncoderFromStream L resolve d s \<noteq> Some (Ok (LZW enc))"
    by (auto simp: newMultiEncoderFromStream_def run_bind_eq_Ok split: option.splits PdfObject.splits prod.splits)
  with assms single show ?thesis
    unfolding NewEncoderFromStream_def Filter by (auto split: option.splits PdfObject.splits if_splits)
qed

lemma Stream_roundtrip:
  assumes "NewEncoderFromStream L F resolve d data = Some (Ok enc)" "stream_accepted L (written_with enc) data"
  shows "\<exists>d' e. EncodeStream L F resolve d data = Some (Ok (d', e)) \<and> DecodeStream L F resolve d' e = Some (Ok data)"
proof -
  from streams.inverse [OF assms(2)] obtain e where
    e: "EncodeBytes L (written_with enc) data = Some (Ok e)" "encoder_DecodeStream L (written_with enc) e = Some (Ok data)"
    by blast
  define d1 where "d1 = (case enc of LZW _ \<Rightarrow> dict_Set ''EarlyChange'' (MakeInteger 0) d | _ \<Rightarrow> d)"
  have "NewEncoderFromStream L F resolve d1 data = Some (Ok (written_with enc))"
    using assms(1) NewEncoderFromStream_LZW by (cases enc) (auto simp: d1_def)
  from NewEncoderFromStream_data [OF this stream_accepted_no_images [OF assms(2)], of e]
  have "NewEncoderFromStream L F resolve (dict_Set ''Length'' (MakeInteger (int (length e))) d1) e = Some (Ok (written_with enc))"
    by simp
  then have "DecodeStream L F resolve (dict_Set ''Length'' (MakeInteger (int (length e))) d1) e = Some (Ok data)"
    using e(2) by (simp add: DecodeStream_def)
  moreover have "EncodeStream L F resolve d data = Some (Ok (dict_Set ''Length'' (MakeInteger (int (length e))) d1, e))"
    using assms(1) e(1) by (cases enc) (simp_all add: EncodeStream_def d1_def del: EncodeBytes.simps)
  ultimately show ?thesis by blast
qed

section \<open>Dictionaries that are written are read back\<close>

fun dict_written :: "'g StreamEncoder \<Rightarrow> bool" where
  "dict_written (Flate enc) = params_written enc"
| "dict_written (LZW enc) = (params_written enc \<and> (EarlyChange enc = 0 \<or> EarlyChange enc = 1))"
| "dict_written (CCITTFax enc) = (fax_written enc \<and> DamagedRowsBeforeError enc = 0)"
| "dict_written Raw = True"
| "dict_written RunLength = True"
| "dict_written ASCIIHex = True"
| "dict_written ASCII85 = True"
| "dict_written _ = False"

lemma Filter_MakeStreamDict:
  "dict_Get ''Filter'' (Flate_MakeStreamDict fl) = Some (PdfObjectName ''FlateDecode'')"
  "dict_Get ''Filter'' (LZW_MakeStreamDict lzw) = Some (PdfObjectName ''LZWDecode'')"
  "dict_Get ''Filter'' (Fax_MakeStreamDict fax) = Some (PdfObjectName ''CCITTFaxDecode'')"
  "dict_Get ''Filter'' (filter_dict name) = Some (PdfObjectName name)"
  by (simp_all add: Flate_MakeStreamDict_def LZW_MakeStreamDict_def Fax_MakeStreamDict_def filter_dict_def
      set_params_def dict_Get_Set split: option.split)

lemma NewEncoder_MakeStreamDict:
  assumes "dict_written enc"
  shows "NewEncoderFromStream L F resolve (MakeStreamDict F enc) stream = Some (Ok enc)"
proof (cases enc)
  case (CCITTFax fax)
  then have w: "fax_written fax" "DamagedRowsBeforeError fax = 0" using assms by simp_all
  then have "in_int64 (DamagedRowsBeforeError fax)" by (simp add: in_int64_def)
  from newFax_MakeStreamDict [OF w(1) this, of F resolve] w(2) show ?thesis
    by (cases fax) (simp add: CCITTFax NewEncoderFromStream_def Filter_MakeStreamDict single_encoder_def)
qed (use assms in \<open>simp_all add: NewEncoderFromStream_def Filter_MakeStreamDict single_encoder_def
      newFlate_MakeStreamDict newLZW_MakeStreamDict\<close>)

text \<open>The dictionary of a chain has one name with a space in it, which is no filter.\<close>

lemma separated_space: "2 \<le> length ts \<Longrightarrow> CHR '' '' \<in> set (separated '' '' ts)"
  by (induction "'' ''" ts rule: separated.induct) auto

lemma pass_values_Filter: "dict_Get ''Filter'' (pass_values d' d) = dict_Get ''Filter'' d"
proof -
  have "dict_Get ''Filter'' (fold (\<lambda>key d. case dict_Get key d' of
        Some val \<Rightarrow> if key \<noteq> ''Filter'' \<and> key \<noteq> ''DecodeParms'' then dict_Set key val d else d
      | None \<Rightarrow> d) ks d) = dict_Get ''Filter'' d" for ks
    by (induction ks arbitrary: d) (auto simp: dict_Get_Set split: option.split)
  then show ?thesis by (simp add: pass_values_def)
qed

lemma fold_pass_values_Filter:
  "dict_Get ''Filter'' (fold (\<lambda>enc. pass_values (f enc)) encs d) = dict_Get ''Filter'' d"
  by (induction encs arbitrary: d) (simp_all add: pass_values_Filter)

lemma Multi_MakeStreamDict_unreadable:
  fixes F :: "'f fops"
  assumes "2 \<le> length encs"
  shows "NewEncoderFromStream L F resolve (MakeStreamDict F (Multi encs)) stream = Some (Err (InvalidParameter ''Filter''))"
proof -
  define name where "name = GetFilterName (Multi encs)"
  have space: "CHR '' '' \<in> set name" using assms by (simp add: name_def separated_space)
  have "dict_Get ''Filter'' (MakeStreamDict F (Multi encs)) = Some (PdfObjectName name)"
    by (cases "MakeDecodeParams (Multi encs) ::  'f PdfObject option")
      (simp_all add: Let_def fold_pass_values_Filter Filter_MakeStreamDict name_def dict_Get_Set
        del: GetFilterName.simps MakeDecodeParams.simps)
  moreover have no: "(name = t) = False" if "CHR '' '' \<notin> set t" for t using space that by auto
  then have "single_encoder L F resolve d s name = Some (Err (InvalidParameter ''Filter''))" for d s
    by (simp add: single_encoder_def)
  ultimately show ?thesis by (simp add: NewEncoderFromStream_def)
qed

end
