(* ===== verification/Filter_Properties.thy ===== *)
theory Filter_Properties
  imports Filter_Chain
begin

text \<open>
  The properties of the stream filters, each followed by a theorem that applies it to concrete
  data.
\<close>

text \<open>A library for concrete data: the compressors store it as it is, and there are no images.\<close>

definition storing_codecs :: codecs where
  "storing_codecs = \<lparr>zlib_read = Some, zlib_write = id, lzw1_read = Some, lzw0_read = Some, lzw0_write = id\<rparr>"

definition no_jpeg :: jpeg_codec where
  "no_jpeg = \<lparr>jpeg_DecodeConfig = (\<lambda>_. None), jpeg_Decode = (\<lambda>_. None), jpeg_Encode = (\<lambda>_ _. None),
    YCbCr_RGBA = (\<lambda>_ _ _. (0, 0, 0))\<rparr>"

definition storing_library :: "unit library" where
  "storing_library = \<lparr>codecs = storing_codecs, jpeg = no_jpeg, jbig2_globals = (\<lambda>_. None),
    jbig2_page = (\<lambda>_ _ _. Some (Err NoEncoding))\<rparr>"

definition no_file :: "int resolver" where
  "no_file = (\<lambda>_ _. PdfObjectNull)"

lemma storing_library_ok [simp]: "zlib_ok (codecs storing_library)" "lzw_ok (codecs storing_library)"
  by (simp_all add: storing_library_def storing_codecs_def zlib_ok_def lzw_ok_def)

section \<open>Streams\<close>

text \<open>C2: \<open>DecodeStream\<close> gives back the data that \<open>EncodeStream\<close> wrote, for every dictionary of the
  stream from which an encoder can be made that accepts the data: no filter, run length (not of empty
  data), ASCII hex, ASCII 85 (unless the last group is incomplete and zero), Flate (without predictor or
  with the sub filter, one colour and whole rows), LZW without predictor, and chains of these without
  predictors. The entries that \<open>EncodeStream\<close> sets in the dictionary do not disturb it.\<close>
theorem stream_encode_decode:
  assumes "NewEncoderFromStream L F resolve d data = Some (Ok enc)" "stream_accepted L (written_with enc) data"
  shows "\<exists>d' e. EncodeStream L F resolve d data = Some (Ok (d', e)) \<and> DecodeStream L F resolve d' e = Some (Ok data)"
  using assms by (rule Stream_roundtrip)

lemma stream_encode_decode_witness:
  "\<exists>d' e. EncodeStream storing_library int_fops no_file
      (MakeStreamDict int_fops (Flate (SetPredictor 2 NewFlateEncoder) :: unit StreamEncoder)) [7, 9, 200, 3] = Some (Ok (d', e)) \<and>
    DecodeStream storing_library int_fops no_file d' e = Some (Ok [7, 9, 200, 3])"
proof (rule stream_encode_decode)
  show "NewEncoderFromStream storing_library int_fops no_file
      (MakeStreamDict int_fops (Flate (SetPredictor 2 NewFlateEncoder) :: unit StreamEncoder)) [7, 9, 200, 3] =
      Some (Ok (Flate (SetPredictor 2 NewFlateEncoder)))"
    by (rule NewEncoder_MakeStreamDict)
      (simp add: params_written_def params_ok_def in_int64_def SetPredictor_def NewFlateEncoder_def)
  show "stream_accepted storing_library (written_with (Flate (SetPredictor 2 NewFlateEncoder))) [7, 9, 200, 3]"
    by (simp add: flate_writable_def SetPredictor_def NewFlateEncoder_def)
qed

text \<open>C17: The encoder that is made from the dictionary that an encoder writes is that encoder, with
  all its parameters: for Flate and LZW with a predictor, for CCITT fax where the dictionary can say what
  the parameters are, and for the filters without parameters.\<close>
theorem encoder_dict_roundtrip:
  assumes "dict_written enc"
  shows "NewEncoderFromStream L F resolve (MakeStreamDict F enc) stream = Some (Ok enc)"
  using assms by (rule NewEncoder_MakeStreamDict)

lemma encoder_dict_roundtrip_witness:
  "NewEncoderFromStream storing_library int_fops no_file
      (MakeStreamDict int_fops (CCITTFax (NewCCITTFaxEncoder\<lparr>K := - 1, Encoder.Columns := 24, BlackIs1 := True\<rparr>) :: unit StreamEncoder)) [] =
    Some (Ok (CCITTFax (NewCCITTFaxEncoder\<lparr>K := - 1, Encoder.Columns := 24, BlackIs1 := True\<rparr>))) \<and>
   NewEncoderFromStream storing_library int_fops no_file
      (MakeStreamDict int_fops (LZW (NewLZWEncoder\<lparr>Predictor := 12, FlateEncoder.Columns := 3, Colors := 4\<rparr>) :: unit StreamEncoder)) [] =
    Some (Ok (LZW (NewLZWEncoder\<lparr>Predictor := 12, FlateEncoder.Columns := 3, Colors := 4\<rparr>)))"
  by (intro conjI encoder_dict_roundtrip)
    (simp_all add: fax_written_def params_written_def params_ok_def in_int64_def NewCCITTFaxEncoder_def NewLZWEncoder_def)

text \<open>No encoder can be made from the dictionary that a chain of two or more filters writes: it
  has one name with spaces in it in the place of an array of names.\<close>
theorem chain_dict_unreadable:
  assumes "2 \<le> length encs"
  shows "NewEncoderFromStream L F resolve (MakeStreamDict F (Multi encs)) stream = Some (Err (InvalidParameter ''Filter''))"
  using assms by (rule Multi_MakeStreamDict_unreadable)

lemma chain_dict_unreadable_witness:
  "NewEncoderFromStream storing_library int_fops no_file (MakeStreamDict int_fops (Multi [ASCII85, Flate NewFlateEncoder])) [1, 2] =
    Some (Err (InvalidParameter ''Filter''))"
  by (rule chain_dict_unreadable) simp

text \<open>A chain does not undo predictors: what comes out of the chain of ASCII hex and Flate with a
  predictor, for data that the same chain encoded, are the rows with their filter bytes.\<close>
theorem chain_keeps_predictor:
  assumes "zlib_ok (codecs L)" "Predictor enc = 11" "0 < n" "FlateEncoder.Columns enc = int n" "length data = rows * n"
  shows "run_bind (EncodeBytes L (Multi [ASCIIHex, Flate enc]) data)
      (encoder_DecodeStream L (Multi [ASCIIHex, Flate enc])) = Some (Ok (sub_rows rows n data))"
  using assms by (rule Multi_predictor)

lemma chain_keeps_predictor_witness:
  "run_bind (EncodeBytes storing_library (Multi [ASCIIHex, Flate (SetPredictor 2 NewFlateEncoder)]) [5, 7, 1, 1])
      (encoder_DecodeStream storing_library (Multi [ASCIIHex, Flate (SetPredictor 2 NewFlateEncoder)])) =
    Some (Ok [1, 5, 2, 1, 1, 0])"
proof -
  have "sub_rows 2 2 [5, 7, 1, 1] = [1, 5, 2, 1, 1, 0]" by (simp add: numeral_eq_Suc sub_row_def)
  with chain_keeps_predictor [of storing_library "SetPredictor 2 NewFlateEncoder" 2 "[5, 7, 1, 1]" 2] show ?thesis
    by (simp add: SetPredictor_def NewFlateEncoder_def)
qed

section \<open>Predictors\<close>

text \<open>C18: The Flate decoder undoes the filters of the PNG specification. Whatever filter was used for each
  row, and for any number of columns and colours, the rows come back; the TIFF predictor comes back, too.\<close>
theorem predictors_undone:
  assumes "0 < columns" "0 < colors" "int columns * int colors < 2 ^ 63 - 1" "rows \<noteq> []"
    and "list_all (\<lambda>(f, row). length row = columns * colors) rows"
  shows "png_predict (int columns) (int colors) (png_encode colors (replicate (columns * colors) 0) rows) =
      Ok (concat (map snd rows)) \<and>
    tiff_predict (int columns) (int colors) (concat (map (tiff_filtered colors) (map snd rows))) =
      Ok (concat (map snd rows))"
proof -
  have "list_all (\<lambda>row. length row = columns * colors) (map snd rows)"
    using assms(5) by (auto simp: list_all_iff)
  then have "tiff_predict (int columns) (int colors) (concat (map (tiff_filtered colors) (map snd rows))) = Ok (concat (map snd rows))"
    using assms(3,4) by (intro tiff_predict_encode assms(1,2)) auto
  with png_predict_encode [OF assms] show ?thesis by simp
qed

lemma predictors_undone_witness:
  "png_predict 2 1 (png_encode 1 [0, 0] [(PngSub, [10, 12]), (PngPaeth, [9, 250]), (PngAverage, [1, 2])]) = Ok [10, 12, 9, 250, 1, 2]"
  using predictors_undone [of 2 1 "[(PngSub, [10, 12]), (PngPaeth, [9, 250]), (PngAverage, [1, 2])]"]
  by (simp add: numeral_eq_Suc)

text \<open>The encoder of Flate makes its rows without regard to the number of colours, the decoder does not: an
  image of one row with more than one colour cannot be decoded after it was encoded with a predictor.\<close>
theorem flate_predictor_colors:
  assumes "zlib_ok C" "BitsPerComponent enc = 8" "Predictor enc = 11" "0 < n" "1 < c" "int n * int c < 2 ^ 63 - 1"
    "FlateEncoder.Columns enc = int n" "Colors enc = int c" "length data = c * n"
  shows "rbind (Flate_EncodeBytes C enc data) (Flate_DecodeStream C enc) =
    Err (InvalidRowLength (int (c * Suc n)) (int (n * c + 1)))"
  using assms by (rule Flate_colors_mismatch)

lemma flate_predictor_colors_witness:
  "rbind (Flate_EncodeBytes storing_codecs (SetPredictor 2 NewFlateEncoder\<lparr>Colors := 3\<rparr>) [1, 2, 3, 4, 5, 6])
     (Flate_DecodeStream storing_codecs (SetPredictor 2 NewFlateEncoder\<lparr>Colors := 3\<rparr>)) = Err (InvalidRowLength 9 7)"
  using flate_predictor_colors [of storing_codecs "SetPredictor 2 NewFlateEncoder\<lparr>Colors := 3\<rparr>" 2 3 "[1, 2, 3, 4, 5, 6]"]
  by (simp add: SetPredictor_def NewFlateEncoder_def storing_codecs_def zlib_ok_def)

section \<open>Bytes\<close>

text \<open>C19: Run length encoding does not fail on data, its decoding gives the data back, and it is at most twice
  as long and one byte longer. Empty data is encoded to an empty stream, which the decoder refuses.\<close>
theorem run_length_inverse:
  "\<exists>e. RunLength_EncodeBytes data = Ok e \<and> length e \<le> 2 * length data + 1 \<and>
    RunLength_DecodeBytes e = (if data = [] then Err filter_error.UnexpectedEOF else Ok data)"
proof (cases "data = []")
  case True
  then show ?thesis by (simp add: RunLength_EncodeBytes_def RunLength_DecodeBytes_def)
next
  case False
  from RunLength_roundtrip [OF this] False show ?thesis by auto
qed

text \<open>C20: ASCII 85 gives the data back, followed by the zeros by which an incomplete last group of zeros is short of
  four bytes; ASCII hex gives all data back, and white space anywhere in its text changes nothing.\<close>
theorem ascii_inverse:
  "rbind (ASCII85_EncodeBytes data) ASCII85_DecodeBytes = Ok (data @ ASCII85_excess data) \<and>
   rbind (ASCIIHex_EncodeBytes data) ASCIIHex_DecodeBytes = Ok data \<and>
   ASCIIHex_DecodeBytes (filter (\<lambda>b. \<not> IsWhiteSpace (byte_char b)) s) = ASCIIHex_DecodeBytes s"
  by (simp add: ASCII85_roundtrip ASCIIHex_roundtrip ASCIIHex_space)

section \<open>Images\<close>

text \<open>C21: The CCITT fax filter takes one byte per pixel and gives one bit per pixel: after encoding, decoding returns
  the packed bits of the pixels, 1 for the bytes 255, in all three schemes and with every option of the coder.\<close>
theorem fax_filter_packs:
  assumes "fax_image enc data rows"
  shows "run_bind (Fax_EncodeBytes enc data) (Fax_DecodeBytes enc) = Some (Ok (pack (map (\<lambda>p. p = 255) data)))"
  using assms by (rule Fax_roundtrip)

lemma fax_filter_packs_witness:
  "run_bind (Fax_EncodeBytes (NewCCITTFaxEncoder\<lparr>K := - 1, Encoder.Columns := 3\<rparr>) [255, 0, 255, 0, 0, 255])
     (Fax_DecodeBytes (NewCCITTFaxEncoder\<lparr>K := - 1, Encoder.Columns := 3\<rparr>)) = Some (Ok (pack [True, False, True, False, False, True]))"
  using fax_filter_packs [of "NewCCITTFaxEncoder\<lparr>K := - 1, Encoder.Columns := 3\<rparr>" "[255, 0, 255, 0, 0, 255]" 2]
  by (simp add: fax_image_def NewCCITTFaxEncoder_def)

text \<open>The DCT filter takes the pixels out of an image in the order in which it draws them: the bytes of the image
  that is drawn from data of its size are the data, for gray and colour images of 8 and 16 bits.\<close>
theorem dct_pixels_inverse:
  assumes "pixel_format enc n" "0 < w" "0 < h" "Width enc = int w" "Height enc = int h"
    "length data = n * (w * h)" "8 * int (length data) < 2 ^ 63"
  shows "rbind (DCT_image enc data) (DCT_bytes J enc) = Ok data"
  using assms by (rule DCT_bytes_image)

lemma dct_pixels_inverse_witness:
  "rbind (DCT_image (NewDCTEncoder\<lparr>Width := 1, Height := 2\<rparr>) [1, 2, 3, 4, 5, 6])
    (DCT_bytes no_jpeg (NewDCTEncoder\<lparr>Width := 1, Height := 2\<rparr>)) = Ok [1, 2, 3, 4, 5, 6]"
  by (rule dct_pixels_inverse [where n = 3 and w = 1 and h = 2]) (simp_all add: NewDCTEncoder_def pixel_format_def)

end
