(* ===== verification/Huffman_Tables.thy ===== *)
theory Huffman_Tables
  imports Bit_Streams
begin

text \<open>
  The Huffman tables of JBIG2 (\<open>pdf/internal/jbig2/decoder/huffman\<close>): the assignment of canonical codes to the
  lines of a table (\<open>table.go\<close>), the tree of codes (\<open>node.go\<close>), the standard tables, tables of fixed size and
  tables that are read from a segment. Codes are words of 64 bits, as Go's \<open>int\<close>. A node does not keep its depth,
  which is its level in the tree; the level is an argument of \<open>append_code\<close>.
\<close>

section \<open>Lines and their codes (table.go)\<close>

record code =
  prefixLength :: nat
  rangeLength :: int
  rangeLow :: int
  isLowerRange :: bool
  code_bits :: u64

definition NewCode :: "nat \<Rightarrow> int \<Rightarrow> int \<Rightarrow> bool \<Rightarrow> code" where
  "NewCode prefLen rangeLen low lower =
    \<lparr>prefixLength = prefLen, rangeLength = rangeLen, rangeLow = low, isLowerRange = lower, code_bits = -1\<rparr>"

definition count_lengths :: "code list \<Rightarrow> nat list" where
  "count_lengths codeTable =
    (let maxPrefixLength = foldl max 0 (map prefixLength codeTable);
         lenCount = foldl (\<lambda>n c. n[prefixLength c := n ! prefixLength c + 1]) (replicate (maxPrefixLength + 1) 0) codeTable
     in lenCount[0 := 0])"

fun assign_codes :: "nat \<Rightarrow> u64 \<Rightarrow> code list \<Rightarrow> code list" where
  "assign_codes curLen curCode [] = []"
| "assign_codes curLen curCode (c # cs) =
    (if prefixLength c = curLen then c\<lparr>code_bits := curCode\<rparr> # assign_codes curLen (curCode + 1) cs
     else c # assign_codes curLen curCode cs)"

text \<open>The loop over \<open>curLen\<close>; its list is the rest of \<open>lenCount\<close> from \<open>curLen - 1\<close> on, \<open>first\<close> is
  \<open>firstCode[curLen - 1]\<close>.\<close>

fun preprocess_loop :: "nat list \<Rightarrow> nat \<Rightarrow> u64 \<Rightarrow> code list \<Rightarrow> code list" where
  "preprocess_loop [] curLen first codeTable = codeTable"
| "preprocess_loop (n # lenCount) curLen first codeTable =
    (let curCode = push_bit 1 (first + of_nat n)
     in preprocess_loop lenCount (curLen + 1) curCode (assign_codes curLen curCode codeTable))"

definition preprocessCodes :: "code list \<Rightarrow> code list" where
  "preprocessCodes codeTable = preprocess_loop (count_lengths codeTable) 1 0 codeTable"

section \<open>The tree (node.go)\<close>

datatype node = OutOfBandNode | ValueNode int int bool | InternalNode "node option" "node option"

datatype huffman_error = NegativeShift | AlreadySet | IndexOutOfRange | ReaderError reader_error

definition leaf_of :: "code \<Rightarrow> node" where
  "leaf_of c =
    (if rangeLength c = -1 then OutOfBandNode else ValueNode (rangeLength c) (rangeLow c) (isLowerRange c))"

function append_code :: "nat \<Rightarrow> code \<Rightarrow> node \<Rightarrow> (huffman_error, node) res" where
  "append_code depth c (InternalNode zero one) =
    (if prefixLength c = 0 then Ok (InternalNode zero one)
     else if prefixLength c < depth + 1 then Err NegativeShift
     else
       let shift = prefixLength c - 1 - depth;
           bit = signed_drop_bit shift (code_bits c) AND 1
       in if shift = 0 then
            (if bit = 1 then
               (if one \<noteq> None then Err AlreadySet else Ok (InternalNode zero (Some (leaf_of c))))
             else
               (if zero \<noteq> None then Err AlreadySet else Ok (InternalNode (Some (leaf_of c)) one)))
          else if bit = 1 then
            (let child = (case one of None \<Rightarrow> InternalNode None None | Some n \<Rightarrow> n)
             in case append_code (depth + 1) c child of
                  Ok n \<Rightarrow> Ok (InternalNode zero (Some n))
                | Err e \<Rightarrow> Ok (InternalNode zero (Some child))
                | Panic \<Rightarrow> Panic)
          else
            (let child = (case zero of None \<Rightarrow> InternalNode None None | Some n \<Rightarrow> n)
             in case append_code (depth + 1) c child of
                  Ok n \<Rightarrow> Ok (InternalNode (Some n) one)
                | Err e \<Rightarrow> Ok (InternalNode (Some child) one)
                | Panic \<Rightarrow> Panic))"
| "append_code depth c OutOfBandNode = Panic"
| "append_code depth c (ValueNode rl low lower) = Panic"
  by pat_completeness auto
termination by (relation "measure (\<lambda>(depth, c, n). prefixLength c - depth)") auto

declare append_code.simps [simp del]

fun append_codes :: "code list \<Rightarrow> node \<Rightarrow> (huffman_error, node) res" where
  "append_codes [] n = Ok n"
| "append_codes (c # cs) n = rbind (append_code 0 c n) (append_codes cs)"

definition InitTree :: "code list \<Rightarrow> (huffman_error, node) res" where
  "InitTree codeTable = append_codes (preprocessCodes codeTable) (InternalNode None None)"

definition MaxInt64 :: int where
  "MaxInt64 = 2 ^ 63 - 1"

fun node_Decode :: "'s byte_reader \<Rightarrow> node \<Rightarrow> 's bit_reader \<Rightarrow> (reader_error, int) res \<times> 's bit_reader" where
  "node_Decode rb OutOfBandNode r = (Ok MaxInt64, r)"
| "node_Decode rb (ValueNode rangeLen low lower) r =
    (case ReadBits rb (nat (rangeLen mod 256)) r of
       (Inl err, r) \<Rightarrow> (Err err, r)
     | (Inr bs, r) \<Rightarrow> (Ok (sint ((word_of_int low :: u64) + (if lower then - bs else bs))), r))"
| "node_Decode rb (InternalNode zero one) r =
    (case ReadBit rb r of
       (Inl err, r) \<Rightarrow> (Err err, r)
     | (Inr b, r) \<Rightarrow>
         if b = 0 then (case zero of None \<Rightarrow> (Panic, r) | Some n \<Rightarrow> node_Decode rb n r)
         else (case one of None \<Rightarrow> (Panic, r) | Some n \<Rightarrow> node_Decode rb n r))"

section \<open>The tables\<close>

definition NewFixedSizeTable :: "code list \<Rightarrow> (huffman_error, node) res" where
  "NewFixedSizeTable codeTable = InitTree codeTable"

text \<open>A row of a standard table has four entries if it is the line of the values below all others.\<close>

definition standard_line :: "int list \<Rightarrow> code" where
  "standard_line row = NewCode (nat (row ! 0)) (row ! 1) (row ! 2) (length row > 3)"

definition newStandardTable :: "int list list \<Rightarrow> (huffman_error, node) res" where
  "newStandardTable table = InitTree (map standard_line table)"

definition tables :: "int list list list" where
  "tables =
  [[[1, 4, 0], [2, 8, 16], [3, 16, 272], [3, 32, 65808]],
   [[1, 0, 0], [2, 0, 1], [3, 0, 2], [4, 3, 3], [5, 6, 11], [6, 32, 75], [6, -1, 0]],
   [[8, 8, -256], [1, 0, 0], [2, 0, 1], [3, 0, 2], [4, 3, 3], [5, 6, 11], [8, 32, -257, 999], [7, 32, 75], [6,
    -1, 0]],
   [[1, 0, 1], [2, 0, 2], [3, 0, 3], [4, 3, 4], [5, 6, 12], [5, 32, 76]],
   [[7, 8, -255], [1, 0, 1], [2, 0, 2], [3, 0, 3], [4, 3, 4], [5, 6, 12], [7, 32, -256, 999], [6, 32, 76]],
   [[5, 10, -2048], [4, 9, -1024], [4, 8, -512], [4, 7, -256], [5, 6, -128], [5, 5, -64], [4, 5, -32], [2, 7, 0],
    [3, 7, 128], [3, 8, 256], [4, 9, 512], [4, 10, 1024], [6, 32, -2049, 999], [6, 32, 2048]],
   [[4, 9, -1024], [3, 8, -512], [4, 7, -256], [5, 6, -128], [5, 5, -64], [4, 5, -32], [4, 5, 0], [5, 5, 32], [5,
    6, 64], [4, 7, 128], [3, 8, 256], [3, 9, 512], [3, 10, 1024], [5, 32, -1025, 999], [5, 32, 2048]],
   [[8, 3, -15], [9, 1, -7], [8, 1, -5], [9, 0, -3], [7, 0, -2], [4, 0, -1], [2, 1, 0], [5, 0, 2], [6, 0, 3], [3,
    4, 4], [6, 1, 20], [4, 4, 22], [4, 5, 38], [5, 6, 70], [5, 7, 134], [6, 7, 262], [7, 8, 390], [6, 10, 646],
    [9, 32, -16, 999], [9, 32, 1670], [2, -1, 0]],
   [[8, 4, -31], [9, 2, -15], [8, 2, -11], [9, 1, -7], [7, 1, -5], [4, 1, -3], [3, 1, -1], [3, 1, 1], [5, 1, 3],
    [6, 1, 5], [3, 5, 7], [6, 2, 39], [4, 5, 43], [4, 6, 75], [5, 7, 139], [5, 8, 267], [6, 8, 523], [7, 9, 779],
    [6, 11, 1291], [9, 32, -32, 999], [9, 32, 3339], [2, -1, 0]],
   [[7, 4, -21], [8, 0, -5], [7, 0, -4], [5, 0, -3], [2, 2, -2], [5, 0, 2], [6, 0, 3], [7, 0, 4], [8, 0, 5], [2,
    6, 6], [5, 5, 70], [6, 5, 102], [6, 6, 134], [6, 7, 198], [6, 8, 326], [6, 9, 582], [6, 10, 1094], [7, 11,
    2118], [8, 32, -22, 999], [8, 32, 4166], [2, -1, 0]],
   [[1, 0, 1], [2, 1, 2], [4, 0, 4], [4, 1, 5], [5, 1, 7], [5, 2, 9], [6, 2, 13], [7, 2, 17], [7, 3, 21], [7, 4,
    29], [7, 5, 45], [7, 6, 77], [7, 32, 141]],
   [[1, 0, 1], [2, 0, 2], [3, 1, 3], [5, 0, 5], [5, 1, 6], [6, 1, 8], [7, 0, 10], [7, 1, 11], [7, 2, 13], [7, 3,
    17], [7, 4, 25], [8, 5, 41], [8, 32, 73]],
   [[1, 0, 1], [3, 0, 2], [4, 0, 3], [5, 0, 4], [4, 1, 5], [3, 3, 7], [6, 1, 15], [6, 2, 17], [6, 3, 21], [6, 4,
    29], [6, 5, 45], [7, 6, 77], [7, 32, 141]],
   [[3, 0, -2], [3, 0, -1], [1, 0, 0], [3, 0, 1], [3, 0, 2]],
   [[7, 4, -24], [6, 2, -8], [5, 1, -4], [4, 0, -2], [3, 0, -1], [1, 0, 0], [3, 0, 1], [4, 0, 2], [5, 1, 3], [6,
    2, 5], [7, 4, 9], [7, 32, -25, 999], [7, 32, 25]]]"

definition GetStandardTable :: "int \<Rightarrow> (huffman_error, node) res" where
  "GetStandardTable number =
    (if number \<le> 0 \<or> number > int (length tables) then Err IndexOutOfRange
     else newStandardTable (tables ! nat (number - 1)))"

end
