(* ===== verification/Huffman_Correct.thy ===== *)
theory Huffman_Correct
  imports Huffman_Tables
begin

text \<open>
  The canonical codes of a table are a prefix code whenever their lengths satisfy Kraft's inequality; the tree holds
  each of them, and decoding reads a code and the bits of its line's value. The standard tables satisfy it with
  equality, so that their trees have no missing child.
\<close>

section \<open>The leaves of a tree\<close>

fun leaf_at :: "node \<Rightarrow> bool list \<Rightarrow> node option" where
  "leaf_at (InternalNode zero one) (b # p) = Option.bind (if b then one else zero) (\<lambda>n. leaf_at n p)"
| "leaf_at (InternalNode zero one) [] = None"
| "leaf_at n [] = Some n"
| "leaf_at n (b # p) = None"

fun free :: "node \<Rightarrow> bool list \<Rightarrow> bool" where
  "free (InternalNode zero one) (b # p) =
    (case (if b then one else zero) of None \<Rightarrow> True | Some n \<Rightarrow> p \<noteq> [] \<and> free n p)"
| "free n p = False"

lemma leaf_of_leaf [simp]: "leaf_at (leaf_of c) p = (if p = [] then Some (leaf_of c) else None)"
  by (cases p) (auto simp: leaf_of_def)

lemma code_bit: "k < 64 \<Longrightarrow> (signed_drop_bit k w AND 1 = 1) = bit w k" for w :: u64
  using bit_signed_drop_bit_iff [of k w 0] by (auto simp: and_one_eq mod2_eq_if bit_0)

definition added :: "node \<Rightarrow> bool list \<Rightarrow> node \<Rightarrow> node \<Rightarrow> bool" where
  "added t path leaf t' \<longleftrightarrow> leaf_at t' path = Some leaf \<and> (\<forall>q. q \<noteq> path \<longrightarrow> leaf_at t' q = leaf_at t q) \<and>
    (\<forall>q. free t q \<and> \<not> prefix path q \<and> \<not> prefix q path \<longrightarrow> free t' q)"

lemma added_child:
  assumes "added child p leaf n" "p \<noteq> []"
    and child: "child = (case (if b then one else zero) of None \<Rightarrow> InternalNode None None | Some n \<Rightarrow> n)"
  shows "added (InternalNode zero one) (b # p) leaf
    (if b then InternalNode zero (Some n) else InternalNode (Some n) one)"
proof -
  have empty: "leaf_at (InternalNode None None) q = None" "free (InternalNode None None) q = (q \<noteq> [])" for q
    by (cases q; simp)+
  show ?thesis unfolding added_def
  proof (intro conjI allI impI)
    fix q
    let ?t = "if b then InternalNode zero (Some n) else InternalNode (Some n) one"
    show "leaf_at ?t (b # p) = Some leaf" using assms(1) by (simp add: added_def)
    show "leaf_at ?t q = leaf_at (InternalNode zero one) q" if "q \<noteq> b # p"
    proof (cases q)
      case (Cons d q')
      with that assms(1) show ?thesis
        by (cases b; cases d) (auto simp: added_def child empty split: option.splits)
    qed simp
    show "free ?t q" if "free (InternalNode zero one) q \<and> \<not> prefix (b # p) q \<and> \<not> prefix q (b # p)"
    proof (cases q)
      case (Cons d q')
      with that assms(1) show ?thesis
        by (cases b; cases d; cases "q' = []") (auto simp: added_def child empty split: option.splits)
    qed (use that in simp)
  qed
qed

lemma added_leaf:
  assumes "(if b then one else zero) = None"
  shows "added (InternalNode zero one) [b] (leaf_of c)
    (if b then InternalNode zero (Some (leaf_of c)) else InternalNode (Some (leaf_of c)) one)"
  unfolding added_def
proof (intro conjI allI impI)
  fix q
  let ?t = "if b then InternalNode zero (Some (leaf_of c)) else InternalNode (Some (leaf_of c)) one"
  show "leaf_at ?t q = leaf_at (InternalNode zero one) q" if "q \<noteq> [b]"
    using that assms by (cases q) (auto split: if_splits)
  show "free ?t q" if "free (InternalNode zero one) q \<and> \<not> prefix [b] q \<and> \<not> prefix q [b]"
    using that by (cases q) (auto split: if_splits)
qed simp

lemma append_code_free:
  assumes "prefixLength c = depth + k" "k > 0" "prefixLength c \<le> 64" "free t (word_bits k (code_bits c))"
  shows "\<exists>t'. append_code depth c t = Ok t' \<and> added t (word_bits k (code_bits c)) (leaf_of c) t'"
  using assms
proof (induction k arbitrary: depth t)
  case (Suc k)
  obtain zero one where t: "t = InternalNode zero one" using Suc.prems(4) by (cases t) (auto simp: word_bits_Suc)
  have path: "word_bits (Suc k) (code_bits c) = bit (code_bits c) k # word_bits k (code_bits c)" by (rule word_bits_Suc)
  have shift: "prefixLength c - 1 - depth = k" "prefixLength c \<noteq> 0" "\<not> prefixLength c < depth + 1"
    using Suc.prems(1) by simp_all
  have bit: "(signed_drop_bit k (code_bits c) AND 1 = 1) = bit (code_bits c) k"
    using Suc.prems(1,3) by (intro code_bit) simp
  show ?case
  proof (cases "k = 0")
    case True
    then have "(if bit (code_bits c) k then one else zero) = None"
      using Suc.prems(4) by (auto simp: t word_bits_Suc split: option.splits if_splits)
    moreover from this have "append_code depth c t = Ok (if bit (code_bits c) k then InternalNode zero (Some (leaf_of c))
        else InternalNode (Some (leaf_of c)) one)"
      using True bit unfolding t by (auto simp: append_code.simps(1) Suc.prems(1) Let_def)
    ultimately show ?thesis using True added_leaf unfolding t path by simp
  next
    case False
    let ?b = "bit (code_bits c) k"
    define child where "child = (case (if ?b then one else zero) of None \<Rightarrow> InternalNode None None | Some n \<Rightarrow> n)"
    have "word_bits k (code_bits c) \<noteq> []" using False by (metis length_0_conv length_word_bits)
    then have "free child (word_bits k (code_bits c))"
      using Suc.prems(4) by (cases "word_bits k (code_bits c)") (auto simp: t path child_def split: option.splits)
    from Suc.IH [OF _ _ Suc.prems(3) this, of "depth + 1"] False Suc.prems(1) obtain n where
      n: "append_code (depth + 1) c child = Ok n" "added child (word_bits k (code_bits c)) (leaf_of c) n" by auto
    have "append_code depth c t = Ok (if ?b then InternalNode zero (Some n) else InternalNode (Some n) one)"
      using False n(1) bit unfolding t child_def by (auto simp: append_code.simps(1) Suc.prems(1) Let_def)
    with added_child [OF n(2) \<open>word_bits k (code_bits c) \<noteq> []\<close> child_def] show ?thesis
      unfolding t path by blast
  qed
qed simp

section \<open>The tree of a prefix code\<close>

definition path :: "code \<Rightarrow> bool list" where
  "path c = word_bits (prefixLength c) (code_bits c)"

definition apart :: "code \<Rightarrow> code \<Rightarrow> bool" where
  "apart c d \<longleftrightarrow> prefixLength c = 0 \<or> prefixLength d = 0 \<or> \<not> prefix (path c) (path d) \<and> \<not> prefix (path d) (path c)"

lemma append_code_internal: "append_code depth c t = Ok t' \<Longrightarrow> \<exists>zero one. t' = InternalNode zero one"
  by (cases t) (auto simp: append_code.simps Let_def split: if_splits res.splits)

lemma append_codes_spec:
  assumes "sorted_wrt apart cs" "\<forall>c \<in> set cs. prefixLength c \<le> 64"
    and "\<forall>c \<in> set cs. prefixLength c = 0 \<or> free t (path c)" "t = InternalNode zero one"
  shows "\<exists>t'. append_codes cs t = Ok t' \<and>
    (\<forall>c \<in> set cs. 0 < prefixLength c \<longrightarrow> leaf_at t' (path c) = Some (leaf_of c)) \<and>
    (\<forall>q. (\<forall>c \<in> set cs. 0 < prefixLength c \<longrightarrow> q \<noteq> path c) \<longrightarrow> leaf_at t' q = leaf_at t q)"
  using assms
proof (induction cs arbitrary: t zero one)
  case (Cons c cs)
  show ?case
  proof (cases "prefixLength c = 0")
    case True
    then have "append_code 0 c t = Ok t" using Cons.prems(4) by (simp add: append_code.simps(1))
    with Cons.IH [of t zero one] Cons.prems True show ?thesis by simp
  next
    case False
    with append_code_free [of c 0 "prefixLength c" t] Cons.prems(2,3) obtain t1 where
      t1: "append_code 0 c t = Ok t1" "added t (path c) (leaf_of c) t1" by (auto simp: path_def)
    from append_code_internal [OF this(1)] obtain zero1 one1 where "t1 = InternalNode zero1 one1" by blast
    moreover have "\<forall>d \<in> set cs. prefixLength d = 0 \<or> free t1 (path d)"
      using t1(2) Cons.prems(1,3) False by (auto simp: added_def apart_def)
    ultimately obtain t' where t': "append_codes cs t1 = Ok t'"
      "\<forall>d \<in> set cs. 0 < prefixLength d \<longrightarrow> leaf_at t' (path d) = Some (leaf_of d)"
      "\<forall>q. (\<forall>d \<in> set cs. 0 < prefixLength d \<longrightarrow> q \<noteq> path d) \<longrightarrow> leaf_at t' q = leaf_at t1 q"
      using Cons.IH [of t1 zero1 one1] Cons.prems by auto
    have "path c \<noteq> path d" if "d \<in> set cs" "0 < prefixLength d" for d
      using Cons.prems(1) that False by (auto simp: apart_def)
    then have "leaf_at t' (path c) = Some (leaf_of c)" using t'(3) t1(2) by (auto simp: added_def)
    then show ?thesis using t' t1 False by (auto simp: added_def)
  qed
qed simp

section \<open>Canonical codes\<close>

text \<open>The numbers that the codes get, on the list of their lengths.\<close>

definition length_count :: "nat list \<Rightarrow> nat \<Rightarrow> nat" where
  "length_count ls l = (if l = 0 then 0 else count_list ls l)"

primrec first_code :: "nat list \<Rightarrow> nat \<Rightarrow> nat" where
  "first_code ls 0 = 0"
| "first_code ls (Suc l) = 2 * (first_code ls l + length_count ls l)"

definition code_number :: "nat list \<Rightarrow> nat \<Rightarrow> nat" where
  "code_number ls i = first_code ls (ls ! i) + count_list (take i ls) (ls ! i)"

definition weight :: "(nat \<Rightarrow> bool) \<Rightarrow> nat list \<Rightarrow> nat" where
  "weight P ls = (\<Sum>l\<leftarrow>ls. if 0 < l \<and> P l then 2 ^ (63 - l) else 0)"

definition kraft :: "nat list \<Rightarrow> bool" where
  "kraft ls \<longleftrightarrow> (\<forall>l \<in> set ls. l \<le> 63) \<and> weight (\<lambda>l. True) ls \<le> 2 ^ 63"

lemma weight_mono: "(\<And>l. P l \<Longrightarrow> Q l) \<Longrightarrow> weight P ls \<le> weight Q ls"
  by (induction ls) (auto simp: weight_def intro: add_mono trans_le_add2)

lemma weight_Suc: "weight (\<lambda>k. k < Suc l) ls = weight (\<lambda>k. k < l) ls + length_count ls l * 2 ^ (63 - l)"
  by (induction ls) (auto simp: weight_def length_count_def less_Suc_eq)

lemma first_code_weight: "l \<le> 63 \<Longrightarrow> first_code ls l * 2 ^ (63 - l) = weight (\<lambda>k. k < l) ls"
proof (induction l)
  case 0
  show ?case by (induction ls) (auto simp: weight_def)
next
  case (Suc l)
  have "(2 :: nat) * 2 ^ (63 - Suc l) = 2 ^ (63 - l)" using Suc.prems by (simp add: Suc_diff_Suc flip: power_Suc)
  then have "first_code ls (Suc l) * 2 ^ (63 - Suc l) = (first_code ls l + length_count ls l) * 2 ^ (63 - l)"
    by (metis first_code.simps(2) mult.assoc mult.commute)
  with Suc show ?case by (simp add: weight_Suc add_mult_distrib)
qed

lemma count_take: "i < length ls \<Longrightarrow> Suc (count_list (take i ls) (ls ! i)) \<le> count_list ls (ls ! i)"
proof -
  assume i: "i < length ls"
  then have "count_list ls (ls ! i) = count_list (take i ls @ ls ! i # drop (Suc i) ls) (ls ! i)"
    by (simp flip: id_take_nth_drop)
  then show ?thesis by simp
qed

lemma count_take_less:
  assumes "i < j" "j \<le> length ls"
  shows "count_list (take i ls) (ls ! i) < count_list (take j ls) (ls ! i)"
  using count_take [of i "take j ls"] assms by (simp add: min_absorb1 less_Suc_eq_le Suc_le_eq)

lemma code_number_end:
  assumes "i < length ls" "0 < ls ! i" "ls ! i \<le> 63"
  shows "Suc (code_number ls i) * 2 ^ (63 - ls ! i) \<le> weight (\<lambda>k. k < Suc (ls ! i)) ls"
proof -
  have "Suc (code_number ls i) \<le> first_code ls (ls ! i) + length_count ls (ls ! i)"
    using count_take [OF assms(1)] assms(2) by (simp add: code_number_def length_count_def)
  then have "Suc (code_number ls i) * 2 ^ (63 - ls ! i) \<le> (first_code ls (ls ! i) + length_count ls (ls ! i)) * 2 ^ (63 - ls ! i)"
    by (rule mult_right_mono) simp
  then show ?thesis using first_code_weight [OF assms(3)] by (simp add: weight_Suc add_mult_distrib)
qed

lemma code_number_less:
  assumes "kraft ls" "i < length ls" "0 < ls ! i"
  shows "code_number ls i < 2 ^ (ls ! i)"
proof -
  have l: "ls ! i \<le> 63" using assms(1,2) by (simp add: kraft_def)
  have "Suc (code_number ls i) * 2 ^ (63 - ls ! i) \<le> 2 ^ 63"
    using code_number_end [OF assms(2,3) l] weight_mono [OF TrueI, of "\<lambda>k. k < Suc (ls ! i)" ls] assms(1)
    unfolding kraft_def by linarith
  also have "(2 :: nat) ^ 63 = 2 ^ (ls ! i) * 2 ^ (63 - ls ! i)" using l by (simp flip: power_add)
  finally have "Suc (code_number ls i) \<le> 2 ^ (ls ! i)" by (rule mult_right_le_imp_le) simp
  then show ?thesis by simp
qed

lemma code_number_apart:
  assumes "i < length ls" "j < length ls" "0 < ls ! i" "ls ! i < ls ! j" "ls ! j \<le> 63"
  shows "Suc (code_number ls i) * 2 ^ (ls ! j - ls ! i) \<le> code_number ls j"
proof -
  have "Suc (code_number ls i) * 2 ^ (63 - ls ! i) \<le> weight (\<lambda>k. k < Suc (ls ! i)) ls"
    using code_number_end [OF assms(1,3)] assms(4,5) by simp
  also have "\<dots> \<le> weight (\<lambda>k. k < ls ! j) ls" by (rule weight_mono) (use assms(4) in simp)
  also have "\<dots> = first_code ls (ls ! j) * 2 ^ (63 - ls ! j)" by (simp add: first_code_weight assms(5))
  also have "\<dots> \<le> code_number ls j * 2 ^ (63 - ls ! j)" by (simp add: code_number_def)
  also have "(2 :: nat) ^ (63 - ls ! i) = 2 ^ (ls ! j - ls ! i) * 2 ^ (63 - ls ! j)"
    using assms(4,5) by (simp flip: power_add)
  finally have "(Suc (code_number ls i) * 2 ^ (ls ! j - ls ! i)) * 2 ^ (63 - ls ! j) \<le> code_number ls j * 2 ^ (63 - ls ! j)"
    by (simp only: mult.assoc)
  then show ?thesis by simp
qed

lemma take_word_bits: "m \<le> n \<Longrightarrow> take m (word_bits n w) = word_bits m (drop_bit (n - m) w)"
  using word_bits_append [of m "n - m" w] by simp

lemma word_bits_inject:
  "a < 2 ^ n \<Longrightarrow> b < 2 ^ n \<Longrightarrow> n \<le> 63 \<Longrightarrow> word_bits n (of_nat a :: u64) = word_bits n (of_nat b :: u64) \<longleftrightarrow> a = b"
proof
  assume small: "a < 2 ^ n" "b < 2 ^ n" "n \<le> 63" and eq: "word_bits n (of_nat a :: u64) = word_bits n (of_nat b :: u64)"
  from eq have "(bits_value (word_bits n (of_nat a :: u64)) :: u64) = (bits_value (word_bits n (of_nat b :: u64)) :: u64)"
    by (rule arg_cong)
  then have "take_bit n (of_nat a :: u64) = take_bit n (of_nat b :: u64)" by (simp add: bits_value_word_bits)
  then have "unat (take_bit n (of_nat a :: u64)) = unat (take_bit n (of_nat b :: u64))" by simp
  moreover have "(2 :: nat) ^ n \<le> 2 ^ 63" using small(3) by (rule power_increasing) simp
  ultimately show "a = b" using small by (simp add: unsigned_take_bit_eq take_bit_nat_eq_self unat_of_nat)
qed simp

lemma drop_bit_of_nat_word: "a < 2 ^ 63 \<Longrightarrow> drop_bit k (of_nat a :: u64) = of_nat (a div 2 ^ k)"
proof -
  assume a: "a < 2 ^ 63"
  then have "unat (of_nat a :: u64) = a" by (simp add: unat_of_nat)
  then have "unat (drop_bit k (of_nat a :: u64)) = a div 2 ^ k"
    using a by (simp only: unsigned_drop_bit_eq) (simp add: drop_bit_eq_div take_bit_nat_eq_self)
  moreover have "unat (of_nat (a div 2 ^ k) :: u64) = a div 2 ^ k"
  proof -
    have "a div 2 ^ k < 2 ^ 64" by (rule le_less_trans [OF div_le_dividend]) (use a in simp)
    then show ?thesis by (simp add: unat_of_nat)
  qed
  ultimately show ?thesis unfolding word_unat_eq_iff by (rule trans [OF _ sym])
qed

lemma codes_apart:
  assumes kraft: "kraft ls" and i: "i < length ls" "0 < ls ! i" and j: "j < length ls" "0 < ls ! j"
    and ij: "i \<noteq> j" "ls ! i \<le> ls ! j"
  shows "\<not> prefix (word_bits (ls ! i) (of_nat (code_number ls i) :: u64)) (word_bits (ls ! j) (of_nat (code_number ls j) :: u64))"
proof
  let ?k = "ls ! j - ls ! i" and ?a = "code_number ls i" and ?b = "code_number ls j"
  have small: "?a < 2 ^ (ls ! i)" "?b < 2 ^ (ls ! j)" using code_number_less [OF kraft] i j by auto
  have len: "ls ! i \<le> 63" "ls ! j \<le> 63" using kraft i j by (auto simp: kraft_def)
  have "(2 :: nat) ^ (ls ! j) \<le> 2 ^ 63" using len(2) by (rule power_increasing) simp
  with small(2) have "?b < 2 ^ 63" by linarith
  assume "prefix (word_bits (ls ! i) (of_nat ?a :: u64)) (word_bits (ls ! j) (of_nat ?b :: u64))"
  then have "word_bits (ls ! i) (of_nat ?a :: u64) = word_bits (ls ! i) (drop_bit ?k (of_nat ?b :: u64))"
    using take_word_bits [OF ij(2), of "of_nat ?b :: u64"] by (metis append_eq_conv_conj length_word_bits prefix_def)
  then have eq: "word_bits (ls ! i) (of_nat ?a :: u64) = word_bits (ls ! i) (of_nat (?b div 2 ^ ?k) :: u64)"
    by (simp only: drop_bit_of_nat_word [OF \<open>?b < 2 ^ 63\<close>])
  have "?b < 2 ^ (ls ! i) * 2 ^ ?k" using small(2) ij(2) by (simp flip: power_add)
  then have "?b div 2 ^ ?k < 2 ^ (ls ! i)" by (simp add: less_mult_imp_div_less)
  with eq have ab: "?a = ?b div 2 ^ ?k" using word_bits_inject [OF small(1) _ len(1)] by blast
  show False
  proof (cases "ls ! i = ls ! j")
    case True
    with ab have "count_list (take i ls) (ls ! i) = count_list (take j ls) (ls ! i)" by (simp add: code_number_def)
    moreover from ij(1) consider "i < j" | "j < i" by linarith
    then have "count_list (take i ls) (ls ! i) \<noteq> count_list (take j ls) (ls ! i)"
    proof cases
      case 1
      then show ?thesis using count_take_less [OF 1, of ls] j(1) by simp
    next
      case 2
      then show ?thesis using count_take_less [OF 2, of ls] i(1) by (simp add: True)
    qed
    ultimately show False by simp
  next
    case False
    with ij(2) code_number_apart [OF i(1) j(1) i(2) _ len(2)] have "Suc ?a * 2 ^ ?k \<le> ?b" by simp
    then have "Suc ?a \<le> ?b div 2 ^ ?k" by (simp add: less_eq_div_iff_mult_less_eq)
    with ab show False by simp
  qed
qed

section \<open>The codes that the program assigns\<close>

abbreviation lengths :: "code list \<Rightarrow> nat list" where
  "lengths cs \<equiv> map prefixLength cs"

lemma length_assign_codes [simp]: "length (assign_codes l cur cs) = length cs"
  by (induction l cur cs rule: assign_codes.induct) auto

lemma nth_assign_codes:
  "i < length cs \<Longrightarrow> assign_codes l cur cs ! i =
    (if prefixLength (cs ! i) = l then (cs ! i)\<lparr>code_bits := cur + of_nat (count_list (take i (lengths cs)) l)\<rparr> else cs ! i)"
proof (induction l cur cs arbitrary: i rule: assign_codes.induct)
  case (2 l cur c cs)
  then show ?case by (cases i) auto
qed simp

lemma lengths_assign_codes [simp]: "lengths (assign_codes l cur cs) = lengths cs"
  by (rule nth_equalityI) (auto simp: nth_assign_codes)

definition numbered :: "code list \<Rightarrow> nat \<Rightarrow> code" where
  "numbered cs i = (cs ! i)\<lparr>code_bits := of_nat (code_number (lengths cs) i)\<rparr>"

lemma preprocess_loop_spec:
  fixes k l :: nat
  assumes "lenCount = map (length_count (lengths cs)) [l..<k]" "l \<le> k" "lengths cs' = lengths cs"
    and "i < length cs" "prefixLength (cs ! i) < k"
    and "cs' ! i = (if prefixLength (cs ! i) = 0 \<or> l < prefixLength (cs ! i) then cs ! i else numbered cs i)"
  shows "length (preprocess_loop lenCount (Suc l) (of_nat (first_code (lengths cs) l)) cs') = length cs \<and>
    preprocess_loop lenCount (Suc l) (of_nat (first_code (lengths cs) l)) cs' ! i =
      (if prefixLength (cs ! i) = 0 then cs ! i else numbered cs i)"
  using assms
proof (induction "k - l" arbitrary: lenCount l cs')
  case 0
  moreover from 0 have "length cs' = length cs" by (metis length_map)
  ultimately show ?case by auto
next
  case (Suc d)
  then have lk: "l < k" "d = k - Suc l" by simp_all
  have len: "length cs' = length cs" using Suc.prems(3) by (metis length_map)
  have lenCount: "lenCount = length_count (lengths cs) l # map (length_count (lengths cs)) [Suc l..<k]"
    using Suc.prems(1) lk(1) by (simp add: upt_conv_Cons)
  have first: "push_bit 1 (of_nat (first_code (lengths cs) l) + of_nat (length_count (lengths cs) l)) =
      (of_nat (first_code (lengths cs) (Suc l)) :: u64)"
    by (simp add: push_bit_eq_mult mult.commute)
  let ?cs = "assign_codes (Suc l) (of_nat (first_code (lengths cs) (Suc l))) cs'"
  have "prefixLength (cs' ! i) = prefixLength (cs ! i)"
    using Suc.prems(3,4) len by (metis nth_map)
  with Suc.prems(4,6) have next_code: "?cs ! i =
      (if prefixLength (cs ! i) = 0 \<or> Suc l < prefixLength (cs ! i) then cs ! i else numbered cs i)"
    by (auto simp: nth_assign_codes len Suc.prems(3) numbered_def code_number_def)
  show ?case
    unfolding lenCount preprocess_loop.simps Let_def first
    using Suc.hyps(1) [OF lk(2) refl _ _ Suc.prems(4,5) next_code] lk(1) Suc.prems(3) by simp
qed

lemma foldl_max: "m \<le> foldl max m ls" for m :: nat
  by (induction ls arbitrary: m) (auto intro: order_trans [OF max.cobounded1])

lemma max_foldl: "l \<in> set ls \<Longrightarrow> l \<le> foldl max m ls" for l m :: nat
  by (induction ls arbitrary: m) (auto intro: order_trans [OF max.cobounded2 foldl_max])

lemma count_lengths_eq: "count_lengths cs = map (length_count (lengths cs)) [0..<Suc (foldl max 0 (lengths cs))]"
proof -
  have fold: "length (foldl (\<lambda>n c. n[prefixLength c := n ! prefixLength c + 1]) a cs) = length a \<and>
      (\<forall>l < length a. foldl (\<lambda>n c. n[prefixLength c := n ! prefixLength c + 1]) a cs ! l = a ! l + count_list (lengths cs) l)"
    if "\<forall>l \<in> set (lengths cs). l < length a" for a :: "nat list" and cs
    using that by (induction cs arbitrary: a) (auto simp: nth_list_update)
  let ?m = "foldl max 0 (lengths cs)"
  have small: "\<forall>l \<in> set (lengths cs). l < length (replicate (?m + 1) (0 :: nat))"
    using max_foldl [of _ "lengths cs" 0] by (auto simp: less_Suc_eq_le)
  show ?thesis
    using fold [OF small] unfolding count_lengths_def Let_def
    by (intro nth_equalityI) (auto simp: nth_list_update length_count_def nth_append simp del: upt_Suc)
qed

lemma preprocessCodes_spec:
  assumes "i < length cs"
  shows "length (preprocessCodes cs) = length cs \<and>
    preprocessCodes cs ! i = (if prefixLength (cs ! i) = 0 then cs ! i else numbered cs i)"
proof -
  have small: "prefixLength (cs ! i) < Suc (foldl max 0 (lengths cs))" using assms by (simp add: less_Suc_eq_le max_foldl)
  have "cs ! i = (if prefixLength (cs ! i) = 0 \<or> 0 < prefixLength (cs ! i) then cs ! i else numbered cs i)"
    by auto
  from preprocess_loop_spec [OF count_lengths_eq le0 refl assms small this] show ?thesis
    by (simp add: preprocessCodes_def)
qed

lemma InitTree_spec:
  assumes kraft: "kraft (lengths cs)"
  shows "\<exists>t. InitTree cs = Ok t \<and>
    (\<forall>i < length cs. 0 < prefixLength (cs ! i) \<longrightarrow> leaf_at t (path (numbered cs i)) = Some (leaf_of (cs ! i))) \<and>
    (\<forall>q leaf. leaf_at t q = Some leaf \<longrightarrow>
      (\<exists>i < length cs. 0 < prefixLength (cs ! i) \<and> q = path (numbered cs i) \<and> leaf = leaf_of (cs ! i)))"
proof -
  let ?cs = "preprocessCodes cs" and ?ls = "lengths cs"
  have len: "length ?cs = length cs"
    using preprocessCodes_spec [of 0 cs] by (cases cs) (auto simp: preprocessCodes_def count_lengths_def Let_def)
  have nth: "?cs ! i = (if prefixLength (cs ! i) = 0 then cs ! i else numbered cs i)" if "i < length cs" for i
    using preprocessCodes_spec [OF that] by blast
  have same: "prefixLength (?cs ! i) = prefixLength (cs ! i)" "leaf_of (?cs ! i) = leaf_of (cs ! i)" if "i < length cs" for i
    using nth [OF that] by (auto simp: numbered_def leaf_of_def)
  have paths: "path (numbered cs i) = word_bits (?ls ! i) (of_nat (code_number ?ls i) :: u64)" if "i < length cs" for i
    using that by (simp add: path_def numbered_def)
  have apart: "sorted_wrt apart ?cs"
    unfolding sorted_wrt_iff_nth_less
  proof (intro allI impI)
    fix i j assume ij: "i < j" "j < length ?cs"
    then have bounds: "i < length cs" "j < length cs" by (simp_all add: len)
    show "apart (?cs ! i) (?cs ! j)"
    proof (cases "prefixLength (cs ! i) = 0 \<or> prefixLength (cs ! j) = 0")
      case True
      then show ?thesis using same bounds by (auto simp: apart_def)
    next
      case False
      have length: "length (path (numbered cs k)) = prefixLength (cs ! k)" for k by (simp add: path_def numbered_def)
      have "\<not> prefix (path (numbered cs i)) (path (numbered cs j))"
        using codes_apart [OF kraft, of i j] bounds ij(1) False prefix_length_le [of "path (numbered cs i)" "path (numbered cs j)"]
        by (auto simp: paths length)
      moreover have "\<not> prefix (path (numbered cs j)) (path (numbered cs i))"
        using codes_apart [OF kraft, of j i] bounds ij(1) False prefix_length_le [of "path (numbered cs j)" "path (numbered cs i)"]
        by (auto simp: paths length)
      ultimately show ?thesis using False bounds by (simp add: apart_def nth)
    qed
  qed
  have small: "\<forall>c \<in> set ?cs. prefixLength c \<le> 64"
  proof
    fix c assume "c \<in> set ?cs"
    then obtain i where i: "i < length cs" "c = ?cs ! i" by (auto simp: in_set_conv_nth len)
    then have "prefixLength c \<in> set ?ls" by (simp add: same(1))
    then have "prefixLength c \<le> 63" using kraft unfolding kraft_def by blast
    then show "prefixLength c \<le> 64" by simp
  qed
  have nonempty: "path c \<noteq> []" if "prefixLength c \<noteq> 0" for c
    using that by (metis length_0_conv length_word_bits path_def)
  have empty: "free (InternalNode None None) q" if "q \<noteq> []" for q using that by (cases q) auto
  have none: "leaf_at (InternalNode None None) q = None" for q by (cases q) auto
  from append_codes_spec [OF apart small _ refl, of None None] empty nonempty obtain t where
    t: "append_codes ?cs (InternalNode None None) = Ok t"
      "\<forall>c \<in> set ?cs. 0 < prefixLength c \<longrightarrow> leaf_at t (path c) = Some (leaf_of c)"
      "\<forall>q. (\<forall>c \<in> set ?cs. 0 < prefixLength c \<longrightarrow> q \<noteq> path c) \<longrightarrow> leaf_at t q = None"
    by (auto simp: none)
  show ?thesis
  proof (intro exI [of _ t] conjI allI impI)
    show "InitTree cs = Ok t" using t(1) by (simp add: InitTree_def)
    show "leaf_at t (path (numbered cs i)) = Some (leaf_of (cs ! i))" if "i < length cs" "0 < prefixLength (cs ! i)" for i
      using t(2) nth_mem [of i ?cs] same [OF that(1)] nth [OF that(1)] that len by force
    fix q leaf assume q: "leaf_at t q = Some leaf"
    then obtain c where "c \<in> set ?cs" "0 < prefixLength c" "q = path c" using t(3) by fastforce
    moreover from this t(2) q have "leaf = leaf_of c" by simp
    ultimately show "\<exists>i < length cs. 0 < prefixLength (cs ! i) \<and> q = path (numbered cs i) \<and> leaf = leaf_of (cs ! i)"
      using nth same len by (fastforce simp: in_set_conv_nth)
  qed
qed

end
