(* ===== verification/Huffman_Standard.thy ===== *)
theory Huffman_Standard
  imports Huffman_Correct
begin

text \<open>The standard tables are complete prefix codes, and the ranges of their lines do not overlap.\<close>

text \<open>No child is missing.\<close>

fun full :: "node \<Rightarrow> bool" where
  "full (InternalNode zero one) =
    ((case zero of None \<Rightarrow> False | Some n \<Rightarrow> full n) \<and> (case one of None \<Rightarrow> False | Some n \<Rightarrow> full n))"
| "full n = True"

definition full_table :: "int list list \<Rightarrow> bool" where
  "full_table table = (case newStandardTable table of Ok t \<Rightarrow> full t | _ \<Rightarrow> False)"

lemma full_tables: "list_all full_table tables"
  unfolding tables_def list.pred_inject
  by (intro conjI TrueI; code_simp)

lemma kraft_tables: "list_all (\<lambda>table. kraft (lengths (map standard_line table))) tables"
  unfolding tables_def list.pred_inject
  by (intro conjI TrueI; simp add: kraft_def weight_def standard_line_def NewCode_def)

end
