(* ===== verification/Huffman_Decode.thy ===== *)
theory Huffman_Decode
  imports Huffman_Standard "HOL-Library.Multiset"
begin

text \<open>Decoding with a tree, over any source of bytes that keeps the contract of \<open>byte_source\<close>.\<close>

section \<open>Walking down the tree\<close>

context byte_source
begin

text \<open>After a bit is read, an empty cache is zero: a read of no bits then returns zero.\<close>

definition fresh :: "'s bit_reader \<Rightarrow> bool" where
  "fresh r \<longleftrightarrow> ok r \<and> (unread_bits r = 0 \<longrightarrow> cache r = 0)"

lemma ReadBit_fresh:
  assumes "ok r" "unread r = b # bs"
  shows "\<exists>r'. ReadBit readBufferByte r = (Inr (of_bool b), r') \<and> unread r' = bs \<and> fresh r'"
proof -
  obtain r' where r': "readBool readBufferByte r = (Inr b, r')" "unread r' = bs" "ok r'"
    using readBool_spec [OF assms] by blast
  have "cache r' = 0" if "unread_bits r' = 0"
    using r'(1) that by (auto simp: readBool_def low_bits_def Let_def split: if_splits prod.splits sum.splits)
  with r' show ?thesis by (auto simp: ReadBit_def fresh_def)
qed

lemma ReadBits_fresh:
  assumes "fresh r" "n \<le> length (unread r)"
  shows "\<exists>r'. ReadBits readBufferByte n r = (Inr (bits_value (take n (unread r))), r') \<and>
    unread r' = drop n (unread r) \<and> ok r'"
proof (cases "n = 0")
  case False
  then show ?thesis using ReadBits_spec [of r n] assms by (simp add: fresh_def)
next
  case True
  show ?thesis
  proof (cases "unread_bits r = 0")
    case True
    with \<open>n = 0\<close> assms(1) show ?thesis by (auto simp: ReadBits_def fresh_def ok_def cache_ok_def)
  next
    case False
    let ?k = "unread_bits r"
    have c: "take_bit ?k (cache r) = cache r" using assms(1) False by (auto simp: fresh_def ok_def cache_ok_def)
    have "drop_bit ?k (cache r) = 0" by (subst c [symmetric], rule bit_word_eqI) (simp add: bit_simps)
    with False assms(1) c \<open>n = 0\<close> show ?thesis by (simp add: ReadBits_def low_bits_mask Let_def fresh_def)
  qed
qed

lemma node_Decode_leaf:
  assumes "leaf_at t p = Some leaf" "p \<noteq> []" "ok r" "unread r = p @ rest"
  shows "\<exists>r'. node_Decode readBufferByte t r = node_Decode readBufferByte leaf r' \<and> unread r' = rest \<and> fresh r'"
  using assms
proof (induction p arbitrary: t r)
  case (Cons b p)
  obtain zero one where t: "t = InternalNode zero one" using Cons.prems(1) by (cases t) auto
  with Cons.prems(1) obtain n where n: "(if b then one else zero) = Some n" "leaf_at n p = Some leaf"
    by (auto split: Option.bind_splits if_splits)
  from ReadBit_fresh [OF Cons.prems(3), of b "p @ rest"] Cons.prems(4) obtain r1 where
    r1: "ReadBit readBufferByte r = (Inr (of_bool b), r1)" "unread r1 = p @ rest" "fresh r1" by auto
  have step: "node_Decode readBufferByte t r = node_Decode readBufferByte n r1"
    using n(1) by (cases b) (simp_all add: t r1(1))
  show ?case
  proof (cases p)
    case Nil
    then have "n = leaf" using n(2) by (cases n) auto
    with r1 Nil step show ?thesis by auto
  next
    case (Cons d p')
    then show ?thesis using Cons.IH [OF n(2) _ _ r1(2)] r1(3) step by (simp add: fresh_def)
  qed
qed simp

end

section \<open>Lines\<close>

definition offset_value :: "bool list \<Rightarrow> int" where
  "offset_value bs = horner_sum of_bool 2 (rev bs)"

definition line_value :: "code \<Rightarrow> bool list \<Rightarrow> int" where
  "line_value c bs =
    (if rangeLength c = -1 then MaxInt64
     else if isLowerRange c then rangeLow c - offset_value bs else rangeLow c + offset_value bs)"

definition line_ok :: "code \<Rightarrow> bool" where
  "line_ok c \<longleftrightarrow> rangeLength c = -1 \<or> 0 \<le> rangeLength c \<and> rangeLength c \<le> 32 \<and> \<bar>rangeLow c\<bar> < 2 ^ 62"

lemma offset_value_bits: "(bits_value bs :: u64) = of_int (offset_value bs)"
proof -
  have "(horner_sum of_bool 2 xs :: u64) = of_int (horner_sum of_bool 2 xs)" for xs by (induction xs) simp_all
  then show ?thesis by (simp add: bits_value_def offset_value_def)
qed

lemma offset_value_bounds: "0 \<le> offset_value bs" "offset_value bs < 2 ^ length bs"
  using horner_sum_nonnegative horner_sum_bound [of "rev bs", where 'a = int] by (simp_all add: offset_value_def)

lemma offset_value_word_bits:
  assumes "0 \<le> x" "x < 2 ^ n" "n \<le> 32"
  shows "offset_value (word_bits n (of_int x :: u64)) = x"
proof -
  let ?o = "offset_value (word_bits n (of_int x :: u64))"
  have power: "(2 :: int) ^ n \<le> 2 ^ 32" using assms(3) by (rule power_increasing) simp
  have small: "0 \<le> ?o" "?o < 2 ^ 64" using offset_value_bounds [of "word_bits n (of_int x :: u64)"] power by simp_all
  have "uint (of_int ?o :: u64) = uint (take_bit n (of_int x :: u64))"
    using offset_value_bits [of "word_bits n (of_int x :: u64)"] by (simp add: bits_value_word_bits)
  then show ?thesis using small assms power
    by (simp add: uint_word_of_int_eq take_bit_int_eq_self unsigned_take_bit_eq)
qed

lemma sint_add_offset:
  "\<bar>low\<bar> < 2 ^ 62 \<Longrightarrow> \<bar>x\<bar> < 2 ^ 32 \<Longrightarrow> sint ((word_of_int low :: u64) + of_int x) = low + x"
  by (simp add: sint_sbintrunc' signed_take_bit_int_eq_self flip: of_int_add)

context byte_source
begin

lemma leaf_Decode:
  assumes "line_ok c" "fresh r" "unread r = bs @ rest" "length bs = (if rangeLength c = -1 then 0 else nat (rangeLength c))"
  shows "\<exists>r'. node_Decode readBufferByte (leaf_of c) r = (Ok (line_value c bs), r') \<and> unread r' = rest \<and> ok r'"
proof (cases "rangeLength c = -1")
  case True
  with assms show ?thesis by (auto simp: leaf_of_def line_value_def fresh_def)
next
  case False
  then have rl: "0 \<le> rangeLength c" "rangeLength c \<le> 32" "\<bar>rangeLow c\<bar> < 2 ^ 62" using assms(1) by (auto simp: line_ok_def)
  have len: "length bs = nat (rangeLength c)" using assms(4) False by simp
  have o: "0 \<le> offset_value bs" "offset_value bs < 2 ^ 32"
  proof -
    have "(2 :: int) ^ length bs \<le> 2 ^ 32" using rl len by (intro power_increasing) auto
    with offset_value_bounds [of bs] show "0 \<le> offset_value bs" "offset_value bs < 2 ^ 32" by linarith+
  qed
  from ReadBits_fresh [OF assms(2), of "length bs"] assms(3) obtain r' where
    r': "ReadBits readBufferByte (length bs) r = (Inr (bits_value bs), r')" "unread r' = rest" "ok r'" by auto
  have "nat (rangeLength c mod 256) = length bs" using rl len by simp
  with r' False o rl(3) sint_add_offset [of "rangeLow c" "offset_value bs"] sint_add_offset [of "rangeLow c" "- offset_value bs"]
  show ?thesis by (simp add: leaf_of_def line_value_def offset_value_bits)
qed

lemma table_Decode:
  assumes kraft: "kraft (lengths cs)" and i: "i < length cs" "0 < prefixLength (cs ! i)" "line_ok (cs ! i)"
    and r: "ok r" "unread r = path (numbered cs i) @ bs @ rest"
    and bs: "length bs = (if rangeLength (cs ! i) = -1 then 0 else nat (rangeLength (cs ! i)))"
  shows "\<exists>t r'. InitTree cs = Ok t \<and> node_Decode readBufferByte t r = (Ok (line_value (cs ! i) bs), r') \<and>
    unread r' = rest \<and> ok r'"
proof -
  from InitTree_spec [OF kraft] i obtain t where
    t: "InitTree cs = Ok t" "leaf_at t (path (numbered cs i)) = Some (leaf_of (cs ! i))" by blast
  have "path (numbered cs i) \<noteq> []" using i(2) by (simp add: path_def numbered_def) (metis length_0_conv length_word_bits less_numeral_extra(3))
  from node_Decode_leaf [OF t(2) this r] obtain r1 where
    r1: "node_Decode readBufferByte t r = node_Decode readBufferByte (leaf_of (cs ! i)) r1" "unread r1 = bs @ rest" "fresh r1"
    by blast
  from leaf_Decode [OF i(3) r1(3,2) bs] t(1) r1(1) show ?thesis by auto
qed

end

section \<open>Values\<close>

definition line_range :: "code \<Rightarrow> int \<times> int" where
  "line_range c =
    (let n = 2 ^ nat (rangeLength c)
     in if isLowerRange c then (rangeLow c - n + 1, rangeLow c + 1) else (rangeLow c, rangeLow c + n))"

definition covers :: "code \<Rightarrow> int \<Rightarrow> bool" where
  "covers c v \<longleftrightarrow> rangeLength c \<noteq> -1 \<and> fst (line_range c) \<le> v \<and> v < snd (line_range c)"

definition encode_value :: "code list \<Rightarrow> nat \<Rightarrow> int \<Rightarrow> bool list" where
  "encode_value cs i v = path (numbered cs i) @
    word_bits (nat (rangeLength (cs ! i))) (of_int \<bar>v - rangeLow (cs ! i)\<bar> :: u64)"

lemma line_value_covers:
  assumes "line_ok c" "covers c v"
  shows "line_value c (word_bits (nat (rangeLength c)) (of_int \<bar>v - rangeLow c\<bar> :: u64)) = v"
proof -
  have "0 \<le> rangeLength c" "rangeLength c \<le> 32" using assms by (auto simp: line_ok_def covers_def)
  moreover have "\<bar>v - rangeLow c\<bar> < 2 ^ nat (rangeLength c)"
    using assms(2) by (auto simp: covers_def line_range_def Let_def split: if_splits)
  ultimately have "offset_value (word_bits (nat (rangeLength c)) (of_int \<bar>v - rangeLow c\<bar> :: u64)) = \<bar>v - rangeLow c\<bar>"
    by (intro offset_value_word_bits) auto
  then show ?thesis using assms(2)
    by (auto simp: line_value_def covers_def line_range_def Let_def split: if_splits)
qed

text \<open>Intervals one after the other.\<close>

fun contiguous :: "(int \<times> int) list \<Rightarrow> bool" where
  "contiguous ((a, b) # (c, d) # ivs) = (a \<le> b \<and> b = c \<and> contiguous ((c, d) # ivs))"
| "contiguous [(a, b)] = (a \<le> b)"
| "contiguous [] = True"

definition table_ranges :: "code list \<Rightarrow> (int \<times> int) list" where
  "table_ranges cs = sort_key fst (map line_range (filter (\<lambda>c. rangeLength c \<noteq> -1) cs))"

lemma contiguous_ends: "contiguous ((a, b) # ivs) \<Longrightarrow> a \<le> b \<and> b \<le> snd (last ((a, b) # ivs))"
proof (induction ivs arbitrary: a b)
  case (Cons iv ivs)
  then show ?case by (cases iv) fastforce
qed simp

lemma contiguous_starts: "contiguous ((a, b) # ivs) \<Longrightarrow> (c, d) \<in> set ivs \<Longrightarrow> b \<le> c"
proof (induction ivs arbitrary: a b)
  case (Cons iv ivs)
  then show ?case using contiguous_ends by (cases iv) fastforce
qed simp

lemma contiguous_cover:
  "contiguous ivs \<Longrightarrow> ivs \<noteq> [] \<Longrightarrow> fst (hd ivs) \<le> v \<Longrightarrow> v < snd (last ivs) \<Longrightarrow>
    length (filter (\<lambda>(a, b). a \<le> v \<and> v < b) ivs) = 1"
proof (induction ivs rule: contiguous.induct)
  case (1 a b c d ivs)
  show ?case
  proof (cases "v < b")
    case True
    then have "filter (\<lambda>(a, b). a \<le> v \<and> v < b) ((c, d) # ivs) = []"
      using contiguous_starts [OF 1(2)] by (fastforce simp: filter_empty_conv)
    with True 1 show ?thesis by simp
  next
    case False
    with 1 show ?thesis by simp
  qed
qed auto

lemma covered_once:
  assumes "contiguous (table_ranges cs)" "table_ranges cs \<noteq> []"
    and "fst (hd (table_ranges cs)) \<le> v" "v < snd (last (table_ranges cs))"
  shows "\<exists>!i. i < length cs \<and> covers (cs ! i) v"
proof -
  let ?P = "\<lambda>(a, b). a \<le> v \<and> v < (b :: int)"
  have "length (filter ?P (table_ranges cs)) = 1" by (rule contiguous_cover [OF assms])
  moreover have "length (filter ?P (table_ranges cs)) = length (filter (\<lambda>c. covers c v) cs)"
  proof -
    have "mset (filter ?P (table_ranges cs)) = mset (filter ?P (map line_range (filter (\<lambda>c. rangeLength c \<noteq> -1) cs)))"
      by (simp add: table_ranges_def)
    then have "length (filter ?P (table_ranges cs)) = length (filter ?P (map line_range (filter (\<lambda>c. rangeLength c \<noteq> -1) cs)))"
      by (metis size_mset)
    also have "\<dots> = length (filter (\<lambda>c. covers c v) cs)"
    proof -
      have "(\<lambda>c. (?P \<circ> line_range) c \<and> rangeLength c \<noteq> -1) = (\<lambda>c. covers c v)"
        "(\<lambda>c. rangeLength c \<noteq> -1 \<and> (?P \<circ> line_range) c) = (\<lambda>c. covers c v)"
        by (auto simp: fun_eq_iff covers_def case_prod_beta)
      then show ?thesis by (simp only: filter_map length_map filter_filter)
    qed
    finally show ?thesis .
  qed
  ultimately have "card {i. i < length cs \<and> covers (cs ! i) v} = 1" by (simp add: length_filter_conv_card)
  then obtain i where "{i. i < length cs \<and> covers (cs ! i) v} = {i}" by (rule card_1_singletonE)
  then show ?thesis by (intro ex1I [of _ i]) blast+
qed

end
