(* ===== verification/Huffman_Segment.thy ===== *)
theory Huffman_Segment
  imports Huffman_Decode
begin

text \<open>
  Tables that a file brings along: the header of a table segment (\<open>segments/table_segment.go\<close>) and the lines
  that \<open>EncodedTable\<close> (\<open>encoded_table.go\<close>) reads from it. The bit for the out-of-band line is never read, and
  the variable \<open>rangeLow\<close> of the loop over the lines is never assigned; both are modelled as they are.
\<close>

datatype table_error = HeaderBit7 | TableReader reader_error

record table_segment =
  htOutOfBand :: int
  htPS :: nat
  htRS :: nat
  htLow :: int
  htHight :: int

definition read_field :: "'s byte_reader \<Rightarrow> nat \<Rightarrow> 's bit_reader \<Rightarrow> (u64 \<Rightarrow> 's bit_reader \<Rightarrow> (reader_error + 'a) \<times> 's bit_reader) \<Rightarrow>
    (reader_error + 'a) \<times> 's bit_reader" where
  "read_field rb n r f = (case ReadBits rb (n mod 256) r of (Inl err, r) \<Rightarrow> (Inl err, r) | (Inr v, r) \<Rightarrow> f v r)"

definition parseHeader :: "'s byte_reader \<Rightarrow> 's bit_reader \<Rightarrow> (table_error + table_segment) \<times> 's bit_reader" where
  "parseHeader rb r =
    (case ReadBit rb r of
       (Inl err, r) \<Rightarrow> (Inl (TableReader err), r)
     | (Inr b, r) \<Rightarrow>
         if b = 1 then (Inl HeaderBit7, r)
         else
           (case read_field rb 3 r (\<lambda>rs r. read_field rb 3 r (\<lambda>ps r. read_field rb 32 r (\<lambda>low r. read_field rb 32 r (\<lambda>high r.
              (Inr \<lparr>htOutOfBand = 0, htPS = unat ((ps + 1) AND 0xf), htRS = unat ((rs + 1) AND 0xf),
                    htLow = uint (low AND 0xffffffff), htHight = uint (high AND 0xffffffff)\<rparr>, r))))) of
              (Inl err, r) \<Rightarrow> (Inl (TableReader err), r)
            | (Inr t, r) \<Rightarrow> (Inr t, r)))"

text \<open>\<open>1 << uint(rangeLen)\<close> of an \<open>int\<close>.\<close>

definition int_shift :: "nat \<Rightarrow> int" where
  "int_shift n = sint (push_bit n 1 :: u64)"

partial_function (option) table_lines :: "'s byte_reader \<Rightarrow> table_segment \<Rightarrow> int \<Rightarrow> code list \<Rightarrow> 's bit_reader \<Rightarrow>
    ((reader_error + code list) \<times> 's bit_reader) option" where
  "table_lines rb e curRangeLow codeTable r =
    (if curRangeLow < htHight e then
       (case ReadBits rb (htPS e mod 256) r of
          (Inl err, r) \<Rightarrow> Some (Inl err, r)
        | (Inr prefLen, r) \<Rightarrow>
            (case ReadBits rb (htRS e mod 256) r of
               (Inl err, r) \<Rightarrow> Some (Inl err, r)
             | (Inr rangeLen, r) \<Rightarrow>
                 table_lines rb e (to_int64 (curRangeLow + int_shift (unat rangeLen)))
                   (codeTable @ [NewCode (unat prefLen) (int (unat rangeLen)) 0 False]) r))
     else Some (Inr codeTable, r))"

text \<open>The lines after the loop: the values below, the values above, and no value.\<close>

definition last_lines :: "'s byte_reader \<Rightarrow> table_segment \<Rightarrow> code list \<Rightarrow> 's bit_reader \<Rightarrow>
    (reader_error + code list) \<times> 's bit_reader" where
  "last_lines rb e codeTable r =
    read_field rb (htPS e) r (\<lambda>lower r.
      read_field rb (htPS e) r (\<lambda>upper r.
        let codeTable = codeTable @ [NewCode (unat lower) 32 (htLow e - 1) True, NewCode (unat upper) 32 (htHight e) False]
        in if htOutOfBand e = 1 then
             read_field rb (htPS e) r (\<lambda>oob r. (Inr (codeTable @ [NewCode (unat oob) (-1) (-1) False]), r))
           else (Inr codeTable, r)))"

definition ParseTable :: "'s byte_reader \<Rightarrow> table_segment \<Rightarrow> 's bit_reader \<Rightarrow>
    ((huffman_error, node) res \<times> 's bit_reader) option" where
  "ParseTable rb e r =
    Option.bind (table_lines rb e (htLow e) [] r) (\<lambda>(codes, r).
      case codes of
        Inl err \<Rightarrow> Some (Err (ReaderError err), r)
      | Inr codeTable \<Rightarrow>
          (case last_lines rb e codeTable r of
             (Inl err, r) \<Rightarrow> Some (Err (ReaderError err), r)
           | (Inr codeTable, r) \<Rightarrow> Some (InitTree codeTable, r)))"

context byte_source
begin

lemma read_field_spec:
  assumes "ok r" "unread r = bs @ bs'" "0 < length bs" "length bs < 256"
  shows "\<exists>r'. (\<forall>f. read_field readBufferByte (length bs) r f = f (bits_value bs) r') \<and> unread r' = bs' \<and> ok r'"
  using ReadBits_spec [OF assms(1,3)] assms(2,4) by (auto simp: read_field_def)

lemma parseHeader_spec:
  assumes ok: "ok r" and bits: "unread r = False # rs @ ps @ low @ high @ rest"
    and len: "length rs = 3" "length ps = 3" "length low = 32" "length high = 32"
  shows "\<exists>r'. parseHeader readBufferByte r =
      (Inr \<lparr>htOutOfBand = 0, htPS = unat ((bits_value ps + 1 :: u64) AND 0xf), htRS = unat ((bits_value rs + 1 :: u64) AND 0xf),
            htLow = uint (bits_value low AND 0xffffffff :: u64), htHight = uint (bits_value high AND 0xffffffff :: u64)\<rparr>, r') \<and>
    unread r' = rest \<and> ok r'"
proof -
  from ReadBit_fresh [OF ok bits] obtain r1 where
    r1: "ReadBit readBufferByte r = (Inr 0, r1)" "unread r1 = rs @ ps @ low @ high @ rest" "ok r1" by (auto simp: fresh_def)
  from read_field_spec [OF r1(3,2)] len obtain r2 where
    r2: "\<And>f :: u64 \<Rightarrow> _ \<Rightarrow> (reader_error + table_segment) \<times> _. read_field readBufferByte 3 r1 f = f (bits_value rs) r2" "unread r2 = ps @ low @ high @ rest" "ok r2" by auto
  from read_field_spec [OF r2(3,2)] len obtain r3 where
    r3: "\<And>f :: u64 \<Rightarrow> _ \<Rightarrow> (reader_error + table_segment) \<times> _. read_field readBufferByte 3 r2 f = f (bits_value ps) r3" "unread r3 = low @ high @ rest" "ok r3" by auto
  from read_field_spec [OF r3(3,2)] len obtain r4 where
    r4: "\<And>f :: u64 \<Rightarrow> _ \<Rightarrow> (reader_error + table_segment) \<times> _. read_field readBufferByte 32 r3 f = f (bits_value low) r4" "unread r4 = high @ rest" "ok r4" by auto
  from read_field_spec [OF r4(3,2)] len obtain r5 where
    r5: "\<And>f :: u64 \<Rightarrow> _ \<Rightarrow> (reader_error + table_segment) \<times> _. read_field readBufferByte 32 r4 f = f (bits_value high) r5" "unread r5 = rest" "ok r5" by auto
  show ?thesis using r5(2,3) by (simp add: parseHeader_def r1(1) r2(1) r3(1) r4(1) r5(1))
qed

text \<open>Every line takes bits from the source, so the loop ends.\<close>

lemma ReadBits_cases:
  assumes "ok r" "0 < n"
  obtains err r' where "ReadBits readBufferByte n r = (Inl err, r')"
    | v r' where "ReadBits readBufferByte n r = (Inr v, r')" "ok r'" "length (unread r') + n = length (unread r)"
proof (cases "n \<le> length (unread r)")
  case True
  from ReadBits_spec [OF assms True] that(2) show thesis using True by force
next
  case False
  then have "fst (ReadBits readBufferByte n r) = Inl EOF" using ReadBits_at_end [OF assms(1)] by simp
  with that(1) show thesis by (metis prod.collapse)
qed

lemma table_lines_returns:
  assumes "0 < htPS e" "htPS e < 256" "0 < htRS e" "htRS e < 256" "ok r"
  shows "\<exists>res. table_lines readBufferByte e low codes r = Some res"
  using assms(5)
proof (induction "length (unread r)" arbitrary: low codes r rule: less_induct)
  case less
  show ?case
  proof (cases rule: ReadBits_cases [OF less.prems assms(1)])
    case (1 err r')
    then show ?thesis using assms(2) by (simp add: table_lines.simps)
  next
    case (2 v r1)
    show ?thesis
    proof (cases rule: ReadBits_cases [OF 2(2) assms(3)])
      case (1 err r')
      then show ?thesis using assms(2,4) 2(1) by (simp add: table_lines.simps)
    next
      case (2 w r2)
      with less.hyps [of r2] \<open>length (unread r1) + htPS e = length (unread r)\<close> assms(1)
      have "\<exists>res. table_lines readBufferByte e low' codes' r2 = Some res" for low' codes' by simp
      with 2(1) \<open>ReadBits readBufferByte (htPS e) r = (Inr v, r1)\<close> assms(2,4) show ?thesis
        by (subst table_lines.simps) simp
    qed
  qed
qed

end

text \<open>The lines of the loop start at zero, whatever range they are for.\<close>

lemma table_lines_zero:
  "table_lines rb e low codes r = Some (Inr codes', r') \<Longrightarrow>
    \<exists>new. codes' = codes @ new \<and> (\<forall>c \<in> set new. rangeLow c = 0 \<and> \<not> isLowerRange c)"
proof -
  assume "table_lines rb e low codes r = Some (Inr codes', r')"
  define Q where "Q codes res \<longleftrightarrow> (\<forall>codes' r'. res = (Inr codes', r') \<longrightarrow>
      (\<exists>new. codes' = codes @ new \<and> (\<forall>c \<in> set new. rangeLow c = 0 \<and> \<not> isLowerRange c)))"
    for codes and res :: "(reader_error + code list) \<times> 'a bit_reader"
  have snoc: "Q codes res" if "Q (codes @ [NewCode p l 0 False]) res" for codes res p l
    using that by (fastforce simp: Q_def NewCode_def)
  have err: "Q codes (Inl e, r)" and finished: "Q codes (Inr codes, r)" for codes e r by (simp_all add: Q_def)
  have "table_lines rb e low codes r = Some res \<Longrightarrow> Q codes res" for rb e low codes and r :: "'a bit_reader" and res
    by (rule table_lines.raw_induct [where P = "\<lambda>rb e low codes r res. Q codes res"])
       (auto split: if_splits prod.splits sum.splits intro: err finished, rule snoc, blast)
  then show ?thesis using \<open>table_lines rb e low codes r = Some (Inr codes', r')\<close> by (fastforce simp: Q_def)
qed

end
