(* ===== verification/Huffman_Properties.thy ===== *)
theory Huffman_Properties
  imports Huffman_Segment
begin

text \<open>
  Properties of the Huffman tables: every table whose lengths satisfy Kraft's inequality decodes what its codes say;
  the standard tables are complete and give every value of their range one code; the tables of a file are read
  to the end, but from the wrong bits and with the wrong values.
\<close>

section \<open>Any table\<close>

text \<open>C33: A table of lines whose code lengths satisfy Kraft's inequality builds a tree without an error, and the tree
  decodes the code of a line and the bits of its offset to the value of the line, and leaves the other bits.\<close>

theorem huffman_canonical:
  assumes "kraft (lengths cs)" "i < length cs" "0 < prefixLength (cs ! i)" "line_ok (cs ! i)"
    and "slice_source.ok r" "slice_source.unread r = path (numbered cs i) @ bs @ rest"
    and "length bs = (if rangeLength (cs ! i) = -1 then 0 else nat (rangeLength (cs ! i)))"
  shows "\<exists>t r'. NewFixedSizeTable cs = Ok t \<and> node_Decode slice_byte t r = (Ok (line_value (cs ! i) bs), r') \<and>
    slice_source.unread r' = rest \<and> slice_source.ok r'"
  using slice_source.table_Decode [OF assms] by (simp add: NewFixedSizeTable_def)

lemma reader_start: "slice_source.ok (New data)" "slice_source.unread (New data) = bits data"
  by (simp_all add: slice_source.ok_def cache_ok_def New_def slice_left_def)

theorem huffman_canonical_witness:
  "\<exists>t r'. NewFixedSizeTable [NewCode 2 0 10 False, NewCode 1 3 20 False, NewCode 2 (-1) 0 False] = Ok t \<and>
    node_Decode slice_byte t (New [0x5F]) = (Ok 25, r') \<and> slice_source.unread r' = [True, True, True, True] \<and>
    slice_source.ok r'"
proof -
  let ?cs = "[NewCode 2 0 10 False, NewCode 1 3 20 False, NewCode 2 (-1) 0 False]"
  have "slice_source.unread (New [0x5F]) = path (numbered ?cs 1) @ [True, False, True] @ [True, True, True, True]"
    by (simp add: reader_start path_def numbered_def NewCode_def code_number_def length_count_def word_bits_def upt_rec)
  then show ?thesis
    using huffman_canonical [of ?cs 1 "New [0x5F]" "[True, False, True]" "[True, True, True, True]"]
    by (simp add: kraft_def weight_def NewCode_def line_ok_def reader_start line_value_def offset_value_def)
qed

section \<open>The standard tables\<close>

definition standard_lines :: "int \<Rightarrow> code list" where
  "standard_lines number = map standard_line (tables ! nat (number - 1))"

text \<open>The values of a standard table: from the first of the lowest line to the last of the highest.\<close>

definition standard_bounds :: "int \<Rightarrow> int \<times> int" where
  "standard_bounds number = (fst (hd (table_ranges (standard_lines number))), snd (last (table_ranges (standard_lines number))))"

lemma length_tables: "length tables = 15"
  by (simp add: tables_def)

lemma GetStandardTable_eq:
  "1 \<le> number \<Longrightarrow> number \<le> 15 \<Longrightarrow> GetStandardTable number = InitTree (standard_lines number)"
  by (simp add: GetStandardTable_def length_tables newStandardTable_def standard_lines_def)

lemma standard_all:
  "list_all P tables \<Longrightarrow> 1 \<le> number \<Longrightarrow> number \<le> 15 \<Longrightarrow> P (tables ! nat (number - 1))"
  by (simp add: list_all_length length_tables)

lemma standard_lines_ok:
  "list_all (\<lambda>table. list_all (\<lambda>c. line_ok c \<and> 0 < prefixLength c) (map standard_line table)) tables"
  unfolding tables_def by (simp add: standard_line_def NewCode_def line_ok_def)

lemma standard_contiguous:
  "list_all (\<lambda>table. contiguous (table_ranges (map standard_line table)) \<and> table_ranges (map standard_line table) \<noteq> []) tables"
  unfolding tables_def by (simp add: table_ranges_def standard_line_def NewCode_def line_range_def)

text \<open>C5: Every value in the range of a standard table has exactly one line, and its code and offset decode to
  the value.\<close>

theorem huffman_standard_roundtrip:
  assumes "1 \<le> number" "number \<le> 15" "fst (standard_bounds number) \<le> v" "v < snd (standard_bounds number)"
  shows "\<exists>i < length (standard_lines number). covers (standard_lines number ! i) v \<and>
    (\<forall>j < length (standard_lines number). covers (standard_lines number ! j) v \<longrightarrow> j = i) \<and>
    (\<forall>r rest. slice_source.ok r \<longrightarrow> slice_source.unread r = encode_value (standard_lines number) i v @ rest \<longrightarrow>
      (\<exists>t r'. GetStandardTable number = Ok t \<and> node_Decode slice_byte t r = (Ok v, r') \<and> slice_source.unread r' = rest))"
proof -
  let ?cs = "standard_lines number"
  have "contiguous (table_ranges ?cs)" "table_ranges ?cs \<noteq> []"
    using standard_all [OF standard_contiguous assms(1,2)] by (simp_all add: standard_lines_def)
  from covered_once [OF this, of v] assms(3,4) have "\<exists>!i. i < length ?cs \<and> covers (?cs ! i) v"
    by (simp add: standard_bounds_def)
  then obtain i where i: "i < length ?cs" "covers (?cs ! i) v" "\<And>j. j < length ?cs \<Longrightarrow> covers (?cs ! j) v \<Longrightarrow> j = i" by blast
  have line: "line_ok (?cs ! i)" "0 < prefixLength (?cs ! i)"
    using standard_all [OF standard_lines_ok assms(1,2)] i(1) by (simp_all add: standard_lines_def list_all_length)
  have kraft: "kraft (lengths ?cs)"
    using standard_all [OF kraft_tables assms(1,2)] by (simp add: standard_lines_def)
  let ?bs = "word_bits (nat (rangeLength (?cs ! i))) (of_int \<bar>v - rangeLow (?cs ! i)\<bar> :: u64)"
  have "\<exists>t r'. GetStandardTable number = Ok t \<and> node_Decode slice_byte t r = (Ok v, r') \<and> slice_source.unread r' = rest"
    if "slice_source.ok r" "slice_source.unread r = encode_value ?cs i v @ rest" for r rest
    using slice_source.table_Decode [OF kraft i(1) line(2,1) that(1), of ?bs rest] that(2) i(2) line_value_covers [OF line(1) i(2)]
    by (auto simp: encode_value_def covers_def GetStandardTable_eq [OF assms(1,2)])
  with i show ?thesis by blast
qed

lemma huffman_standard_roundtrip_witness:
  "\<exists>i < length (standard_lines 1). covers (standard_lines 1 ! i) 20 \<and>
    (\<forall>j < length (standard_lines 1). covers (standard_lines 1 ! j) 20 \<longrightarrow> j = i) \<and>
    (\<forall>r rest. slice_source.ok r \<longrightarrow> slice_source.unread r = encode_value (standard_lines 1) i 20 @ rest \<longrightarrow>
      (\<exists>t r'. GetStandardTable 1 = Ok t \<and> node_Decode slice_byte t r = (Ok 20, r') \<and> slice_source.unread r' = rest))"
  by (rule huffman_standard_roundtrip)
    (simp_all add: standard_bounds_def standard_lines_def tables_def table_ranges_def standard_line_def NewCode_def line_range_def)

text \<open>C34: Decoding with a standard table never panics, whatever the reader delivers.\<close>

lemma full_Decode: "full t \<Longrightarrow> fst (node_Decode rb t r) \<noteq> Panic"
  by (induction rb t r rule: node_Decode.induct) (auto split: sum.splits prod.splits option.splits)

theorem huffman_standard_safe:
  "1 \<le> number \<and> number \<le> 15 \<Longrightarrow> \<exists>t. GetStandardTable number = Ok t \<and> (\<forall>rb r. fst (node_Decode rb t r) \<noteq> Panic)"
proof -
  assume n: "1 \<le> number \<and> number \<le> 15"
  then have "full_table (tables ! nat (number - 1))" using standard_all [OF full_tables] by blast
  then show ?thesis using n
    by (auto simp: full_table_def GetStandardTable_def length_tables full_Decode split: res.splits)
qed

lemma huffman_standard_safe_witness:
  "\<exists>t. GetStandardTable 15 = Ok t \<and> (\<forall>rb r. fst (node_Decode rb t r) \<noteq> Panic)"
  by (rule huffman_standard_safe) simp

section \<open>Tables of a file\<close>

lemma offset_value_Cons: "offset_value (b # bs) = of_bool b * 2 ^ length bs + offset_value bs"
  by (simp add: offset_value_def horner_sum_append mult.commute)

lemma offset_value_snoc: "offset_value (bs @ [b]) = of_bool b + 2 * offset_value bs"
  by (simp add: offset_value_def)

lemma uint_field: "length bs \<le> 32 \<Longrightarrow> uint (bits_value bs AND 0xffffffff :: u64) = offset_value bs"
proof -
  assume len: "length bs \<le> 32"
  have "(2 :: int) ^ length bs \<le> 2 ^ 32" using len by (rule power_increasing) simp
  with offset_value_bounds [of bs] have o: "0 \<le> offset_value bs" "offset_value bs < 2 ^ 32" by linarith+
  have "bits_value bs AND 0xffffffff = (take_bit 32 (of_int (offset_value bs)) :: u64)"
    by (simp add: offset_value_bits take_bit_eq_mask mask_eq_exp_minus_1)
  with o show ?thesis by (simp add: unsigned_take_bit_eq uint_word_of_int_eq take_bit_int_eq_self)
qed

text \<open>C35: The header of a table segment: a byte of flags, the lowest value and the highest value. The lowest bit of the
  flags, which says whether there is an out-of-band line, is taken for the highest bit of the lowest value, and
  both values are one bit off.\<close>

theorem table_header_misread:
  assumes "\<not> bit f 7" "length low = 4" "length high = 4"
  shows "\<exists>t r'. parseHeader slice_byte (New (f # low @ high)) = (Inr t, r') \<and> htOutOfBand t = 0 \<and>
    htLow t = 2 ^ 31 * of_bool (bit f 0) + offset_value (bits low) div 2 \<and>
    htHight t = 2 ^ 31 * (offset_value (bits low) mod 2) + offset_value (bits high) div 2"
proof -
  from assms(2,3) have "bits low \<noteq> []" "bits high \<noteq> []" by (metis length_bits list.size(3) mult_eq_0_iff zero_neq_numeral)+
  then obtain l x h y where l: "bits low = l @ [x]" and h: "bits high = h @ [y]" by (metis append_butlast_last_id)
  then have len: "length l = 31" "length h = 31" using assms(2,3) length_bits [of low] length_bits [of high] by simp_all
  let ?rs = "map (bit f) [6, 5, 4]" and ?ps = "map (bit f) [3, 2, 1]"
  have "word_bits 8 f = False # ?rs @ ?ps @ [bit f 0]" using assms(1) by (simp add: word_bits_def upt_rec)
  then have "slice_source.unread (New (f # low @ high)) = False # ?rs @ ?ps @ (bit f 0 # l) @ (x # h) @ [y]"
    by (simp add: reader_start l h)
  from slice_source.parseHeader_spec [OF reader_start(1) this] len obtain r' where
    "parseHeader slice_byte (New (f # low @ high)) =
      (Inr \<lparr>htOutOfBand = 0, htPS = unat ((bits_value ?ps + 1 :: u64) AND 0xf), htRS = unat ((bits_value ?rs + 1 :: u64) AND 0xf),
            htLow = uint (bits_value (bit f 0 # l) AND 0xffffffff :: u64), htHight = uint (bits_value (x # h) AND 0xffffffff :: u64)\<rparr>, r')"
    by auto
  then show ?thesis using len
    by (simp add: uint_field offset_value_Cons offset_value_snoc l h)
qed

theorem table_header_misread_witness:
  "\<exists>t r'. parseHeader slice_byte (New [0x42, 0, 0, 0, 5, 0, 0, 0, 8]) = (Inr t, r') \<and> htLow t = 2 \<and> htHight t = 2 ^ 31 + 4"
proof -
  have "bits [0, 0, 0, 5 :: u8] = replicate 29 False @ [True, False, True]" "bits [0, 0, 0, 8 :: u8] = replicate 28 False @ [True, False, False, False]"
    by (simp_all add: word_bits_def upt_rec numeral_eq_Suc)
  then have "offset_value (bits [0, 0, 0, 5]) = 5" "offset_value (bits [0, 0, 0, 8]) = 8"
    by (simp_all add: offset_value_def numeral_eq_Suc)
  then show ?thesis
    using table_header_misread [of "0x42" "[0, 0, 0, 5]" "[0, 0, 0, 8]"] by (auto simp: bit_simps)
qed

text \<open>The lines of a table of a file are read as if each started at zero: a line decodes to its offset alone.\<close>

lemma encoded_table_offsets:
  "table_lines rb e low [] r = Some (Inr codes, r') \<Longrightarrow> c \<in> set codes \<Longrightarrow> rangeLength c \<noteq> -1 \<Longrightarrow> line_value c bs = offset_value bs"
  using table_lines_zero [of rb e low "[]" r codes r'] by (auto simp: line_value_def)

text \<open>A table for the values from 10 on, with the code 0 for the value 10: it decodes the code to 0.\<close>

theorem encoded_table_low_lost:
  "\<exists>t r'. ParseTable slice_byte \<lparr>htOutOfBand = 0, htPS = 1, htRS = 1, htLow = 10, htHight = 11\<rparr> (New [0x90]) = Some (Ok t, r') \<and>
    fst (node_Decode slice_byte t (New [0])) = Ok 0"
proof -
  let ?e = "\<lparr>htOutOfBand = 0, htPS = 1, htRS = 1, htLow = 10, htHight = 11\<rparr>"
  let ?r = "(New [0x90])\<lparr>source := \<lparr>inp = [0x90], pos = 1\<rparr>, cache := 0x10, unread_bits := 6\<rparr>"
  have lines: "table_lines slice_byte ?e 10 [] (New [0x90]) = Some (Inr [NewCode 1 0 0 False], ?r)"
    by (simp add: table_lines.simps New_def ReadBits_def slice_byte_def low_bits_def whole_bytes.simps int_shift_def)
  have "(case last_lines slice_byte ?e [NewCode 1 0 0 False] ?r of
      (Inr codes, r) \<Rightarrow> (case InitTree codes of Ok t \<Rightarrow> fst (node_Decode slice_byte t (New [0])) = Ok 0 | _ \<Rightarrow> False)
    | _ \<Rightarrow> False)"
    by code_simp
  then have "(case ParseTable slice_byte ?e (New [0x90]) of
      Some (Ok t, r') \<Rightarrow> fst (node_Decode slice_byte t (New [0])) = Ok 0 | _ \<Rightarrow> False)"
    by (auto simp: ParseTable_def lines simp del: One_nat_def split: prod.splits sum.splits res.splits)
  then show ?thesis by (auto split: option.splits prod.splits res.splits)
qed

text \<open>Reading a table of a file returns, for every header and every input.\<close>

theorem encoded_table_returns:
  "0 < htPS e \<and> htPS e < 256 \<and> 0 < htRS e \<and> htRS e < 256 \<and> slice_source.ok r \<Longrightarrow> \<exists>res. ParseTable slice_byte e r = Some res"
proof -
  assume "0 < htPS e \<and> htPS e < 256 \<and> 0 < htRS e \<and> htRS e < 256 \<and> slice_source.ok r"
  then obtain codes r' where "table_lines slice_byte e (htLow e) [] r = Some (codes, r')"
    using slice_source.table_lines_returns [of e r "htLow e" "[]"] by fastforce
  then show ?thesis by (auto simp: ParseTable_def split: sum.splits prod.splits)
qed

theorem encoded_table_returns_witness:
  "\<exists>res. ParseTable slice_byte \<lparr>htOutOfBand = 0, htPS = 1, htRS = 1, htLow = 0, htHight = 4\<rparr> (New [0xA5]) = Some res"
  using encoded_table_returns [of "\<lparr>htOutOfBand = 0, htPS = 1, htRS = 1, htLow = 0, htHight = 4\<rparr>" "New [0xA5]"] reader_start(1)
  by simp

end
