(* ===== verification/Ps_Object.thy ===== *)
theory Ps_Object
  imports Go_Numbers
begin

text \<open>
  The objects and the operand stack of the PostScript calculator (\<open>pdf/ps/object.go\<close>,
  \<open>stack.go\<close>, \<open>utils.go\<close>, \<open>const.go\<close>). Objects are never written after they are built,
  so a pointer to an object is its value. The stack is the slice itself, its top the last
  element.
\<close>

section \<open>Objects\<close>

datatype 'f PSObject =
    PSInteger u64
  | PSReal 'f
  | PSBoolean bool
  | PSProgram "'f PSObject list"
  | PSOperand string

datatype ps_error =
    ErrStackUnderflow
  | ErrStackOverflow
  | ErrTypeCheck
  | ErrRangeCheck
  | ErrUnsupportedOperand
  | ErrUndefinedResult

fun Duplicate :: "'f PSObject \<Rightarrow> 'f PSObject" where
  "Duplicate (PSInteger v) = PSInteger v"
| "Duplicate (PSReal v) = PSReal v"
| "Duplicate (PSBoolean v) = PSBoolean v"
| "Duplicate (PSProgram prog) = PSProgram (map Duplicate prog)"
| "Duplicate (PSOperand s) = PSOperand s"

lemma Duplicate_id [simp]: "Duplicate x = x"
  by (induction x) (simp_all add: map_idI)

fun obj_String :: "'f fops \<Rightarrow> 'f PSObject \<Rightarrow> string" where
  "obj_String F (PSInteger v) = show_int64 v"
| "obj_String F (PSReal v) = format5 F v"
| "obj_String F (PSBoolean v) = show_bool v"
| "obj_String F (PSProgram prog) = ''{ '' @ concat (map (\<lambda>obj. obj_String F obj @ '' '') prog) @ ''}''"
| "obj_String F (PSOperand s) = s"

fun DebugString :: "'f fops \<Rightarrow> 'f PSObject \<Rightarrow> string" where
  "DebugString F (PSInteger v) = ''int:'' @ show_int64 v"
| "DebugString F (PSReal v) = ''real:'' @ format5 F v"
| "DebugString F (PSBoolean v) = ''bool:'' @ show_bool v"
| "DebugString F (PSProgram prog) = ''{ '' @ concat (map (\<lambda>obj. DebugString F obj @ '' '') prog) @ ''}''"
| "DebugString F (PSOperand s) = ''op:'' @ [CHR 0x27] @ s @ [CHR 0x27]"

section \<open>The stack\<close>

type_synonym 'f stack = "'f PSObject list"

text \<open>
  An operation on the stack returns its error or value together with the stack it leaves, in
  the error case too.
\<close>

type_synonym ('f, 'a) ps = "'f stack \<Rightarrow> (ps_error + 'a) \<times> 'f stack"

definition ps_return :: "'a \<Rightarrow> ('f, 'a) ps" where
  "ps_return x = (\<lambda>s. (Inr x, s))"

definition ps_throw :: "ps_error \<Rightarrow> ('f, 'a) ps" where
  "ps_throw e = (\<lambda>s. (Inl e, s))"

definition ps_bind :: "('f, 'a) ps \<Rightarrow> ('a \<Rightarrow> ('f, 'b) ps) \<Rightarrow> ('f, 'b) ps" where
  "ps_bind m f = (\<lambda>s. case m s of (Inl e, s') \<Rightarrow> (Inl e, s') | (Inr x, s') \<Rightarrow> f x s')"

definition Push :: "'f PSObject \<Rightarrow> ('f, unit) ps" where
  "Push obj = (\<lambda>s. if length s > 100 then (Inl ErrStackOverflow, s) else (Inr (), s @ [obj]))"

definition Pop :: "('f, 'f PSObject) ps" where
  "Pop = (\<lambda>s. if length s < 1 then (Inl ErrStackUnderflow, s) else (Inr (last s), butlast s))"

definition PopInteger :: "('f, u64) ps" where
  "PopInteger = ps_bind Pop (\<lambda>obj.
     case obj of PSInteger v \<Rightarrow> ps_return v | _ \<Rightarrow> ps_throw ErrTypeCheck)"

definition PopNumberAsFloat64 :: "'f fops \<Rightarrow> ('f, 'f) ps" where
  "PopNumberAsFloat64 F = ps_bind Pop (\<lambda>obj.
     case obj of PSReal v \<Rightarrow> ps_return v | PSInteger v \<Rightarrow> ps_return (of_int64 F v)
     | _ \<Rightarrow> ps_throw ErrTypeCheck)"

definition stack_String :: "'f fops \<Rightarrow> 'f stack \<Rightarrow> string" where
  "stack_String F s = ''[ '' @ concat (map (\<lambda>obj. obj_String F obj @ '' '') s) @ '']''"

definition stack_DebugString :: "'f fops \<Rightarrow> 'f stack \<Rightarrow> string" where
  "stack_DebugString F s = ''[ '' @ concat (map (\<lambda>obj. DebugString F obj @ '' '') s) @ '']''"

named_theorems ps_simps \<open>evaluation of stack operations\<close>

lemma ps_bind_apply [ps_simps]:
  "ps_bind m f s = (case m s of (Inl e, s') \<Rightarrow> (Inl e, s') | (Inr x, s') \<Rightarrow> f x s')"
  by (simp add: ps_bind_def)

lemma ps_return_apply [ps_simps]: "ps_return x s = (Inr x, s)"
  by (simp add: ps_return_def)

lemma ps_throw_apply [ps_simps]: "ps_throw e s = (Inl e, s)"
  by (simp add: ps_throw_def)

lemma Push_apply [ps_simps]:
  "Push obj s = (if length s > 100 then (Inl ErrStackOverflow, s) else (Inr (), s @ [obj]))"
  by (simp add: Push_def)

lemma Pop_apply [ps_simps]: "Pop [] = (Inl ErrStackUnderflow, [])" "Pop (s @ [x]) = (Inr x, s)"
  "Pop (s @ [x, y]) = (Inr y, s @ [x])" "Pop (s @ [x, y, z]) = (Inr z, s @ [x, y])"
  by (simp_all add: Pop_def butlast_append)

lemma ps_bind_return [simp]: "ps_bind (ps_return x) f = f x"
  by (simp add: fun_eq_iff ps_simps)

lemma ps_bind_assoc: "ps_bind (ps_bind m f) g = ps_bind m (\<lambda>x. ps_bind (f x) g)"
  by (simp add: fun_eq_iff ps_simps split: prod.split sum.split)

lemma PopInteger_apply [ps_simps]:
  "PopInteger [] = (Inl ErrStackUnderflow, [])"
  "PopInteger (s @ [x]) = (case x of PSInteger v \<Rightarrow> (Inr v, s) | _ \<Rightarrow> (Inl ErrTypeCheck, s))"
  "PopInteger (s @ [y, x]) = (case x of PSInteger v \<Rightarrow> (Inr v, s @ [y]) | _ \<Rightarrow> (Inl ErrTypeCheck, s @ [y]))"
  by (simp_all add: PopInteger_def ps_simps split: PSObject.split)

lemma PopNumberAsFloat64_apply [ps_simps]:
  "PopNumberAsFloat64 F [] = (Inl ErrStackUnderflow, [])"
  "PopNumberAsFloat64 F (s @ [x]) = (case x of PSReal v \<Rightarrow> (Inr v, s)
    | PSInteger v \<Rightarrow> (Inr (of_int64 F v), s) | _ \<Rightarrow> (Inl ErrTypeCheck, s))"
  "PopNumberAsFloat64 F (s @ [y, x]) = (case x of PSReal v \<Rightarrow> (Inr v, s @ [y])
    | PSInteger v \<Rightarrow> (Inr (of_int64 F v), s @ [y]) | _ \<Rightarrow> (Inl ErrTypeCheck, s @ [y]))"
  by (simp_all add: PopNumberAsFloat64_def ps_simps split: PSObject.split)

end
