(* ===== verification/Ps_Operations.thy ===== *)
theory Ps_Operations
  imports Ps_Object
begin

text \<open>
  The operators of \<open>pdf/ps/operations.go\<close>, one definition each, in the order of the file. Each
  takes its operands from the stack in the order of the source, so that the stack an operator
  leaves when it fails is the one the code leaves. The two operators that run procedures are
  in \<open>Ps_Exec\<close>.
\<close>

section \<open>Shared parts\<close>

fun number_of :: "'f fops \<Rightarrow> 'f PSObject \<Rightarrow> 'f option" where
  "number_of F (PSReal v) = Some v"
| "number_of F (PSInteger v) = Some (of_int64 F v)"
| "number_of F _ = None"

text \<open>Operators that keep the type of their number.\<close>

definition unary_op :: "(u64 \<Rightarrow> u64) \<Rightarrow> ('f \<Rightarrow> 'f) \<Rightarrow> ('f, unit) ps" where
  "unary_op i r = ps_bind Pop (\<lambda>obj.
     case obj of
       PSReal v \<Rightarrow> Push (PSReal (r v))
     | PSInteger v \<Rightarrow> Push (PSInteger (i v))
     | _ \<Rightarrow> ps_throw ErrTypeCheck)"

text \<open>Two numbers: integers give an integer, otherwise the result is real.\<close>

definition arith_op :: "'f fops \<Rightarrow> (u64 \<Rightarrow> u64 \<Rightarrow> u64) \<Rightarrow> ('f \<Rightarrow> 'f \<Rightarrow> 'f) \<Rightarrow> ('f, unit) ps" where
  "arith_op F i r = ps_bind Pop (\<lambda>obj1. ps_bind Pop (\<lambda>obj2.
     case (number_of F obj1, number_of F obj2) of
       (Some v1, Some v2) \<Rightarrow>
         (case (obj1, obj2) of
            (PSInteger i1, PSInteger i2) \<Rightarrow> Push (PSInteger (i i1 i2))
          | _ \<Rightarrow> Push (PSReal (r v1 v2)))
     | _ \<Rightarrow> ps_throw ErrTypeCheck))"

definition logic_op :: "(bool \<Rightarrow> bool \<Rightarrow> bool) \<Rightarrow> (u64 \<Rightarrow> u64 \<Rightarrow> u64) \<Rightarrow> ('f, unit) ps" where
  "logic_op b i = ps_bind Pop (\<lambda>obj1. ps_bind Pop (\<lambda>obj2.
     case obj1 of
       PSBoolean b1 \<Rightarrow>
         (case obj2 of PSBoolean b2 \<Rightarrow> Push (PSBoolean (b b1 b2)) | _ \<Rightarrow> ps_throw ErrTypeCheck)
     | PSInteger i1 \<Rightarrow>
         (case obj2 of PSInteger i2 \<Rightarrow> Push (PSInteger (i i1 i2)) | _ \<Rightarrow> ps_throw ErrTypeCheck)
     | _ \<Rightarrow> ps_throw ErrTypeCheck))"

text \<open>A real function of one number.\<close>

definition real_op :: "'f fops \<Rightarrow> ('f \<Rightarrow> 'f) \<Rightarrow> ('f, unit) ps" where
  "real_op F r = ps_bind (PopNumberAsFloat64 F) (\<lambda>v. Push (PSReal (r v)))"

text \<open>Comparisons: numbers closer than the tolerance are equal.\<close>

definition compare_op :: "'f fops \<Rightarrow> bool \<Rightarrow> ('f \<Rightarrow> 'f \<Rightarrow> bool) \<Rightarrow> ('f, unit) ps" where
  "compare_op F equal cmp = ps_bind (PopNumberAsFloat64 F) (\<lambda>num2. ps_bind (PopNumberAsFloat64 F) (\<lambda>num1.
     if flt F (Abs F (fsub F num1 num2)) (tolerance F) then Push (PSBoolean equal)
     else Push (PSBoolean (cmp num1 num2))))"

definition div_op :: "(int \<Rightarrow> int \<Rightarrow> int) \<Rightarrow> ('f, unit) ps" where
  "div_op f = ps_bind Pop (\<lambda>obj1. ps_bind Pop (\<lambda>obj2.
     case obj1 of
       PSInteger int1 \<Rightarrow>
         if int1 = 0 then ps_throw ErrUndefinedResult
         else (case obj2 of
             PSInteger int2 \<Rightarrow> Push (PSInteger (word_of_int (f (sint int2) (sint int1))))
           | _ \<Rightarrow> ps_throw ErrTypeCheck)
     | _ \<Rightarrow> ps_throw ErrTypeCheck))"

definition degrees :: "'f fops \<Rightarrow> 'f \<Rightarrow> 'f" where
  "degrees F angle = fdiv F (fmul F angle (Pi F)) (literal F 180)"

section \<open>The operators\<close>

definition op_abs :: "'f fops \<Rightarrow> ('f, unit) ps" where
  "op_abs F = unary_op (\<lambda>v. if sint v < 0 then - v else v)
     (\<lambda>v. if flt F v (literal F 0) then fneg F v else v)"

definition op_add :: "'f fops \<Rightarrow> ('f, unit) ps" where
  "op_add F = arith_op F (\<lambda>int1 int2. int1 + int2) (\<lambda>real1 real2. fadd F real1 real2)"

definition op_and :: "('f, unit) ps" where
  "op_and = logic_op (\<and>) (AND)"

definition op_atan :: "'f fops \<Rightarrow> ('f, unit) ps" where
  "op_atan F = ps_bind (PopNumberAsFloat64 F) (\<lambda>den. ps_bind (PopNumberAsFloat64 F) (\<lambda>num.
     if feq F den (literal F 0) then
       if flt F num (literal F 0) then Push (PSReal (literal F 270)) else Push (PSReal (literal F 90))
     else
       let ratio = fdiv F num den;
           angleDeg = fdiv F (fmul F (Atan F ratio) (literal F 180)) (Pi F)
       in Push (PSReal angleDeg)))"

definition op_bitshift :: "('f, unit) ps" where
  "op_bitshift = ps_bind PopInteger (\<lambda>shift. ps_bind PopInteger (\<lambda>int1.
     Push (PSInteger (if sint shift \<ge> 0 then push_bit (unat shift) int1
       else signed_drop_bit (unat (- shift)) int1))))"

definition op_ceiling :: "'f fops \<Rightarrow> ('f, unit) ps" where
  "op_ceiling F = unary_op (\<lambda>v. v) (Ceil F)"

definition op_copy :: "('f, unit) ps" where
  "op_copy = ps_bind PopInteger (\<lambda>n s.
     if sint n < 0 then (Inl ErrRangeCheck, s)
     else if sint n > int (length s) then (Inl ErrRangeCheck, s)
     else (Inr (), s @ drop (length s - unat n) s))"

definition op_cos :: "'f fops \<Rightarrow> ('f, unit) ps" where
  "op_cos F = real_op F (\<lambda>angle. Cos F (degrees F angle))"

definition op_cvi :: "'f fops \<Rightarrow> ('f, unit) ps" where
  "op_cvi F = ps_bind Pop (\<lambda>obj.
     case obj of
       PSReal v \<Rightarrow> Push (PSInteger (to_int64 F v))
     | PSInteger v \<Rightarrow> Push (PSInteger v)
     | _ \<Rightarrow> ps_throw ErrTypeCheck)"

definition op_cvr :: "'f fops \<Rightarrow> ('f, unit) ps" where
  "op_cvr F = ps_bind Pop (\<lambda>obj.
     case obj of
       PSReal v \<Rightarrow> Push (PSReal v)
     | PSInteger v \<Rightarrow> Push (PSReal (of_int64 F v))
     | _ \<Rightarrow> ps_throw ErrTypeCheck)"

definition op_div :: "'f fops \<Rightarrow> ('f, unit) ps" where
  "op_div F = ps_bind Pop (\<lambda>obj1. ps_bind Pop (\<lambda>obj2.
     case number_of F obj1 of
       None \<Rightarrow> ps_throw ErrTypeCheck
     | Some v1 \<Rightarrow>
         if (case obj1 of PSInteger i1 \<Rightarrow> i1 = 0 | _ \<Rightarrow> feq F v1 (literal F 0)) then
           ps_throw ErrUndefinedResult
         else (case number_of F obj2 of
             None \<Rightarrow> ps_throw ErrTypeCheck
           | Some v2 \<Rightarrow> Push (PSReal (fdiv F v2 v1)))))"

definition op_dup :: "('f, unit) ps" where
  "op_dup = ps_bind Pop (\<lambda>obj. ps_bind (Push obj) (\<lambda>_. Push (Duplicate obj)))"

definition op_eq :: "'f fops \<Rightarrow> ('f, unit) ps" where
  "op_eq F = ps_bind Pop (\<lambda>obj1. ps_bind Pop (\<lambda>obj2.
     case (obj1, obj2) of
       (PSBoolean b1, PSBoolean b2) \<Rightarrow> Push (PSBoolean (b1 = b2))
     | (PSBoolean _, _) \<Rightarrow> Push (PSBoolean False)
     | (_, PSBoolean _) \<Rightarrow> Push (PSBoolean False)
     | _ \<Rightarrow>
         (case (number_of F obj1, number_of F obj2) of
            (Some val1, Some val2) \<Rightarrow>
              Push (PSBoolean (flt F (Abs F (fsub F val2 val1)) (tolerance F)))
          | _ \<Rightarrow> ps_throw ErrTypeCheck)))"

definition op_exch :: "('f, unit) ps" where
  "op_exch = ps_bind Pop (\<lambda>top. ps_bind Pop (\<lambda>next. ps_bind (Push top) (\<lambda>_. Push next)))"

definition op_exp :: "'f fops \<Rightarrow> ('f, unit) ps" where
  "op_exp F = ps_bind (PopNumberAsFloat64 F) (\<lambda>exponent. ps_bind (PopNumberAsFloat64 F) (\<lambda>base.
     if flt F (Abs F exponent) (literal F 1) \<and> flt F base (literal F 0) then ps_throw ErrUndefinedResult
     else Push (PSReal (Pow F base exponent))))"

definition op_floor :: "'f fops \<Rightarrow> ('f, unit) ps" where
  "op_floor F = unary_op (\<lambda>v. v) (Floor F)"

definition op_ge :: "'f fops \<Rightarrow> ('f, unit) ps" where
  "op_ge F = compare_op F True (\<lambda>num1 num2. flt F num2 num1)"

definition op_gt :: "'f fops \<Rightarrow> ('f, unit) ps" where
  "op_gt F = compare_op F False (\<lambda>num1 num2. flt F num2 num1)"

definition op_idiv :: "('f, unit) ps" where
  "op_idiv = div_op (sdiv)"

definition op_index :: "('f, unit) ps" where
  "op_index = ps_bind Pop (\<lambda>obj s.
     case obj of
       PSInteger n \<Rightarrow>
         if sint n < 0 then (Inl ErrRangeCheck, s)
         else if sint n > int (length s) - 1 then (Inl ErrStackUnderflow, s)
         else Push (Duplicate (s ! (length s - 1 - unat n))) s
     | _ \<Rightarrow> (Inl ErrTypeCheck, s))"

definition op_le :: "'f fops \<Rightarrow> ('f, unit) ps" where
  "op_le F = compare_op F True (\<lambda>num1 num2. flt F num1 num2)"

definition op_log :: "'f fops \<Rightarrow> ('f, unit) ps" where
  "op_log F = real_op F (Log10 F)"

definition op_ln :: "'f fops \<Rightarrow> ('f, unit) ps" where
  "op_ln F = real_op F (Ln F)"

definition op_lt :: "'f fops \<Rightarrow> ('f, unit) ps" where
  "op_lt F = compare_op F False (\<lambda>num1 num2. flt F num1 num2)"

definition op_mod :: "('f, unit) ps" where
  "op_mod = div_op (smod)"

definition op_mul :: "'f fops \<Rightarrow> ('f, unit) ps" where
  "op_mul F = arith_op F (\<lambda>int1 int2. int1 * int2) (\<lambda>real1 real2. fmul F real1 real2)"

definition op_not :: "('f, unit) ps" where
  "op_not = ps_bind Pop (\<lambda>obj.
     case obj of
       PSBoolean b \<Rightarrow> Push (PSBoolean (\<not> b))
     | PSInteger i \<Rightarrow> Push (PSInteger (NOT i))
     | _ \<Rightarrow> ps_throw ErrTypeCheck)"

definition op_ne :: "'f fops \<Rightarrow> ('f, unit) ps" where
  "op_ne F = ps_bind (op_eq F) (\<lambda>_. op_not)"

definition op_neg :: "'f fops \<Rightarrow> ('f, unit) ps" where
  "op_neg F = unary_op (\<lambda>v. - v) (fneg F)"

definition op_or :: "('f, unit) ps" where
  "op_or = logic_op (\<or>) (OR)"

definition op_pop :: "('f, unit) ps" where
  "op_pop = ps_bind Pop (\<lambda>_. ps_return ())"

definition op_round :: "'f fops \<Rightarrow> ('f, unit) ps" where
  "op_round F = unary_op (\<lambda>v. v) (\<lambda>v. Floor F (fadd F v (half F)))"

text \<open>
  One round of \<open>roll\<close>. The rounds write to the array under the stack, so they stay visible
  although the code assigns the result to its local pointer only.
\<close>

definition roll_step :: "bool \<Rightarrow> nat \<Rightarrow> 'f stack \<Rightarrow> 'f stack" where
  "roll_step up n s =
    (let below = take (length s - n) s; substack = drop (length s - n) s
     in below @ (if up then last substack # butlast substack else tl substack @ [hd substack]))"

fun roll_loop :: "nat \<Rightarrow> bool \<Rightarrow> nat \<Rightarrow> 'f stack \<Rightarrow> 'f stack" where
  "roll_loop 0 up n s = s"
| "roll_loop (Suc k) up n s = roll_loop k up n (roll_step up n s)"

definition abs_int :: "u64 \<Rightarrow> u64" where
  "abs_int x = (if sint x < 0 then - x else x)"

definition op_roll :: "('f, unit) ps" where
  "op_roll = ps_bind Pop (\<lambda>obj1. ps_bind Pop (\<lambda>obj2 s.
     case obj1 of
       PSInteger j \<Rightarrow>
         (case obj2 of
            PSInteger n \<Rightarrow>
              if sint n < 0 then (Inl ErrRangeCheck, s)
              else if n = 0 \<or> n = 1 then (Inr (), s)
              else if sint n > int (length s) then (Inl ErrStackUnderflow, s)
              else (Inr (), roll_loop (nat (sint (abs_int j))) (sint j > 0) (unat n) s)
          | _ \<Rightarrow> (Inl ErrTypeCheck, s))
     | _ \<Rightarrow> (Inl ErrTypeCheck, s)))"

definition op_sin :: "'f fops \<Rightarrow> ('f, unit) ps" where
  "op_sin F = real_op F (\<lambda>angle. Sin F (degrees F angle))"

definition op_sqrt :: "'f fops \<Rightarrow> ('f, unit) ps" where
  "op_sqrt F = ps_bind (PopNumberAsFloat64 F) (\<lambda>v.
     if flt F v (literal F 0) then ps_throw ErrRangeCheck else Push (PSReal (Sqrt F v)))"

definition op_sub :: "'f fops \<Rightarrow> ('f, unit) ps" where
  "op_sub F = arith_op F (\<lambda>int1 int2. int2 - int1) (\<lambda>real1 real2. fsub F real2 real1)"

definition op_truncate :: "'f fops \<Rightarrow> ('f, unit) ps" where
  "op_truncate F = unary_op (\<lambda>v. v) (\<lambda>v. of_int64 F (to_int64 F v))"

definition op_xor :: "('f, unit) ps" where
  "op_xor = logic_op (\<noteq>) (XOR)"

section \<open>The operand dispatch, without \<open>if\<close> and \<open>ifelse\<close>\<close>

definition simple_ops :: "'f fops \<Rightarrow> (string \<times> ('f, unit) ps) list" where
  "simple_ops F = [
    (''abs'', op_abs F), (''add'', op_add F), (''and'', op_and), (''atan'', op_atan F),
    (''bitshift'', op_bitshift), (''ceiling'', op_ceiling F), (''copy'', op_copy), (''cos'', op_cos F),
    (''cvi'', op_cvi F), (''cvr'', op_cvr F), (''div'', op_div F), (''dup'', op_dup), (''eq'', op_eq F),
    (''exch'', op_exch), (''exp'', op_exp F), (''floor'', op_floor F), (''ge'', op_ge F), (''gt'', op_gt F),
    (''idiv'', op_idiv), (''index'', op_index), (''le'', op_le F), (''log'', op_log F), (''ln'', op_ln F),
    (''lt'', op_lt F), (''mod'', op_mod), (''mul'', op_mul F), (''ne'', op_ne F), (''neg'', op_neg F),
    (''not'', op_not), (''or'', op_or), (''pop'', op_pop), (''round'', op_round F), (''roll'', op_roll),
    (''sin'', op_sin F), (''sqrt'', op_sqrt F), (''sub'', op_sub F), (''truncate'', op_truncate F),
    (''xor'', op_xor)]"

definition simple_op :: "'f fops \<Rightarrow> string \<Rightarrow> ('f, unit) ps" where
  "simple_op F op = (case map_of (simple_ops F) op of
     Some f \<Rightarrow> f | None \<Rightarrow> ps_throw ErrUnsupportedOperand)"

lemmas shared_op_defs = unary_op_def arith_op_def logic_op_def real_op_def compare_op_def div_op_def

lemmas op_defs =
  op_abs_def op_add_def op_and_def op_atan_def op_bitshift_def op_ceiling_def op_cos_def
  op_cvi_def op_cvr_def op_div_def op_eq_def op_exch_def op_exp_def op_floor_def op_ge_def op_gt_def
  op_idiv_def op_le_def op_log_def op_ln_def op_lt_def op_mod_def op_mul_def op_ne_def op_neg_def
  op_not_def op_or_def op_pop_def op_round_def op_sin_def op_sqrt_def op_sub_def
  op_truncate_def op_xor_def

end
