(* ===== verification/Ps_Exec.thy ===== *)
theory Ps_Exec
  imports Ps_Operations
begin

text \<open>
  Programs, operands and the executor (\<open>PSProgram.Exec\<close> and \<open>PSOperand.Exec\<close> of
  \<open>object.go\<close>, \<open>ifCondition\<close> and \<open>ifelse\<close> of \<open>operations.go\<close>, \<open>exec.go\<close>). A program can
  duplicate and run the procedures on its stack, so it need not end: \<open>None\<close>.
\<close>

type_synonym 'f outcome = "(ps_error + unit) \<times> 'f stack"

section \<open>Operands\<close>

text \<open>The procedure that a conditional runs, if any; both take their operands first.\<close>

definition if_proc :: "('f, 'f PSObject list option) ps" where
  "if_proc = ps_bind Pop (\<lambda>obj1. ps_bind Pop (\<lambda>obj2.
     case obj1 of
       PSProgram proc \<Rightarrow>
         (case obj2 of
            PSBoolean condition \<Rightarrow> ps_return (if condition then Some proc else None)
          | _ \<Rightarrow> ps_throw ErrTypeCheck)
     | _ \<Rightarrow> ps_throw ErrTypeCheck))"

definition ifelse_proc :: "('f, 'f PSObject list option) ps" where
  "ifelse_proc = ps_bind Pop (\<lambda>obj1. ps_bind Pop (\<lambda>obj2. ps_bind Pop (\<lambda>obj3.
     case obj1 of
       PSProgram proc2 \<Rightarrow>
         (case obj2 of
            PSProgram proc1 \<Rightarrow>
              (case obj3 of
                 PSBoolean condition \<Rightarrow> ps_return (Some (if condition then proc1 else proc2))
               | _ \<Rightarrow> ps_throw ErrTypeCheck)
          | _ \<Rightarrow> ps_throw ErrTypeCheck)
     | _ \<Rightarrow> ps_throw ErrTypeCheck)))"

definition run_proc ::
    "('f PSObject list \<Rightarrow> 'f stack \<Rightarrow> 'f outcome option) \<Rightarrow> ('f, 'f PSObject list option) ps \<Rightarrow>
     'f stack \<Rightarrow> 'f outcome option" where
  "run_proc run m s =
    (case m s of
       (Inl e, s) \<Rightarrow> Some (Inl e, s)
     | (Inr None, s) \<Rightarrow> Some (Inr (), s)
     | (Inr (Some proc), s) \<Rightarrow> run proc s)"

definition operand_Exec ::
    "('f PSObject list \<Rightarrow> 'f stack \<Rightarrow> 'f outcome option) \<Rightarrow> 'f fops \<Rightarrow> string \<Rightarrow>
     'f stack \<Rightarrow> 'f outcome option" where
  "operand_Exec run F op s =
    (if op = ''if'' then run_proc run if_proc s
     else if op = ''ifelse'' then run_proc run ifelse_proc s
     else Some (simple_op F op s))"

definition obj_Exec ::
    "('f PSObject list \<Rightarrow> 'f stack \<Rightarrow> 'f outcome option) \<Rightarrow> 'f fops \<Rightarrow> 'f PSObject \<Rightarrow>
     'f stack \<Rightarrow> 'f outcome option" where
  "obj_Exec run F obj s =
    (case obj of PSOperand op \<Rightarrow> operand_Exec run F op s | _ \<Rightarrow> Some (Push obj s))"

lemma obj_Exec_mono [partial_function_mono]:
  assumes "\<And>proc s. mono_option (\<lambda>f. g f proc s)"
  shows "mono_option (\<lambda>f. obj_Exec (g f) F obj s)"
proof -
  have "mono_option (\<lambda>f. run_proc (g f) m s)" for m s
  proof (cases "m s")
    case (Pair r s')
    show ?thesis
    proof (cases r)
      case (Inr proc)
      then show ?thesis
        using assms by (cases proc) (simp_all add: run_proc_def Pair option.const_mono)
    qed (simp add: run_proc_def Pair option.const_mono)
  qed
  note run = this
  show ?thesis
  proof (cases obj)
    case (PSOperand op)
    then show ?thesis
      by (cases "op = ''if''"; cases "op = ''ifelse''")
        (simp_all add: obj_Exec_def operand_Exec_def run option.const_mono)
  qed (simp_all add: obj_Exec_def option.const_mono)
qed

section \<open>Programs\<close>

partial_function (option) program_Exec ::
    "'f fops \<Rightarrow> 'f PSObject list \<Rightarrow> 'f stack \<Rightarrow> 'f outcome option" where
  "program_Exec F prog s =
    (case prog of
       [] \<Rightarrow> Some (Inr (), s)
     | obj # prog \<Rightarrow>
         Option.bind (obj_Exec (program_Exec F) F obj s) (\<lambda>(r, s).
           case r of Inl e \<Rightarrow> Some (Inl e, s) | Inr _ \<Rightarrow> program_Exec F prog s))"

lemmas [code] = program_Exec.simps

lemma program_Exec_Nil [simp]: "program_Exec F [] s = Some (Inr (), s)"
  by (subst program_Exec.simps) simp

lemma program_Exec_Cons:
  "program_Exec F (obj # prog) s =
    (case obj_Exec (program_Exec F) F obj s of
       None \<Rightarrow> None
     | Some (Inl e, s) \<Rightarrow> Some (Inl e, s)
     | Some (Inr _, s) \<Rightarrow> program_Exec F prog s)"
  by (subst program_Exec.simps) (auto split: option.split sum.split)

lemma obj_Exec_simps [simp]:
  "obj_Exec run F (PSInteger v) s = Some (Push (PSInteger v) s)"
  "obj_Exec run F (PSReal r) s = Some (Push (PSReal r) s)"
  "obj_Exec run F (PSBoolean b) s = Some (Push (PSBoolean b) s)"
  "obj_Exec run F (PSProgram p) s = Some (Push (PSProgram p) s)"
  "obj_Exec run F (PSOperand ''if'') s = run_proc run if_proc s"
  "obj_Exec run F (PSOperand ''ifelse'') s = run_proc run ifelse_proc s"
  "op \<noteq> ''if'' \<Longrightarrow> op \<noteq> ''ifelse'' \<Longrightarrow> obj_Exec run F (PSOperand op) s = Some (simple_op F op s)"
  by (simp_all add: obj_Exec_def operand_Exec_def)

text \<open>Running one program after the other is running the program of both.\<close>

lemma program_Exec_append:
  "program_Exec F (p @ q) s =
    (case program_Exec F p s of
       None \<Rightarrow> None
     | Some (Inl e, s) \<Rightarrow> Some (Inl e, s)
     | Some (Inr _, s) \<Rightarrow> program_Exec F q s)"
proof (induction p arbitrary: s)
  case (Cons obj p)
  then show ?case
    by (cases "obj_Exec (program_Exec F) F obj s")
      (auto simp: program_Exec_Cons split: sum.split)
qed simp

section \<open>The executor\<close>

record 'f PSExecutor =
  Stack :: "'f stack"
  program :: "'f PSObject list"

definition NewPSExecutor :: "'f PSObject list \<Rightarrow> 'f PSExecutor" where
  "NewPSExecutor prog = \<lparr>Stack = [], program = prog\<rparr>"

fun push_all :: "'f PSObject list \<Rightarrow> ('f, unit) ps" where
  "push_all [] = ps_return ()"
| "push_all (obj # objects) = ps_bind (Push obj) (\<lambda>_. push_all objects)"

text \<open>The result, and the executor afterwards: the stack is emptied on success only.\<close>

definition Execute ::
    "'f fops \<Rightarrow> 'f PSExecutor \<Rightarrow> 'f PSObject list \<Rightarrow>
     ((ps_error + 'f PSObject list) \<times> 'f PSExecutor) option" where
  "Execute F exec objects =
    (case push_all objects (Stack exec) of
       (Inl e, s) \<Rightarrow> Some (Inl e, exec\<lparr>Stack := s\<rparr>)
     | (Inr _, s) \<Rightarrow>
         (case program_Exec F (program exec) s of
            None \<Rightarrow> None
          | Some (Inl e, s) \<Rightarrow> Some (Inl e, exec\<lparr>Stack := s\<rparr>)
          | Some (Inr _, s) \<Rightarrow> Some (Inr s, exec\<lparr>Stack := []\<rparr>)))"

fun PSObjectArrayToFloat64Array :: "'f fops \<Rightarrow> 'f PSObject list \<Rightarrow> ps_error + 'f list" where
  "PSObjectArrayToFloat64Array F [] = Inr []"
| "PSObjectArrayToFloat64Array F (obj # objects) =
    (case obj of
       PSInteger v \<Rightarrow> map_sum id ((#) (of_int64 F v)) (PSObjectArrayToFloat64Array F objects)
     | PSReal v \<Rightarrow> map_sum id ((#) v) (PSObjectArrayToFloat64Array F objects)
     | _ \<Rightarrow> Inl ErrTypeCheck)"

end
