(* ===== verification/Ps_Spec.thy ===== *)
theory Ps_Spec
  imports Ps_Exec "HOL-Library.Multiset"
begin

text \<open>
  What the operators do to the stack as a whole: apart from \<open>dup\<close>, \<open>copy\<close> and \<open>index\<close> no
  operator makes the stack larger or puts a procedure or an operand on it. From this follow the bound on
  the stack and the termination of programs that duplicate nothing.
\<close>

section \<open>Weights\<close>

fun weight :: "'f PSObject \<Rightarrow> nat" where
  "weight (PSProgram p) = Suc (sum_list (map (\<lambda>x. Suc (weight x)) p))"
| "weight _ = 1"

abbreviation stack_weight :: "'f stack \<Rightarrow> nat" where
  "stack_weight s \<equiv> sum_list (map weight s)"

abbreviation program_weight :: "'f PSObject list \<Rightarrow> nat" where
  "program_weight p \<equiv> sum_list (map (\<lambda>x. Suc (weight x)) p)"

lemma weight_pos: "0 < weight x"
  by (cases x) simp_all

fun is_code :: "'f PSObject \<Rightarrow> bool" where
  "is_code (PSProgram p) = True"
| "is_code (PSOperand op) = True"
| "is_code _ = False"

text \<open>
  \<open>tame\<close>: the stack gets neither heavier nor longer, and its procedures and operands are old ones.
  \<open>bounded\<close>: the stack stays within its limit.
\<close>

definition tame :: "('f, 'a) ps \<Rightarrow> bool" where
  "tame f \<longleftrightarrow> (\<forall>s. stack_weight (snd (f s)) \<le> stack_weight s \<and> length (snd (f s)) \<le> length s \<and>
    (\<forall>x \<in> set (snd (f s)). is_code x \<longrightarrow> x \<in> set s))"

definition bounded :: "('f, 'a) ps \<Rightarrow> bool" where
  "bounded f \<longleftrightarrow> (\<forall>s. length s \<le> 101 \<longrightarrow> length (snd (f s)) \<le> 101 \<and>
    (\<forall>x \<in> set (snd (f s)). is_code x \<longrightarrow> x \<in> set s))"

lemma tame_bounded: "tame f \<Longrightarrow> bounded f"
  by (meson bounded_def le_trans tame_def)

lemma stack_cases:
  obtains (none) "s = []" | (one) x where "s = [x]" | (more) t y x where "s = t @ [y, x]"
proof (cases s rule: rev_cases)
  case (snoc t x)
  then show thesis using one more by (cases t rule: rev_cases) simp_all
qed (rule none)

lemma tameI:
  assumes "stack_weight (snd (f [])) = 0 \<and> snd (f []) = []"
    "\<And>x. stack_weight (snd (f [x])) \<le> weight x \<and> length (snd (f [x])) \<le> 1 \<and>
      (\<forall>z \<in> set (snd (f [x])). is_code z \<longrightarrow> z = x)"
    "\<And>t y x. stack_weight (snd (f (t @ [y, x]))) \<le> stack_weight t + weight y + weight x \<and>
      length (snd (f (t @ [y, x]))) \<le> Suc (Suc (length t)) \<and>
      (\<forall>z \<in> set (snd (f (t @ [y, x]))). is_code z \<longrightarrow> z \<in> set t \<or> z = y \<or> z = x)"
  shows "tame f"
  unfolding tame_def
proof (rule allI)
  fix s
  show "stack_weight (snd (f s)) \<le> stack_weight s \<and> length (snd (f s)) \<le> length s \<and>
    (\<forall>x \<in> set (snd (f s)). is_code x \<longrightarrow> x \<in> set s)"
  proof (cases s rule: stack_cases)
    case none
    with assms(1) show ?thesis by simp
  next
    case (one x)
    with assms(2) [of x] show ?thesis by simp
  next
    case (more t y x)
    with assms(3) [of t y x] show ?thesis by (simp add: add.assoc) blast
  qed
qed

lemma Pop_single [ps_simps]: "Pop [x] = (Inr x, [])" "Pop [y, x] = (Inr x, [y])"
  by (simp_all add: Pop_def)

lemma PopNumber_single [ps_simps]:
  "PopNumberAsFloat64 F [x] = (case x of PSReal v \<Rightarrow> (Inr v, [])
    | PSInteger v \<Rightarrow> (Inr (of_int64 F v), []) | _ \<Rightarrow> (Inl ErrTypeCheck, []))"
  using PopNumberAsFloat64_apply(2) [of F "[]"] by simp

lemma PopInteger_single [ps_simps]:
  "PopInteger [x] = (case x of PSInteger v \<Rightarrow> (Inr v, []) | _ \<Rightarrow> (Inl ErrTypeCheck, []))"
  using PopInteger_apply(2) [of "[]"] by simp

lemma weight_ge [simp]: "Suc 0 \<le> weight x"
  using weight_pos [of x] by simp

lemma weight_ge2 [simp]: "Suc 0 \<le> weight x + n" "Suc 0 \<le> n + weight x"
  using weight_pos [of x] by simp_all

lemma number_of_Some: "number_of F x = Some v \<Longrightarrow> \<not> is_code x"
  by (cases x) simp_all

section \<open>The operators are tame\<close>

lemma tame_unary_op: "tame (unary_op i r)"
  by (rule tameI) (auto simp: unary_op_def ps_simps split: PSObject.splits)

lemma tame_arith_op: "tame (arith_op F i r)"
  by (rule tameI) (auto simp: arith_op_def ps_simps split: option.splits PSObject.splits)

lemma tame_logic_op: "tame (logic_op b i)"
  by (rule tameI) (auto simp: logic_op_def ps_simps split: PSObject.splits)

lemma tame_real_op: "tame (real_op F r)"
  by (rule tameI) (auto simp: real_op_def ps_simps split: PSObject.splits)

lemma tame_compare_op: "tame (compare_op F e c)"
  by (rule tameI) (auto simp: compare_op_def ps_simps split: PSObject.splits)

lemma tame_div_op: "tame (div_op f)"
  by (rule tameI) (auto simp: div_op_def ps_simps split: PSObject.splits)

lemma tame_cvi: "tame (op_cvi F)" and tame_cvr: "tame (op_cvr F)" and tame_not: "tame op_not"
  by (rule tameI; auto simp: op_cvi_def op_cvr_def op_not_def ps_simps split: PSObject.splits)+

lemma tame_atan: "tame (op_atan F)" and tame_sqrt: "tame (op_sqrt F)" and tame_exp: "tame (op_exp F)"
  by (rule tameI; auto simp: op_atan_def op_sqrt_def op_exp_def ps_simps Let_def split: PSObject.splits)+

lemma tame_bitshift: "tame op_bitshift"
  by (rule tameI) (auto simp: op_bitshift_def ps_simps split: PSObject.splits)

lemma tame_div: "tame (op_div F)"
  by (rule tameI) (auto simp: op_div_def ps_simps split: option.splits PSObject.splits)

lemma tame_eq: "tame (op_eq F)"
  by (rule tameI) (auto simp: op_eq_def ps_simps split: option.splits PSObject.splits)

lemma tame_exch: "tame op_exch"
  by (rule tameI) (auto simp: op_exch_def ps_simps)

lemma tame_pop: "tame op_pop"
  by (rule tameI) (auto simp: op_pop_def ps_simps)

lemma tame_bind:
  assumes "tame f" "\<And>x. tame (g x)"
  shows "tame (ps_bind f g)"
  unfolding tame_def
proof (rule allI)
  fix s
  obtain r s' where f: "f s = (r, s')" by (cases "f s")
  show "stack_weight (snd (ps_bind f g s)) \<le> stack_weight s \<and> length (snd (ps_bind f g s)) \<le> length s \<and>
    (\<forall>x \<in> set (snd (ps_bind f g s)). is_code x \<longrightarrow> x \<in> set s)"
  proof (cases r)
    case (Inl e)
    with f assms(1) show ?thesis unfolding tame_def by (auto simp: ps_simps dest!: spec [of _ s])
  next
    case (Inr x)
    from assms(1) f have "stack_weight s' \<le> stack_weight s" "length s' \<le> length s"
      "\<forall>x \<in> set s'. is_code x \<longrightarrow> x \<in> set s"
      unfolding tame_def by (metis snd_conv)+
    moreover from assms(2) [of x] have "stack_weight (snd (g x s')) \<le> stack_weight s'"
      "length (snd (g x s')) \<le> length s'" "\<forall>z \<in> set (snd (g x s')). is_code z \<longrightarrow> z \<in> set s'"
      unfolding tame_def by blast+
    ultimately show ?thesis using f Inr by (auto simp: ps_simps)
  qed
qed

lemma tame_ne: "tame (op_ne F)"
  unfolding op_ne_def by (rule tame_bind [OF tame_eq tame_not])

section \<open>Rolling\<close>

lemma roll_step_rotate:
  assumes "xs \<noteq> []"
  shows "roll_step up (length xs) (s @ xs) = s @ rotate (if up then length xs - 1 else 1) xs"
proof (cases up)
  case True
  obtain ys y where xs: "xs = ys @ [y]" using assms by (cases xs rule: rev_cases) auto
  have "rotate (length ys) (ys @ [y]) = y # ys" using rotate_append [of ys "[y]"] by simp
  with True show ?thesis by (simp add: roll_step_def xs Let_def)
next
  case False
  then show ?thesis using assms by (cases xs) (simp_all add: roll_step_def Let_def)
qed

lemma roll_loop_rotate:
  "xs \<noteq> [] \<Longrightarrow> roll_loop k up (length xs) (s @ xs) = s @ rotate (k * (if up then length xs - 1 else 1)) xs"
proof (induction k arbitrary: xs)
  case (Suc k)
  define d where "d = (if up then length xs - 1 else 1)"
  have "roll_loop k up (length xs) (s @ rotate d xs) = s @ rotate (k * d) (rotate d xs)"
    using Suc.IH [of "rotate d xs"] Suc.prems by (simp add: d_def)
  then show ?case
    by (simp add: roll_step_rotate [OF Suc.prems] d_def [symmetric] rotate_rotate add.commute del: One_nat_def)
qed simp

text \<open>Rolling by \<open>j\<close> is a rotation by \<open>- j\<close> modulo the number of elements, upwards or downwards.\<close>

lemma nat_mod_neg:
  assumes "0 < n"
  shows "k * (n - 1) mod n = nat (- int k mod int n)"
proof -
  have "int (k * (n - 1) mod n) = (int k * int n - int k) mod int n"
    using assms by (simp add: zmod_int of_nat_diff algebra_simps)
  also have "\<dots> = - int k mod int n"
    by (metis diff_0 mod_diff_left_eq mod_mult_self2_is_0)
  finally show ?thesis by simp
qed

lemma sint_abs_int: "- (2 ^ 63) < sint j \<Longrightarrow> sint (abs_int j) = \<bar>sint j\<bar>"
proof -
  assume j: "- (2 ^ 63) < sint j"
  have l: "sint j < 2 ^ 63" using sint_lt [of j] by simp
  have "sint (- j) = - sint j" if "sint j < 0"
  proof -
    have "sint (- j) = signed_take_bit 63 (- sint j)"
      by (simp add: sint_word_ariths)
    also have "\<dots> = - sint j"
      using j that by (intro signed_take_bit_int_eq_self) auto
    finally show ?thesis .
  qed
  then show ?thesis by (simp add: abs_int_def)
qed

lemma op_roll_rotate:
  fixes xs :: "'f stack"
  assumes "2 \<le> length xs" "length xs < 2 ^ 63" "- (2 ^ 63) < sint j"
  shows "op_roll (s @ xs @ [PSInteger (of_nat (length xs)), PSInteger j]) =
    (Inr (), s @ rotate (nat (- sint j mod int (length xs))) xs)"
proof -
  define n :: u64 where "n = of_nat (length xs)"
  have sn: "sint n = int (length xs)" "unat n = length xs"
    using assms(2) by (simp_all add: n_def signed_of_nat unsigned_of_nat take_bit_nat_eq_self
        signed_take_bit_int_eq_self)
  have "n \<noteq> 0" "n \<noteq> 1" using sn assms(1) by auto
  have ne: "xs \<noteq> []" using assms(1) by auto
  define k where "k = nat \<bar>sint j\<bar>"
  have "op_roll (s @ xs @ [PSInteger n, PSInteger j]) =
      (Inr (), roll_loop k (sint j > 0) (length xs) (s @ xs))"
    using \<open>n \<noteq> 0\<close> \<open>n \<noteq> 1\<close> sn sint_abs_int [OF assms(3)]
    by (simp add: op_roll_def ps_simps k_def flip: append_assoc)
  also have "roll_loop k (sint j > 0) (length xs) (s @ xs) = s @ rotate (nat (- sint j mod int (length xs))) xs"
  proof (cases "sint j > 0")
    case True
    have "rotate (k * (length xs - 1)) xs = rotate (nat (- int k mod int (length xs))) xs"
      using nat_mod_neg [of "length xs" k] ne rotate_conv_mod [of "k * (length xs - 1)" xs] by simp
    with True show ?thesis by (simp add: roll_loop_rotate [OF ne] k_def)
  next
    case False
    have "rotate k xs = rotate (nat (int k mod int (length xs))) xs"
      using rotate_conv_mod [of k xs] by (simp add: nat_mod_as_int)
    with False show ?thesis by (simp add: roll_loop_rotate [OF ne] k_def)
  qed
  finally show ?thesis by (simp add: n_def)
qed

section \<open>All operators\<close>

lemma unat_sint: "0 \<le> sint w \<Longrightarrow> unat w = nat (sint w)" for w :: u64
  using sint_lt [of w] by (simp add: unat_eq_nat_uint uint_sint take_bit_int_eq_self)

lemma tame_roll: "tame op_roll"
proof (rule tameI; (intro allI)?)
  fix t :: "'a stack" and y x :: "'a PSObject"
  have "mset (roll_loop k up n u) = mset u \<and> length (roll_loop k up n u) = length u"
    if "n \<le> length u" "0 < n" for k up n and u :: "'a stack"
  proof -
    define xs where "xs = drop (length u - n) u"
    have xs: "xs \<noteq> []" "length xs = n" "u = take (length u - n) u @ xs" using that by (auto simp: xs_def)
    have "roll_loop k up n u = take (length u - n) u @ rotate (k * (if up then length xs - 1 else 1)) xs"
      using roll_loop_rotate [OF xs(1), of k up "take (length u - n) u"] xs(2,3) by simp
    moreover have "mset (rotate1 ys) = mset ys" for ys :: "'a stack" by (cases ys) simp_all
    then have "mset (rotate m xs) = mset xs" for m by (induction m) (simp_all add: rotate_def)
    ultimately show ?thesis using xs(3) by (metis length_append length_rotate mset_append)
  qed
  note roll = this
  have weights: "stack_weight u = stack_weight v" if "mset u = mset v" for u v :: "'a stack"
    using that by (metis mset_map sum_mset_sum_list)
  show "stack_weight (snd (op_roll (t @ [y, x]))) \<le> stack_weight t + weight y + weight x \<and>
      length (snd (op_roll (t @ [y, x]))) \<le> Suc (Suc (length t)) \<and>
      (\<forall>z \<in> set (snd (op_roll (t @ [y, x]))). is_code z \<longrightarrow> z \<in> set t \<or> z = y \<or> z = x)"
  proof (cases "\<exists>j n. x = PSInteger j \<and> y = PSInteger n \<and> 0 \<le> sint n \<and> n \<noteq> 0 \<and> n \<noteq> 1 \<and> sint n \<le> int (length t)")
    case True
    then obtain j n where jn: "x = PSInteger j" "y = PSInteger n" "0 \<le> sint n" "n \<noteq> 0" "n \<noteq> 1"
      "sint n \<le> int (length t)" by blast
    have u: "unat n \<le> length t" "0 < unat n"
      using unat_sint [OF jn(3)] jn(3,4,6) by (auto simp: nat_le_iff simp flip: unat_gt_0)
    define r where "r = roll_loop (nat (sint (abs_int j))) (sint j > 0) (unat n) t"
    have op: "op_roll (t @ [y, x]) = (Inr (), r)"
      using jn by (simp add: op_roll_def ps_simps r_def)
    from roll [OF u] have m: "mset r = mset t" by (simp add: r_def)
    from m have "set r = set t" by (rule mset_eq_setD)
    with weights [OF m] mset_eq_length [OF m] op show ?thesis by simp
  next
    case False
    then show ?thesis
      by (auto simp: op_roll_def ps_simps split: PSObject.splits)
  qed
qed (auto simp: op_roll_def ps_simps split: PSObject.splits)

lemmas tame_ops = tame_unary_op tame_arith_op tame_logic_op tame_real_op tame_compare_op tame_div_op
  tame_cvi tame_cvr tame_not tame_atan tame_sqrt tame_exp tame_bitshift tame_div tame_eq tame_exch
  tame_pop tame_ne tame_roll

lemma tame_throw: "tame (ps_throw e)"
  by (simp add: tame_def ps_simps)

lemma simple_op_tame:
  assumes "op \<notin> {''dup'', ''copy'', ''index''}"
  shows "tame (simple_op F op)"
proof (cases "map_of (simple_ops F) op")
  case (Some f)
  have "list_all (\<lambda>(n, f). n \<in> {''dup'', ''copy'', ''index''} \<or> tame f) (simple_ops F)"
    by (simp add: simple_ops_def op_abs_def op_add_def op_and_def op_ceiling_def op_cos_def op_floor_def
        op_ge_def op_gt_def op_idiv_def op_le_def op_log_def op_ln_def op_lt_def op_mod_def op_mul_def
        op_neg_def op_or_def op_round_def op_sin_def op_sub_def op_truncate_def op_xor_def tame_ops)
  with map_of_SomeD [OF Some] assms show ?thesis by (auto simp: list_all_iff simple_op_def Some)
qed (simp add: simple_op_def tame_throw)

lemma bounded_dup: "bounded op_dup"
  unfolding bounded_def
proof (intro allI impI)
  fix s :: "'a stack" assume "length s \<le> 101"
  then show "length (snd (op_dup s)) \<le> 101 \<and> (\<forall>x \<in> set (snd (op_dup s)). is_code x \<longrightarrow> x \<in> set s)"
    by (cases s rule: rev_cases) (auto simp: op_dup_def ps_simps)
qed

lemma bounded_index: "bounded op_index"
  unfolding bounded_def
proof (intro allI impI)
  fix s :: "'a stack" assume l: "length s \<le> 101"
  show "length (snd (op_index s)) \<le> 101 \<and> (\<forall>x \<in> set (snd (op_index s)). is_code x \<longrightarrow> x \<in> set s)"
  proof (cases s rule: rev_cases)
    case (snoc t x)
    then show ?thesis
      using l by (cases x) (auto simp: op_index_def ps_simps nth_mem)
  qed (simp add: op_index_def ps_simps)
qed

lemma simple_op_bounded:
  assumes "op \<noteq> ''copy''"
  shows "bounded (simple_op F op)"
proof -
  consider "op = ''dup''" | "op = ''index''" | "op \<notin> {''dup'', ''copy'', ''index''}" using assms by blast
  then show ?thesis
  proof cases
    case 1
    then show ?thesis using bounded_dup by (simp add: simple_op_def simple_ops_def)
  next
    case 2
    then show ?thesis using bounded_index by (simp add: simple_op_def simple_ops_def)
  next
    case 3
    then show ?thesis by (intro tame_bounded simple_op_tame)
  qed
qed

end
