(* ===== verification/Ps_Run.thy ===== *)
theory Ps_Run
  imports Ps_Spec
begin

text \<open>
  Whole runs of a program: what every step keeps a run keeps (\<open>ps_invariant\<close>), the bound on
  the stack, the values on it, termination without duplication, and the run that never ends.
\<close>

section \<open>Invariants of a run\<close>

text \<open>Objects in which the given operands occur nowhere, however deep.\<close>

fun avoids :: "string list \<Rightarrow> 'f PSObject \<Rightarrow> bool" where
  "avoids ops (PSProgram p) = (\<forall>x \<in> set p. avoids ops x)"
| "avoids ops (PSOperand op) = (op \<notin> set ops)"
| "avoids ops _ = True"

lemma avoids_values: "\<not> is_code x \<Longrightarrow> avoids ops x"
  by (cases x) simp_all

text \<open>The stack after an attempt to take the procedure, and where the procedure comes from.\<close>

lemma if_proc_stack: "snd (if_proc s) = butlast s \<or> snd (if_proc s) = butlast (butlast s)"
  by (cases s rule: stack_cases) (auto simp: if_proc_def ps_simps butlast_append split: PSObject.split)

lemma if_proc_Some: "if_proc s = (Inr (Some q), s') \<Longrightarrow> s = s' @ [PSBoolean True, PSProgram q]"
  by (cases s rule: stack_cases)
    (auto simp: if_proc_def ps_simps split: PSObject.splits if_splits)

lemma ifelse_proc_stack:
  "snd (ifelse_proc s) = butlast s \<or> snd (ifelse_proc s) = butlast (butlast s) \<or>
   snd (ifelse_proc s) = butlast (butlast (butlast s))"
proof (cases s rule: stack_cases)
  case (more t y x)
  then show ?thesis
    by (cases t rule: rev_cases)
      (auto simp: ifelse_proc_def ps_simps butlast_append split: PSObject.split)
qed (auto simp: ifelse_proc_def ps_simps)

lemma ifelse_proc_Some:
  assumes "ifelse_proc s = (Inr (Some q), s')"
  obtains p1 p2 b where "s = s' @ [PSBoolean b, PSProgram p1, PSProgram p2]" "q = (if b then p1 else p2)"
proof (cases s rule: stack_cases)
  case (more t y x)
  with assms that show thesis
    by (cases t rule: rev_cases)
      (auto simp: ifelse_proc_def ps_simps split: PSObject.splits)
qed (use assms in \<open>auto simp: ifelse_proc_def ps_simps\<close>)

lemma ifelse_proc_no_None: "ifelse_proc s \<noteq> (Inr None, s')"
  by (auto simp: ifelse_proc_def ps_simps split: prod.splits sum.splits PSObject.splits)

locale ps_invariant =
  fixes F :: "'f fops"
    and ok :: "'f PSObject \<Rightarrow> bool"
    and inv :: "'f stack \<Rightarrow> bool"
  assumes ok_program: "ok (PSProgram p) \<Longrightarrow> x \<in> set p \<Longrightarrow> ok x"
    and push: "inv s \<Longrightarrow> ok x \<Longrightarrow> (\<forall>op. x \<noteq> PSOperand op) \<Longrightarrow> inv (snd (Push x s))"
    and simple: "inv s \<Longrightarrow> ok (PSOperand op) \<Longrightarrow> inv (snd (simple_op F op s))"
    and pop: "inv s \<Longrightarrow> inv (butlast s)"
    and procs: "inv s \<Longrightarrow> PSProgram p \<in> set s \<Longrightarrow> ok (PSProgram p)"
begin

lemma if_proc_inv: "inv s \<Longrightarrow> inv (snd (if_proc s))"
  using if_proc_stack [of s] pop by metis

lemma ifelse_proc_inv: "inv s \<Longrightarrow> inv (snd (ifelse_proc s))"
  using ifelse_proc_stack [of s] pop by metis

lemma if_proc_ok: "inv s \<Longrightarrow> if_proc s = (Inr (Some q), s') \<Longrightarrow> ok (PSProgram q)"
  using if_proc_Some procs by fastforce

lemma ifelse_proc_ok:
  assumes "inv s" "ifelse_proc s = (Inr (Some q), s')"
  shows "ok (PSProgram q)"
proof -
  from assms(2) obtain p1 p2 b where "s = s' @ [PSBoolean b, PSProgram p1, PSProgram p2]"
    "q = (if b then p1 else p2)" by (rule ifelse_proc_Some)
  with procs [OF assms(1)] show ?thesis by simp
qed

lemma run_proc_inv:
  assumes "run_proc run m s = Some (r, s')" "inv (snd (m s))"
    "\<And>q s'. m s = (Inr (Some q), s') \<Longrightarrow> ok (PSProgram q)"
    "\<And>q s r s'. run q s = Some (r, s') \<Longrightarrow> inv s \<Longrightarrow> (\<forall>x \<in> set q. ok x) \<Longrightarrow> inv s'"
  shows "inv s'"
  using assms(1-3)
  by (auto simp: run_proc_def intro: assms(4) dest: ok_program split: prod.splits sum.splits option.splits)

lemma obj_inv:
  assumes "obj_Exec run F x s = Some (r, s')" "inv s" "ok x"
    and run: "\<And>q s r s'. run q s = Some (r, s') \<Longrightarrow> inv s \<Longrightarrow> (\<forall>x \<in> set q. ok x) \<Longrightarrow> inv s'"
  shows "inv s'"
proof (cases x)
  case (PSOperand op)
  consider "op = ''if''" | "op = ''ifelse''" | "op \<noteq> ''if''" "op \<noteq> ''ifelse''" by blast
  then show ?thesis
  proof cases
    case 1
    with assms PSOperand show ?thesis
      by (auto elim!: run_proc_inv intro: if_proc_inv if_proc_ok)
  next
    case 2
    with assms PSOperand show ?thesis
      by (auto elim!: run_proc_inv intro: ifelse_proc_inv ifelse_proc_ok)
  next
    case 3
    with assms(1-3) simple [of s op] PSOperand show ?thesis by simp
  qed
qed (use assms push [of s x] in auto)

lemma run_inv:
  assumes "program_Exec F p s = Some (r, s')" "inv s" "\<forall>x \<in> set p. ok x"
  shows "inv s'"
proof -
  have "F' = F \<longrightarrow> inv s \<longrightarrow> (\<forall>x \<in> set p. ok x) \<longrightarrow> inv (snd y)"
    if "program_Exec F' p s = Some y" for F' p s y
    using that
  proof (induction rule: program_Exec.raw_induct [rotated, consumes 1])
    case (1 f F' p s y)
    have run: "f F q s = Some (r, s') \<Longrightarrow> inv s \<Longrightarrow> (\<forall>x \<in> set q. ok x) \<Longrightarrow> inv s'" for q s r s'
      using 1(1) [of F q s "(r, s')"] by simp
    have obj: "obj_Exec (f F) F x s = Some (r, s') \<Longrightarrow> inv s \<Longrightarrow> ok x \<Longrightarrow> inv s'" for x r s'
      by (rule obj_inv [OF _ _ _ run])
    show ?case
    proof (intro impI)
      assume *: "F' = F" "inv s" "\<forall>x \<in> set p. ok x"
      from 1(2) show "inv (snd y)"
      proof (cases p)
        case (Cons x q)
        with 1(2) *(1) obtain r s1 where x: "obj_Exec (f F) F x s = Some (r, s1)"
          "(case r of Inl e \<Rightarrow> Some (Inl e, s1) | Inr _ \<Rightarrow> f F q s1) = Some y"
          by (auto simp: bind_eq_Some_conv)
        moreover from obj [OF x(1)] * Cons have "inv s1" by simp
        ultimately show ?thesis
          using run [of q s1 "fst y" "snd y"] *(3) Cons by (auto split: sum.splits)
      qed (use *(2) in auto)
    qed
  qed
  with assms show ?thesis by (metis snd_conv)
qed

end

section \<open>The bound on the stack\<close>

lemma bounded_inv: "bounded f \<Longrightarrow> length s \<le> 101 \<Longrightarrow> (\<forall>x \<in> set s. is_code x \<longrightarrow> P x) \<Longrightarrow>
    length (snd (f s)) \<le> 101 \<and> (\<forall>x \<in> set (snd (f s)). is_code x \<longrightarrow> P x)"
  by (auto simp: bounded_def)

interpretation bounded_stack: ps_invariant F "avoids [''copy'']"
    "\<lambda>s. length s \<le> 101 \<and> (\<forall>x \<in> set s. is_code x \<longrightarrow> avoids [''copy''] x)"
  for F :: "'f fops"
proof (unfold_locales, goal_cases)
  case (2 s x)
  then show ?case by (auto simp: Push_def)
next
  case (3 s op)
  then have "bounded (simple_op F op)" by (intro simple_op_bounded) simp
  from bounded_inv [OF this, of s "avoids [''copy'']"] 3 show ?case by simp
qed (auto dest: in_set_butlastD)

section \<open>The values on the stack\<close>

definition is_operand :: "'f PSObject \<Rightarrow> bool" where
  "is_operand x = (case x of PSOperand _ \<Rightarrow> True | _ \<Rightarrow> False)"

lemma bounded_copy_code: "\<forall>x \<in> set (snd (op_copy s)). is_code x \<longrightarrow> x \<in> set s"
proof (cases s rule: rev_cases)
  case (snoc t x)
  then show ?thesis
    by (auto simp: op_copy_def ps_simps split: PSObject.split dest: in_set_dropD)
qed (simp add: op_copy_def ps_simps)

lemma dup_code: "\<forall>x \<in> set (snd (op_dup s)). is_code x \<longrightarrow> x \<in> set s"
  by (cases s rule: rev_cases) (auto simp: op_dup_def ps_simps)

lemma index_code: "\<forall>x \<in> set (snd (op_index s)). is_code x \<longrightarrow> x \<in> set s"
proof (cases s rule: rev_cases)
  case (snoc t x)
  then show ?thesis
    by (cases x) (auto simp: op_index_def ps_simps nth_mem)
qed (simp add: op_index_def ps_simps)

lemma duplicating_ops:
  "simple_op F ''dup'' = op_dup" "simple_op F ''index'' = op_index" "simple_op F ''copy'' = op_copy"
  by (simp_all add: simple_op_def simple_ops_def)

lemma simple_op_code: "\<forall>x \<in> set (snd (simple_op F op s)). is_code x \<longrightarrow> x \<in> set s"
proof -
  consider "op = ''dup''" | "op = ''index''" | "op = ''copy''" | "op \<notin> {''dup'', ''copy'', ''index''}"
    by blast
  then show ?thesis
  proof cases
    case 1
    show ?thesis unfolding 1 duplicating_ops by (rule dup_code)
  next
    case 2
    show ?thesis unfolding 2 duplicating_ops by (rule index_code)
  next
    case 3
    show ?thesis unfolding 3 duplicating_ops by (rule bounded_copy_code)
  next
    case 4
    then show ?thesis using simple_op_tame [of op F] by (simp add: tame_def)
  qed
qed

interpretation value_stack: ps_invariant F "\<lambda>_. True" "\<lambda>s. \<forall>x \<in> set s. \<not> is_operand x"
  for F :: "'f fops"
proof (unfold_locales, goal_cases)
  case (2 s x)
  then show ?case by (auto simp: Push_def is_operand_def split: PSObject.split)
next
  case (3 s op)
  have "is_operand x \<Longrightarrow> is_code x" for x :: "'f PSObject"
    by (auto simp: is_operand_def split: PSObject.splits)
  with 3 simple_op_code [of F op s] show ?case by blast
qed (auto dest: in_set_butlastD)

section \<open>Termination without duplication\<close>

abbreviation duplicators :: "string list" where
  "duplicators \<equiv> [''dup'', ''copy'', ''index'']"

abbreviation no_dup :: "'f PSObject list \<Rightarrow> bool" where
  "no_dup s \<equiv> \<forall>x \<in> set s. avoids duplicators x"

lemma tame_no_dup:
  assumes "tame f" "no_dup s"
  shows "stack_weight (snd (f s)) \<le> stack_weight s" "no_dup (snd (f s))"
  using assms avoids_values unfolding tame_def by blast+

definition ends :: "'f outcome option \<Rightarrow> nat \<Rightarrow> bool" where
  "ends out n = (case out of None \<Rightarrow> False | Some (r, s) \<Rightarrow> stack_weight s \<le> n \<and> no_dup s)"

lemma ends_mono: "ends out m \<Longrightarrow> m \<le> n \<Longrightarrow> ends out n"
  by (auto simp: ends_def split: option.splits)

lemma ends_run_proc:
  assumes "no_dup s"
    and if_proc: "m = if_proc \<or> m = ifelse_proc"
    and run: "\<And>q s'. program_weight q + stack_weight s' < stack_weight s \<Longrightarrow> no_dup q \<Longrightarrow> no_dup s' \<Longrightarrow>
      ends (run q s') (program_weight q + stack_weight s')"
  shows "ends (run_proc run m s) (stack_weight s)"
proof -
  obtain r s1 where m: "m s = (r, s1)" by (cases "m s")
  then have s1: "s1 = butlast s \<or> s1 = butlast (butlast s) \<or> s1 = butlast (butlast (butlast s))"
    using if_proc if_proc_stack [of s] ifelse_proc_stack [of s] by (metis snd_conv)
  have le: "stack_weight (butlast u) \<le> stack_weight u" for u :: "'a stack"
    by (cases u rule: rev_cases) simp_all
  have s1': "stack_weight s1 \<le> stack_weight s" "no_dup s1"
    using s1 le [of s] le [of "butlast s"] le [of "butlast (butlast s)"] assms(1)
    by (auto dest!: in_set_butlastD)
  show ?thesis
  proof (cases "\<exists>q. r = Inr (Some q)")
    case True
    then obtain q where q: "m s = (Inr (Some q), s1)" using m by blast
    have "program_weight q + stack_weight s1 < stack_weight s \<and> no_dup q"
    proof (cases "m = if_proc")
      case True
      with q if_proc_Some [of s q s1] assms(1) show ?thesis by simp
    next
      case False
      with q if_proc have "ifelse_proc s = (Inr (Some q), s1)" by simp
      then obtain p1 p2 b where "s = s1 @ [PSBoolean b, PSProgram p1, PSProgram p2]"
        "q = (if b then p1 else p2)" by (rule ifelse_proc_Some)
      with assms(1) show ?thesis by simp
    qed
    with run [of q s1] s1' q show ?thesis
      by (auto simp: run_proc_def intro: ends_mono)
  next
    case False
    with m s1' show ?thesis
      by (auto simp: run_proc_def ends_def split: sum.split option.split)
  qed
qed

lemma program_ends:
  "no_dup p \<Longrightarrow> no_dup s \<Longrightarrow> ends (program_Exec F p s) (program_weight p + stack_weight s)"
proof (induction "program_weight p + stack_weight s" arbitrary: p s rule: less_induct)
  case less
  show ?case
  proof (cases p)
    case (Cons x q)
    have obj: "ends (obj_Exec (program_Exec F) F x s) (weight x + stack_weight s)"
    proof (cases x)
      case (PSOperand op)
      have run: "ends (program_Exec F q' s') (program_weight q' + stack_weight s')"
        if "program_weight q' + stack_weight s' < stack_weight s" "no_dup q'" "no_dup s'" for q' s'
        by (rule less.hyps) (use that in simp_all)
      show ?thesis
      proof (cases "op = ''if'' \<or> op = ''ifelse''")
        case True
        have "ends (run_proc (program_Exec F) m s) (weight x + stack_weight s)"
          if "m = if_proc \<or> m = ifelse_proc" for m
          by (rule ends_mono [OF ends_run_proc [OF less.prems(2) that run]]) simp_all
        with True PSOperand show ?thesis by auto
      next
        case False
        then have "tame (simple_op F op)"
          using less.prems(1) Cons PSOperand by (intro simple_op_tame) auto
        from tame_no_dup [OF this less.prems(2)] False PSOperand show ?thesis
          by (auto simp: ends_def split: prod.split)
      qed
    qed (use less.prems Cons in \<open>auto simp: ends_def Push_def\<close>)
    then obtain r s1 where s1: "obj_Exec (program_Exec F) F x s = Some (r, s1)"
      "stack_weight s1 \<le> weight x + stack_weight s" "no_dup s1"
      by (auto simp: ends_def split: option.splits)
    have "ends (program_Exec F q s1) (program_weight q + stack_weight s1)"
      by (rule less.hyps) (use s1 less.prems Cons in auto)
    with s1 show ?thesis
      by (auto simp: Cons program_Exec_Cons ends_def split: sum.split option.splits)
  qed (use less.prems in \<open>simp add: ends_def\<close>)
qed

end
