(* ===== verification/Ps_Expressions.thy ===== *)
theory Ps_Expressions
  imports Ps_Run
begin

text \<open>
  Expressions in postfix form. The value of an integer expression with conditionals is what
  the executor computes for its postfix program, errors included, as long as the stack has
  room for the operands that wait (\<open>idepth\<close>). Then integer division, and the program that
  calls itself for ever.
\<close>

section \<open>Expressions and their programs\<close>

datatype iexp =
    Lit u64
  | Neg iexp
  | Add iexp iexp
  | Sub iexp iexp
  | Mul iexp iexp
  | Idiv iexp iexp
  | Cond bexp iexp iexp
and bexp =
    Bool bool
  | Not bexp
  | And bexp bexp
  | Or bexp bexp

primrec ieval :: "iexp \<Rightarrow> u64 option" and beval :: "bexp \<Rightarrow> bool" where
  "ieval (Lit v) = Some v"
| "ieval (Neg e) = map_option uminus (ieval e)"
| "ieval (Add e1 e2) = Option.bind (ieval e1) (\<lambda>v1. Option.bind (ieval e2) (\<lambda>v2. Some (v1 + v2)))"
| "ieval (Sub e1 e2) = Option.bind (ieval e1) (\<lambda>v1. Option.bind (ieval e2) (\<lambda>v2. Some (v1 - v2)))"
| "ieval (Mul e1 e2) = Option.bind (ieval e1) (\<lambda>v1. Option.bind (ieval e2) (\<lambda>v2. Some (v1 * v2)))"
| "ieval (Idiv e1 e2) = Option.bind (ieval e1) (\<lambda>v1. Option.bind (ieval e2) (\<lambda>v2.
     if v2 = 0 then None else Some (word_of_int (sint v1 sdiv sint v2))))"
| "ieval (Cond b e1 e2) = (if beval b then ieval e1 else ieval e2)"
| "beval (Bool b) = b"
| "beval (Not b) = (\<not> beval b)"
| "beval (And b1 b2) = (beval b1 \<and> beval b2)"
| "beval (Or b1 b2) = (beval b1 \<or> beval b2)"

primrec icode :: "iexp \<Rightarrow> 'f PSObject list" and bcode :: "bexp \<Rightarrow> 'f PSObject list" where
  "icode (Lit v) = [PSInteger v]"
| "icode (Neg e) = icode e @ [PSOperand ''neg'']"
| "icode (Add e1 e2) = icode e1 @ icode e2 @ [PSOperand ''add'']"
| "icode (Sub e1 e2) = icode e1 @ icode e2 @ [PSOperand ''sub'']"
| "icode (Mul e1 e2) = icode e1 @ icode e2 @ [PSOperand ''mul'']"
| "icode (Idiv e1 e2) = icode e1 @ icode e2 @ [PSOperand ''idiv'']"
| "icode (Cond b e1 e2) = bcode b @ [PSProgram (icode e1), PSProgram (icode e2), PSOperand ''ifelse'']"
| "bcode (Bool b) = [PSBoolean b]"
| "bcode (Not b) = bcode b @ [PSOperand ''not'']"
| "bcode (And b1 b2) = bcode b1 @ bcode b2 @ [PSOperand ''and'']"
| "bcode (Or b1 b2) = bcode b1 @ bcode b2 @ [PSOperand ''or'']"

primrec idepth :: "iexp \<Rightarrow> nat" and bdepth :: "bexp \<Rightarrow> nat" where
  "idepth (Lit v) = 1"
| "idepth (Neg e) = idepth e"
| "idepth (Add e1 e2) = max (idepth e1) (1 + idepth e2)"
| "idepth (Sub e1 e2) = max (idepth e1) (1 + idepth e2)"
| "idepth (Mul e1 e2) = max (idepth e1) (1 + idepth e2)"
| "idepth (Idiv e1 e2) = max (idepth e1) (1 + idepth e2)"
| "idepth (Cond b e1 e2) = max (max 3 (bdepth b)) (max (idepth e1) (idepth e2))"
| "bdepth (Bool b) = 1"
| "bdepth (Not b) = bdepth b"
| "bdepth (And b1 b2) = max (bdepth b1) (1 + bdepth b2)"
| "bdepth (Or b1 b2) = max (bdepth b1) (1 + bdepth b2)"

lemma depth_pos: "0 < idepth e" "0 < bdepth b"
  by (induction e and b) auto

section \<open>The executor computes the value\<close>

definition computes :: "'f fops \<Rightarrow> 'f PSObject list \<Rightarrow> 'f PSObject option \<Rightarrow> 'f stack \<Rightarrow> bool" where
  "computes F p v s = (case v of
     Some x \<Rightarrow> program_Exec F p s = Some (Inr (), s @ [x])
   | None \<Rightarrow> \<exists>s'. program_Exec F p s = Some (Inl ErrUndefinedResult, s'))"

lemma integer_ops:
  assumes "length s \<le> 100"
  shows "simple_op F ''neg'' (s @ [PSInteger a]) = (Inr (), s @ [PSInteger (- a)])"
    "simple_op F ''add'' (s @ [PSInteger a, PSInteger b]) = (Inr (), s @ [PSInteger (a + b)])"
    "simple_op F ''sub'' (s @ [PSInteger a, PSInteger b]) = (Inr (), s @ [PSInteger (a - b)])"
    "simple_op F ''mul'' (s @ [PSInteger a, PSInteger b]) = (Inr (), s @ [PSInteger (a * b)])"
    "simple_op F ''idiv'' (s @ [PSInteger a, PSInteger b]) =
      (if b = 0 then (Inl ErrUndefinedResult, s) else (Inr (), s @ [PSInteger (word_of_int (sint a sdiv sint b))]))"
    "simple_op F ''mod'' (s @ [PSInteger a, PSInteger b]) =
      (if b = 0 then (Inl ErrUndefinedResult, s) else (Inr (), s @ [PSInteger (word_of_int (sint a smod sint b))]))"
    "simple_op F ''not'' (s @ [PSBoolean p]) = (Inr (), s @ [PSBoolean (\<not> p)])"
    "simple_op F ''and'' (s @ [PSBoolean p, PSBoolean q]) = (Inr (), s @ [PSBoolean (p \<and> q)])"
    "simple_op F ''or'' (s @ [PSBoolean p, PSBoolean q]) = (Inr (), s @ [PSBoolean (p \<or> q)])"
  using assms
  by (auto simp: simple_op_def simple_ops_def op_neg_def op_add_def op_sub_def op_mul_def op_idiv_def op_mod_def
      op_not_def op_and_def op_or_def shared_op_defs ps_simps algebra_simps)

lemma ifelse_apply:
  "program_Exec F [PSProgram p, PSProgram q, PSOperand ''ifelse''] (s @ [PSBoolean b]) =
    program_Exec F (if b then p else q) s" if "length s \<le> 98"
  using that
  by (auto simp: program_Exec_Cons run_proc_def ifelse_proc_def ps_simps split: option.split sum.split)

lemma computes_binary:
  fixes f :: "u64 \<Rightarrow> u64 \<Rightarrow> u64 option"
  assumes "computes F p (map_option PSInteger v) s"
    "\<And>a. computes F q (map_option PSInteger w) (s @ [PSInteger a])"
    "op \<noteq> ''if''" "op \<noteq> ''ifelse''"
    "\<And>a b. simple_op F op (s @ [PSInteger a, PSInteger b]) = (case f a b of
       Some c \<Rightarrow> (Inr (), s @ [PSInteger c]) | None \<Rightarrow> (Inl ErrUndefinedResult, s))"
  shows "computes F (p @ q @ [PSOperand op])
    (map_option PSInteger (Option.bind v (\<lambda>a. Option.bind w (f a)))) s"
proof (cases v)
  case (Some a)
  show ?thesis
  proof (cases w)
    case (Some b)
    with \<open>v = Some a\<close> assms(1,3,4) assms(2) [of a] assms(5) [of a b] show ?thesis
      by (cases "f a b") (auto simp: computes_def program_Exec_append program_Exec_Cons)
  next
    case None
    with \<open>v = Some a\<close> assms(1) assms(2) [of a] show ?thesis
      by (auto simp: computes_def program_Exec_append)
  qed
qed (use assms(1) in \<open>auto simp: computes_def program_Exec_append\<close>)

lemma computes_boolean:
  assumes "computes F p (Some (PSBoolean a)) s" "computes F q (Some (PSBoolean b)) (s @ [PSBoolean a])"
    "op \<noteq> ''if''" "op \<noteq> ''ifelse''"
    "simple_op F op (s @ [PSBoolean a, PSBoolean b]) = (Inr (), s @ [PSBoolean c])"
  shows "computes F (p @ q @ [PSOperand op]) (Some (PSBoolean c)) s"
  using assms by (auto simp: computes_def program_Exec_append program_Exec_Cons)

lemma icode_computes:
  "length s + idepth e \<le> 101 \<Longrightarrow> computes F (icode e) (map_option PSInteger (ieval e)) s"
  "length s + bdepth b \<le> 101 \<Longrightarrow> computes F (bcode b) (Some (PSBoolean (beval b))) s"
proof (induction e and b arbitrary: s and s)
  case (Lit v)
  then show ?case by (simp add: computes_def program_Exec_Cons ps_simps)
next
  case (Neg e)
  then have "computes F (icode e) (map_option PSInteger (ieval e)) s" "length s \<le> 100"
    using depth_pos(1) [of e] by auto
  then show ?case
    by (auto simp: computes_def program_Exec_append program_Exec_Cons integer_ops split: option.splits)
next
  case (Add e1 e2)
  then show ?case using depth_pos(1) [of e1] by (auto intro!: computes_binary simp: integer_ops)
next
  case (Sub e1 e2)
  then show ?case using depth_pos(1) [of e1] by (auto intro!: computes_binary simp: integer_ops)
next
  case (Mul e1 e2)
  then show ?case using depth_pos(1) [of e1] by (auto intro!: computes_binary simp: integer_ops)
next
  case (Idiv e1 e2)
  then show ?case using depth_pos(1) [of e1] by (auto intro!: computes_binary simp: integer_ops)
next
  case (Cond b e1 e2)
  have "computes F (icode (if beval b then e1 else e2)) (map_option PSInteger (ieval (Cond b e1 e2))) s"
    using Cond by simp
  moreover have "program_Exec F (icode (Cond b e1 e2)) s = program_Exec F (icode (if beval b then e1 else e2)) s"
    using Cond.IH(1) [of s] Cond.prems by (simp add: computes_def program_Exec_append ifelse_apply)
  ultimately show ?case unfolding computes_def by (simp only:)
next
  case (Bool b)
  then show ?case by (simp add: computes_def program_Exec_Cons ps_simps)
next
  case (Not b)
  then have "computes F (bcode b) (Some (PSBoolean (beval b))) s" "length s \<le> 100"
    using depth_pos(2) [of b] by auto
  then show ?case
    by (simp add: computes_def program_Exec_append program_Exec_Cons integer_ops)
next
  case (And b1 b2)
  then show ?case using depth_pos(2) [of b1] by (auto intro!: computes_boolean simp: integer_ops)
next
  case (Or b1 b2)
  then show ?case using depth_pos(2) [of b1] by (auto intro!: computes_boolean simp: integer_ops)
qed

section \<open>Integer division\<close>

lemma smod_bounds:
  fixes a b :: int
  assumes "b \<noteq> 0"
  shows "\<bar>a smod b\<bar> < \<bar>b\<bar>" "a smod b = 0 \<or> sgn (a smod b) = sgn a" "a = b * (a sdiv b) + a smod b"
proof -
  have m: "0 \<le> \<bar>a\<bar> mod \<bar>b\<bar>" "\<bar>a\<bar> mod \<bar>b\<bar> < \<bar>b\<bar>" using assms by simp_all
  then show "\<bar>a smod b\<bar> < \<bar>b\<bar>" using assms by (auto simp: smod_int_alt_def abs_mult sgn_if)
  show "a smod b = 0 \<or> sgn (a smod b) = sgn a"
    using m by (auto simp: smod_int_alt_def sgn_mult sgn_if)
  show "a = b * (a sdiv b) + a smod b" by (simp add: mult_sdiv_smod_eq)
qed

lemma idiv_mod_words:
  fixes a b :: u64
  assumes "b \<noteq> 0"
  defines "q \<equiv> word_of_int (sint a sdiv sint b) :: u64"
    and "r \<equiv> word_of_int (sint a smod sint b) :: u64"
  shows "a = b * q + r" "\<bar>sint r\<bar> < \<bar>sint b\<bar>" "r = 0 \<or> sgn (sint r) = sgn (sint a)"
proof -
  have b: "sint b \<noteq> 0" using assms(1) by (simp add: signed_eq_0_iff)
  have "a = word_of_int (sint a)" by simp
  also have "\<dots> = word_of_int (sint b * (sint a sdiv sint b) + sint a smod sint b)"
    using smod_bounds(3) [OF b, of "sint a"] by simp
  also have "\<dots> = b * q + r" by (simp add: q_def r_def)
  finally show "a = b * q + r" .
  have "\<bar>sint a smod sint b\<bar> < 2 ^ 63"
    using smod_bounds(1) [OF b, of "sint a"] sint_ge [of b] sint_lt [of b] by simp
  then have r: "sint r = sint a smod sint b"
    by (simp add: r_def signed_of_int signed_take_bit_int_eq_self)
  show "\<bar>sint r\<bar> < \<bar>sint b\<bar>" using smod_bounds(1) [OF b] by (simp add: r)
  show "r = 0 \<or> sgn (sint r) = sgn (sint a)"
    using smod_bounds(2) [OF b, of "sint a"] r by (metis signed_eq_0_iff)
qed

section \<open>A program that does not end\<close>

text \<open>A procedure that runs the copy of itself it finds on the stack.\<close>

definition self_runner :: "'f PSObject list" where
  "self_runner = [PSOperand ''dup'', PSBoolean True, PSOperand ''exch'', PSOperand ''if'']"

lemma self_runner_step:
  assumes "length s \<le> 98"
  shows "simple_op F ''dup'' (s @ [x]) = (Inr (), s @ [x, x])"
    "simple_op F ''exch'' (s @ [x, y, z]) = (Inr (), s @ [x, z, y])"
    "if_proc (s @ [x, PSBoolean True, PSProgram p]) = (Inr (Some p), s @ [x])"
  using assms
  by (simp_all add: simple_op_def simple_ops_def op_dup_def op_exch_def if_proc_def ps_simps Pop_def butlast_append)

lemma self_runner_diverges:
  fixes s :: "'f stack"
  assumes "length s \<le> 98"
  shows "program_Exec F self_runner (s @ [PSProgram self_runner]) = None"
proof -
  define P :: "'f PSObject" where "P = PSProgram self_runner"
  define stuck :: "('f PSObject list \<times> 'f stack) list" where "stuck = [(self_runner, s @ [P]), (tl self_runner, s @ [P, P]),
    (tl (tl self_runner), s @ [P, P, PSBoolean True]), (tl (tl (tl self_runner)), s @ [P, PSBoolean True, P])]"
  note step = self_runner_step [OF assms]
  have "\<not> (F' = F \<and> (p, st) \<in> set stuck)" if "program_Exec F' p st = Some y" for F' p st y
    using that
  proof (induction rule: program_Exec.raw_induct [rotated, consumes 1])
    case (1 f F' p st y)
    note IH = 1(1) and run = 1(2)
    have never: "f F q u \<noteq> Some z" if "(q, u) \<in> set stuck" for q u z
      using IH [of F q u z] that by blast
    show ?case
    proof
      assume *: "F' = F \<and> (p, st) \<in> set stuck"
      then have F: "F' = F" by simp
      from * consider "p = self_runner" "st = s @ [P]" | "p = tl self_runner" "st = s @ [P, P]"
        | "p = tl (tl self_runner)" "st = s @ [P, P, PSBoolean True]"
        | "p = tl (tl (tl self_runner))" "st = s @ [P, PSBoolean True, P]"
        by (auto simp: stuck_def)
      then show False
      proof cases
        case 1
        with run F never [of "tl self_runner" "s @ [P, P]" y] step(1) show False
          by (simp add: self_runner_def stuck_def)
      next
        case 2
        with run F never [of "tl (tl self_runner)" "s @ [P, P, PSBoolean True]" y] assms show False
          by (simp add: self_runner_def stuck_def Push_def)
      next
        case 3
        with run F never [of "tl (tl (tl self_runner))" "s @ [P, PSBoolean True, P]" y] step(2) show False
          by (simp add: self_runner_def stuck_def)
      next
        case 4
        with run F never [of self_runner "s @ [P]"] step(3) [of P self_runner] show False
          by (auto simp: self_runner_def stuck_def run_proc_def P_def bind_eq_Some_conv)
      qed
    qed
  qed
  note no_result = this
  show ?thesis
  proof (cases "program_Exec F self_runner (s @ [P])")
    case (Some y)
    from no_result [OF this] show ?thesis by (simp add: stuck_def)
  qed (simp add: P_def)
qed

end
