(* ===== verification/Ps_Parser.thy ===== *)
theory Ps_Parser
  imports Ps_Object
begin

text \<open>
  The PostScript parser (\<open>pdf/ps/parser.go\<close>). The state of the parser is what its reader has left. The functions
  return their error or value with that rest. \<open>parseFunction\<close> calls itself for a nested
  procedure and goes on after it, so its return is a theorem (\<open>parseFunction_returns\<close>), not
  part of its definition.
\<close>

section \<open>Tokens\<close>

datatype parse_error =
    EOF
  | NotStartingWithBrace
  | InvalidFunction
  | NumError
  | UnexpectedBoolean
  | EmptyOperand

text \<open>\<open>Peek\<close>: the next bytes, with an end-of-file error when there are fewer.\<close>

definition Peek :: "nat \<Rightarrow> string \<Rightarrow> string \<times> parse_error option" where
  "Peek n s = (take n s, if length s < n then Some EOF else None)"

fun skipSpaces_loop :: "nat \<Rightarrow> string \<Rightarrow> (parse_error + nat) \<times> string" where
  "skipSpaces_loop cnt [] = (Inl EOF, [])"
| "skipSpaces_loop cnt (c # s) =
    (if IsWhiteSpace c then skipSpaces_loop (cnt + 1) s else (Inr cnt, c # s))"

definition skipSpaces :: "string \<Rightarrow> (parse_error + nat) \<times> string" where
  "skipSpaces s = skipSpaces_loop 0 s"

text \<open>The characters of a number, and whether it is a real.\<close>

fun parseNumber_loop :: "bool \<Rightarrow> bool \<Rightarrow> string \<Rightarrow> string \<Rightarrow> (bool \<times> string) \<times> string" where
  "parseNumber_loop allowSigns isFloat numStr [] = ((isFloat, numStr), [])"
| "parseNumber_loop allowSigns isFloat numStr (c # s) =
    (if allowSigns \<and> (c = CHR ''-'' \<or> c = CHR ''+'') then parseNumber_loop False isFloat (numStr @ [c]) s
     else if IsDecimalDigit c then parseNumber_loop allowSigns isFloat (numStr @ [c]) s
     else if c = CHR ''.'' then parseNumber_loop allowSigns True (numStr @ [c]) s
     else if c = CHR ''e'' then parseNumber_loop True True (numStr @ [c]) s
     else ((isFloat, numStr), c # s))"

definition parseNumber :: "'f fops \<Rightarrow> string \<Rightarrow> (parse_error + 'f PSObject) \<times> string" where
  "parseNumber F s =
    (case parseNumber_loop True False [] s of
       ((isFloat, numStr), s) \<Rightarrow>
         if isFloat then
           (case ParseFloat F numStr of Some fVal \<Rightarrow> (Inr (PSReal fVal), s) | None \<Rightarrow> (Inl NumError, s))
         else
           (case ParseInt numStr of Some intVal \<Rightarrow> (Inr (PSInteger intVal), s) | None \<Rightarrow> (Inl NumError, s)))"

definition parseBool :: "string \<Rightarrow> (parse_error + 'f PSObject) \<times> string" where
  "parseBool s =
    (case Peek 4 s of
       (_, Some err) \<Rightarrow> (Inl err, s)
     | (bb, None) \<Rightarrow>
         if bb = ''true'' then (Inr (PSBoolean True), drop 4 s)
         else (case Peek 5 s of
             (_, Some err) \<Rightarrow> (Inl err, s)
           | (bb, None) \<Rightarrow>
               if bb = ''false'' then (Inr (PSBoolean False), drop 5 s)
               else (Inl UnexpectedBoolean, s)))"

fun parseOperand_loop :: "string \<Rightarrow> string \<Rightarrow> string \<times> string" where
  "parseOperand_loop bytes [] = (bytes, [])"
| "parseOperand_loop bytes (c # s) =
    (if IsDelimiter c then (bytes, c # s)
     else if IsWhiteSpace c then (bytes, c # s)
     else parseOperand_loop (bytes @ [c]) s)"

definition parseOperand :: "string \<Rightarrow> (parse_error + 'f PSObject) \<times> string" where
  "parseOperand s =
    (case parseOperand_loop [] s of
       (bytes, s) \<Rightarrow> if bytes = [] then (Inl EmptyOperand, s) else (Inr (PSOperand bytes), s))"

section \<open>Procedures and programs\<close>

text \<open>The branches of \<open>parseFunction\<close> that read one token; at least two bytes are left.\<close>

definition parse_token :: "'f fops \<Rightarrow> string \<Rightarrow> (parse_error + 'f PSObject) \<times> string" where
  "parse_token F s =
    (let bb = fst (Peek 2 s) in
     if IsDecimalDigit (bb ! 0) \<or> bb ! 0 = CHR ''-'' \<and> IsDecimalDigit (bb ! 1) then parseNumber F s
     else
       let peekStr = fst (Peek 5 s) in
       if length peekStr > 4 \<and> take 5 peekStr = ''false'' then parseBool s
       else if length peekStr > 3 \<and> take 4 peekStr = ''true'' then parseBool s
       else parseOperand s)"

partial_function (option) parseFunction_loop ::
    "'f fops \<Rightarrow> 'f PSObject list \<Rightarrow> string \<Rightarrow> ((parse_error + 'f PSObject list) \<times> string) option" where
  "parseFunction_loop F function s =
    (let s = snd (skipSpaces s) in
     case Peek 2 s of
       (_, Some err) \<Rightarrow> Some (if err = EOF then Inr function else Inl err, s)
     | (bb, None) \<Rightarrow>
         if bb ! 0 = CHR ''}'' then Some (Inr function, tl s)
         else if bb ! 0 = CHR ''{'' then
           Option.bind (parseFunction_loop F [] (tl s)) (\<lambda>(r, s).
             case r of Inl err \<Rightarrow> Some (Inl err, s)
             | Inr inlineF \<Rightarrow> parseFunction_loop F (function @ [PSProgram inlineF]) s)
         else
           (case parse_token F s of
              (Inl err, s) \<Rightarrow> Some (Inl err, s)
            | (Inr obj, s) \<Rightarrow> parseFunction_loop F (function @ [obj]) s))"

lemmas [code] = parseFunction_loop.simps

definition parseFunction ::
    "'f fops \<Rightarrow> string \<Rightarrow> ((parse_error + 'f PSObject list) \<times> string) option" where
  "parseFunction F s =
    (if s = [] \<or> hd s \<noteq> CHR ''{'' then Some (Inl InvalidFunction, tl s)
     else parseFunction_loop F [] (tl s))"

definition Parse ::
    "'f fops \<Rightarrow> string \<Rightarrow> ((parse_error + 'f PSObject list) \<times> string) option" where
  "Parse F s =
    (let s = snd (skipSpaces s) in
     case Peek 2 s of
       (_, Some err) \<Rightarrow> Some (Inl err, s)
     | (bb, None) \<Rightarrow>
         if bb ! 0 \<noteq> CHR ''{'' then Some (Inl NotStartingWithBrace, s)
         else parseFunction F s)"

section \<open>Every call returns\<close>

lemma skipSpaces_length: "length (snd (skipSpaces s)) \<le> length s"
proof -
  have "length (snd (skipSpaces_loop cnt s)) \<le> length s" for cnt
    by (induction s arbitrary: cnt) (auto intro: le_SucI)
  then show ?thesis by (simp add: skipSpaces_def)
qed

lemma skipSpaces_not_space: "snd (skipSpaces s) = c # t \<Longrightarrow> \<not> IsWhiteSpace c"
proof -
  have "snd (skipSpaces_loop cnt s) = c # t \<Longrightarrow> \<not> IsWhiteSpace c" for cnt
    by (induction s arbitrary: cnt) (auto split: if_splits)
  then show "snd (skipSpaces s) = c # t \<Longrightarrow> \<not> IsWhiteSpace c" by (auto simp: skipSpaces_def)
qed

lemma parseNumber_loop_length: "length (snd (parseNumber_loop a f n s)) \<le> length s"
  by (induction s arbitrary: a f n) (auto intro: le_SucI)

lemma parseNumber_length:
  assumes "s \<noteq> []" "IsDecimalDigit (hd s) \<or> hd s = CHR ''-''"
  shows "length (snd (parseNumber F s)) < length s"
proof -
  obtain c t where s: "s = c # t" using assms(1) by (cases s) auto
  obtain f n u where u: "parseNumber_loop True False [] s = ((f, n), u)" by (metis prod.collapse)
  have "length (snd (parseNumber_loop True False [] s)) \<le> length t"
    using assms(2) parseNumber_loop_length [of _ _ _ t] by (auto simp: s)
  with u s have "length u < length s" by simp
  then show ?thesis
    by (simp add: parseNumber_def u split: option.split)
qed

lemma parseOperand_loop_length: "length (snd (parseOperand_loop b s)) + length (fst (parseOperand_loop b s)) = length s + length b"
  by (induction s arbitrary: b) auto

lemma parseOperand_length: "parseOperand s = (Inr obj, s') \<Longrightarrow> length s' < length s"
  using parseOperand_loop_length [of "[]" s]
  by (cases "fst (parseOperand_loop [] s)") (auto simp: parseOperand_def split: prod.splits if_splits)

lemma parseBool_length: "parseBool s = (Inr obj, s') \<Longrightarrow> length s' < length s"
  by (auto simp: parseBool_def Peek_def split: if_splits)

lemma parse_token_length:
  assumes "2 \<le> length s" "parse_token F s = (Inr obj, s')"
  shows "length s' < length s"
proof -
  have s: "s \<noteq> []" "take 2 s ! 0 = hd s" using assms(1) by (cases s; simp)+
  show ?thesis
    using assms(2) parseNumber_length [OF s(1), of F] s(2)
    by (auto simp: parse_token_def Peek_def Let_def dest: parseBool_length parseOperand_length split: if_splits)
qed

text \<open>The loop by the first two bytes of a token.\<close>

lemma parseFunction_loop_end:
  "snd (skipSpaces s) = t \<Longrightarrow> length t < 2 \<Longrightarrow> parseFunction_loop F fn s = Some (Inr fn, t)"
  by (subst parseFunction_loop.simps) (simp add: Peek_def)

lemma parseFunction_loop_close:
  "snd (skipSpaces s) = CHR ''}'' # t \<Longrightarrow> t \<noteq> [] \<Longrightarrow> parseFunction_loop F fn s = Some (Inr fn, t)"
  by (subst parseFunction_loop.simps) (cases t; simp add: Peek_def)

lemma parseFunction_loop_open:
  "snd (skipSpaces s) = CHR ''{'' # t \<Longrightarrow> t \<noteq> [] \<Longrightarrow> parseFunction_loop F fn s =
    Option.bind (parseFunction_loop F [] t) (\<lambda>(r, s).
      case r of Inl err \<Rightarrow> Some (Inl err, s)
      | Inr inlineF \<Rightarrow> parseFunction_loop F (fn @ [PSProgram inlineF]) s)"
  by (subst parseFunction_loop.simps) (cases t; simp add: Peek_def)

lemma parseFunction_loop_token:
  "snd (skipSpaces s) = c # t \<Longrightarrow> t \<noteq> [] \<Longrightarrow> c \<noteq> CHR ''{'' \<Longrightarrow> c \<noteq> CHR ''}'' \<Longrightarrow>
   parseFunction_loop F fn s =
    (case parse_token F (c # t) of
       (Inl err, s) \<Rightarrow> Some (Inl err, s)
     | (Inr obj, s) \<Rightarrow> parseFunction_loop F (fn @ [obj]) s)"
  by (subst parseFunction_loop.simps) (cases t; simp add: Peek_def)

text \<open>
  The loop returns, whatever the input, and never goes back. A token or a brace is read in
  every round, so the rest becomes shorter.
\<close>

lemma parse_token_no_longer: "length (snd (parse_token F s)) \<le> length s"
proof -
  have "length (snd (parseNumber F s)) \<le> length s"
    using parseNumber_loop_length [of True False "[]" s]
    by (auto simp: parseNumber_def split: prod.splits option.splits)
  moreover have "length (snd (parseOperand s)) \<le> length s"
    using parseOperand_loop_length [of "[]" s] by (auto simp: parseOperand_def split: prod.splits)
  moreover have "length (snd (parseBool s)) \<le> length s"
    by (auto simp: parseBool_def Peek_def)
  ultimately show ?thesis by (auto simp: parse_token_def Let_def)
qed

lemma parseFunction_loop_returns:
  "\<exists>r s'. parseFunction_loop F fn s = Some (r, s') \<and> length s' \<le> length s"
proof (induction s arbitrary: fn rule: length_induct)
  case (1 s)
  note IH = this
  define t where "t = snd (skipSpaces s)"
  have t: "length t \<le> length s" unfolding t_def by (rule skipSpaces_length)
  have again: "\<exists>r s'. parseFunction_loop F fn u = Some (r, s') \<and> length s' \<le> length s"
    if "length u < length t" for u fn
    using IH that t by (meson le_trans less_imp_le_nat less_le_trans)
  show ?case
  proof (cases "length t < 2")
    case True
    with t show ?thesis by (simp add: parseFunction_loop_end [OF t_def [symmetric]])
  next
    case False
    then obtain c u where u: "t = c # u" "u \<noteq> []" by (cases t) auto
    then have s: "snd (skipSpaces s) = c # u" by (simp add: t_def)
    consider "c = CHR ''}''" | "c = CHR ''{''" | "c \<noteq> CHR ''{''" "c \<noteq> CHR ''}''" by blast
    then show ?thesis
    proof cases
      case 1
      with s u t show ?thesis by (auto simp: parseFunction_loop_close)
    next
      case 2
      obtain r1 s1 where s1: "parseFunction_loop F [] u = Some (r1, s1)" "length s1 \<le> length u"
        using IH [rule_format, of u "[]"] u(1) t by auto
      have "length s1 < length t" using s1 u by simp
      with again [of s1] s1 2 s u t show ?thesis
        by (auto simp: parseFunction_loop_open split: sum.split)
    next
      case 3
      obtain r1 s1 where tok: "parse_token F t = (r1, s1)" by (cases "parse_token F t")
      with parse_token_no_longer [of F t] t have "length s1 \<le> length s" by simp
      moreover from tok False have "r1 = Inr obj \<Longrightarrow> length s1 < length t" for obj
        by (intro parse_token_length [of t F obj]) auto
      ultimately show ?thesis
        using again [of s1] 3 s u tok by (auto simp: parseFunction_loop_token split: sum.split)
    qed
  qed
qed

end
