(* ===== verification/Ps_Roundtrip.thy ===== *)
theory Ps_Roundtrip
  imports Ps_Parser
begin

text \<open>
  Printing a program and parsing the text. The programs are those whose objects the text
  determines: integers of any value, booleans, words that do not look like something else,
  reals for which the formatting keeps the value, and procedures of these.
\<close>

section \<open>Tokens\<close>

lemma parseNumber_loop_digits:
  "list_all (\<lambda>c. IsDecimalDigit c \<or> c = CHR ''.'') ds \<Longrightarrow>
   parseNumber_loop a f n (ds @ CHR '' '' # s) = ((f \<or> CHR ''.'' \<in> set ds, n @ ds), CHR '' '' # s)"
proof (induction ds arbitrary: f n)
  case (Cons c ds)
  have "\<not> IsDecimalDigit CHR ''.''" by (simp add: IsDecimalDigit_def)
  with Cons digit_not_sign [of c] show ?case by (auto split: if_splits)
qed (simp add: IsDecimalDigit_def)

lemma parseNumber_loop_text:
  assumes "number_text point str"
  shows "parseNumber_loop True False [] (str @ CHR '' '' # s) = ((point, str), CHR '' '' # s)"
proof (cases "hd str = CHR ''-''")
  case True
  with assms obtain ds where "str = CHR ''-'' # ds" by (cases str) (auto simp: number_text_def)
  with assms show ?thesis by (simp add: number_text_def Let_def parseNumber_loop_digits)
next
  case False
  with assms show ?thesis by (simp add: number_text_def Let_def parseNumber_loop_digits)
qed

lemma number_text_start:
  assumes "number_text point str"
  shows "\<exists>c t. str @ CHR '' '' # s = c # t \<and> t \<noteq> [] \<and> \<not> IsWhiteSpace c \<and> c \<noteq> CHR ''{'' \<and> c \<noteq> CHR ''}'' \<and>
    parse_token F (c # t) = parseNumber F (c # t)"
proof (cases str)
  case (Cons c t)
  have "\<not> IsWhiteSpace CHR ''-''" by (simp add: IsWhiteSpace_def)
  moreover have "\<not> IsDecimalDigit CHR ''-''" by (simp add: IsDecimalDigit_def)
  ultimately show ?thesis
    using assms Cons digit_not_sign [of c] digit_not_space [of c]
    by (cases t) (auto simp: number_text_def Let_def parse_token_def Peek_def split: if_splits)
qed (use assms in \<open>simp add: number_text_def\<close>)

text \<open>A word that is read as an operand.\<close>

definition word_text :: "string \<Rightarrow> bool" where
  "word_text w \<longleftrightarrow> w \<noteq> [] \<and> list_all (\<lambda>c. \<not> IsDelimiter c \<and> \<not> IsWhiteSpace c) w \<and>
     \<not> IsDecimalDigit (hd w) \<and> (hd w = CHR ''-'' \<longrightarrow> tl w = [] \<or> \<not> IsDecimalDigit (hd (tl w))) \<and>
     take 4 w \<noteq> ''true'' \<and> take 5 w \<noteq> ''false''"

lemma parseOperand_loop_word:
  "list_all (\<lambda>c. \<not> IsDelimiter c \<and> \<not> IsWhiteSpace c) w \<Longrightarrow>
   parseOperand_loop b (w @ CHR '' '' # s) = (b @ w, CHR '' '' # s)"
  by (induction w arbitrary: b) (auto simp: IsWhiteSpace_def)

lemma take_word:
  assumes "take n w \<noteq> t" "length t = n" "CHR '' '' \<notin> set t"
  shows "take n (w @ CHR '' '' # s) \<noteq> t"
proof (cases "n \<le> length w")
  case False
  then have "CHR '' '' \<in> set (take n (w @ CHR '' '' # s))" by (simp add: take_Cons')
  with assms(3) show ?thesis by metis
qed (use assms in simp)

lemma word_text_start:
  assumes "word_text w"
  shows "\<exists>c t. w @ CHR '' '' # s = c # t \<and> t \<noteq> [] \<and> \<not> IsWhiteSpace c \<and> c \<noteq> CHR ''{'' \<and> c \<noteq> CHR ''}'' \<and>
    parse_token F (c # t) = (Inr (PSOperand w), CHR '' '' # s)"
proof -
  obtain c v where w: "w = c # v" using assms by (cases w) (auto simp: word_text_def)
  define u where "u = w @ CHR '' '' # s"
  have num: "\<not> (IsDecimalDigit (take 2 u ! 0) \<or> take 2 u ! 0 = CHR ''-'' \<and> IsDecimalDigit (take 2 u ! 1))"
    using assms by (cases v) (auto simp: word_text_def u_def w IsDecimalDigit_def)
  have bool: "take 4 u \<noteq> ''true''" "take 5 u \<noteq> ''false''"
    unfolding u_def using assms by (intro take_word; simp add: word_text_def)+
  have "take 4 (take 5 u) \<noteq> ''true''" using bool(1) by (simp add: min_def)
  with num bool have "parse_token F u = parseOperand u"
    by (auto simp: parse_token_def Peek_def Let_def)
  also have "\<dots> = (Inr (PSOperand w), CHR '' '' # s)"
    using assms by (simp add: word_text_def u_def parseOperand_def parseOperand_loop_word)
  finally show ?thesis
    using assms by (auto simp: u_def w word_text_def IsDelimiter_def)
qed

section \<open>Programs\<close>

fun printable :: "'f fops \<Rightarrow> 'f PSObject \<Rightarrow> bool" where
  "printable F (PSInteger v) = True"
| "printable F (PSReal v) = (number_text True (format5 F v) \<and> ParseFloat F (format5 F v) = Some v)"
| "printable F (PSBoolean b) = True"
| "printable F (PSProgram p) = (\<forall>x \<in> set p. printable F x)"
| "printable F (PSOperand w) = word_text w"

lemma skipSpaces_space [simp]: "snd (skipSpaces (CHR '' '' # s)) = snd (skipSpaces s)"
proof -
  have "snd (skipSpaces_loop m s) = snd (skipSpaces_loop n s)" for m n
    by (induction s arbitrary: m n) auto
  then show ?thesis by (simp add: skipSpaces_def IsWhiteSpace_def)
qed

lemma skipSpaces_id: "\<not> IsWhiteSpace c \<Longrightarrow> snd (skipSpaces (c # s)) = c # s"
  by (simp add: skipSpaces_def)

lemma parseFunction_loop_space: "parseFunction_loop F fn (CHR '' '' # s) = parseFunction_loop F fn s"
  by (subst (1 2) parseFunction_loop.simps) simp

lemma parse_bool_text:
  "parse_token F (show_bool b @ CHR '' '' # s) = (Inr (PSBoolean b), CHR '' '' # s)"
  by (cases b) (simp_all add: parse_token_def show_bool_def parseBool_def Peek_def Let_def IsDecimalDigit_def)

lemma show_bool_start:
  "\<exists>c t. show_bool b @ CHR '' '' # s = c # t \<and> t \<noteq> [] \<and> \<not> IsWhiteSpace c \<and> c \<noteq> CHR ''{'' \<and> c \<noteq> CHR ''}''"
  by (cases b) (simp_all add: show_bool_def IsWhiteSpace_def)

lemma parse_token_text:
  assumes "u = c # t" "t \<noteq> []" "\<not> IsWhiteSpace c" "c \<noteq> CHR ''{''" "c \<noteq> CHR ''}''"
    "parse_token F u = (Inr x, CHR '' '' # s)"
  shows "parseFunction_loop F fn u = parseFunction_loop F (fn @ [x]) (CHR '' '' # s)"
  using assms parseFunction_loop_token [of u c t F fn] by (simp add: skipSpaces_id)

definition objects_text :: "'f fops \<Rightarrow> 'f PSObject list \<Rightarrow> string" where
  "objects_text F p = concat (map (\<lambda>obj. obj_String F obj @ '' '') p)"

lemma parse_objects:
  assumes "\<And>x fn s. x \<in> set p \<Longrightarrow>
    parseFunction_loop F fn (obj_String F x @ CHR '' '' # s) = parseFunction_loop F (fn @ [x]) (CHR '' '' # s)"
  shows "parseFunction_loop F fn (CHR '' '' # objects_text F p @ CHR ''}'' # s) =
    Some (Inr (fn @ p), if s = [] then ''}'' else s)"
  using assms
proof (induction p arbitrary: fn)
  case Nil
  have b: "snd (skipSpaces (CHR ''}'' # s)) = CHR ''}'' # s" by (simp add: skipSpaces_id IsWhiteSpace_def)
  then show ?case
    using parseFunction_loop_end [OF b] parseFunction_loop_close [OF b]
    by (cases "s = []") (simp_all add: objects_text_def parseFunction_loop_space)
next
  case (Cons x p)
  then show ?case
    using Cons.prems [of x fn "objects_text F p @ CHR ''}'' # s"]
    by (simp add: objects_text_def parseFunction_loop_space)
qed

lemma parse_object:
  "printable F x \<Longrightarrow> parseFunction_loop F fn (obj_String F x @ CHR '' '' # s) =
    parseFunction_loop F (fn @ [x]) (CHR '' '' # s)"
proof (induction x arbitrary: fn s)
  case (PSInteger v)
  obtain c t where u: "show_int64 v @ CHR '' '' # s = c # t" "t \<noteq> []" "\<not> IsWhiteSpace c" "c \<noteq> CHR ''{''"
    "c \<noteq> CHR ''}''" "parse_token F (c # t) = parseNumber F (c # t)"
    using number_text_start [OF number_text_show_int64] by blast
  show ?case
    using parse_token_text [OF u(1-5)] u(6) parseNumber_loop_text [OF number_text_show_int64, of v s]
    by (simp add: u(1) [symmetric] parseNumber_def ParseInt_show_int64)
next
  case (PSReal v)
  then have n: "number_text True (format5 F v)" "ParseFloat F (format5 F v) = Some v" by simp_all
  obtain c t where u: "format5 F v @ CHR '' '' # s = c # t" "t \<noteq> []" "\<not> IsWhiteSpace c" "c \<noteq> CHR ''{''"
    "c \<noteq> CHR ''}''" "parse_token F (c # t) = parseNumber F (c # t)"
    using number_text_start [OF n(1)] by blast
  show ?case
    using parse_token_text [OF u(1-5)] u(6) parseNumber_loop_text [OF n(1), of s]
    by (simp add: u(1) [symmetric] parseNumber_def n(2))
next
  case (PSBoolean b)
  obtain c t where "show_bool b @ CHR '' '' # s = c # t" "t \<noteq> []" "\<not> IsWhiteSpace c" "c \<noteq> CHR ''{''"
    "c \<noteq> CHR ''}''" using show_bool_start by blast
  from parse_token_text [OF this parse_bool_text] show ?case by simp
next
  case (PSProgram p)
  have "parseFunction_loop F [] (CHR '' '' # objects_text F p @ CHR ''}'' # CHR '' '' # s) =
      Some (Inr p, CHR '' '' # s)"
    using parse_objects [of p F "[]" "CHR '' '' # s"] PSProgram by simp
  then show ?case
    by (simp add: objects_text_def parseFunction_loop_open skipSpaces_id IsWhiteSpace_def)
next
  case (PSOperand w)
  then obtain c t where u: "w @ CHR '' '' # s = c # t" "t \<noteq> []" "\<not> IsWhiteSpace c" "c \<noteq> CHR ''{''"
    "c \<noteq> CHR ''}''" "parse_token F (c # t) = (Inr (PSOperand w), CHR '' '' # s)"
    using word_text_start [of w s F] by auto
  from parse_token_text [OF u(1-5)] u(1,6) show ?case by simp
qed

lemma Parse_obj_String:
  assumes "\<forall>x \<in> set p. printable F x"
  shows "Parse F (obj_String F (PSProgram p)) = Some (Inr p, ''}'')"
proof -
  have "parseFunction_loop F [] (CHR '' '' # objects_text F p @ ''}'') = Some (Inr p, ''}'')"
    using parse_objects [of p F "[]" "[]", OF parse_object] assms by simp
  then show ?thesis
    by (simp add: Parse_def parseFunction_def Peek_def objects_text_def skipSpaces_id IsWhiteSpace_def)
qed

end
