(* ===== verification/Ps_Properties.thy ===== *)
theory Ps_Properties
  imports Ps_Expressions Ps_Roundtrip
begin

text \<open>
  The properties of the PostScript calculator, each followed by a theorem that applies it to
  a concrete program.
\<close>

section \<open>Auxiliary facts\<close>

lemma push_all_append:
  "length s + length objects \<le> 101 \<Longrightarrow> push_all objects s = (Inr (), s @ objects)"
  by (induction objects arbitrary: s) (simp_all add: ps_simps)

lemma push_all_stack: "set (snd (push_all objects s)) \<subseteq> set s \<union> set objects"
proof (induction objects arbitrary: s)
  case (Cons x objects)
  from Cons [of "s @ [x]"] show ?case by (auto simp: ps_simps)
qed (simp add: ps_simps)

lemma push_all_bound: "length s \<le> 101 \<Longrightarrow> length (snd (push_all objects s)) \<le> 101"
  by (induction objects arbitrary: s) (simp_all add: ps_simps)

text \<open>What \<open>Execute\<close> keeps, from what a run keeps.\<close>

lemma Execute_cases:
  assumes "Execute F exec objects = Some (r, exec')"
    "Q (snd (push_all objects (Stack exec)))"
    "\<And>s r s'. program_Exec F (program exec) s = Some (r, s') \<Longrightarrow> Q s \<Longrightarrow> Q s'"
    "Q []"
  shows "Q (Stack exec') \<and> (\<forall>result. r = Inr result \<longrightarrow> Q result) \<and> program exec' = program exec"
proof (cases "push_all objects (Stack exec)")
  case (Pair r1 s1)
  have run: "program_Exec F (program exec) s1 = Some (r, s') \<Longrightarrow> Q s'" for r s'
    using assms(2,3) Pair by simp
  show ?thesis
  proof (cases "program_Exec F (program exec) s1")
    case (Some out)
    then obtain r2 s2 where out: "program_Exec F (program exec) s1 = Some (r2, s2)" by (cases out) auto
    with run have "Q s2" by blast
    with out assms(1,2,4) Pair show ?thesis by (auto simp: Execute_def split: sum.splits)
  qed (use assms(1,2) Pair in \<open>auto simp: Execute_def split: sum.splits\<close>)
qed

section \<open>Running\<close>

text \<open>C6: the postfix program of an expression over 64-bit integers and booleans (negation,
  sum, difference, product, division, conditionals with \<open>ifelse\<close>) leaves the value of the
  expression on top of the stack it starts on, and fails with the undefined-result error exactly
  when a division by zero is evaluated, provided the operands that wait fit within the limit of
  the stack.\<close>
theorem ps_expression_value:
  fixes F :: "'f fops"
  assumes "length s + idepth e \<le> 101"
  shows "case ieval e of
      Some v \<Rightarrow> program_Exec F (icode e) s = Some (Inr (), s @ [PSInteger v])
    | None \<Rightarrow> \<exists>s'. program_Exec F (icode e) s = Some (Inl ErrUndefinedResult, s')"
  using icode_computes(1) [OF assms, of F] by (simp add: computes_def split: option.splits)

lemma ps_expression_value_witness:
  "program_Exec int_fops (icode (Cond (Not (Bool False)) (Idiv (Lit 7) (Sub (Lit 5) (Lit 3))) (Lit 0))) [] =
    Some (Inr (), [PSInteger 3])"
proof -
  have "ieval (Cond (Not (Bool False)) (Idiv (Lit 7) (Sub (Lit 5) (Lit 3))) (Lit 0)) = Some 3"
    by simp
  with ps_expression_value [of "[]" "Cond (Not (Bool False)) (Idiv (Lit 7) (Sub (Lit 5) (Lit 3))) (Lit 0)" int_fops]
  show ?thesis by simp
qed

text \<open>C22: a program without \<open>dup\<close>, \<open>copy\<close> and \<open>index\<close>, procedures included, ends on all
  arguments that contain no such operators, with a result or an error.\<close>
theorem ps_terminates:
  fixes F :: "'f fops"
  assumes "no_dup (program exec)" "no_dup (Stack exec)" "no_dup objects"
  shows "\<exists>r exec'. Execute F exec objects = Some (r, exec')"
proof -
  obtain r1 s1 where s1: "push_all objects (Stack exec) = (r1, s1)" by (cases "push_all objects (Stack exec)")
  with push_all_stack [of objects "Stack exec"] assms(2,3) have "no_dup s1" by fastforce
  from program_ends [OF assms(1) this, of F] obtain r2 s2 where
    "program_Exec F (program exec) s1 = Some (r2, s2)" by (auto simp: ends_def split: option.splits)
  with s1 show ?thesis by (auto simp: Execute_def split: sum.split)
qed

lemma ps_terminates_witness:
  "\<exists>r exec'. Execute int_fops (NewPSExecutor
      [PSBoolean True, PSProgram [PSOperand ''neg''], PSOperand ''if'']) [PSInteger 5] = Some (r, exec')"
  by (rule ps_terminates) (simp_all add: NewPSExecutor_def)

text \<open>C23: the stack holds at most 101 objects, in all runs of a program without \<open>copy\<close>: the
  stack an executor keeps and the results it returns.\<close>
theorem ps_stack_bound:
  fixes F :: "'f fops"
  assumes "\<forall>x \<in> set (program exec) \<union> set (Stack exec) \<union> set objects. avoids [''copy''] x"
    and "length (Stack exec) \<le> 101" "Execute F exec objects = Some (r, exec')"
  shows "length (Stack exec') \<le> 101 \<and> (\<forall>result. r = Inr result \<longrightarrow> length result \<le> 101)"
proof -
  let ?Q = "\<lambda>s. length s \<le> 101 \<and> (\<forall>x \<in> set s. is_code x \<longrightarrow> avoids [''copy''] x)"
  have push: "?Q (snd (push_all objects (Stack exec)))"
    using push_all_stack [of objects "Stack exec"] push_all_bound [OF assms(2), of objects] assms(1) by blast
  have run: "?Q s'" if "program_Exec F (program exec) s = Some (r, s')" "?Q s" for s r s'
    by (rule bounded_stack.run_inv [OF that]) (use assms(1) in blast)
  have "?Q (Stack exec') \<and> (\<forall>result. r = Inr result \<longrightarrow> ?Q result) \<and> program exec' = program exec"
    by (rule Execute_cases [OF assms(3), of ?Q, OF push run]) simp_all
  then show ?thesis by blast
qed

lemma ps_stack_bound_witness:
  "\<exists>r exec'. Execute int_fops (NewPSExecutor [PSOperand ''dup'', PSOperand ''mul'']) [PSInteger 9] = Some (Inr r, exec')
    \<and> length (Stack exec') \<le> 101 \<and> length r \<le> 101"
proof -
  have e: "Execute int_fops (NewPSExecutor [PSOperand ''dup'', PSOperand ''mul'']) [PSInteger 9] =
      Some (Inr [PSInteger 81], NewPSExecutor [PSOperand ''dup'', PSOperand ''mul''])"
    by code_simp
  with ps_stack_bound [OF _ _ e] show ?thesis by (simp add: NewPSExecutor_def)
qed

text \<open>C24: operands are executed, never kept: the stack and the results of every program hold
  integers, reals, booleans and procedures only.\<close>
theorem ps_values_only:
  fixes F :: "'f fops"
  assumes "\<forall>x \<in> set (Stack exec) \<union> set objects. \<not> is_operand x"
    and "Execute F exec objects = Some (r, exec')"
  shows "\<forall>x \<in> set (Stack exec') \<union> (case r of Inl e \<Rightarrow> {} | Inr result \<Rightarrow> set result). \<not> is_operand x"
proof -
  let ?Q = "\<lambda>s. \<forall>x \<in> set s. \<not> is_operand x"
  have push: "?Q (snd (push_all objects (Stack exec)))"
    using push_all_stack [of objects "Stack exec"] assms(1) by blast
  have run: "?Q s'" if "program_Exec F (program exec) s = Some (r, s')" "?Q s" for s r s'
    by (rule value_stack.run_inv [OF that]) simp
  have "?Q (Stack exec') \<and> (\<forall>result. r = Inr result \<longrightarrow> ?Q result) \<and> program exec' = program exec"
    by (rule Execute_cases [OF assms(2), of ?Q, OF push run]) simp_all
  then show ?thesis by (cases r) auto
qed

lemma ps_values_only_witness:
  "Execute int_fops (NewPSExecutor [PSBoolean True]) [PSInteger 9] =
      Some (Inr [PSInteger 9, PSBoolean True], NewPSExecutor [PSBoolean True]) \<and>
    \<not> is_operand (PSInteger 9 :: int PSObject) \<and> \<not> is_operand (PSBoolean True :: int PSObject)"
proof -
  have e: "Execute int_fops (NewPSExecutor [PSBoolean True]) [PSInteger 9] =
      Some (Inr [PSInteger 9, PSBoolean True], NewPSExecutor [PSBoolean True])"
    by code_simp
  show ?thesis using e ps_values_only [OF _ e] by (simp add: NewPSExecutor_def is_operand_def)
qed

text \<open>a procedure that duplicates and runs itself makes \<open>Execute\<close> recurse for ever: the
  run has no result, on any arguments that fit on the stack.\<close>
theorem ps_diverges:
  fixes F :: "'f fops"
  assumes "length objects \<le> 98"
  shows "Execute F (NewPSExecutor (PSProgram self_runner # self_runner)) objects = None"
  using assms self_runner_diverges [of objects F]
  by (simp add: Execute_def NewPSExecutor_def push_all_append program_Exec_Cons ps_simps)

lemma ps_diverges_witness:
  "Parse int_fops ''{{dup true exch if} dup true exch if}'' = Some (Inr (PSProgram self_runner # self_runner), ''}'') \<and>
   Execute int_fops (NewPSExecutor (PSProgram self_runner # self_runner)) [PSInteger 1] = None"
proof (rule conjI)
  show "Parse int_fops ''{{dup true exch if} dup true exch if}'' = Some (Inr (PSProgram self_runner # self_runner), ''}'')"
    by code_simp
qed (rule ps_diverges, simp)

text \<open>an executor whose program failed keeps what the program left on the stack, and the
  next call computes on it: after a division by zero under an object \<open>x\<close>, the next result
  has \<open>x\<close> in it.\<close>
theorem ps_error_leaves_stack:
  "\<exists>exec. Execute F (NewPSExecutor [PSOperand ''idiv'']) [x, PSInteger a, PSInteger 0] =
      Some (Inl ErrUndefinedResult, exec) \<and> Stack exec = [x] \<and>
    Execute F exec [PSInteger a, PSInteger 1] = Some (Inr [x, PSInteger a], exec\<lparr>Stack := []\<rparr>) \<and>
    Execute F (NewPSExecutor [PSOperand ''idiv'']) [PSInteger a, PSInteger 1] =
      Some (Inr [PSInteger a], NewPSExecutor [PSOperand ''idiv''])"
proof -
  have "program_Exec F [PSOperand ''idiv''] [x, PSInteger a, PSInteger 0] = Some (Inl ErrUndefinedResult, [x])"
    using integer_ops(5) [of "[x]" F a 0] by (simp add: program_Exec_Cons)
  moreover have "program_Exec F [PSOperand ''idiv''] (s @ [PSInteger a, PSInteger 1]) =
      Some (Inr (), s @ [PSInteger a])" if "length s \<le> 100" for s
    using integer_ops(5) [OF that, of F a 1] by (simp add: program_Exec_Cons)
  from this [of "[x]"] this [of "[]"] have "program_Exec F [PSOperand ''idiv''] [x, PSInteger a, PSInteger 1] =
      Some (Inr (), [x, PSInteger a])"
    "program_Exec F [PSOperand ''idiv''] [PSInteger a, PSInteger 1] = Some (Inr (), [PSInteger a])" by simp_all
  ultimately show ?thesis
    by (simp add: Execute_def NewPSExecutor_def push_all_append ps_simps)
qed

section \<open>Operators\<close>

text \<open>\<open>idiv\<close> and \<open>mod\<close> of 64-bit integers: for a nonzero divisor the quotient times the
  divisor plus the remainder is the dividend, the remainder is smaller than the divisor and has
  the sign of the dividend; a zero divisor is an error. Both take their operands from the stack and
  leave the rest of it alone.\<close>
theorem ps_idiv_mod:
  assumes "length s \<le> 100"
  shows "if b = 0
    then op_idiv (s @ [PSInteger a, PSInteger b]) = (Inl ErrUndefinedResult, s) \<and>
      op_mod (s @ [PSInteger a, PSInteger b]) = (Inl ErrUndefinedResult, s)
    else \<exists>q r. op_idiv (s @ [PSInteger a, PSInteger b]) = (Inr (), s @ [PSInteger q]) \<and>
      op_mod (s @ [PSInteger a, PSInteger b]) = (Inr (), s @ [PSInteger r]) \<and>
      a = b * q + r \<and> \<bar>sint r\<bar> < \<bar>sint b\<bar> \<and> (r = 0 \<or> sgn (sint r) = sgn (sint a))"
  using idiv_mod_words [of b a] assms
  by (auto simp: op_idiv_def op_mod_def div_op_def ps_simps)

lemma ps_idiv_mod_witness:
  "op_idiv [PSInteger (- 7), PSInteger 0 :: int PSObject] = (Inl ErrUndefinedResult, [])"
  using ps_idiv_mod [of "[] :: int stack" 0 "- 7"] by simp

text \<open>C25: \<open>roll\<close> by \<open>j\<close> over the top \<open>n\<close> objects turns them by \<open>j\<close> places towards the top,
  for \<open>j\<close> of either sign and any size, and leaves the rest of the stack alone.\<close>
theorem ps_roll_rotates:
  fixes xs :: "'f stack"
  assumes "2 \<le> length xs" "length xs < 2 ^ 63" "- (2 ^ 63) < sint j"
  shows "op_roll (s @ xs @ [PSInteger (of_nat (length xs)), PSInteger j]) =
    (Inr (), s @ rotate (nat (- sint j mod int (length xs))) xs)"
  by (rule op_roll_rotate [OF assms])

lemma ps_roll_rotates_witness:
  "op_roll [PSReal (0 :: int), PSInteger 1, PSInteger 2, PSInteger 3, PSInteger 3, PSInteger (- 1)] =
    (Inr (), [PSReal 0, PSInteger 2, PSInteger 3, PSInteger 1])"
  using ps_roll_rotates [of "[PSInteger 1, PSInteger 2, PSInteger 3 :: int PSObject]" "- 1" "[PSReal 0]"] by simp

text \<open>\<open>copy\<close> does not look at the limit of the stack: copying all of a stack doubles it.\<close>
theorem ps_copy_no_limit:
  fixes s :: "'f stack"
  assumes "length s < 2 ^ 63"
  shows "op_copy (s @ [PSInteger (of_nat (length s))]) = (Inr (), s @ s)"
proof -
  have "sint (of_nat (length s) :: u64) = int (length s)" "unat (of_nat (length s) :: u64) = length s"
    using assms by (simp_all add: signed_of_nat unsigned_of_nat take_bit_nat_eq_self signed_take_bit_int_eq_self)
  then show ?thesis by (simp add: op_copy_def ps_simps)
qed

lemma ps_copy_no_limit_witness:
  "length (snd (op_copy (replicate 100 (PSBoolean True) @ [PSInteger 100 :: int PSObject]))) = 200"
  using ps_copy_no_limit [of "replicate 100 (PSBoolean True :: int PSObject)"] by simp

section \<open>Parsing\<close>

lemma Parse_braced: "s \<noteq> [] \<Longrightarrow> Parse F (CHR ''{'' # s) = parseFunction_loop F [] s"
  by (cases s) (simp_all add: Parse_def parseFunction_def Peek_def skipSpaces_id IsWhiteSpace_def)

lemma parse_closing: "parseFunction_loop F fn '' }'' = Some (Inr fn, ''}'')"
  by (simp add: parseFunction_loop_space parseFunction_loop_end skipSpaces_id IsWhiteSpace_def)

text \<open>C26: parsing the text of a program gives the program: integers of any value, booleans,
  operand words, reals that their formatting keeps, and procedures nested to any depth.\<close>
theorem ps_parse_print:
  assumes "\<forall>x \<in> set p. printable F x"
  shows "Parse F (obj_String F (PSProgram p)) = Some (Inr p, ''}'')"
  by (rule Parse_obj_String [OF assms])

lemma ps_parse_print_witness:
  "Parse int_fops (obj_String int_fops (PSProgram [PSInteger (- 12), PSBoolean True, PSReal 3,
       PSProgram [PSOperand ''dup'', PSOperand ''mul''], PSOperand ''if''])) =
     Some (Inr [PSInteger (- 12), PSBoolean True, PSReal 3,
       PSProgram [PSOperand ''dup'', PSOperand ''mul''], PSOperand ''if''], ''}'')"
proof -
  have "format5 int_fops 3 = ''3.00000''"
    by (simp add: int_fops_def show_int64_def show_nat.simps digit_def char_of_def bit_0)
  moreover have "ParseFloat int_fops ''3.00000'' = Some 3"
    by (simp add: int_fops_def ParseInt_def IsDecimalDigit_def digits_value_def)
  moreover have "number_text True ''3.00000''" "word_text ''dup''" "word_text ''mul''" "word_text ''if''"
    by (simp_all add: number_text_def word_text_def IsDecimalDigit_def IsDelimiter_def IsWhiteSpace_def)
  ultimately show ?thesis by (intro ps_parse_print) simp
qed

text \<open>C27: the parser returns on every input, with a program or an error, and never reads past
  the end.\<close>
theorem ps_parse_returns:
  "\<exists>r rest. Parse F s = Some (r, rest) \<and> length rest \<le> length s"
proof -
  define t where "t = snd (skipSpaces s)"
  have t: "length t \<le> length s" unfolding t_def by (rule skipSpaces_length)
  obtain r u where "parseFunction_loop F [] (tl t) = Some (r, u)" "length u \<le> length (tl t)"
    using parseFunction_loop_returns by blast
  with t show ?thesis by (auto simp: Parse_def parseFunction_def Peek_def t_def [symmetric])
qed

text \<open>the parser looks at two bytes at a time, and takes a single last byte for the end: a
  last character that is no space is dropped without an error, be it an operand, a digit of a
  number or a missing brace.\<close>
theorem ps_parse_drops_last_byte:
  assumes "\<not> IsWhiteSpace c"
  shows "Parse F (''{1 '' @ [c]) = Some (Inr [PSInteger 1], [c])"
proof -
  have num: "parse_token F (''1 '' @ [c]) = (Inr (PSInteger 1), '' '' @ [c])"
    by (simp add: parse_token_def parseNumber_def Peek_def IsDecimalDigit_def ParseInt_def digits_value_def)
  have "parseFunction_loop F [PSInteger 1] ('' '' @ [c]) = Some (Inr [PSInteger 1], [c])"
    using assms by (simp add: parseFunction_loop_space parseFunction_loop_end skipSpaces_id)
  with num have "parseFunction_loop F [] (''1 '' @ [c]) = Some (Inr [PSInteger 1], [c])"
    by (simp add: parseFunction_loop_token skipSpaces_id IsWhiteSpace_def)
  then show ?thesis
    by (simp add: Parse_braced)
qed

lemma ps_parse_drops_last_byte_witness: "Parse int_fops ''{1 5'' = Some (Inr [PSInteger 1], ''5'')"
  using ps_parse_drops_last_byte [of "CHR ''5''" int_fops] by (simp add: IsWhiteSpace_def)

text \<open>signs and points in numbers: a sign after a digit does not end the number but makes
  it invalid, and a number that starts with a plus sign or with the point is read as an operand,
  which no executor knows.\<close>
theorem ps_parse_number_quirks:
  "Parse F ''{5-3 }'' = Some (Inl NumError, '' }'') \<and>
   Parse F ''{+5 }'' = Some (Inr [PSOperand ''+5''], ''}'') \<and>
   Parse F ''{.5 }'' = Some (Inr [PSOperand ''.5''], ''}'') \<and>
   program_Exec F [PSOperand ''+5''] s = Some (Inl ErrUnsupportedOperand, s) \<and>
   program_Exec F [PSOperand ''.5''] s = Some (Inl ErrUnsupportedOperand, s)"
proof (intro conjI)
  note token = parse_token_def parseNumber_def Peek_def IsDecimalDigit_def ParseInt_def parseOperand_def
    IsDelimiter_def IsWhiteSpace_def
  have "parse_token F ''5-3 }'' = (Inl NumError, '' }'')" by (simp add: token)
  then show "Parse F ''{5-3 }'' = Some (Inl NumError, '' }'')"
    by (simp add: Parse_braced parseFunction_loop_token skipSpaces_id IsWhiteSpace_def)
  have "parse_token F ''+5 }'' = (Inr (PSOperand ''+5''), '' }'')" by (simp add: token)
  then show "Parse F ''{+5 }'' = Some (Inr [PSOperand ''+5''], ''}'')"
    by (simp add: Parse_braced parseFunction_loop_token parse_closing skipSpaces_id IsWhiteSpace_def)
  have "parse_token F ''.5 }'' = (Inr (PSOperand ''.5''), '' }'')" by (simp add: token)
  then show "Parse F ''{.5 }'' = Some (Inr [PSOperand ''.5''], ''}'')"
    by (simp add: Parse_braced parseFunction_loop_token parse_closing skipSpaces_id IsWhiteSpace_def)
qed (simp_all add: program_Exec_Cons simple_op_def simple_ops_def ps_simps)

end
