(* ===== verification/Sampling.thy ===== *)
theory Sampling
  imports Bit_Readers
begin

text \<open>
  Repacking of samples (\<open>pdf/internal/sampling/resample.go\<close>). Both functions run the same loop, over bytes or over
  samples of \<open>W\<close> bits in 32-bit words; the loop keeps the bits of the current input that are not used yet. Numbers of
  bits are natural numbers. The loops do not return for zero bits in a sample, so they are partial functions.
\<close>

section \<open>The code\<close>

record 'r sampler =
  samples :: "u32 list"
  bitsLeftPerSample :: nat
  sample :: u32
  remainder :: 'r
  remainderBits :: nat

definition start_sampler :: "nat \<Rightarrow> 'a::len word sampler" where
  "start_sampler n = \<lparr>samples = [], bitsLeftPerSample = n, sample = 0, remainder = 0, remainderBits = 0\<rparr>"

definition emit_sample :: "nat \<Rightarrow> 'a::len word sampler \<Rightarrow> 'a word sampler" where
  "emit_sample n s =
    (if bitsLeftPerSample s = 0 then
       s\<lparr>samples := samples s @ [sample s], bitsLeftPerSample := n, sample := 0\<rparr>
     else s)"

definition use_remainder :: "nat \<Rightarrow> nat \<Rightarrow> 'a::len word sampler \<Rightarrow> 'a word sampler" where
  "use_remainder W n s =
    (let t = (if bitsLeftPerSample s < remainderBits s then bitsLeftPerSample s else remainderBits s);
         left = remainderBits s - t
     in emit_sample n (s\<lparr>
          sample := push_bit t (sample s) OR ucast (drop_bit (W - t) (remainder s)),
          remainderBits := left,
          remainder := (if left > 0 then push_bit t (remainder s) else 0),
          bitsLeftPerSample := bitsLeftPerSample s - t\<rparr>))"

definition use_next :: "nat \<Rightarrow> nat \<Rightarrow> 'a::len word \<Rightarrow> 'a word sampler \<Rightarrow> 'a word sampler" where
  "use_next W n b s =
    (let t = (if bitsLeftPerSample s < W then bitsLeftPerSample s else W);
         left = W - t
     in emit_sample n (s\<lparr>
          sample := push_bit t (sample s) OR ucast (drop_bit left b),
          remainderBits := left,
          remainder := (if t < W then push_bit t b else remainder s),
          bitsLeftPerSample := bitsLeftPerSample s - t\<rparr>))"

partial_function (option) resample_data :: "nat \<Rightarrow> nat \<Rightarrow> 'a::len word list \<Rightarrow> 'a word sampler \<Rightarrow> 'a word sampler option" where
  "resample_data W n data s =
    (case data of
       [] \<Rightarrow> Some s
     | b # rest \<Rightarrow>
         if remainderBits s > 0 then resample_data W n data (use_remainder W n s)
         else resample_data W n rest (use_next W n b s))"

partial_function (option) resample_rest :: "nat \<Rightarrow> nat \<Rightarrow> 'a::len word sampler \<Rightarrow> 'a word sampler option" where
  "resample_rest W n s =
    (if remainderBits s \<ge> n then resample_rest W n (use_remainder W n s) else Some s)"

definition resample :: "nat \<Rightarrow> nat \<Rightarrow> 'a::len word list \<Rightarrow> 'a word sampler option" where
  "resample W n data = Option.bind (resample_data W n data (start_sampler n)) (resample_rest W n)"

definition ResampleBytes :: "u8 list \<Rightarrow> nat \<Rightarrow> u32 list option" where
  "ResampleBytes data bitsPerSample = map_option samples (resample 8 bitsPerSample data)"

definition pad_sample :: "nat \<Rightarrow> 'a::len word sampler \<Rightarrow> u32 list" where
  "pad_sample n s =
    (if bitsLeftPerSample s > 0 \<and> bitsLeftPerSample s < n then samples s @ [push_bit (bitsLeftPerSample s) (sample s)]
     else samples s)"

definition ResampleUint32 :: "u32 list \<Rightarrow> nat \<Rightarrow> nat \<Rightarrow> u32 list option" where
  "ResampleUint32 data bitsPerInputSample bitsPerOutputSample =
    map_option (pad_sample bitsPerOutputSample) (resample bitsPerInputSample bitsPerOutputSample data)"

section \<open>The specification: a bit string cut into pieces\<close>

fun chunks :: "nat \<Rightarrow> 'a list \<Rightarrow> 'a list list" where
  "chunks n xs = (if 0 < n \<and> n \<le> length xs then take n xs # chunks n (drop n xs) else [])"

declare chunks.simps [simp del]

definition incomplete :: "nat \<Rightarrow> 'a list \<Rightarrow> 'a list" where
  "incomplete n xs = drop (length xs - length xs mod n) xs"

definition sample_bits :: "nat \<Rightarrow> 'a::len word list \<Rightarrow> bool list" where
  "sample_bits W data = concat (map (word_bits W) data)"

lemma chunks_short [simp]: "length xs < n \<Longrightarrow> chunks n xs = []"
  by (simp add: chunks.simps)

lemma chunks_append: "0 < n \<Longrightarrow> length xs = n \<Longrightarrow> chunks n (xs @ ys) = xs # chunks n ys"
  by (subst chunks.simps) simp

section \<open>The invariant of the loops\<close>

text \<open>
  \<open>cur\<close> are the bits in the current sample; bits above them do not count. While bits of the last input are
  left, the sample is empty.
\<close>

definition remaining :: "nat \<Rightarrow> 'a::len word sampler \<Rightarrow> bool list" where
  "remaining W s = word_bits (remainderBits s) (drop_bit (W - remainderBits s) (remainder s))"

definition sampler_at :: "nat \<Rightarrow> nat \<Rightarrow> bool list \<Rightarrow> 'a::len word sampler \<Rightarrow> bool" where
  "sampler_at W n cur s \<longleftrightarrow>
    0 < bitsLeftPerSample s \<and> length cur + bitsLeftPerSample s = n \<and> take_bit (length cur) (sample s) = bits_value cur \<and>
    remainderBits s < W \<and> (remainderBits s > 0 \<longrightarrow> cur = [] \<and> sample s = 0)"

text \<open>The new bits go into complete samples, the current sample and the remainder.\<close>

definition advances :: "nat \<Rightarrow> nat \<Rightarrow> bool list \<Rightarrow> 'a::len word sampler \<Rightarrow> bool list \<Rightarrow> bool list \<Rightarrow> 'a word sampler \<Rightarrow> bool" where
  "advances W n cur s new cur' s' \<longleftrightarrow> sampler_at W n cur' s' \<and>
    (\<exists>out. (\<forall>c \<in> set out. length c = n) \<and>
       map (take_bit n) (samples s') = map (take_bit n) (samples s) @ map bits_value out \<and>
       concat out @ cur' @ remaining W s' = cur @ remaining W s @ new)"

lemma advances_trans:
  assumes "advances W n cur s new cur1 s1" "advances W n cur1 s1 new2 cur2 s2"
  shows "advances W n cur s (new @ new2) cur2 s2"
proof -
  obtain out1 where 1: "\<forall>c \<in> set out1. length c = n"
    "map (take_bit n) (samples s1) = map (take_bit n) (samples s) @ map bits_value out1"
    "concat out1 @ cur1 @ remaining W s1 = cur @ remaining W s @ new" using assms(1) by (auto simp: advances_def)
  obtain out2 where 2: "\<forall>c \<in> set out2. length c = n"
    "map (take_bit n) (samples s2) = map (take_bit n) (samples s1) @ map bits_value out2"
    "concat out2 @ cur2 @ remaining W s2 = cur1 @ remaining W s1 @ new2" using assms(2) by (auto simp: advances_def)
  from 1(3) 2(3) have "concat (out1 @ out2) @ cur2 @ remaining W s2 = cur @ remaining W s @ new @ new2"
    by (metis append.assoc concat_append)
  moreover have "\<forall>c \<in> set (out1 @ out2). length c = n" using 1(1) 2(1) by auto
  ultimately show ?thesis using 1(2) 2(2) assms(2) unfolding advances_def
    by (intro conjI exI [of _ "out1 @ out2"]) simp_all
qed

lemma start_sampler_at: "0 < n \<Longrightarrow> 0 < W \<Longrightarrow> sampler_at W n [] (start_sampler n :: 'a::len word sampler)"
  by (simp add: sampler_at_def start_sampler_def)

lemma word_bits_split: "t \<le> n \<Longrightarrow> word_bits n w = word_bits t (drop_bit (n - t) w) @ word_bits (n - t) w"
  using word_bits_append [of t "n - t" w] by simp

lemma use_remainder_spec:
  fixes s :: "'a::len word sampler"
  assumes inv: "sampler_at W n cur s" and W: "W \<le> LENGTH('a)" and some: "0 < remainderBits s"
  shows "\<exists>cur'. advances W n cur s [] cur' (use_remainder W n s) \<and>
    remainderBits (use_remainder W n s) < remainderBits s \<and> (n \<le> remainderBits s \<longrightarrow> cur' = [])"
proof -
  let ?k = "remainderBits s" and ?r = "remainder s"
  define t where "t = min n ?k"
  have cur: "cur = []" "sample s = 0" "bitsLeftPerSample s = n" and k: "?k < W" and n: "0 < n"
    using inv some by (auto simp: sampler_at_def)
  have t: "(if n < ?k then n else ?k) = t" "0 < t" "t \<le> ?k" "t \<le> n" using some n by (auto simp: t_def)
  define x where "x = (ucast (drop_bit (W - t) ?r) :: u32)"
  have rem: "remaining W s = word_bits t (drop_bit (W - t) ?r) @ word_bits (?k - t) (drop_bit (W - ?k) ?r)"
    using word_bits_split [OF t(3), of "drop_bit (W - ?k) ?r"] t(3) k by (simp add: remaining_def drop_bit_drop_bit)
  have left: "word_bits (?k - t) (drop_bit (W - (?k - t)) (push_bit t ?r)) = word_bits (?k - t) (drop_bit (W - ?k) ?r)"
    using t k W by (intro nth_equalityI) (auto simp: bit_simps ac_simps)
  have result: "take_bit t x = bits_value (word_bits t (drop_bit (W - t) ?r))"
    by (simp add: x_def bits_value_word_bits)
  have step: "use_remainder W n s = emit_sample n (s\<lparr>sample := x, remainderBits := ?k - t,
      remainder := (if ?k - t > 0 then push_bit t ?r else 0), bitsLeftPerSample := n - t\<rparr>)"
    unfolding use_remainder_def cur t(1) Let_def x_def by simp
  show ?thesis
  proof (cases "t = n")
    case True
    let ?s = "s\<lparr>remainderBits := ?k - t, remainder := (if ?k - t > 0 then push_bit t ?r else 0),
      samples := samples s @ [x], bitsLeftPerSample := n, sample := 0\<rparr>"
    have s: "use_remainder W n s = ?s" using True by (simp add: step emit_sample_def)
    have "remaining W ?s = word_bits (?k - t) (drop_bit (W - ?k) ?r)"
      using left by (cases "?k - t = 0") (simp_all add: remaining_def)
    then have "concat [word_bits t (drop_bit (W - t) ?r)] @ [] @ remaining W ?s = cur @ remaining W s @ []"
      by (simp add: rem cur)
    moreover have "sampler_at W n [] ?s" using n k t by (simp add: sampler_at_def)
    ultimately show ?thesis using t True result unfolding advances_def s
      by (intro exI [of _ "[]"] conjI exI [of _ "[word_bits t (drop_bit (W - t) ?r)]"]) simp_all
  next
    case False
    then have "t = ?k" "t < n" using t(3,4) by (auto simp: t_def)
    then show ?thesis using n result t k unfolding advances_def
      by (intro exI [of _ "word_bits t (drop_bit (W - t) ?r)"] conjI exI [of _ "[]"])
         (auto simp: step emit_sample_def sampler_at_def remaining_def cur)
  qed
qed

lemma use_next_spec:
  fixes s :: "'a::len word sampler"
  assumes inv: "sampler_at W n cur s" and W: "W \<le> LENGTH('a)" and none: "remainderBits s = 0" and b: "take_bit W b = b"
  shows "\<exists>cur'. advances W n cur s (word_bits W b) cur' (use_next W n b s) \<and> (cur' = [] \<or> W \<le> length cur')"
proof -
  let ?l = "bitsLeftPerSample s"
  define t where "t = min ?l W"
  have n: "length cur + ?l = n" "0 < ?l" and cur: "take_bit (length cur) (sample s) = bits_value cur"
    using inv by (simp_all add: sampler_at_def)
  have t: "(if ?l < W then ?l else W) = t" "t \<le> W" "t \<le> ?l" by (auto simp: t_def)
  define x where "x = (ucast (drop_bit (W - t) b) :: u32)"
  have split: "word_bits W b = word_bits t (drop_bit (W - t) b) @ word_bits (W - t) b"
    using word_bits_split [OF t(2)] .
  have left: "word_bits (W - t) (drop_bit (W - (W - t)) (push_bit t b)) = word_bits (W - t) b" if "t < W"
    using t that W by (intro nth_equalityI) (auto simp: bit_simps ac_simps)
  have x: "take_bit t x = x" "x = bits_value (word_bits t (drop_bit (W - t) b))"
  proof -
    have "take_bit t (drop_bit (W - t) b) = drop_bit (W - t) b"
      using b t take_bit_drop_bit [of t "W - t" b] by simp
    then show "take_bit t x = x" by (simp add: x_def flip: ucast_take_bit)
    then show "x = bits_value (word_bits t (drop_bit (W - t) b))" by (simp add: bits_value_word_bits x_def)
  qed
  let ?sample = "push_bit t (sample s) OR x" and ?cur = "cur @ word_bits t (drop_bit (W - t) b)"
  have x_bit: "i < t" if "bit x i" for i using x(1) that by (metis bit_take_bit_iff)
  have "take_bit (length cur + t) ?sample = push_bit t (take_bit (length cur) (sample s)) OR x"
    by (rule bit_word_eqI) (use x_bit in \<open>auto simp: bit_simps dest: x_bit\<close>)
  also have "\<dots> = push_bit t (bits_value cur) + x"
    unfolding cur by (rule disjunctive_add_eq_or [symmetric], rule bit_word_eqI) (auto simp: bit_simps dest: x_bit)
  finally have sample: "take_bit (length ?cur) ?sample = bits_value ?cur"
    by (simp add: bits_value_append x(2) [symmetric])
  have step: "use_next W n b s = emit_sample n (s\<lparr>sample := ?sample, remainderBits := W - t,
      remainder := (if t < W then push_bit t b else remainder s), bitsLeftPerSample := ?l - t\<rparr>)"
    unfolding use_next_def t(1) Let_def x_def by simp
  show ?thesis
  proof (cases "t = ?l")
    case True
    let ?s = "s\<lparr>remainderBits := W - t, remainder := (if t < W then push_bit t b else remainder s),
      samples := samples s @ [?sample], bitsLeftPerSample := n, sample := 0\<rparr>"
    have s: "use_next W n b s = ?s" using True by (simp add: step emit_sample_def)
    have "remaining W ?s = word_bits (W - t) b"
      by (cases "t < W") (use left t(2) in \<open>simp_all add: remaining_def\<close>)
    then have "concat [?cur] @ [] @ remaining W ?s = cur @ remaining W s @ word_bits W b"
      using split none by (simp add: remaining_def)
    moreover have "sampler_at W n [] ?s" using n t True inv by (auto simp: sampler_at_def)
    moreover have "take_bit n ?sample = bits_value ?cur" "length ?cur = n" using sample True n by simp_all
    ultimately show ?thesis unfolding advances_def s
      by (intro exI [of _ "[]"] conjI exI [of _ "[?cur]"]) simp_all
  next
    case False
    then have "t = W" "t < ?l" "0 < W" using t(3) inv by (auto simp: t_def sampler_at_def)
    then show ?thesis using n sample t none unfolding advances_def
      by (intro exI [of _ ?cur] conjI exI [of _ "[]"]) (auto simp: step emit_sample_def sampler_at_def remaining_def)
  qed
qed

section \<open>The loops\<close>

lemma resample_data_spec:
  fixes s :: "'a::len word sampler"
  assumes "sampler_at W n cur s" "W \<le> LENGTH('a)" "\<forall>b \<in> set data. take_bit W b = b"
    and "data = [] \<longrightarrow> cur = [] \<or> W \<le> length cur"
  shows "\<exists>cur' s'. resample_data W n data s = Some s' \<and> advances W n cur s (sample_bits W data) cur' s' \<and>
    (cur' = [] \<or> W \<le> length cur')"
  using assms
proof (induction "length data * Suc W + remainderBits s" arbitrary: data cur s rule: less_induct)
  case less
  show ?case
  proof (cases data)
    case Nil
    have "advances W n cur s [] cur s" using less.prems(1) by (auto simp: advances_def intro: exI [of _ "[]"])
    with Nil less.prems show ?thesis by (auto simp: resample_data.simps sample_bits_def)
  next
    case (Cons b rest)
    show ?thesis
    proof (cases "remainderBits s > 0")
      case True
      from use_remainder_spec [OF less.prems(1,2) True] obtain cur1 where
        1: "advances W n cur s [] cur1 (use_remainder W n s)" "remainderBits (use_remainder W n s) < remainderBits s"
        by blast
      then have "sampler_at W n cur1 (use_remainder W n s)" by (simp add: advances_def)
      from less.hyps [OF _ this less.prems(2,3)] 1(2) Cons obtain cur' s' where
        "resample_data W n data (use_remainder W n s) = Some s'"
        "advances W n cur1 (use_remainder W n s) (sample_bits W data) cur' s'" "cur' = [] \<or> W \<le> length cur'" by auto
      with True Cons advances_trans [OF 1(1)] show ?thesis
        by (simp add: resample_data.simps [of _ _ "b # rest"]) (metis append_Nil)
    next
      case False
      then have none: "remainderBits s = 0" by simp
      have b: "take_bit W b = b" using less.prems(3) Cons by simp
      from use_next_spec [OF less.prems(1,2) none b] obtain cur1 where
        1: "advances W n cur s (word_bits W b) cur1 (use_next W n b s)" "cur1 = [] \<or> W \<le> length cur1" by blast
      then have at: "sampler_at W n cur1 (use_next W n b s)" by (simp add: advances_def)
      then have "length rest * Suc W + remainderBits (use_next W n b s) < length data * Suc W + remainderBits s"
        by (simp add: sampler_at_def Cons)
      from less.hyps [OF this at less.prems(2)] 1(2) less.prems(3) Cons obtain cur' s' where
        "resample_data W n rest (use_next W n b s) = Some s'"
        "advances W n cur1 (use_next W n b s) (sample_bits W rest) cur' s'" "cur' = [] \<or> W \<le> length cur'" by auto
      with False Cons advances_trans [OF 1(1)] show ?thesis
        by (simp add: resample_data.simps [of _ _ "b # rest"] sample_bits_def) blast
    qed
  qed
qed

lemma resample_rest_spec:
  fixes s :: "'a::len word sampler"
  assumes "sampler_at W n cur s" "W \<le> LENGTH('a)" "cur = [] \<or> W \<le> length cur"
  shows "\<exists>cur' s'. resample_rest W n s = Some s' \<and> advances W n cur s [] cur' s' \<and>
    (cur' = [] \<or> W \<le> length cur') \<and> remainderBits s' < n"
  using assms
proof (induction "remainderBits s" arbitrary: cur s rule: less_induct)
  case less
  show ?case
  proof (cases "n \<le> remainderBits s")
    case False
    have "advances W n cur s [] cur s" using less.prems(1) by (auto simp: advances_def intro: exI [of _ "[]"])
    with False less.prems show ?thesis by (auto simp: resample_rest.simps)
  next
    case True
    then have "0 < remainderBits s" using less.prems(1) by (auto simp: sampler_at_def)
    from use_remainder_spec [OF less.prems(1,2) this] True obtain cur1 where
      1: "advances W n cur s [] cur1 (use_remainder W n s)" "remainderBits (use_remainder W n s) < remainderBits s"
        "cur1 = []" by auto
    then have "sampler_at W n cur1 (use_remainder W n s)" by (simp add: advances_def)
    from less.hyps [OF 1(2) this less.prems(2)] 1(3) obtain cur' s' where
      "resample_rest W n (use_remainder W n s) = Some s'" "advances W n cur1 (use_remainder W n s) [] cur' s'"
      "cur' = [] \<or> W \<le> length cur'" "remainderBits s' < n" by auto
    with True advances_trans [OF 1(1)] show ?thesis by (fastforce simp: resample_rest.simps [of _ _ s])
  qed
qed

text \<open>What the two loops leave: the complete samples, and the bits of an incomplete one, which are in the current
  sample if they are at least as many as the bits of an input, and in the remainder otherwise.\<close>

definition left_over :: "nat \<Rightarrow> bool list \<Rightarrow> bool list" where
  "left_over n bs = drop (n * (length bs div n)) bs"

lemma chunks_concat:
  "0 < n \<Longrightarrow> \<forall>c \<in> set out. length c = n \<Longrightarrow> length rest < n \<Longrightarrow>
    chunks n (concat out @ rest) = out \<and> left_over n (concat out @ rest) = rest"
proof (induction out)
  case Nil
  then show ?case by (simp add: left_over_def)
next
  case (Cons c out)
  moreover from Cons.prems have "left_over n (c @ concat out @ rest) = left_over n (concat out @ rest)"
    by (simp add: left_over_def div_add_self1)
  ultimately show ?case by (simp add: chunks_append)
qed

lemma resample_spec:
  assumes "0 < n" "0 < W" "W \<le> LENGTH('a::len)" "\<forall>b \<in> set data. take_bit W b = (b :: 'a word)"
  shows "\<exists>s'. resample W n data = Some s' \<and>
    map (take_bit n) (samples s') = map bits_value (chunks n (sample_bits W data)) \<and>
    (let rest = left_over n (sample_bits W data) in
       if W \<le> length rest then sampler_at W n rest s' else sampler_at W n [] s')"
proof -
  let ?s = "start_sampler n :: 'a word sampler"
  from resample_data_spec [OF start_sampler_at [OF assms(1,2)] assms(3,4)] obtain cur1 s1 where
    1: "resample_data W n data ?s = Some s1" "advances W n [] ?s (sample_bits W data) cur1 s1"
      "cur1 = [] \<or> W \<le> length cur1" by auto
  then have "sampler_at W n cur1 s1" by (simp add: advances_def)
  from resample_rest_spec [OF this assms(3) 1(3)] obtain cur s where
    2: "resample_rest W n s1 = Some s" "advances W n cur1 s1 [] cur s" "cur = [] \<or> W \<le> length cur" "remainderBits s < n"
    by blast
  from advances_trans [OF 1(2) 2(2)] obtain out where
    out: "\<forall>c \<in> set out. length c = n" "map (take_bit n) (samples s) = map bits_value out"
      "concat out @ cur @ remaining W s = sample_bits W data" and at: "sampler_at W n cur s"
    by (auto simp: advances_def start_sampler_def remaining_def)
  have len: "length (cur @ remaining W s) < n" using at 2(4) by (auto simp: sampler_at_def remaining_def)
  have split: "chunks n (sample_bits W data) = out" "left_over n (sample_bits W data) = cur @ remaining W s"
    using chunks_concat [OF assms(1) out(1) len] out(3) by simp_all
  have "if W \<le> length (cur @ remaining W s) then remaining W s = [] else cur = []"
    using 2(3) at by (auto simp: sampler_at_def remaining_def)
  with at have "let rest = cur @ remaining W s in if W \<le> length rest then sampler_at W n rest s else sampler_at W n [] s"
    by (auto simp: Let_def split: if_splits)
  with 1(1) 2(1) out(2) show ?thesis by (simp add: resample_def split)
qed

lemma bits_value_zeros [simp]: "bits_value (replicate n False) = 0"
  by (induction n) (simp_all add: bits_value_def horner_sum_append)

section \<open>Bytes\<close>

text \<open>In a byte nothing is above the remaining bits, so the samples are exact.\<close>

definition exact :: "nat \<Rightarrow> 'a::len word sampler \<Rightarrow> bool" where
  "exact n s \<longleftrightarrow> bitsLeftPerSample s \<le> n \<and> (\<forall>v \<in> set (samples s). take_bit n v = v) \<and>
    take_bit (n - bitsLeftPerSample s) (sample s) = sample s"

lemma take_bit_or_push:
  "take_bit k v = v \<Longrightarrow> take_bit t x = x \<Longrightarrow> take_bit (k + t) (push_bit t v OR x) = push_bit t v OR x"
  for v x :: "'a::len word"
proof -
  assume "take_bit k v = v" "take_bit t x = x"
  then have "\<And>i. bit v i \<Longrightarrow> i < k" "\<And>i. bit x i \<Longrightarrow> i < t" by (metis bit_take_bit_iff)+
  then show ?thesis by (intro bit_word_eqI) (fastforce simp: bit_simps)
qed

lemma emit_exact:
  "exact n s \<Longrightarrow> exact n (emit_sample n s)"
  by (auto simp: exact_def emit_sample_def)

lemma ucast_drop_bit_byte: "take_bit t (ucast (drop_bit (8 - t) b) :: u32) = ucast (drop_bit (8 - t) b)" for b :: u8
  by (rule bit_word_eqI) (auto simp: bit_simps dest: bit_imp_le_length)

lemma add_sample_exact:
  assumes "exact n s" "t \<le> bitsLeftPerSample s" "take_bit t x = x"
  shows "exact n (s\<lparr>sample := push_bit t (sample s) OR x, bitsLeftPerSample := bitsLeftPerSample s - t\<rparr>)"
  using assms take_bit_or_push [of "n - bitsLeftPerSample s" "sample s" t x] le_trans [OF diff_le_self]
  by (simp add: exact_def)

lemma use_exact:
  fixes s :: "u8 sampler"
  assumes "exact n s"
  shows "exact n (use_remainder 8 n s)" "exact n (use_next 8 n b s)"
proof -
  have step: "exact n (s\<lparr>sample := push_bit t (sample s) OR ucast (drop_bit (8 - t) c), remainderBits := k,
      remainder := r, bitsLeftPerSample := bitsLeftPerSample s - t\<rparr>)"
    if "t \<le> bitsLeftPerSample s" for t k and c r :: u8
    using add_sample_exact [OF assms that ucast_drop_bit_byte [of t c]] by (simp add: exact_def)
  show "exact n (use_remainder 8 n s)"
    unfolding use_remainder_def Let_def by (rule emit_exact, rule step) simp
  have "8 - (8 - t) = t" if "t \<le> 8" for t :: nat using that by simp
  then show "exact n (use_next 8 n b s)"
    unfolding use_next_def Let_def
    using step [where t = "if bitsLeftPerSample s < 8 then bitsLeftPerSample s else 8" and c = b]
    by (intro emit_exact) (cases "bitsLeftPerSample s < 8"; simp add: exact_def)
qed

lemma resample_exact:
  assumes "resample 8 n data = Some (s :: u8 sampler)"
  shows "\<forall>v \<in> set (samples s). take_bit n v = v"
proof -
  have data: "resample_data W n data s = Some s' \<Longrightarrow> W = 8 \<longrightarrow> exact n s \<longrightarrow> exact n s'" for W data and s s' :: "u8 sampler"
    by (rule resample_data.raw_induct [where P = "\<lambda>W n data s s'. W = 8 \<longrightarrow> exact n s \<longrightarrow> exact n s'"])
       (auto split: list.splits if_splits simp: use_exact)
  have rest: "resample_rest W n s = Some s' \<Longrightarrow> W = 8 \<longrightarrow> exact n s \<longrightarrow> exact n s'" for W and s s' :: "u8 sampler"
    by (rule resample_rest.raw_induct [where P = "\<lambda>W n s s'. W = 8 \<longrightarrow> exact n s \<longrightarrow> exact n s'"])
       (auto split: if_splits simp: use_exact)
  have "exact n (start_sampler n :: u8 sampler)" by (simp add: exact_def start_sampler_def)
  moreover from assms obtain s1 where "resample_data 8 n data (start_sampler n) = Some s1" "resample_rest 8 n s1 = Some s"
    by (auto simp: resample_def bind_eq_Some_conv)
  ultimately have "exact n s" using data rest by blast
  then show ?thesis by (simp add: exact_def)
qed

section \<open>No bits in a sample\<close>

lemma resample_rest_positive: "resample_rest W n s = Some s' \<Longrightarrow> n \<noteq> 0"
  by (rule resample_rest.raw_induct [where P = "\<lambda>W n s s'. n \<noteq> 0"]) (auto split: if_splits)

lemma resample_zero: "resample W 0 data = None"
  by (rule ccontr) (auto simp: resample_def bind_eq_Some_conv dest: resample_rest_positive)

section \<open>Properties\<close>

text \<open>C31: ResampleBytes returns, for any positive number of bits in a sample, the values of the complete pieces of the
  bits of the data; the bits of an incomplete piece are dropped. For no bits it does not return.\<close>

theorem resample_bytes_cuts:
  "ResampleBytes data n = (if n = 0 then None else Some (map bits_value (chunks n (bits data))))"
proof (cases "n = 0")
  case False
  have "take_bit 8 b = b" for b :: u8 by (rule bit_word_eqI) (auto simp: bit_simps dest: bit_imp_le_length)
  with False resample_spec [of n 8 data] obtain s where
    s: "resample 8 n data = Some s" "map (take_bit n) (samples s) = map bits_value (chunks n (sample_bits 8 data))" by auto
  have "map (take_bit n) (samples s) = samples s" using resample_exact [OF s(1)] by (simp add: map_idI)
  with s False show ?thesis by (simp add: ResampleBytes_def sample_bits_def bits_def)
qed (simp add: ResampleBytes_def resample_zero)

text \<open>C32: ResampleUint32 returns for samples that fit in their bits: the values of the complete pieces of the data's
  bits in the lower bits of the results, and of the rest, filled up with zeros, if it has at least the bits of
  one input.\<close>

theorem resample_uint32_cuts:
  assumes "0 < n" "0 < W" "W \<le> 32" "\<forall>v \<in> set data. take_bit W v = v"
  shows "\<exists>out. ResampleUint32 data W n = Some out \<and>
    map (take_bit n) out = map bits_value (chunks n (sample_bits W data) @
      (let rest = left_over n (sample_bits W data)
       in if W \<le> length rest then [rest @ replicate (n - length rest) False] else []))"
proof -
  from resample_spec [of n W data] assms obtain s where s:
    "resample W n data = Some s" "map (take_bit n) (samples s) = map bits_value (chunks n (sample_bits W data))"
    "let rest = left_over n (sample_bits W data) in if W \<le> length rest then sampler_at W n rest s else sampler_at W n [] s"
    by auto
  let ?rest = "left_over n (sample_bits W data)"
  have pad: "take_bit n (push_bit (bitsLeftPerSample s) (sample s)) = bits_value (cur @ replicate (n - length cur) False)"
    if "sampler_at W n cur s" for cur
  proof -
    have n: "n = length cur + bitsLeftPerSample s" using that by (simp add: sampler_at_def)
    have "take_bit n (push_bit (bitsLeftPerSample s) (sample s)) =
        push_bit (bitsLeftPerSample s) (take_bit (length cur) (sample s))"
      by (simp add: n push_bit_take_bit add.commute)
    also have "\<dots> = push_bit (bitsLeftPerSample s) (bits_value cur)" using that by (simp add: sampler_at_def)
    finally show ?thesis by (simp add: n bits_value_append bits_value_zeros)
  qed
  show ?thesis
  proof (cases "W \<le> length ?rest")
    case True
    with s(3) have at: "sampler_at W n ?rest s" by (simp add: Let_def)
    with True assms(2) have "0 < bitsLeftPerSample s \<and> bitsLeftPerSample s < n" by (auto simp: sampler_at_def)
    with s(1,2) True pad [OF at] show ?thesis by (simp add: ResampleUint32_def pad_sample_def Let_def)
  next
    case False
    with s(3) have at: "sampler_at W n [] s" by (simp add: Let_def)
    then have "bitsLeftPerSample s = n" by (simp add: sampler_at_def)
    with s(1,2) False show ?thesis by (simp add: ResampleUint32_def pad_sample_def Let_def)
  qed
qed

theorem resample_uint32_cuts_witness:
  "\<exists>out. ResampleUint32 [5, 6, 7] 4 8 = Some out \<and> map (take_bit 8) out = [0x56, 0x70]"
proof -
  have b: "sample_bits 4 [5, 6, 7 :: u32] = map (\<lambda>d. d = (1 :: nat)) [0,1,0,1, 0,1,1,0, 0,1,1,1]"
    by (simp add: sample_bits_def word_bits_def upt_rec)
  have "replicate 4 False = [False, False, False, False]" by (simp add: eval_nat_numeral)
  then show ?thesis
    using resample_uint32_cuts [of 8 4 "[5, 6, 7]"] unfolding b
    by (simp add: take_bit_eq_mod chunks.simps left_over_def bits_value_def)
qed

text \<open>A result has bits of the previous ones above its own.\<close>

lemma resample_uint32_high_bits: "ResampleUint32 [0xAB] 8 4 = Some [0xA, 0xAB]"
  by (simp add: ResampleUint32_def resample_def resample_data.simps resample_rest.simps start_sampler_def use_next_def
      use_remainder_def emit_sample_def pad_sample_def)

text \<open>An incomplete result is lost if it has less bits than an input.\<close>

lemma resample_uint32_drops: "ResampleUint32 [0xFF] 8 5 = Some [0x1F]" "ResampleUint32 [0xF] 4 8 = Some [0xF0]"
  by (simp_all add: ResampleUint32_def resample_def resample_data.simps resample_rest.simps start_sampler_def use_next_def
      use_remainder_def emit_sample_def pad_sample_def)

end
