(* ===== verification/String_Encodings.thy ===== *)
theory String_Encodings
  imports Go_Prelude "HOL-Library.Multiset"
begin

text \<open>
  Strings of text (\<open>pdf/internal/strutils/encoding.go\<close>, \<open>pdfdocenc.go\<close>). A Go string is the list of its bytes; a loop over
  its runes and the conversions between strings and runes read and write UTF-8 as the language defines: what is not
  the encoding of a rune is read as U+FFFD, one byte at a time. \<open>utf16_Encode\<close> and \<open>utf16_Decode\<close> are the functions of
  package \<open>unicode/utf16\<close>. A rune is an \<open>int\<close>. The map from runes to bytes is built by a loop over a Go map, whose order
  is not specified: the order is an argument.
\<close>

section \<open>UTF-8\<close>

type_synonym rune = int

definition RuneError :: rune where
  "RuneError = 0xFFFD"

text \<open>The runes that have an encoding: the code points that are not surrogates.\<close>

definition scalar :: "rune \<Rightarrow> bool" where
  "scalar r \<longleftrightarrow> 0 \<le> r \<and> r < 0xD800 \<or> 0xE000 \<le> r \<and> r \<le> 0x10FFFF"

definition AppendRune :: "rune \<Rightarrow> u8 list" where
  "AppendRune r =
    (if 0 \<le> r \<and> r < 0x80 then [word_of_int r]
     else if 0 \<le> r \<and> r < 0x800 then [word_of_int (0xC0 + r div 64), word_of_int (0x80 + r mod 64)]
     else if \<not> scalar r then [0xEF, 0xBF, 0xBD]
     else if r < 0x10000 then
       [word_of_int (0xE0 + r div 4096), word_of_int (0x80 + r div 64 mod 64), word_of_int (0x80 + r mod 64)]
     else
       [word_of_int (0xF0 + r div 262144), word_of_int (0x80 + r div 4096 mod 64),
        word_of_int (0x80 + r div 64 mod 64), word_of_int (0x80 + r mod 64)])"

text \<open>\<open>string(runes)\<close>\<close>

definition string_of :: "rune list \<Rightarrow> u8 list" where
  "string_of rs = concat (map AppendRune rs)"

definition between :: "int \<Rightarrow> int \<Rightarrow> u8 \<Rightarrow> bool" where
  "between lo hi b \<longleftrightarrow> lo \<le> uint b \<and> uint b \<le> hi"

text \<open>The rune at the start of a string and the number of its bytes.\<close>

definition DecodeRune :: "u8 \<Rightarrow> u8 list \<Rightarrow> rune \<times> nat" where
  "DecodeRune b0 bs =
    (if uint b0 < 0x80 then (uint b0, 1)
     else if between 0xC2 0xDF b0 then
       (case bs of
          b1 # _ \<Rightarrow> if between 0x80 0xBF b1 then ((uint b0 - 0xC0) * 64 + (uint b1 - 0x80), 2) else (RuneError, 1)
        | _ \<Rightarrow> (RuneError, 1))
     else if between 0xE0 0xEF b0 then
       (case bs of
          b1 # b2 # _ \<Rightarrow>
            if between (if b0 = 0xE0 then 0xA0 else 0x80) (if b0 = 0xED then 0x9F else 0xBF) b1 \<and> between 0x80 0xBF b2
            then ((uint b0 - 0xE0) * 4096 + (uint b1 - 0x80) * 64 + (uint b2 - 0x80), 3) else (RuneError, 1)
        | _ \<Rightarrow> (RuneError, 1))
     else if between 0xF0 0xF4 b0 then
       (case bs of
          b1 # b2 # b3 # _ \<Rightarrow>
            if between (if b0 = 0xF0 then 0x90 else 0x80) (if b0 = 0xF4 then 0x8F else 0xBF) b1 \<and>
              between 0x80 0xBF b2 \<and> between 0x80 0xBF b3
            then ((uint b0 - 0xF0) * 262144 + (uint b1 - 0x80) * 4096 + (uint b2 - 0x80) * 64 + (uint b3 - 0x80), 4)
            else (RuneError, 1)
        | _ \<Rightarrow> (RuneError, 1))
     else (RuneError, 1))"

text \<open>\<open>[]rune(s)\<close>\<close>

function runes :: "u8 list \<Rightarrow> rune list" where
  "runes [] = []"
| "runes (b # bs) = fst (DecodeRune b bs) # runes (drop (snd (DecodeRune b bs) - 1) bs)"
  by pat_completeness auto
termination by (relation "measure length") simp_all

section \<open>UTF-16\<close>

definition utf16_rune :: "rune \<Rightarrow> u16 list" where
  "utf16_rune v =
    (if 0 \<le> v \<and> v < 0xD800 \<or> 0xE000 \<le> v \<and> v < 0x10000 then [word_of_int v]
     else if 0x10000 \<le> v \<and> v \<le> 0x10FFFF then
       [word_of_int (0xD800 + (v - 0x10000) div 1024), word_of_int (0xDC00 + (v - 0x10000) mod 1024)]
     else [word_of_int RuneError])"

definition utf16_Encode :: "rune list \<Rightarrow> u16 list" where
  "utf16_Encode rs = concat (map utf16_rune rs)"

fun utf16_Decode :: "u16 list \<Rightarrow> rune list" where
  "utf16_Decode [] = []"
| "utf16_Decode (r # s) =
    (if uint r < 0xD800 \<or> 0xE000 \<le> uint r then uint r # utf16_Decode s
     else case s of
         r2 # s' \<Rightarrow> if uint r < 0xDC00 \<and> 0xDC00 \<le> uint r2 \<and> uint r2 < 0xE000
           then ((uint r - 0xD800) * 1024 + (uint r2 - 0xDC00) + 0x10000) # utf16_Decode s'
           else RuneError # utf16_Decode s
       | [] \<Rightarrow> [RuneError])"

text \<open>The loop over the pairs of bytes.\<close>

fun chars :: "u8 list \<Rightarrow> u16 list" where
  "chars (b0 # b1 # b) = (push_bit 8 (ucast b0) + ucast b1) # chars b"
| "chars _ = []"

definition UTF16ToRunes :: "u8 list \<Rightarrow> rune list" where
  "UTF16ToRunes b =
    (if length b = 1 then [uint (b ! 0)]
     else utf16_Decode (chars (if length b mod 2 \<noteq> 0 then b @ [0] else b)))"

definition UTF16ToString :: "u8 list \<Rightarrow> u8 list" where
  "UTF16ToString b = string_of (UTF16ToRunes b)"

text \<open>The two bytes written for each code.\<close>

definition code_bytes :: "u16 \<Rightarrow> u8 list" where
  "code_bytes code = [ucast (drop_bit 8 code AND 0xFF), ucast (code AND 0xFF)]"

definition StringToUTF16 :: "u8 list \<Rightarrow> u8 list" where
  "StringToUTF16 s = concat (map code_bytes (utf16_Encode (runes s)))"

section \<open>PDFDocEncoding\<close>

definition pdfDocEncoding :: "(u8 \<times> rune) list" where
  "pdfDocEncoding =
  [(0x01, 0x0001), (0x02, 0x0002), (0x03, 0x0003), (0x04, 0x0004), (0x05, 0x0005), (0x06, 0x0006), (0x07, 0x0007),
   (0x08, 0x0008), (0x09, 0x0009), (0x0a, 0x000a), (0x0b, 0x000b), (0x0c, 0x000c), (0x0d, 0x000d), (0x0e, 0x000e),
   (0x0f, 0x000f), (0x10, 0x0010), (0x11, 0x0011), (0x12, 0x0012), (0x13, 0x0013), (0x14, 0x0014), (0x15, 0x0015),
   (0x16, 0x0017), (0x17, 0x0017), (0x18, 0x02d8), (0x19, 0x02c7), (0x1a, 0x02c6), (0x1b, 0x02d9), (0x1c, 0x02dd),
   (0x1d, 0x02db), (0x1e, 0x02da), (0x1f, 0x02dc), (0x20, 0x0020), (0x21, 0x0021), (0x22, 0x0022), (0x23, 0x0023),
   (0x24, 0x0024), (0x25, 0x0025), (0x26, 0x0026), (0x27, 0x0027), (0x28, 0x0028), (0x29, 0x0029), (0x2a, 0x002a),
   (0x2b, 0x002b), (0x2c, 0x002c), (0x2d, 0x002d), (0x2e, 0x002e), (0x2f, 0x002f), (0x30, 0x0030), (0x31, 0x0031),
   (0x32, 0x0032), (0x33, 0x0033), (0x34, 0x0034), (0x35, 0x0035), (0x36, 0x0036), (0x37, 0x0037), (0x38, 0x0038),
   (0x39, 0x0039), (0x3a, 0x003a), (0x3b, 0x003b), (0x3c, 0x003c), (0x3d, 0x003d), (0x3e, 0x003e), (0x3f, 0x003f),
   (0x40, 0x0040), (0x41, 0x0041), (0x42, 0x0042), (0x43, 0x0043), (0x44, 0x0044), (0x45, 0x0045), (0x46, 0x0046),
   (0x47, 0x0047), (0x48, 0x0048), (0x49, 0x0049), (0x4a, 0x004a), (0x4b, 0x004b), (0x4c, 0x004c), (0x4d, 0x004d),
   (0x4e, 0x004e), (0x4f, 0x004f), (0x50, 0x0050), (0x51, 0x0051), (0x52, 0x0052), (0x53, 0x0053), (0x54, 0x0054),
   (0x55, 0x0055), (0x56, 0x0056), (0x57, 0x0057), (0x58, 0x0058), (0x59, 0x0059), (0x5a, 0x005a), (0x5b, 0x005b),
   (0x5c, 0x005c), (0x5d, 0x005d), (0x5e, 0x005e), (0x5f, 0x005f), (0x60, 0x0060), (0x61, 0x0061), (0x62, 0x0062),
   (0x63, 0x0063), (0x64, 0x0064), (0x65, 0x0065), (0x66, 0x0066), (0x67, 0x0067), (0x68, 0x0068), (0x69, 0x0069),
   (0x6a, 0x006a), (0x6b, 0x006b), (0x6c, 0x006c), (0x6d, 0x006d), (0x6e, 0x006e), (0x6f, 0x006f), (0x70, 0x0070),
   (0x71, 0x0071), (0x72, 0x0072), (0x73, 0x0073), (0x74, 0x0074), (0x75, 0x0075), (0x76, 0x0076), (0x77, 0x0077),
   (0x78, 0x0078), (0x79, 0x0079), (0x7a, 0x007a), (0x7b, 0x007b), (0x7c, 0x007c), (0x7d, 0x007d), (0x7e, 0x007e),
   (0x80, 0x2022), (0x81, 0x2020), (0x82, 0x2021), (0x83, 0x2026), (0x84, 0x2014), (0x85, 0x2013), (0x86, 0x0192),
   (0x87, 0x2044), (0x88, 0x2039), (0x89, 0x203a), (0x8a, 0x2212), (0x8b, 0x2030), (0x8c, 0x201e), (0x8d, 0x201c),
   (0x8e, 0x201d), (0x8f, 0x2018), (0x90, 0x2019), (0x91, 0x201a), (0x92, 0x2122), (0x93, 0xfb01), (0x94, 0xfb02),
   (0x95, 0x0141), (0x96, 0x0152), (0x97, 0x0160), (0x98, 0x0178), (0x99, 0x017d), (0x9a, 0x0131), (0x9b, 0x0142),
   (0x9c, 0x0153), (0x9d, 0x0161), (0x9e, 0x017e), (0xa0, 0x20ac), (0xa1, 0x00a1), (0xa2, 0x00a2), (0xa3, 0x00a3),
   (0xa4, 0x00a4), (0xa5, 0x00a5), (0xa6, 0x00a6), (0xa7, 0x00a7), (0xa8, 0x00a8), (0xa9, 0x00a9), (0xaa, 0x00aa),
   (0xab, 0x00ab), (0xac, 0x00ac), (0xae, 0x00ae), (0xaf, 0x00af), (0xb0, 0x00b0), (0xb1, 0x00b1), (0xb2, 0x00b2),
   (0xb3, 0x00b3), (0xb4, 0x00b4), (0xb5, 0x00b5), (0xb6, 0x00b6), (0xb7, 0x00b7), (0xb8, 0x00b8), (0xb9, 0x00b9),
   (0xba, 0x00ba), (0xbb, 0x00bb), (0xbc, 0x00bc), (0xbd, 0x00bd), (0xbe, 0x00be), (0xbf, 0x00bf), (0xc0, 0x00c0),
   (0xc1, 0x00c1), (0xc2, 0x00c2), (0xc3, 0x00c3), (0xc4, 0x00c4), (0xc5, 0x00c5), (0xc6, 0x00c6), (0xc7, 0x00c7),
   (0xc8, 0x00c8), (0xc9, 0x00c9), (0xca, 0x00ca), (0xcb, 0x00cb), (0xcc, 0x00cc), (0xcd, 0x00cd), (0xce, 0x00ce),
   (0xcf, 0x00cf), (0xd0, 0x00d0), (0xd1, 0x00d1), (0xd2, 0x00d2), (0xd3, 0x00d3), (0xd4, 0x00d4), (0xd5, 0x00d5),
   (0xd6, 0x00d6), (0xd7, 0x00d7), (0xd8, 0x00d8), (0xd9, 0x00d9), (0xda, 0x00da), (0xdb, 0x00db), (0xdc, 0x00dc),
   (0xdd, 0x00dd), (0xde, 0x00de), (0xdf, 0x00df), (0xe0, 0x00e0), (0xe1, 0x00e1), (0xe2, 0x00e2), (0xe3, 0x00e3),
   (0xe4, 0x00e4), (0xe5, 0x00e5), (0xe6, 0x00e6), (0xe7, 0x00e7), (0xe8, 0x00e8), (0xe9, 0x00e9), (0xea, 0x00ea),
   (0xeb, 0x00eb), (0xec, 0x00ec), (0xed, 0x00ed), (0xee, 0x00ee), (0xef, 0x00ef), (0xf0, 0x00f0), (0xf1, 0x00f1),
   (0xf2, 0x00f2), (0xf3, 0x00f3), (0xf4, 0x00f4), (0xf5, 0x00f5), (0xf6, 0x00f6), (0xf7, 0x00f7), (0xf8, 0x00f8),
   (0xf9, 0x00f9), (0xfa, 0x00fa), (0xfb, 0x00fb), (0xfc, 0x00fc), (0xfd, 0x00fd), (0xfe, 0x00fe), (0xff, 0x00ff)]"

text \<open>The map from runes to bytes, for the order in which the loop of \<open>init\<close> visits the entries.\<close>

definition pdfdocEncodingRuneMap :: "(u8 \<times> rune) list \<Rightarrow> rune \<Rightarrow> u8 option" where
  "pdfdocEncodingRuneMap order = fold (\<lambda>(b, r) m. m(r \<mapsto> b)) order (\<lambda>_. None)"

definition PDFDocEncodingToRunes :: "u8 list \<Rightarrow> rune list" where
  "PDFDocEncodingToRunes b = List.map_filter (map_of pdfDocEncoding) b"

definition PDFDocEncodingToString :: "u8 list \<Rightarrow> u8 list" where
  "PDFDocEncodingToString b = string_of (PDFDocEncodingToRunes b)"

definition StringToPDFDocEncoding :: "(u8 \<times> rune) list \<Rightarrow> u8 list \<Rightarrow> u8 list" where
  "StringToPDFDocEncoding order s = List.map_filter (pdfdocEncodingRuneMap order) (runes s)"

section \<open>Strings of a document\<close>

text \<open>\<open>MakeEncodedString\<close> and \<open>Decoded\<close> of \<open>pdf/core/primitives.go\<close>: the bytes of a string object and its mark for
  writing it in hexadecimal.\<close>

definition MakeEncodedString :: "(u8 \<times> rune) list \<Rightarrow> u8 list \<Rightarrow> bool \<Rightarrow> u8 list \<times> bool" where
  "MakeEncodedString order s utf16BE =
    (if utf16BE then ([0xFE, 0xFF] @ StringToUTF16 s, True) else (StringToPDFDocEncoding order s, False))"

definition Decoded :: "u8 list \<Rightarrow> u8 list" where
  "Decoded b =
    (if 2 \<le> length b \<and> b ! 0 = 0xFE \<and> b ! 1 = 0xFF then UTF16ToString (drop 2 b) else PDFDocEncodingToString b)"

end
