(* ===== verification/String_Properties.thy ===== *)
theory String_Properties
  imports String_Encodings
begin

text \<open>
  Properties of the strings of text: UTF-8 and UTF-16 lose nothing, so text written as UTF-16 is read
  back; PDFDocEncoding keeps the runes it can express, unless the result looks like UTF-16.
\<close>

section \<open>UTF-8\<close>

lemma uint_byte [simp]: "0 \<le> x \<Longrightarrow> x < 256 \<Longrightarrow> uint (word_of_int x :: u8) = x"
  by (simp add: uint_word_of_int)

lemma byte_eq: "0 \<le> x \<Longrightarrow> x < 256 \<Longrightarrow> (word_of_int x :: u8) = w \<longleftrightarrow> x = uint w"
  by (metis uint_byte word_of_int_uint)

lemma Decode2:
  "2 \<le> a \<Longrightarrow> a < 32 \<Longrightarrow> 0 \<le> b \<Longrightarrow> b < 64 \<Longrightarrow>
    DecodeRune (word_of_int (0xC0 + a)) (word_of_int (0x80 + b) # s) = (a * 64 + b, 2)"
  by (simp add: DecodeRune_def between_def del: of_int_add)

lemma Decode3:
  assumes "0 \<le> a" "a < 16" "0 \<le> b" "b < 64" "0 \<le> c" "c < 64" "a = 0 \<longrightarrow> 32 \<le> b" "a = 13 \<longrightarrow> b < 32"
  shows "DecodeRune (word_of_int (0xE0 + a)) (word_of_int (0x80 + b) # word_of_int (0x80 + c) # s) = (a * 4096 + b * 64 + c, 3)"
proof -
  have "(word_of_int (0xE0 + a) :: u8) = 0xE0 \<longleftrightarrow> a = 0" "(word_of_int (0xE0 + a) :: u8) = 0xED \<longleftrightarrow> a = 13"
    using assms by (auto simp: byte_eq simp del: of_int_add)
  with assms show ?thesis by (auto simp: DecodeRune_def between_def simp del: of_int_add)
qed

lemma Decode4:
  assumes "0 \<le> a" "a \<le> 4" "0 \<le> b" "b < 64" "0 \<le> c" "c < 64" "0 \<le> d" "d < 64" "a = 0 \<longrightarrow> 16 \<le> b" "a = 4 \<longrightarrow> b < 16"
  shows "DecodeRune (word_of_int (0xF0 + a)) (word_of_int (0x80 + b) # word_of_int (0x80 + c) # word_of_int (0x80 + d) # s) =
    (a * 262144 + b * 4096 + c * 64 + d, 4)"
proof -
  have "(word_of_int (0xF0 + a) :: u8) = 0xF0 \<longleftrightarrow> a = 0" "(word_of_int (0xF0 + a) :: u8) = 0xF4 \<longleftrightarrow> a = 4"
    using assms by (auto simp: byte_eq simp del: of_int_add)
  with assms show ?thesis by (auto simp: DecodeRune_def between_def simp del: of_int_add)
qed

lemma digits64:
  "r = q * 64 + l \<Longrightarrow> q = q' * 64 + l' \<Longrightarrow> q' = q'' * 64 + l'' \<Longrightarrow> q'' * 262144 + l'' * 4096 + l' * 64 + l = r"
  for r :: int
  by linarith

lemma runes_AppendRune:
  assumes "scalar r"
  shows "runes (AppendRune r @ s) = r # runes s"
proof -
  consider "0 \<le> r" "r < 0x80" | "0x80 \<le> r" "r < 0x800" | "0x800 \<le> r" "r < 0x10000" | "0x10000 \<le> r" "r \<le> 0x10FFFF"
    using assms by (fastforce simp: scalar_def)
  then show ?thesis
  proof cases
    case 1
    then show ?thesis by (simp add: AppendRune_def DecodeRune_def)
  next
    case 2
    then have a: "r div 64 < 32" "2 \<le> r div 64" by linarith+
    have "r div 64 * 64 + r mod 64 = r" by simp
    with 2 a show ?thesis by (simp add: AppendRune_def Decode2 del: of_int_add)
  next
    case 3
    then have a: "0 \<le> r div 4096" "r div 4096 < 16" by linarith+
    have q: "r div 4096 = r div 64 div 64" by (simp add: zdiv_zmult2_eq [symmetric])
    note split = div_mult_mod_eq [of "r div 64" 64]
    have "32 \<le> r div 64" using 3 by linarith
    with q split have low: "r div 4096 = 0 \<longrightarrow> 32 \<le> r div 64 mod 64" by linarith
    have "r div 64 < 864 \<or> 14 \<le> r div 4096" using assms 3 unfolding scalar_def by linarith
    with q split have high: "r div 4096 = 13 \<longrightarrow> r div 64 mod 64 < 32"
      by (auto simp: minus_div_mult_eq_mod [symmetric])
    have sum: "r div 4096 * 4096 + r div 64 mod 64 * 64 + r mod 64 = r"
      using q split div_mult_mod_eq [of r 64] by linarith
    have "AppendRune r = [word_of_int (0xE0 + r div 4096), word_of_int (0x80 + r div 64 mod 64), word_of_int (0x80 + r mod 64)]"
      using 3 assms by (simp only: AppendRune_def) simp
    moreover have "0 \<le> x mod 64" "x mod 64 < 64" for x :: int by simp_all
    ultimately show ?thesis
      using Decode3 [OF a _ _ _ _ low high, of "r mod 64" s]
      by (simp only: append_Cons append_Nil runes.simps sum fst_conv snd_conv) simp
  next
    case 4
    then have a: "0 \<le> r div 262144" "r div 262144 \<le> 4" by linarith+
    have q: "r div 262144 = r div 4096 div 64" "r div 4096 = r div 64 div 64" by (simp_all add: zdiv_zmult2_eq [symmetric])
    note split = div_mult_mod_eq [of "r div 4096" 64]
    have "16 \<le> r div 4096" using 4 by linarith
    with split have low: "r div 262144 = 0 \<longrightarrow> 16 \<le> r div 4096 mod 64" by (simp add: q(1))
    have "r div 4096 < 272" using 4 by linarith
    with split have high: "r div 262144 = 4 \<longrightarrow> r div 4096 mod 64 < 16"
      by (simp add: q(1) minus_div_mult_eq_mod [symmetric])
    have sum: "r div 262144 * 262144 + r div 4096 mod 64 * 4096 + r div 64 mod 64 * 64 + r mod 64 = r"
      by (subst q(1), rule digits64 [OF _ _ split [symmetric]]) (simp_all only: q(2) div_mult_mod_eq)
    have "AppendRune r = [word_of_int (0xF0 + r div 262144), word_of_int (0x80 + r div 4096 mod 64),
        word_of_int (0x80 + r div 64 mod 64), word_of_int (0x80 + r mod 64)]"
      using 4 assms by (simp only: AppendRune_def) simp
    moreover have "0 \<le> x mod 64" "x mod 64 < 64" for x :: int by simp_all
    ultimately show ?thesis
      using Decode4 [OF a _ _ _ _ _ _ low high, of "r div 64 mod 64" "r mod 64" s]
      by (simp only: append_Cons append_Nil runes.simps sum fst_conv snd_conv) simp
  qed
qed

lemma runes_string_of: "list_all scalar rs \<Longrightarrow> runes (string_of rs) = rs"
  by (induction rs) (simp_all add: string_of_def runes_AppendRune)

lemma leading_bytes:
  "b = 0xE0 \<longleftrightarrow> uint b = 0xE0" "b = 0xED \<longleftrightarrow> uint b = 0xED" "b = 0xF0 \<longleftrightarrow> uint b = 0xF0" "b = 0xF4 \<longleftrightarrow> uint b = 0xF4" for b :: u8
  by (simp_all add: word_uint_eq_iff)

lemma DecodeRune_scalar: "scalar (fst (DecodeRune b bs))"
proof -
  consider "uint b < 0x80" | "0x80 \<le> uint b" "uint b < 0xE0" | "0xE0 \<le> uint b" "uint b < 0xF0" | "0xF0 \<le> uint b" by linarith
  then show ?thesis
    by cases (auto simp: DecodeRune_def between_def leading_bytes scalar_def RuneError_def split: list.splits)
qed

lemma runes_scalar: "list_all scalar (runes s)"
  by (induction s rule: runes.induct) (simp_all add: DecodeRune_scalar)

section \<open>UTF-16\<close>

lemma uint_code [simp]: "0 \<le> x \<Longrightarrow> x < 65536 \<Longrightarrow> uint (word_of_int x :: u16) = x"
  by (simp add: uint_word_of_int)

lemma utf16_Decode_rune: "scalar r \<Longrightarrow> utf16_Decode (utf16_rune r @ s) = r # utf16_Decode s"
proof (cases "r < 0x10000")
  case False
  assume "scalar r"
  with False have "0 \<le> (r - 0x10000) div 1024" "(r - 0x10000) div 1024 < 1024" "0 \<le> (r - 0x10000) mod 1024"
    "(r - 0x10000) mod 1024 < 1024" unfolding scalar_def by linarith+
  with False \<open>scalar r\<close> show ?thesis by (simp add: utf16_rune_def scalar_def del: of_int_add)
qed (auto simp: utf16_rune_def scalar_def)

lemma utf16_roundtrip: "list_all scalar rs \<Longrightarrow> utf16_Decode (utf16_Encode rs) = rs"
  by (induction rs) (simp_all add: utf16_Encode_def utf16_Decode_rune)

lemma and_0xFF: "x AND 0xFF = take_bit 8 x" for x :: u16
  by (simp add: take_bit_eq_mask mask_eq_exp_minus_1)

lemma chars_code: "chars (code_bytes code @ b) = code # chars b"
proof -
  have "push_bit 8 (ucast (ucast (take_bit 8 (drop_bit 8 code)) :: u8)) + ucast (ucast (take_bit 8 code) :: u8) =
    push_bit 8 (ucast (ucast (take_bit 8 (drop_bit 8 code)) :: u8)) OR ucast (ucast (take_bit 8 code) :: u8)"
    by (rule disjunctive_add) (auto simp: bit_simps)
  also have "\<dots> = code"
    by (rule bit_word_eqI) (auto simp: bit_simps)
  finally show ?thesis by (simp add: code_bytes_def and_0xFF)
qed

lemma chars_codes: "chars (concat (map code_bytes codes)) = codes"
  by (induction codes) (simp_all add: chars_code)

lemma length_codes: "length (concat (map code_bytes codes)) = 2 * length codes"
  by (induction codes) (simp_all add: code_bytes_def)

lemma UTF16ToRunes_StringToUTF16: "UTF16ToRunes (StringToUTF16 s) = runes s"
proof -
  have "length (StringToUTF16 s) \<noteq> 1" "length (StringToUTF16 s) mod 2 = 0"
    by (simp_all add: StringToUTF16_def length_codes)
  then show ?thesis
    by (simp add: UTF16ToRunes_def StringToUTF16_def chars_codes utf16_roundtrip runes_scalar)
qed

section \<open>PDFDocEncoding\<close>

text \<open>The runes that have a byte.\<close>

definition encodable :: "rune \<Rightarrow> bool" where
  "encodable r \<longleftrightarrow> r \<in> snd ` set pdfDocEncoding"

lemma distinct_bytes: "distinct (map fst pdfDocEncoding)"
proof -
  have "successively (<) (map fst pdfDocEncoding)" by code_simp
  then have "sorted_wrt (<) (map fst pdfDocEncoding)" by (simp only: successively_conv_sorted_wrt [OF transp_on_less])
  then show ?thesis by (simp add: strict_sorted_iff)
qed

lemma rune_map_Some: "fold (\<lambda>(b, r) m. m(r \<mapsto> b)) order m r = Some b \<Longrightarrow> (b, r) \<in> set order \<or> m r = Some b"
proof (induction order arbitrary: m)
  case (Cons x order)
  from Cons.IH [of "m(snd x \<mapsto> fst x)"] Cons.prems show ?case by (auto simp: split_beta split: if_splits)
qed simp

lemma rune_map_None: "fold (\<lambda>(b, r) m. m(r \<mapsto> b)) order m r = None \<longleftrightarrow> r \<notin> snd ` set order \<and> m r = None"
  by (induction order arbitrary: m) (auto split: if_splits)

lemma pdfdoc_back:
  assumes "mset order = mset pdfDocEncoding"
  shows "case pdfdocEncodingRuneMap order r of None \<Rightarrow> \<not> encodable r | Some b \<Rightarrow> encodable r \<and> map_of pdfDocEncoding b = Some r"
proof -
  have set: "set order = set pdfDocEncoding" using assms by (metis set_mset_mset)
  show ?thesis
  proof (cases "pdfdocEncodingRuneMap order r")
    case None
    then have "\<not> encodable r" by (simp add: pdfdocEncodingRuneMap_def rune_map_None set encodable_def)
    with None show ?thesis by simp
  next
    case (Some b)
    then have "(b, r) \<in> set pdfDocEncoding"
      using rune_map_Some [of order "\<lambda>_. None" r b] by (simp add: pdfdocEncodingRuneMap_def set)
    with Some show ?thesis by (force simp: encodable_def map_of_is_SomeI distinct_bytes)
  qed
qed

lemma pdfdoc_runes:
  assumes "mset order = mset pdfDocEncoding"
  shows "PDFDocEncodingToRunes (StringToPDFDocEncoding order s) = filter encodable (runes s)"
proof -
  have "List.map_filter (map_of pdfDocEncoding) (List.map_filter (pdfdocEncodingRuneMap order) rs) = filter encodable rs" for rs
  proof (induction rs)
    case (Cons r rs)
    then show ?case using pdfdoc_back [OF assms, of r]
      by (cases "pdfdocEncodingRuneMap order r") (simp_all add: map_filter_simps)
  qed (simp add: map_filter_simps)
  then show ?thesis by (simp add: PDFDocEncodingToRunes_def StringToPDFDocEncoding_def)
qed

text \<open>A byte that shares its rune with no other byte.\<close>

definition unambiguous :: "u8 \<Rightarrow> bool" where
  "unambiguous b \<longleftrightarrow> b \<in> fst ` set pdfDocEncoding \<and> b \<noteq> 0x16 \<and> b \<noteq> 0x17"

lemma low_runes: "list_all (\<lambda>(b, r). b \<noteq> 0x16 \<longrightarrow> r < 256 \<longrightarrow> r = uint b) pdfDocEncoding"
  by (simp add: pdfDocEncoding_def)

lemma high_runes: "distinct (map snd (filter (\<lambda>(b, r). 256 \<le> r) pdfDocEncoding))"
  by (simp add: pdfDocEncoding_def)

text \<open>The map of the runes depends on the entries of a rune alone.\<close>

lemma rune_map_cong:
  "m r = m' r \<Longrightarrow> fold (\<lambda>(b, r) m. m(r \<mapsto> b)) xs m r = fold (\<lambda>(b, r) m. m(r \<mapsto> b)) xs m' r"
proof (induction xs arbitrary: m m')
  case (Cons x xs)
  have "(m(snd x \<mapsto> fst x)) r = (m'(snd x \<mapsto> fst x)) r" using Cons.prems by simp
  then have "fold (\<lambda>(b, r) m. m(r \<mapsto> b)) xs (m(snd x \<mapsto> fst x)) r = fold (\<lambda>(b, r) m. m(r \<mapsto> b)) xs (m'(snd x \<mapsto> fst x)) r"
    by (rule Cons.IH)
  then show ?case by (cases x) (simp del: fun_upd_apply)
qed simp

lemma rune_map_filter:
  "fold (\<lambda>(b, r) m. m(r \<mapsto> b)) order m r = fold (\<lambda>(b, r) m. m(r \<mapsto> b)) (filter (\<lambda>(b', r'). r' = r) order) m r"
proof (induction order arbitrary: m)
  case (Cons x order)
  obtain b q where x: "x = (b, q)" by (cases x)
  show ?case
  proof (cases "q = r")
    case True
    with Cons.IH [of "m(r \<mapsto> b)"] show ?thesis by (simp add: x)
  next
    case False
    from rune_map_cong [of "m(q \<mapsto> b)" r m "filter (\<lambda>(b', r'). r' = r) order"] Cons.IH [of "m(q \<mapsto> b)"] False show ?thesis
      by (simp add: x fun_upd_other del: fun_upd_apply)
  qed
qed simp

lemma encodable_filter: "encodable r \<longleftrightarrow> filter (\<lambda>(b', r'). r' = r) pdfDocEncoding \<noteq> []"
  by (force simp: encodable_def filter_empty_conv)

lemma rune_0x16: "map_of pdfDocEncoding 0x16 = Some 0x17" "map_of pdfDocEncoding 0x17 = Some 0x17"
  by code_simp+

lemma same_rune:
  assumes "(b, r) \<in> set pdfDocEncoding" "(b', r) \<in> set pdfDocEncoding" "b \<noteq> 0x16" "b \<noteq> 0x17"
  shows "b' = b"
proof -
  have inj: "inj_on snd (set (filter (\<lambda>(b, r). 256 \<le> r) pdfDocEncoding))"
    using high_runes by (simp add: distinct_map)
  have eq: "c = b" if "(c, r) \<in> set pdfDocEncoding" "c \<noteq> 0x16" for c
  proof (cases "r < 256")
    case True
    with low_runes that assms(1,3) have "uint c = r" "uint b = r" by (force simp: list_all_iff)+
    then show ?thesis by (simp add: word_uint_eq_iff)
  next
    case False
    with inj_onD [OF inj, of "(c, r)" "(b, r)"] that assms(1) show ?thesis by simp
  qed
  show ?thesis
  proof (cases "b' = 0x16")
    case True
    with assms(2) have "r = 0x17" using map_of_is_SomeI [OF distinct_bytes, of b' r] by (simp add: rune_0x16)
    with eq [of "0x17"] rune_0x16(2) have "b = 0x17" using map_of_SomeD by fastforce
    with assms(4) show ?thesis by simp
  qed (use eq assms(2) in blast)
qed

lemma scalar_all: "list_all (\<lambda>(b, r). scalar r) pdfDocEncoding"
  by (simp add: pdfDocEncoding_def scalar_def)

lemma map_scalar: "map_of pdfDocEncoding b = Some r \<Longrightarrow> scalar r"
  using scalar_all by (auto simp: list_all_iff dest!: map_of_SomeD)

lemma pdfdoc_bytes:
  assumes "mset order = mset pdfDocEncoding" "list_all unambiguous bs"
  shows "StringToPDFDocEncoding order (PDFDocEncodingToString bs) = bs"
proof -
  have "list_all scalar (PDFDocEncodingToRunes bs)"
    by (induction bs) (auto simp: PDFDocEncodingToRunes_def map_filter_simps map_scalar split: option.splits)
  moreover have "List.map_filter (pdfdocEncodingRuneMap order) (PDFDocEncodingToRunes bs) = bs"
    using assms(2)
  proof (induction bs)
    case (Cons b bs)
    then obtain r where r: "(b, r) \<in> set pdfDocEncoding" and b: "b \<noteq> 0x16" "b \<noteq> 0x17" by (auto simp: unambiguous_def)
    then have "encodable r" by (force simp: encodable_def)
    then obtain b' where b': "pdfdocEncodingRuneMap order r = Some b'" "map_of pdfDocEncoding b' = Some r"
      using pdfdoc_back [OF assms(1), of r] by (auto split: option.splits)
    from b'(2) have "(b', r) \<in> set pdfDocEncoding" by (rule map_of_SomeD)
    with r b have "b' = b" by (metis same_rune)
    with Cons b' show ?case by (simp add: PDFDocEncodingToRunes_def map_filter_simps)
  qed (simp add: PDFDocEncodingToRunes_def map_filter_simps)
  ultimately show ?thesis by (simp add: StringToPDFDocEncoding_def PDFDocEncodingToString_def runes_string_of)
qed

section \<open>Strings of a document\<close>

definition looks_utf16 :: "u8 list \<Rightarrow> bool" where
  "looks_utf16 b \<longleftrightarrow> take 2 b = [0xFE, 0xFF]"

lemma Decoded_eq: "Decoded b = (if looks_utf16 b then UTF16ToString (drop 2 b) else PDFDocEncodingToString b)"
  by (cases b; cases "tl b") (auto simp: Decoded_def looks_utf16_def)

text \<open>C38: A string object made of a text in UTF-16 decodes to the text, whose bytes that are not UTF-8 are replaced by
  U+FFFD; one made in PDFDocEncoding decodes to the runes of the text that the encoding has, unless its first two
  bytes are the mark of UTF-16. This holds for every order in which the inverse table was built.\<close>

theorem text_string_roundtrip:
  assumes "mset order = mset pdfDocEncoding"
  shows "Decoded (fst (MakeEncodedString order s True)) = string_of (runes s) \<and>
    (\<not> looks_utf16 (StringToPDFDocEncoding order s) \<longrightarrow>
      Decoded (fst (MakeEncodedString order s False)) = string_of (filter encodable (runes s)))"
  by (simp add: MakeEncodedString_def Decoded_eq looks_utf16_def UTF16ToString_def UTF16ToRunes_StringToUTF16
      PDFDocEncodingToString_def pdfdoc_runes [OF assms])

lemma encodableI: "map_of pdfDocEncoding b = Some r \<Longrightarrow> encodable r"
  by (force simp: encodable_def dest: map_of_SomeD)

lemma byte_runes:
  "map_of pdfDocEncoding 0x61 = Some 0x61" "map_of pdfDocEncoding 0xA0 = Some 0x20AC"
  "map_of pdfDocEncoding 0xFE = Some 0xFE" "map_of pdfDocEncoding 0xFF = Some 0xFF"
  by code_simp+

lemma no_rune: "\<not> encodable 0xFFFD" "\<not> encodable 0x16"
  unfolding encodable_filter by code_simp+

lemma text_string_roundtrip_witness:
  "Decoded (fst (MakeEncodedString (rev pdfDocEncoding) [0x61, 0xE2, 0x82, 0xAC, 0xFF] True)) =
    [0x61, 0xE2, 0x82, 0xAC, 0xEF, 0xBF, 0xBD] \<and>
   Decoded (fst (MakeEncodedString (rev pdfDocEncoding) [0x61, 0xE2, 0x82, 0xAC, 0xFF] False)) = [0x61, 0xE2, 0x82, 0xAC]"
proof -
  let ?s = "[0x61, 0xE2, 0x82, 0xAC, 0xFF]"
  have runes: "runes ?s = [0x61, 0x20AC, 0xFFFD]" by (simp add: DecodeRune_def between_def RuneError_def)
  have kept: "filter encodable [0x61, 0x20AC, 0xFFFD] = [0x61, 0x20AC]"
    using encodableI [of "0x61"] encodableI [of "0xA0"] by (simp add: byte_runes no_rune)
  have utf8: "string_of [0x61, 0x20AC, 0xFFFD] = [0x61, 0xE2, 0x82, 0xAC, 0xEF, 0xBF, 0xBD]"
    "string_of [0x61, 0x20AC] = [0x61, 0xE2, 0x82, 0xAC]" by (simp_all add: string_of_def AppendRune_def scalar_def)
  have "filter (\<lambda>(b', r'). r' = 0x61) pdfDocEncoding = [(0x61, 0x61)]" by code_simp
  then have map: "pdfdocEncodingRuneMap (rev pdfDocEncoding) 0x61 = Some 0x61"
    unfolding pdfdocEncodingRuneMap_def by (subst rune_map_filter) (simp add: rev_filter [symmetric])
  have "\<not> looks_utf16 (StringToPDFDocEncoding (rev pdfDocEncoding) ?s)"
    unfolding StringToPDFDocEncoding_def runes by (simp add: map map_filter_simps looks_utf16_def)
  then show ?thesis
    using text_string_roundtrip [of "rev pdfDocEncoding" ?s] unfolding runes kept utf8 by simp
qed

text \<open>Every text of runes is the text of its runes, so what is decoded is the text itself if it is UTF-8.\<close>

lemma string_of_runes: "list_all scalar rs \<Longrightarrow> string_of (runes (string_of rs)) = string_of rs"
  by (simp add: runes_string_of)

text \<open>A text in PDFDocEncoding that begins with the letters thorn and y with diaeresis is read as UTF-16.\<close>

lemma Decoded_thorn:
  assumes "mset order = mset pdfDocEncoding"
  shows "Decoded (fst (MakeEncodedString order (string_of [0xFE, 0xFF]) False)) = []"
proof -
  have "PDFDocEncodingToString [0xFE, 0xFF] = string_of [0xFE, 0xFF]"
    by (simp add: PDFDocEncodingToString_def PDFDocEncodingToRunes_def map_filter_simps byte_runes)
  moreover have "list_all unambiguous [0xFE, 0xFF]" using byte_runes(3,4) by (force simp: unambiguous_def dest: map_of_SomeD)
  ultimately have "StringToPDFDocEncoding order (string_of [0xFE, 0xFF]) = [0xFE, 0xFF]"
    using pdfdoc_bytes [OF assms, of "[0xFE, 0xFF]"] by simp
  then show ?thesis by (simp add: MakeEncodedString_def Decoded_eq looks_utf16_def UTF16ToString_def UTF16ToRunes_def string_of_def)
qed

text \<open>Which of the bytes 0x16 and 0x17 stands for the rune that both decode to depends on the order.\<close>

lemma pdfdoc_order_matters:
  "pdfdocEncodingRuneMap pdfDocEncoding 0x17 = Some 0x17 \<and> pdfdocEncodingRuneMap (rev pdfDocEncoding) 0x17 = Some 0x16"
proof -
  have "filter (\<lambda>(b', r'). r' = 0x17) pdfDocEncoding = [(0x16, 0x17), (0x17, 0x17)]" by code_simp
  then show ?thesis
    unfolding pdfdocEncodingRuneMap_def by (subst (1 2) rune_map_filter) (simp add: rev_filter [symmetric])
qed

end
