(* ===== verification/Spec2Isabelle.thy ===== *)
theory Spec2Isabelle
  imports Arith_Properties Bit_Properties Ccitt_Properties Core_Properties Crypt_Properties Filter_Properties Huffman_Properties Ps_Properties Sampling String_Properties
begin

text \<open>
  A verification library for unidoc, a Go library that reads, writes and processes PDF
  documents.

  \<^bold>\<open>The program.\<close> \<open>pdf/core\<close> has the objects of PDF, the parser that reads them from a file and
  the filters that encode and decode streams of bytes. \<open>pdf/internal\<close> has coders that the filters
  and the document model call: CCITT fax, JBIG2, CMaps, sampling of bits, string encodings.
  \<open>pdf/ps\<close> is the calculator for PostScript functions. \<open>pdf/model\<close>, \<open>pdf/contentstream\<close>,
  \<open>pdf/creator\<close>, \<open>pdf/extractor\<close>, \<open>pdf/annotator\<close> and \<open>pdf/fdf\<close> build on these: documents, pages, fonts and
  forms. The library models the parts on which the others rest: objects, their parser and their encryption, all
  stream filters, the fax coder, the readers and entropy decoders of JBIG2, samples, strings of text, and the calculator.

  \<^bold>\<open>Shared theories.\<close> \<open>Go_Prelude\<close>: the outcome of a Go function is \<open>Ok\<close>, \<open>Err\<close> or \<open>Panic\<close> (type
  \<open>res\<close>); a function with a loop that need not end has an outcome or \<open>None\<close> (type \<open>run\<close>, with
  \<open>partial_function\<close>), so that to return is a statement of its own and no fuel is needed. Slices are
  lists, read and written with the bounds check of the run time. \<open>bits\<close> and \<open>pack\<close> relate bytes and bit
  strings. \<open>Go_Numbers\<close>: character classes (\<open>pdf/core/symbols.go\<close>), decimal integers as
  \<open>strconv\<close> writes and reads them, and the record \<open>fops\<close> of the float64 operations, a parameter of
  every definition that computes with them.

  \<^bold>\<open>CCITT fax coder\<close> (\<open>pdf/internal/ccittfax\<close>). \<open>Ccitt_Codes\<close> has the code tables, \<open>Ccitt_Tree\<close> the decoding
  trees, \<open>Ccitt_Encoder\<close> and \<open>Ccitt_Decoder\<close> the two directions, function by function; the record
  \<open>Encoder\<close> is the struct, an image is a list of rows of bytes 0 and 1. \<open>Ccitt_Rows\<close> states what a row
  is coded to, as a relation on bit strings; \<open>Ccitt_Encoder_Spec\<close> and \<open>Ccitt_Decoder_Spec\<close> prove that the code
  refines it, \<open>Ccitt_Roundtrip\<close> and \<open>Ccitt_Inverse\<close> put the rows together to whole images in the three
  schemes, and \<open>Ccitt_Limits\<close> has the inputs on which the coder fails or does not return.

  \<^bold>\<open>Objects and parser\<close> (\<open>pdf/core/primitives.go\<close>, \<open>parser.go\<close>, \<open>utils.go\<close>). \<open>Core_Objects\<close>: a dictionary is an
  association list with the list of its keys in order, as the struct has a map and a slice; the other
  objects are the constructors of \<open>PdfObject\<close>; an object is a value, so what is changed through a second
  pointer is not seen. \<open>Core_Dict\<close> has the contract of an ordered map as the locale \<open>ordered_map\<close> and discharges
  it for the dictionaries. \<open>Core_Parser\<close> is the recursive parser, one partial function over the calls of
  \<open>parseObject\<close>, \<open>parseArray\<close> and \<open>ParseDict\<close>; the reader is the list of the characters that are left.
  \<open>Core_Roundtrip\<close> proves that what is written is read, \<open>Core_Termination\<close> where the parser returns and where it
  does not. \<open>Core_Access\<close>: references and indirect objects; the file behind a reference is the parameter
  \<open>resolve\<close>.

  \<^bold>\<open>Stream filters\<close> (\<open>pdf/core/encoding.go\<close>, \<open>paeth.go\<close>, \<open>stream.go\<close>). \<open>Filter_Bytes\<close> has run length, ASCII hex,
  ASCII 85 and raw, with their inverses in \<open>Filter_Run_Length\<close> (an invariant of the encoder's loop) and
  \<open>Filter_Ascii\<close> (base 85 arithmetic on words). \<open>Filter_Predictors\<close> has the loops of the predictors and the
  filters of the PNG specification, \<open>Filter_Png\<close> that the former undo the latter. \<open>Filter_Flate\<close>, \<open>Filter_Fax\<close>
  and \<open>Filter_Dct\<close> have the filters with parameters: their structs as records, what they write into and
  read from dictionaries (\<open>pdf_dict\<close> of \<open>Core_Objects\<close>), their data. \<open>Filter_Fax\<close> calls \<open>Encode\<close> and \<open>Decode\<close> of the fax
  coder. \<open>Filter_Stream\<close> has the interface \<open>StreamEncoder\<close> as a datatype with one constructor for each type that
  implements it, its methods, chains and the functions on stream objects. \<open>Filter_Chain\<close> states the contract of an
  encoder and a decoder as the locale \<open>stream_filters\<close>, proves it for chains, discharges it for the code
  twice (\<open>DecodeBytes\<close> and \<open>DecodeStream\<close>), and derives the round trip of stream objects. The compressors of
  the Go library are the parameter \<open>codecs\<close>, with the named hypotheses \<open>zlib_ok\<close> and \<open>lzw_ok\<close> (reading gives
  what was written); JPEG and the decoder of JBIG2 pages are parameters without hypotheses.

  \<^bold>\<open>PostScript calculator\<close> (\<open>pdf/ps\<close>). \<open>Ps_Object\<close>, \<open>Ps_Operations\<close> and \<open>Ps_Exec\<close>: objects, the stack of 100
  objects, operators, programs; the stack is passed on and returned with the error, as the code leaves it. \<open>Ps_Spec\<close>
  states what the operators compute, \<open>Ps_Run\<close> has the locale \<open>ps_invariant\<close> of what every operation keeps, with two
  interpretations (the bound of the stack, values only), \<open>Ps_Expressions\<close> the compiler of expressions
  and the programs that do not return, \<open>Ps_Parser\<close> and \<open>Ps_Roundtrip\<close> the parser and its inverse.

  \<^bold>\<open>JBIG2 readers and entropy decoders\<close> (\<open>pdf/internal/jbig2/reader\<close>, \<open>decoder/huffman\<close>, \<open>decoder/arithmetic\<close>). \<open>Bit_Readers\<close>
  has the methods for bits over any source of bytes, with the contract of a source as the locale
  \<open>byte_source\<close>; \<open>Bit_Streams\<close> has the two types that implement them, the slice and the buffered window of a
  reader, and the locale \<open>stream_reader\<close>: a window of whatever keeps it is a source of bytes, and keeps it again, so
  that windows of windows are interpretations. \<open>Huffman_Tables\<close> and \<open>Huffman_Segment\<close> have the assignment of codes,
  the trees, the standard tables and the tables of a file; \<open>Huffman_Decode\<close> and \<open>Huffman_Correct\<close> prove
  that trees decode the canonical codes whenever the lengths satisfy Kraft's inequality, \<open>Huffman_Standard\<close>
  that the standard tables do so with equality. \<open>Arith_Decoder\<close> has the arithmetic decoder with its registers at their
  widths; its properties are that no context leads out of a table, that \<open>renormalize\<close> ends, and the bounds of numbers.

  \<^bold>\<open>Samples\<close> (\<open>pdf/internal/sampling\<close>). \<open>Sampling\<close> has the loop of both functions, and relates the samples to the
  concatenated bits of the input cut into pieces.

  \<^bold>\<open>Strings of text\<close> (\<open>pdf/internal/strutils\<close>). \<open>String_Encodings\<close> has UTF-16 and PDFDocEncoding in both directions,
  with the UTF-8 of Go strings that their loops read; the order of the loop over a Go map that builds the inverse
  table is an argument.

  \<^bold>\<open>Encryption\<close> (\<open>pdf/core/crypt.go\<close>, \<open>pdf/core/security\<close>). \<open>Crypt_Primitives\<close> has what is used of the ciphers and
  digests of the Go library: the record \<open>primitives\<close> is a parameter, \<open>primitives_ok\<close> states what is documented of it
  (the lengths of digests and blocks, and that AES decrypts what it encrypts), and CBC and ECB are defined over it.
  Random bytes are a list that is passed along. \<open>Crypt_Filters\<close> has the interface \<open>Filter\<close> as a datatype;
  \<open>Crypt_Laws\<close> states its contract as the locale \<open>object_filter\<close> with an interpretation for each filter. \<open>Security_R4\<close> and
  \<open>Security_R6\<close> are the two security handlers, algorithm by algorithm. \<open>Security_Hash\<close> proves that the loop without a
  bound of the newer hash ends after at most 287 rounds; \<open>Security_Handler\<close> has the contract of a handler as the locale
  \<open>std_handler\<close> (what was generated opens with both passwords) and its two interpretations. \<open>Crypt_Document\<close> and
  \<open>Crypt_Objects\<close> are \<open>crypt.go\<close>: the record \<open>pdf_crypt\<close> is the struct; the encryption dictionary is written and read as
  a \<open>pdf_dict\<close>; the file behind references is the parameters \<open>resolve\<close> and \<open>lookup\<close>. \<open>Crypt_Roundtrip\<close> proves that \<open>Decrypt\<close>
  undoes \<open>Encrypt\<close> for handlers that agree, \<open>Crypt_Session\<close> and \<open>Crypt_Properties\<close> that a reader who opens the written
  dictionary with a password agrees with the writer.

  \<^bold>\<open>Properties.\<close> The theories \<open>Ccitt_Properties\<close>, \<open>Core_Properties\<close>, \<open>Filter_Properties\<close>, \<open>Ps_Properties\<close>,
  \<open>Bit_Properties\<close>, \<open>Sampling\<close>, \<open>Huffman_Properties\<close>, \<open>Arith_Properties\<close>, \<open>String_Properties\<close> and \<open>Crypt_Properties\<close> have
  the properties of each part, numbered, each with a theorem that applies it to
  concrete input. Round trips are the main ones: images through the fax coder, objects through text, streams
  through filters, programs and texts through their encodings, values through Huffman codes, documents through
  encryption. The others state what the operations compute, invariants,
  where the code returns, which errors and panics it has, and where it does not do what it means to.

  \<^bold>\<open>Not modelled.\<close> Logging. The position of a reader in its file, and read errors other than the
  end. Aliasing of objects: objects are values here, the encoders change no object but the dictionary
  they return, and encryption keeps no sets of the objects that are done. Cross-reference tables, object streams and
  repairs of \<open>pdf/core\<close>; the MMR decoder, segments, bitmaps and pages of JBIG2; CMaps and the encodings of fonts; the
  document model and the packages on top of it, whose code is
  mostly the copying of values between dictionaries and structs, and layout in float64.
\<close>

end
